(* ===== verification/Mesh_Prelude.thy ===== *)
theory Mesh_Prelude
  imports Main "HOL-Library.Word"
begin

text \<open>
  Shared vocabulary of the development: the machine integer types of the C code, the ways in
  which a run of the C code can end without returning (\<^verbatim>\<open>stop\<close>), state-passing programs
  over them with their sequencing operator, byte-addressed memory with bounds checks, the
  predicate \<^verbatim>\<open>keeps\<close> (a program maintains a state predicate) with one rule per program
  construct, and the generic list and word lemmas that the components share.
\<close>

unbundle bit_operations_syntax

type_synonym u8 = "8 word"
type_synonym u16 = "16 word"
type_synonym u32 = "32 word"
type_synonym u64 = "64 word"

named_theorems prog_simps \<open>unfolding of the program combinators\<close>
named_theorems commutes_intros \<open>rules that show that a program does not look at a part of the state\<close>
named_theorems keeps_intros \<open>rules that show that a program maintains a predicate\<close>
named_theorems req_simps \<open>shape of the request frames built by the service access points\<close>

section \<open>Programs\<close>

text \<open>
  A C function that reads and writes static variables, the serial line and the clock is a
  function from the state to its result and the new state. A run can also end without a result:
  \<^verbatim>\<open>Undefined\<close> is undefined behaviour (an access outside an object, a division by zero),
  \<^verbatim>\<open>Indeterminate\<close> is the use of the value of an uninitialised object, \<^verbatim>\<open>Exited\<close> is a
  call of \<^verbatim>\<open>exit\<close>, \<^verbatim>\<open>Blocked\<close> is a call that waits for an input that never comes, and
  \<^verbatim>\<open>OutOfFuel\<close> is a loop that did not end within its iteration budget.
\<close>

datatype stop = Undefined | Indeterminate | Exited | Blocked | OutOfFuel

type_synonym ('s, 'a) prog = "'s \<Rightarrow> stop + ('a \<times> 's)"

definition ret :: "'a \<Rightarrow> ('s, 'a) prog" where
  "ret x s = Inr (x, s)"

definition halt :: "stop \<Rightarrow> ('s, 'a) prog" where
  "halt e s = Inl e"

definition andthen :: "('s, 'a) prog \<Rightarrow> ('a \<Rightarrow> ('s, 'b) prog) \<Rightarrow> ('s, 'b) prog" where
  "andthen m f s = (case m s of Inl e \<Rightarrow> Inl e | Inr (x, t) \<Rightarrow> f x t)"

definition gets :: "('s \<Rightarrow> 'a) \<Rightarrow> ('s, 'a) prog" where
  "gets f s = Inr (f s, s)"

definition modify :: "('s \<Rightarrow> 's) \<Rightarrow> ('s, unit) prog" where
  "modify f s = Inr ((), f s)"

definition require :: "bool \<Rightarrow> stop \<Rightarrow> ('s, unit) prog" where
  "require b e = (if b then ret () else halt e)"

definition lift_sum :: "stop + 'a \<Rightarrow> ('s, 'a) prog" where
  "lift_sum r s = (case r of Inl e \<Rightarrow> Inl e | Inr x \<Rightarrow> Inr (x, s))"

lemmas [prog_simps] = ret_def halt_def andthen_def gets_def modify_def require_def lift_sum_def

lemma andthen_ret [simp]: "andthen (ret x) f = f x"
  by (rule ext) (simp add: prog_simps)

lemma andthen_halt [simp]: "andthen (halt e) f = halt e"
  by (rule ext) (simp add: prog_simps)

lemma andthen_ret_right [simp]: "andthen m ret = m"
  by (rule ext) (simp add: prog_simps split: sum.splits)

lemma andthen_assoc: "andthen (andthen m f) g = andthen m (\<lambda>x. andthen (f x) g)"
  by (rule ext) (simp add: prog_simps split: sum.splits)

lemma andthen_Inr:
  "andthen m f s = Inr (y, u) \<longleftrightarrow> (\<exists>x t. m s = Inr (x, t) \<and> f x t = Inr (y, u))"
  by (auto simp: prog_simps split: sum.splits)

lemma andthen_InrE [elim!]:
  assumes "andthen m f s = Inr (y, u)"
  obtains x t where "m s = Inr (x, t)" and "f x t = Inr (y, u)"
  using assms by (auto simp: andthen_Inr)

lemma andthen_step: "m s = Inr (x, t) \<Longrightarrow> andthen m f s = f x t"
  by (simp add: andthen_def)

lemma andthen_stop: "m s = Inl e \<Longrightarrow> andthen m f s = Inl e"
  by (simp add: andthen_def)

lemma andthen_cong [fundef_cong]:
  "m = m' \<Longrightarrow> (\<And>x. f x = g x) \<Longrightarrow> andthen m f = andthen m' g"
  by presburger

lemma require_simps [simp]: "require True e = ret ()" "require False e = halt e"
  by (simp_all add: require_def)

lemma ret_Inr [simp]: "ret x s = Inr (y, t) \<longleftrightarrow> y = x \<and> t = s"
  by (auto simp: ret_def)

lemma halt_Inr [simp]: "halt e s = Inr r \<longleftrightarrow> False"
  by (simp add: halt_def)

lemma gets_Inr [simp]: "gets f s = Inr (y, t) \<longleftrightarrow> y = f s \<and> t = s"
  by (auto simp: gets_def)

lemma modify_Inr [simp]: "modify f s = Inr (u, t) \<longleftrightarrow> t = f s"
  by (auto simp: modify_def)

lemma require_Inr [simp]: "require b e s = Inr (u, t) \<longleftrightarrow> b \<and> t = s"
  by (auto simp: require_def)

lemma lift_sum_Inr [simp]: "lift_sum r s = Inr (x, t) \<longleftrightarrow> r = Inr x \<and> t = s"
  by (auto simp: lift_sum_def split: sum.splits)

lemma lift_sum_right: "lift_sum (Inr a) = ret a"
  by (simp add: fun_eq_iff lift_sum_def ret_def)

text \<open>Working through a list with a step that may stop: the specification of the loops over linked
  structures.\<close>

primrec each :: "('e \<Rightarrow> 'a \<Rightarrow> stop + 'a) \<Rightarrow> 'e list \<Rightarrow> 'a \<Rightarrow> stop + 'a" where
  "each f [] a = Inr a"
| "each f (e # es) a = (case f e a of Inl x \<Rightarrow> Inl x | Inr b \<Rightarrow> each f es b)"

section \<open>Maintained predicates\<close>

definition keeps :: "('s \<Rightarrow> bool) \<Rightarrow> ('s, 'a) prog \<Rightarrow> bool" where
  "keeps I m \<longleftrightarrow> (\<forall>s x t. I s \<longrightarrow> m s = Inr (x, t) \<longrightarrow> I t)"

lemma keepsI: "(\<And>s x t. I s \<Longrightarrow> m s = Inr (x, t) \<Longrightarrow> I t) \<Longrightarrow> keeps I m"
  by (auto simp: keeps_def)

lemma keepsD: "keeps I m \<Longrightarrow> I s \<Longrightarrow> m s = Inr (x, t) \<Longrightarrow> I t"
  by (auto simp: keeps_def)

lemma keeps_ret [keeps_intros]: "keeps I (ret x)"
  by (simp add: keeps_def)

lemma keeps_halt [keeps_intros]: "keeps I (halt e)"
  by (simp add: keeps_def)

lemma keeps_gets [keeps_intros]: "keeps I (gets f)"
  by (simp add: keeps_def)

lemma keeps_require [keeps_intros]: "keeps I (require b e)"
  by (simp add: keeps_def)

lemma keeps_lift_sum [keeps_intros]: "keeps I (lift_sum r)"
  by (simp add: keeps_def)

lemma keeps_modify [keeps_intros]: "(\<And>s. I s \<Longrightarrow> I (f s)) \<Longrightarrow> keeps I (modify f)"
  by (simp add: keeps_def)

lemma keeps_andthen [keeps_intros]:
  "keeps I m \<Longrightarrow> (\<And>x. keeps I (f x)) \<Longrightarrow> keeps I (andthen m f)"
  unfolding keeps_def by blast

lemma keeps_if [keeps_intros]:
  "(b \<Longrightarrow> keeps I m) \<Longrightarrow> (\<not> b \<Longrightarrow> keeps I n) \<Longrightarrow> keeps I (if b then m else n)"
  by simp

lemma keeps_case_prod [keeps_intros]:
  "(\<And>a b. keeps I (f a b)) \<Longrightarrow> keeps I (case p of (a, b) \<Rightarrow> f a b)"
  by (cases p) simp

lemma keeps_case_option [keeps_intros]:
  "keeps I m \<Longrightarrow> (\<And>x. keeps I (f x)) \<Longrightarrow> keeps I (case p of None \<Rightarrow> m | Some x \<Rightarrow> f x)"
  by (cases p) simp_all

text \<open>Programs that do the same from every state with a property: a common step must maintain it.\<close>

definition same_when :: "('s \<Rightarrow> bool) \<Rightarrow> ('s, 'a) prog \<Rightarrow> ('s, 'a) prog \<Rightarrow> bool" where
  "same_when I m n \<longleftrightarrow> (\<forall>s. I s \<longrightarrow> m s = n s)"

lemma same_when_refl: "same_when I m m"
  by (simp add: same_when_def)

lemma same_when_gets: "(\<And>s. I s \<Longrightarrow> g s = c) \<Longrightarrow> same_when I (andthen (gets g) f) (f c)"
  by (simp add: same_when_def prog_simps)

lemma same_when_andthen:
  "keeps I m \<Longrightarrow> (\<And>x. same_when I (f x) (g x)) \<Longrightarrow> same_when I (andthen m f) (andthen m g)"
  by (auto simp: same_when_def andthen_def keeps_def split: sum.splits)

lemma same_when_if: "same_when I m m' \<Longrightarrow> same_when I n n' \<Longrightarrow> same_when I (if b then m else n) (if b then m' else n')"
  by simp

lemma same_when_case_prod:
  "(\<And>a b. same_when I (f a b) (g a b)) \<Longrightarrow> same_when I (case p of (a, b) \<Rightarrow> f a b) (case p of (a, b) \<Rightarrow> g a b)"
  by (cases p) simp

lemmas same_when_intros = same_when_refl same_when_gets same_when_andthen same_when_if same_when_case_prod

section \<open>Programs that do not look at a field\<close>

text \<open>A program commutes with a change of the state when it gives the same result after it, and the
  state it ends in is the one it would have ended in, with that change.\<close>

definition commutes :: "('s \<Rightarrow> 's) \<Rightarrow> ('s, 'a) prog \<Rightarrow> bool" where
  "commutes u m \<longleftrightarrow> (\<forall>s. m (u s) = map_sum id (map_prod id u) (m s))"

lemma commutesD: "commutes u m \<Longrightarrow> m (u s) = map_sum id (map_prod id u) (m s)"
  by (simp add: commutes_def)

lemma commutes_ret [commutes_intros]: "commutes u (ret x)"
  by (simp add: commutes_def prog_simps)

lemma commutes_halt [commutes_intros]: "commutes u (halt e)"
  by (simp add: commutes_def prog_simps)

lemma commutes_gets [commutes_intros]: "(\<And>s. f (u s) = f s) \<Longrightarrow> commutes u (gets f)"
  by (simp add: commutes_def prog_simps)

lemma commutes_modify [commutes_intros]: "(\<And>s. f (u s) = u (f s)) \<Longrightarrow> commutes u (modify f)"
  by (simp add: commutes_def prog_simps)

lemma commutes_lift_sum [commutes_intros]: "commutes u (lift_sum r)"
  by (cases r) (simp_all add: commutes_def prog_simps)

lemma commutes_andthen [commutes_intros]:
  "commutes u m \<Longrightarrow> (\<And>x. commutes u (f x)) \<Longrightarrow> commutes u (andthen m f)"
  unfolding commutes_def andthen_def by (auto split: sum.splits)

lemma commutes_if [commutes_intros]:
  "(b \<Longrightarrow> commutes u m) \<Longrightarrow> (\<not> b \<Longrightarrow> commutes u n) \<Longrightarrow> commutes u (if b then m else n)"
  by simp

lemma commutes_case_prod [commutes_intros]:
  "(\<And>a b. commutes u (f a b)) \<Longrightarrow> commutes u (case p of (a, b) \<Rightarrow> f a b)"
  by (cases p) simp

lemma commutes_case_option [commutes_intros]:
  "commutes u m \<Longrightarrow> (\<And>x. commutes u (f x)) \<Longrightarrow> commutes u (case p of None \<Rightarrow> m | Some x \<Rightarrow> f x)"
  by (cases p) simp_all

section \<open>Memory\<close>

text \<open>
  An array object is the list of its bytes. An index is an \<^typ>\<open>int\<close>, since the code also forms
  pointers below the start of a buffer; an access outside the object is \<^const>\<open>Undefined\<close>.
\<close>

definition peek :: "'a list \<Rightarrow> int \<Rightarrow> stop + 'a" where
  "peek mem i = (if 0 \<le> i \<and> i < int (length mem) then Inr (mem ! nat i) else Inl Undefined)"

definition poke :: "'a list \<Rightarrow> int \<Rightarrow> 'a \<Rightarrow> stop + 'a list" where
  "poke mem i v = (if 0 \<le> i \<and> i < int (length mem) then Inr (mem[nat i := v]) else Inl Undefined)"

text \<open>
  An automatic object is represented by the prefix of it that has been initialised. Copying
  \<^verbatim>\<open>n\<close> fresh bytes over the start leaves the older bytes behind them; reading past the
  initialised prefix is \<^const>\<open>Indeterminate\<close>.
\<close>

definition overlay :: "'a list \<Rightarrow> 'a list \<Rightarrow> 'a list" where
  "overlay new old = new @ drop (length new) old"

definition byte_at :: "'a list \<Rightarrow> nat \<Rightarrow> stop + 'a" where
  "byte_at obj i = (if i < length obj then Inr (obj ! i) else Inl Indeterminate)"

definition bytes_at :: "'a list \<Rightarrow> nat \<Rightarrow> nat \<Rightarrow> stop + 'a list" where
  "bytes_at obj i n =
     (if i + n \<le> length obj then Inr (take n (drop i obj)) else Inl Indeterminate)"

lemma poke_Inr:
  "poke mem i v = Inr mem' \<longleftrightarrow> 0 \<le> i \<and> i < int (length mem) \<and> mem' = mem[nat i := v]"
  by (auto simp: poke_def)

lemma poke_in: "k < length mem \<Longrightarrow> poke mem (int k) v = Inr (mem[k := v])"
  by (simp add: poke_def)

lemma byte_at_Inr: "byte_at obj i = Inr b \<longleftrightarrow> i < length obj \<and> b = obj ! i"
  by (auto simp: byte_at_def)

lemma bytes_at_Inr:
  "bytes_at obj i n = Inr bs \<longleftrightarrow> i + n \<le> length obj \<and> bs = take n (drop i obj)"
  by (auto simp: bytes_at_def)

lemma bytes_at_length: "bytes_at obj i n = Inr bs \<Longrightarrow> length bs = n"
  by (auto simp: bytes_at_Inr)

section \<open>Lists and words\<close>

lemma take_list_update_append:
  "k < length mem \<Longrightarrow> take (Suc k) (mem[k := v]) = take k mem @ [v]"
  by (simp add: take_Suc_conv_app_nth)

lemma unat_u8_less [simp]: "unat (x :: u8) < 256"
  using unsigned_less [of x, where 'a = nat] by simp

lemma unat_u8_le [simp]: "unat (x :: u8) \<le> 255"
  using unat_u8_less [of x] by linarith

lemma unat_u16_less [simp]: "unat (x :: u16) < 65536"
  using unsigned_less [of x, where 'a = nat] by simp

lemma unat_u8_Suc: "unat (w :: u8) < 255 \<Longrightarrow> unat (w + 1) = Suc (unat w)"
  by (simp add: unat_word_ariths)

lemma unat_of_nat_u8: "n < 256 \<Longrightarrow> unat (of_nat n :: u8) = n"
  by (simp add: unat_of_nat)

lemma unat_of_nat_u16: "n < 65536 \<Longrightarrow> unat (of_nat n :: u16) = n"
  by (simp add: unat_of_nat)

lemma unat_of_nat_u32: "n < 4294967296 \<Longrightarrow> unat (of_nat n :: u32) = n"
  by (simp add: unat_of_nat)

lemma unat_ucast_u8_u32 [simp]: "unat (ucast (w :: u8) :: u32) = unat w"
proof -
  have "unat w < 4294967296" using unat_u8_less [of w] by linarith
  then show ?thesis by (simp add: unsigned_ucast_eq take_bit_nat_eq_self)
qed

end
