(* ===== verification/Util.thy ===== *)
theory Util
  imports Mesh_Prelude
begin

text \<open>
  The inline helpers of \<^verbatim>\<open>lib/wpc/include/util.h\<close>: little-endian encoding and decoding, and the
  conversions between milliseconds and the internal time unit of 1/128 s. The interface that the
  protocol code relies on, a fixed-width byte code with a decoder that inverts it, is the locale
  \<^verbatim>\<open>byte_code\<close>.
\<close>

section \<open>Little-endian codes\<close>

definition uint16_encode_le :: "u16 \<Rightarrow> u8 list" where
  "uint16_encode_le v =
     [ucast (drop_bit 0 (v AND 0x00FF)), ucast (drop_bit 8 (v AND 0xFF00))]"

definition uint32_encode_le :: "u32 \<Rightarrow> u8 list" where
  "uint32_encode_le v =
     [ucast (drop_bit 0 (v AND 0x000000FF)), ucast (drop_bit 8 (v AND 0x0000FF00)),
      ucast (drop_bit 16 (v AND 0x00FF0000)), ucast (drop_bit 24 (v AND 0xFF000000))]"

text \<open>The decoders read two and four bytes from the pointer they get; fewer bytes is an access
  outside the object.\<close>

fun uint16_decode_le :: "u8 list \<Rightarrow> stop + u16" where
  "uint16_decode_le (b0 # b1 # _) = Inr (ucast b0 OR push_bit 8 (ucast b1))"
| "uint16_decode_le _ = Inl Undefined"

fun uint32_decode_le :: "u8 list \<Rightarrow> stop + u32" where
  "uint32_decode_le (b0 # b1 # b2 # b3 # _) =
     Inr (push_bit 0 (ucast b0) OR push_bit 8 (ucast b1) OR push_bit 16 (ucast b2)
          OR push_bit 24 (ucast b3))"
| "uint32_decode_le _ = Inl Undefined"

lemma length_uint16_encode_le [simp]: "length (uint16_encode_le v) = 2"
  by (simp add: uint16_encode_le_def)

lemma length_uint32_encode_le [simp]: "length (uint32_encode_le v) = 4"
  by (simp add: uint32_encode_le_def)

text \<open>Each mask of the encoders selects one byte of the value.\<close>

lemma drop_mask_byte:
  "drop_bit n (v AND push_bit n (mask 8)) = take_bit 8 (drop_bit n (v :: 'a::len word))"
  by (rule bit_word_eqI) (auto simp: bit_simps dest: bit_imp_le_length)

lemma byte_masks_u16:
  "(0x00FF :: u16) = push_bit 0 (mask 8)" "(0xFF00 :: u16) = push_bit 8 (mask 8)"
  by (simp_all add: mask_eq_exp_minus_1)

lemma byte_masks_u32:
  "(0x000000FF :: u32) = push_bit 0 (mask 8)" "(0x0000FF00 :: u32) = push_bit 8 (mask 8)"
  "(0x00FF0000 :: u32) = push_bit 16 (mask 8)" "(0xFF000000 :: u32) = push_bit 24 (mask 8)"
  by (simp_all add: mask_eq_exp_minus_1)

lemma ucast_take_bit_8: "(ucast (take_bit 8 (v :: 'a::len word)) :: u8) = ucast v"
  by (rule bit_word_eqI) (auto simp: bit_simps)

lemma uint16_encode_le_bytes: "uint16_encode_le v = [ucast v, ucast (drop_bit 8 v)]"
  unfolding uint16_encode_le_def byte_masks_u16 drop_mask_byte by (simp add: ucast_take_bit_8)

lemma uint32_encode_le_bytes:
  "uint32_encode_le v =
     [ucast v, ucast (drop_bit 8 v), ucast (drop_bit 16 v), ucast (drop_bit 24 v)]"
  unfolding uint32_encode_le_def byte_masks_u32 drop_mask_byte by (simp add: ucast_take_bit_8)

lemma join_u16:
  "(ucast (ucast (v :: u16) :: u8) :: u16) OR push_bit 8 (ucast (ucast (drop_bit 8 v) :: u8)) = v"
  by (rule bit_word_eqI) (auto simp: bit_simps)

lemma join_u32:
  "(ucast (ucast (v :: u32) :: u8) :: u32) OR push_bit 8 (ucast (ucast (drop_bit 8 v) :: u8))
     OR push_bit 16 (ucast (ucast (drop_bit 16 v) :: u8))
     OR push_bit 24 (ucast (ucast (drop_bit 24 v) :: u8)) = v"
proof (rule bit_word_eqI)
  fix n assume "n < LENGTH(32)"
  then show "bit ((ucast (ucast (v :: u32) :: u8) :: u32)
     OR push_bit 8 (ucast (ucast (drop_bit 8 v) :: u8))
     OR push_bit 16 (ucast (ucast (drop_bit 16 v) :: u8))
     OR push_bit 24 (ucast (ucast (drop_bit 24 v) :: u8))) n = bit v n"
    by (cases "n < 24"; cases "n < 16") (auto simp: bit_simps)
qed

lemma split_u16:
  "ucast ((ucast (a :: u8) :: u16) OR push_bit 8 (ucast (b :: u8))) = a"
  "ucast (drop_bit 8 ((ucast (a :: u8) :: u16) OR push_bit 8 (ucast (b :: u8)))) = b"
  by (rule bit_word_eqI, auto simp: bit_simps dest: bit_imp_le_length)+

lemma split_u32:
  fixes a b c d :: u8
  defines "v \<equiv> (ucast a :: u32) OR push_bit 8 (ucast b) OR push_bit 16 (ucast c)
                 OR push_bit 24 (ucast d)"
  shows "ucast v = a" "ucast (drop_bit 8 v) = b" "ucast (drop_bit 16 v) = c"
        "ucast (drop_bit 24 v) = d"
  unfolding v_def by (rule bit_word_eqI, auto simp: bit_simps dest: bit_imp_le_length)+

section \<open>The interface: a byte code of fixed width\<close>

locale byte_code =
  fixes enc :: "'a \<Rightarrow> u8 list"
    and dec :: "u8 list \<Rightarrow> stop + 'a"
    and width :: nat
  assumes enc_length: "length (enc x) = width"
    and dec_enc: "dec (enc x @ rest) = Inr x"
    and dec_short: "length bs < width \<Longrightarrow> dec bs = Inl Undefined"
    and enc_dec: "dec bs = Inr x \<Longrightarrow> enc x = take width bs"
begin

lemma dec_exact: "dec (enc x) = Inr x"
  using dec_enc [of x "[]"] by simp

lemma enc_inject: "enc x = enc y \<longleftrightarrow> x = y"
  using dec_exact by (metis sum.inject(2))

lemma dec_total: "width \<le> length bs \<Longrightarrow> (\<forall>e. dec bs \<noteq> Inl e) \<Longrightarrow> \<exists>x. dec bs = Inr x"
  by (cases "dec bs") auto

lemma length_concat_enc: "length (concat (map enc xs)) = width * length xs"
  by (induction xs) (simp_all add: enc_length)

lemma drop_concat_enc:
  "n \<le> length xs \<Longrightarrow> drop (width * n) (concat (map enc xs)) = concat (map enc (drop n xs))"
  by (induction xs arbitrary: n) (auto simp: enc_length drop_Cons split: nat.splits)

lemma dec_array: "n < length xs \<Longrightarrow> dec (drop (width * n) (concat (map enc xs))) = Inr (xs ! n)"
  by (simp add: drop_concat_enc dec_enc flip: Cons_nth_drop_Suc)

end

interpretation le16: byte_code uint16_encode_le uint16_decode_le 2
proof
  fix bs x assume "uint16_decode_le bs = Inr x"
  then show "uint16_encode_le x = take 2 bs"
    by (cases bs rule: uint16_decode_le.cases) (auto simp: uint16_encode_le_bytes split_u16 simp del: drop_bit_or)
next
  fix bs :: "u8 list" assume "length bs < 2"
  then show "uint16_decode_le bs = Inl Undefined"
    by (cases bs rule: uint16_decode_le.cases) auto
qed (simp_all add: uint16_encode_le_bytes join_u16)

interpretation le32: byte_code uint32_encode_le uint32_decode_le 4
proof
  fix bs x assume "uint32_decode_le bs = Inr x"
  then show "uint32_encode_le x = take 4 bs"
    by (cases bs rule: uint32_decode_le.cases) (auto simp: uint32_encode_le_bytes split_u32 simp del: drop_bit_or)
next
  fix bs :: "u8 list" assume "length bs < 4"
  then show "uint32_decode_le bs = Inl Undefined"
    by (cases bs rule: uint32_decode_le.cases) auto
qed (simp_all add: uint32_encode_le_bytes join_u32)

text \<open>
  Storing an integer in a packed structure field, or reading it back, uses the byte order of the
  host. The code is built for a little-endian host (\<^verbatim>\<open>wpc.c\<close> asserts it for its own copies).
\<close>

definition host_store16 :: "u16 \<Rightarrow> u8 list" where
  "host_store16 v = uint16_encode_le v"

definition host_store32 :: "u32 \<Rightarrow> u8 list" where
  "host_store32 v = uint32_encode_le v"

definition host_load16 :: "u8 list \<Rightarrow> stop + u16" where
  "host_load16 bs = uint16_decode_le bs"

definition host_load32 :: "u8 list \<Rightarrow> stop + u32" where
  "host_load32 bs = uint32_decode_le bs"

lemmas host_simps = host_store16_def host_store32_def host_load16_def host_load32_def

section \<open>Times\<close>

definition MAX_INTERNAL_TIME_FOR_FULL_PRECISION :: u32 where
  "MAX_INTERNAL_TIME_FOR_FULL_PRECISION = (-1) div 1000"

definition internal_time_to_ms :: "u32 \<Rightarrow> u32" where
  "internal_time_to_ms t =
     (if t < MAX_INTERNAL_TIME_FOR_FULL_PRECISION then drop_bit 7 (t * 1000)
      else drop_bit 7 t * 1000)"

definition internal_time_to_s :: "u32 \<Rightarrow> u32" where
  "internal_time_to_s t = drop_bit 7 t"

definition MAX_MS_TIME_FOR_FULL_PRECISION :: u32 where
  "MAX_MS_TIME_FOR_FULL_PRECISION = (-1) div 128"

definition ms_to_internal_time :: "u32 \<Rightarrow> u32" where
  "ms_to_internal_time t =
     (if t < MAX_MS_TIME_FOR_FULL_PRECISION then push_bit 7 t div 1000
      else drop_bit 7 (t div 1000))"

lemma unat_drop_bit_u32: "unat (drop_bit n (t :: u32)) = unat t div 2 ^ n"
proof -
  have "take_bit 32 (unat t) = unat t"
    using unsigned_less [of t, where 'a = nat] by (simp add: take_bit_nat_eq_self)
  then show ?thesis unfolding unsigned_drop_bit_eq by (simp add: drop_bit_eq_div)
qed

lemma max_internal: "unat MAX_INTERNAL_TIME_FOR_FULL_PRECISION = 4294967"
  by (simp add: MAX_INTERNAL_TIME_FOR_FULL_PRECISION_def)

lemma max_ms: "unat MAX_MS_TIME_FOR_FULL_PRECISION = 33554431"
  by (simp add: MAX_MS_TIME_FOR_FULL_PRECISION_def)

text \<open>An internal time of the node (in 1/128 s) below the documented limit of 2^32 ms is
  converted to milliseconds without wrap-around: the result is never above the exact value and
  less than one second below it, and it is exact for times of at most about 9 hours.\<close>

theorem internal_time_to_ms_accurate:
  assumes "unat t < 549755813"
  shows "unat (internal_time_to_ms t) \<le> unat t * 1000 div 128
    \<and> unat t * 1000 div 128 < unat (internal_time_to_ms t) + 1000
    \<and> (unat t < 4294967 \<longrightarrow> unat (internal_time_to_ms t) = unat t * 1000 div 128)"
proof -
  have small: "unat (internal_time_to_ms t) = unat t * 1000 div 128" if "unat t < 4294967"
    using that by (simp add: internal_time_to_ms_def word_less_nat_alt max_internal
        unat_drop_bit_u32 unat_word_ariths)
  have large: "unat (internal_time_to_ms t) = unat t div 128 * 1000" if "\<not> unat t < 4294967"
    using that assms by (simp add: internal_time_to_ms_def word_less_nat_alt max_internal
        unat_drop_bit_u32 unat_word_ariths)
  show ?thesis
    using small large by (cases "unat t < 4294967") auto
qed

theorem internal_time_to_ms_accurate_witness:
  "unat (internal_time_to_ms 4294967) \<le> unat (4294967 :: u32) * 1000 div 128
     \<and> unat (internal_time_to_ms 1280) = 10000"
proof -
  have "unat (4294967 :: u32) < 549755813" "unat (1280 :: u32) < 549755813"
       "unat (1280 :: u32) < 4294967"
    by simp_all
  then show ?thesis
    using internal_time_to_ms_accurate [of 4294967] internal_time_to_ms_accurate [of 1280]
    by simp
qed

text \<open>A delay in milliseconds is converted exactly (rounded down) below the full-precision
  limit of \<^verbatim>\<open>util.h\<close>; from that limit on the code shifts right where the unit conversion needs
  a shift left, so a delay of 33554431 ms (9.3 h, 4294967 units) becomes 262 units (2 s).\<close>

theorem ms_to_internal_time_values:
  "unat (ms_to_internal_time t) =
      (if unat t < 33554431 then unat t * 128 div 1000 else unat t div 128000)
     \<and> ms_to_internal_time 33554431 = 262"
proof -
  have "unat (ms_to_internal_time t) = unat t * 128 div 1000" if "unat t < 33554431"
    using that by (simp add: ms_to_internal_time_def word_less_nat_alt max_ms unat_div
        push_bit_eq_mult unat_word_ariths)
  moreover have "unat (ms_to_internal_time t) = unat t div 128000" if "\<not> unat t < 33554431"
    using that by (simp add: ms_to_internal_time_def word_less_nat_alt max_ms unat_div
        unat_drop_bit_u32 div_mult2_eq [symmetric] del: drop_bit_of_nat)
  moreover have "ms_to_internal_time 33554431 = 262"
    by (simp add: ms_to_internal_time_def MAX_MS_TIME_FOR_FULL_PRECISION_def)
  ultimately show ?thesis by simp
qed

end
