(* ===== verification/Slip.thy ===== *)
theory Slip
  imports Util
begin

text \<open>
  The SLIP framing of \<^verbatim>\<open>lib/wpc/slip.c\<close>: the table-driven CRC, escaping and unescaping of
  frames, sending one frame through the registered write function and receiving one frame
  through the registered read function. The serial line is part of the state (record
  \<^verbatim>\<open>io\<close>): the results that the environment will give to the coming calls of
  \<^verbatim>\<open>read_function\<close> and \<^verbatim>\<open>write_function\<close> and to the clock, and the buffers written so far.
\<close>

section \<open>Return codes, special octets and the serial line\<close>

definition WPC_INT_GEN_ERROR :: int where "WPC_INT_GEN_ERROR = -1"
definition WPC_INT_TIMEOUT_ERROR :: int where "WPC_INT_TIMEOUT_ERROR = -2"
definition WPC_INT_SYNC_ERROR :: int where "WPC_INT_SYNC_ERROR = -3"
definition WPC_INT_WRONG_PARAM_ERROR :: int where "WPC_INT_WRONG_PARAM_ERROR = -4"
definition WPC_INT_WRONG_CRC :: int where "WPC_INT_WRONG_CRC = -5"
definition WPC_INT_WRONG_BUFFER_SIZE :: int where "WPC_INT_WRONG_BUFFER_SIZE = -6"
definition WPC_INT_WRONG_CRC_FROM_HOST :: int where "WPC_INT_WRONG_CRC_FROM_HOST = -7"

lemmas wpc_int_codes =
  WPC_INT_GEN_ERROR_def WPC_INT_TIMEOUT_ERROR_def WPC_INT_SYNC_ERROR_def
  WPC_INT_WRONG_PARAM_ERROR_def WPC_INT_WRONG_CRC_def WPC_INT_WRONG_BUFFER_SIZE_def
  WPC_INT_WRONG_CRC_FROM_HOST_def

abbreviation END_SLIP_OCTET :: u8 where "END_SLIP_OCTET \<equiv> 0xC0"
abbreviation ESC_SLIP_OCTET :: u8 where "ESC_SLIP_OCTET \<equiv> 0xDB"
abbreviation END_SUBS_OCTET :: u8 where "END_SUBS_OCTET \<equiv> 0xDC"
abbreviation ESC_SUBS_OCTET :: u8 where "ESC_SUBS_OCTET \<equiv> 0xDD"

definition MAX_SIZE_ENCODED_BUFFER :: "nat \<Rightarrow> nat" where
  "MAX_SIZE_ENCODED_BUFFER len = 2 * len + 2 + 4"

text \<open>
  \<^verbatim>\<open>io_rx\<close> holds the results (return value and byte) of the coming calls of the read
  function, \<^verbatim>\<open>io_wr\<close> the return values of the coming calls of the write function,
  \<^verbatim>\<open>io_tx\<close> the buffers passed to the write function (latest last), \<^verbatim>\<open>io_clock\<close> and
  \<^verbatim>\<open>io_epoch\<close> the coming readings of the monotonic and of the epoch clock, and
  \<^verbatim>\<open>io_waits\<close> the timeouts with which frames were waited for (latest last).
\<close>

record io =
  io_rx :: "(int \<times> u8) list"
  io_wr :: "int list"
  io_tx :: "u8 list list"
  io_clock :: "u64 list"
  io_epoch :: "u64 list"
  io_waits :: "u16 list"

definition write_function :: "u8 list \<Rightarrow> ('z io_scheme, int) prog" where
  "write_function buf s =
     (case io_wr s of [] \<Rightarrow> Inl Blocked
      | r # rs \<Rightarrow> Inr (r, s\<lparr>io_wr := rs, io_tx := io_tx s @ [buf]\<rparr>))"

section \<open>CRC\<close>

definition crc_ccitt_lut :: "u16 list" where
  "crc_ccitt_lut = [
     0x0000, 0x1021, 0x2042, 0x3063, 0x4084, 0x50a5, 0x60c6, 0x70e7,
     0x8108, 0x9129, 0xa14a, 0xb16b, 0xc18c, 0xd1ad, 0xe1ce, 0xf1ef,
     0x1231, 0x0210, 0x3273, 0x2252, 0x52b5, 0x4294, 0x72f7, 0x62d6,
     0x9339, 0x8318, 0xb37b, 0xa35a, 0xd3bd, 0xc39c, 0xf3ff, 0xe3de,
     0x2462, 0x3443, 0x0420, 0x1401, 0x64e6, 0x74c7, 0x44a4, 0x5485,
     0xa56a, 0xb54b, 0x8528, 0x9509, 0xe5ee, 0xf5cf, 0xc5ac, 0xd58d,
     0x3653, 0x2672, 0x1611, 0x0630, 0x76d7, 0x66f6, 0x5695, 0x46b4,
     0xb75b, 0xa77a, 0x9719, 0x8738, 0xf7df, 0xe7fe, 0xd79d, 0xc7bc,
     0x48c4, 0x58e5, 0x6886, 0x78a7, 0x0840, 0x1861, 0x2802, 0x3823,
     0xc9cc, 0xd9ed, 0xe98e, 0xf9af, 0x8948, 0x9969, 0xa90a, 0xb92b,
     0x5af5, 0x4ad4, 0x7ab7, 0x6a96, 0x1a71, 0x0a50, 0x3a33, 0x2a12,
     0xdbfd, 0xcbdc, 0xfbbf, 0xeb9e, 0x9b79, 0x8b58, 0xbb3b, 0xab1a,
     0x6ca6, 0x7c87, 0x4ce4, 0x5cc5, 0x2c22, 0x3c03, 0x0c60, 0x1c41,
     0xedae, 0xfd8f, 0xcdec, 0xddcd, 0xad2a, 0xbd0b, 0x8d68, 0x9d49,
     0x7e97, 0x6eb6, 0x5ed5, 0x4ef4, 0x3e13, 0x2e32, 0x1e51, 0x0e70,
     0xff9f, 0xefbe, 0xdfdd, 0xcffc, 0xbf1b, 0xaf3a, 0x9f59, 0x8f78,
     0x9188, 0x81a9, 0xb1ca, 0xa1eb, 0xd10c, 0xc12d, 0xf14e, 0xe16f,
     0x1080, 0x00a1, 0x30c2, 0x20e3, 0x5004, 0x4025, 0x7046, 0x6067,
     0x83b9, 0x9398, 0xa3fb, 0xb3da, 0xc33d, 0xd31c, 0xe37f, 0xf35e,
     0x02b1, 0x1290, 0x22f3, 0x32d2, 0x4235, 0x5214, 0x6277, 0x7256,
     0xb5ea, 0xa5cb, 0x95a8, 0x8589, 0xf56e, 0xe54f, 0xd52c, 0xc50d,
     0x34e2, 0x24c3, 0x14a0, 0x0481, 0x7466, 0x6447, 0x5424, 0x4405,
     0xa7db, 0xb7fa, 0x8799, 0x97b8, 0xe75f, 0xf77e, 0xc71d, 0xd73c,
     0x26d3, 0x36f2, 0x0691, 0x16b0, 0x6657, 0x7676, 0x4615, 0x5634,
     0xd94c, 0xc96d, 0xf90e, 0xe92f, 0x99c8, 0x89e9, 0xb98a, 0xa9ab,
     0x5844, 0x4865, 0x7806, 0x6827, 0x18c0, 0x08e1, 0x3882, 0x28a3,
     0xcb7d, 0xdb5c, 0xeb3f, 0xfb1e, 0x8bf9, 0x9bd8, 0xabbb, 0xbb9a,
     0x4a75, 0x5a54, 0x6a37, 0x7a16, 0x0af1, 0x1ad0, 0x2ab3, 0x3a92,
     0xfd2e, 0xed0f, 0xdd6c, 0xcd4d, 0xbdaa, 0xad8b, 0x9de8, 0x8dc9,
     0x7c26, 0x6c07, 0x5c64, 0x4c45, 0x3ca2, 0x2c83, 0x1ce0, 0x0cc1,
     0xef1f, 0xff3e, 0xcf5d, 0xdf7c, 0xaf9b, 0xbfba, 0x8fd9, 0x9ff8,
     0x6e17, 0x7e36, 0x4e55, 0x5e74, 0x2e93, 0x3eb2, 0x0ed1, 0x1ef0
  ]"

definition crc_step :: "u16 \<Rightarrow> u8 \<Rightarrow> u16" where
  "crc_step crc b =
     (let index = b XOR ucast (drop_bit 8 crc)
      in crc_ccitt_lut ! unat index XOR push_bit 8 crc)"

text \<open>Reading \<^verbatim>\<open>len\<close> bytes of a shorter buffer is an access outside the object.\<close>

definition crc_fromBuffer :: "u8 list \<Rightarrow> nat \<Rightarrow> stop + u16" where
  "crc_fromBuffer buf len =
     (if len \<le> length buf then Inr (foldl crc_step 0xffff (take len buf)) else Inl Undefined)"

section \<open>Unescaping, in place\<close>

text \<open>
  The loop of \<^verbatim>\<open>slip_decode_buffer\<close>: the write index is a \<^verbatim>\<open>uint8_t\<close> and wraps at 256, the
  read index runs over the first \<^verbatim>\<open>len\<close> bytes of the buffer, and an escape octet in last
  position makes the loop read the byte behind them.
\<close>

function slip_decode_loop :: "u8 list \<Rightarrow> nat \<Rightarrow> nat \<Rightarrow> u8 \<Rightarrow> stop + (u8 \<times> u8 list)" where
  "slip_decode_loop buffer len read write =
     (if read < len then
        (case peek buffer (int read) of Inl e \<Rightarrow> Inl e
         | Inr current \<Rightarrow>
           if current = ESC_SLIP_OCTET then
             (case peek buffer (int (Suc read)) of Inl e \<Rightarrow> Inl e
              | Inr subs \<Rightarrow>
                (case poke buffer (uint write)
                    (if subs = END_SUBS_OCTET then END_SLIP_OCTET else ESC_SLIP_OCTET) of
                   Inl e \<Rightarrow> Inl e
                 | Inr buffer' \<Rightarrow> slip_decode_loop buffer' len (Suc (Suc read)) (write + 1)))
           else
             (case poke buffer (uint write) current of Inl e \<Rightarrow> Inl e
              | Inr buffer' \<Rightarrow> slip_decode_loop buffer' len (Suc read) (write + 1)))
      else Inr (write, buffer))"
  by pat_completeness auto
termination
  by (relation "measure (\<lambda>(buffer, len, read, write). len - read)") auto

declare slip_decode_loop.simps [simp del]

definition slip_decode_buffer :: "u8 list \<Rightarrow> nat \<Rightarrow> stop + (u8 \<times> u8 list)" where
  "slip_decode_buffer buffer len = slip_decode_loop buffer len 0 0"

text \<open>
  \<^verbatim>\<open>Slip_decode\<close> gets the address and the length of an encoded frame; the length of the CRC is
  subtracted from the decoded length as an \<^verbatim>\<open>int\<close> and passed on as a \<^verbatim>\<open>uint32_t\<close>. The result
  is the return value and the contents of the buffer afterwards.
\<close>

definition Slip_decode :: "u8 list \<Rightarrow> stop + (int \<times> u8 list)" where
  "Slip_decode buffer =
     (case slip_decode_buffer buffer (length buffer) of Inl e \<Rightarrow> Inl e
      | Inr (write, buffer') \<Rightarrow>
        let decoded_len = int (unat write) in
        (case crc_fromBuffer buffer' (unat (word_of_int (decoded_len - 2) :: u32)) of
           Inl e \<Rightarrow> Inl e
         | Inr crc \<Rightarrow>
           (case uint16_decode_le (drop (nat (decoded_len - 2)) buffer') of Inl e \<Rightarrow> Inl e
            | Inr crc_from_frame \<Rightarrow>
              if crc \<noteq> crc_from_frame then
                if crc_from_frame = 0xFFFF then Inr (WPC_INT_WRONG_CRC_FROM_HOST, buffer')
                else Inr (WPC_INT_WRONG_CRC, buffer')
              else Inr (decoded_len - 2, buffer'))))"

section \<open>Escaping\<close>

text \<open>
  The output buffer is the memory \<^verbatim>\<open>mem\<close> from index \<^verbatim>\<open>base\<close> on (the code passes
  pointers into a larger array); \<^verbatim>\<open>len_escaped\<close> is the size that the caller claims. The
  write index is a \<^verbatim>\<open>uint8_t\<close>.
\<close>

fun slip_encode_loop ::
  "u8 list \<Rightarrow> u8 list \<Rightarrow> int \<Rightarrow> u32 \<Rightarrow> u8 \<Rightarrow> stop + (u32 \<times> u8 list)" where
  "slip_encode_loop [] mem base len_escaped write = Inr (ucast write, mem)"
| "slip_encode_loop (current # bytes) mem base len_escaped write =
     (if current = END_SLIP_OCTET \<or> current = ESC_SLIP_OCTET then
        if len_escaped \<le> ucast write then Inr (word_of_int WPC_INT_WRONG_BUFFER_SIZE, mem)
        else
          (case poke mem (base + uint write) ESC_SLIP_OCTET of Inl e \<Rightarrow> Inl e
           | Inr mem1 \<Rightarrow>
             if len_escaped \<le> ucast (write + 1)
             then Inr (word_of_int WPC_INT_WRONG_BUFFER_SIZE, mem1)
             else
               (case poke mem1 (base + uint (write + 1))
                   (if current = END_SLIP_OCTET then END_SUBS_OCTET else ESC_SUBS_OCTET) of
                  Inl e \<Rightarrow> Inl e
                | Inr mem2 \<Rightarrow> slip_encode_loop bytes mem2 base len_escaped (write + 1 + 1)))
      else if len_escaped \<le> ucast write then Inr (word_of_int WPC_INT_WRONG_BUFFER_SIZE, mem)
      else
        (case poke mem (base + uint write) current of Inl e \<Rightarrow> Inl e
         | Inr mem1 \<Rightarrow> slip_encode_loop bytes mem1 base len_escaped (write + 1)))"

definition slip_encode_buffer ::
  "u8 list \<Rightarrow> u8 list \<Rightarrow> int \<Rightarrow> u32 \<Rightarrow> stop + (u32 \<times> u8 list)" where
  "slip_encode_buffer buffer mem base len_escaped =
     slip_encode_loop buffer mem base len_escaped 0"

text \<open>The loop that appends the two CRC bytes, least significant first; \<^verbatim>\<open>i\<close> counts them.\<close>

fun slip_encode_crc ::
  "nat list \<Rightarrow> u16 \<Rightarrow> u8 list \<Rightarrow> int \<Rightarrow> u32 \<Rightarrow> int \<Rightarrow> stop + (int \<times> u8 list)" where
  "slip_encode_crc [] crc mem base len_out total_size = Inr (total_size, mem)"
| "slip_encode_crc (i # is) crc mem base len_out total_size =
     (let temp = ucast (drop_bit (8 * i) crc AND 0xff) in
      case slip_encode_buffer [temp] mem (base + total_size) (len_out - word_of_int total_size) of
        Inl e \<Rightarrow> Inl e
      | Inr (r, mem1) \<Rightarrow>
        let temp_size = sint r in
        if temp_size = -1 then Inr (WPC_INT_WRONG_BUFFER_SIZE, mem1)
        else slip_encode_crc is crc mem1 base len_out (total_size + temp_size))"

definition Slip_encode :: "u8 list \<Rightarrow> u8 list \<Rightarrow> int \<Rightarrow> u32 \<Rightarrow> stop + (int \<times> u8 list)" where
  "Slip_encode buffer_in mem base len_out =
     (case crc_fromBuffer buffer_in (length buffer_in) of Inl e \<Rightarrow> Inl e
      | Inr crc \<Rightarrow>
        (case slip_encode_buffer buffer_in mem base len_out of Inl e \<Rightarrow> Inl e
         | Inr (r, mem1) \<Rightarrow>
           let total_size = sint r in
           if total_size = -1 then Inr (WPC_INT_WRONG_BUFFER_SIZE, mem1)
           else slip_encode_crc [0, 1] crc mem1 base len_out total_size))"

section \<open>Sending and receiving a frame\<close>

definition encode_for_sending :: "u8 list \<Rightarrow> stop + u8 list" where
  "encode_for_sending buffer =
     (let cap = MAX_SIZE_ENCODED_BUFFER (length buffer);
          encoded_buffer = (replicate cap 0)[0 := END_SLIP_OCTET, 1 := END_SLIP_OCTET, 2 := END_SLIP_OCTET]
      in case Slip_encode buffer encoded_buffer 3 (of_nat (cap - 3)) of Inl e \<Rightarrow> Inl e
         | Inr (size_enc, mem) \<Rightarrow>
           (case poke mem (size_enc + 3) END_SLIP_OCTET of Inl e \<Rightarrow> Inl e
            | Inr mem' \<Rightarrow> Inr (take (nat (size_enc + 4)) mem')))"

definition Slip_send_buffer :: "u8 list \<Rightarrow> ('z io_scheme, int) prog" where
  "Slip_send_buffer buffer =
     andthen (lift_sum (encode_for_sending buffer)) (\<lambda>encoded.
     andthen (write_function encoded) (\<lambda>written_size.
     if written_size \<noteq> int (length encoded) then ret WPC_INT_GEN_ERROR else ret 0))"

text \<open>
  The receive loop of \<^verbatim>\<open>Slip_get_buffer\<close> over the results of the read function. \<^verbatim>\<open>cap\<close> is
  the size of the receiving buffer, \<^verbatim>\<open>raw\<close> the bytes stored so far; the loop ends with an
  error code, or with \<^verbatim>\<open>None\<close> when a closing END octet has been seen. The size check of
  the code comes after the store, so a store at index \<^verbatim>\<open>cap\<close> is an access outside the
  buffer.
\<close>

fun slip_receive_loop ::
  "nat \<Rightarrow> bool \<Rightarrow> u8 list \<Rightarrow> (int \<times> u8) list
     \<Rightarrow> stop + ((int option \<times> u8 list) \<times> (int \<times> u8) list)" where
  "slip_receive_loop cap started raw [] = Inl Blocked"
| "slip_receive_loop cap started raw ((res, c) # rx) =
     (if res = 0 then Inr ((Some WPC_INT_TIMEOUT_ERROR, raw), rx)
      else if res < 0 \<or> res > 1 then slip_receive_loop cap started raw rx
      else if c = END_SLIP_OCTET then
        if started then
          if length raw < 4 then slip_receive_loop cap started [] rx
          else Inr ((None, raw), rx)
        else slip_receive_loop cap True raw rx
      else if started then
        if length raw < cap then
          if length raw + 1 > cap then Inr ((Some WPC_INT_GEN_ERROR, raw @ [c]), rx)
          else slip_receive_loop cap started (raw @ [c]) rx
        else Inl Undefined
      else slip_receive_loop cap started raw rx)"

definition receive_raw :: "nat \<Rightarrow> u16 \<Rightarrow> ('z io_scheme, int option \<times> u8 list) prog" where
  "receive_raw cap timeout_ms s =
     (case slip_receive_loop cap False [] (io_rx s) of Inl e \<Rightarrow> Inl e
      | Inr (r, rx) \<Rightarrow> Inr (r, s\<lparr>io_rx := rx, io_waits := io_waits s @ [timeout_ms]\<rparr>))"

text \<open>
  The caller's buffer of \<^verbatim>\<open>len\<close> bytes is written only when the decoded frame fits; the
  result is the return value and the bytes copied, if any.
\<close>

definition Slip_get_buffer :: "nat \<Rightarrow> u16 \<Rightarrow> ('z io_scheme, int \<times> u8 list option) prog" where
  "Slip_get_buffer len timeout_ms =
     andthen (receive_raw (MAX_SIZE_ENCODED_BUFFER len) timeout_ms) (\<lambda>(err, raw).
     case err of Some e \<Rightarrow> ret (e, None)
     | None \<Rightarrow>
       andthen (lift_sum (Slip_decode raw)) (\<lambda>(decoded_size, decoded).
       ret (decoded_size,
            if decoded_size > 0 \<and> decoded_size \<le> int len
            then Some (take (nat decoded_size) decoded) else None)))"


section \<open>The CRC table and the bitwise CRC\<close>

text \<open>
  The reference: CRC-16/CCITT with polynomial 0x1021 and initial value 0xFFFF, most significant
  bit first, one shift per bit.
\<close>

definition crc_shift :: "u16 \<Rightarrow> u16" where
  "crc_shift x = (if bit x 15 then push_bit 1 x XOR 0x1021 else push_bit 1 x)"

definition crc_shift8 :: "u16 \<Rightarrow> u16" where
  "crc_shift8 x = crc_shift (crc_shift (crc_shift (crc_shift (crc_shift (crc_shift
                  (crc_shift (crc_shift x)))))))"

definition crc_ccitt :: "u8 list \<Rightarrow> u16" where
  "crc_ccitt bs = foldl (\<lambda>crc b. crc_shift8 (crc XOR push_bit 8 (ucast b))) 0xffff bs"

lemma crc_shift_xor: "crc_shift (x XOR y) = crc_shift x XOR crc_shift y"
  unfolding crc_shift_def push_bit_xor bit_xor_iff
  by (auto simp: ac_simps xor_self_eq simp del: push_bit_Suc push_bit_of_1)

lemma crc_shift8_xor: "crc_shift8 (x XOR y) = crc_shift8 x XOR crc_shift8 y"
  by (simp add: crc_shift8_def crc_shift_xor)

lemma crc_table:
  "map (\<lambda>i. crc_shift8 (push_bit 8 (of_nat i))) [0..<256] = crc_ccitt_lut"
  apply (simp add: upt_conv_Cons del: upt_Suc)
  apply (simp add: crc_shift8_def crc_shift_def crc_ccitt_lut_def)
  done

lemma crc_shift_low: "\<not> bit x 15 \<Longrightarrow> crc_shift x = push_bit 1 x"
  by (simp add: crc_shift_def)

lemma crc_shift_low_byte: "n < 8 \<Longrightarrow> crc_shift (push_bit n (ucast (b :: u8))) = push_bit (Suc n) (ucast b)"
  by (subst crc_shift_low) (auto simp: bit_simps push_bit_push_bit simp del: push_bit_Suc dest: bit_imp_le_length)

lemma crc_shift8_low_byte: "crc_shift8 (ucast (b :: u8)) = push_bit 8 (ucast b)"
proof -
  have "crc_shift8 (push_bit 0 (ucast b)) =
      push_bit (Suc (Suc (Suc (Suc (Suc (Suc (Suc (Suc 0)))))))) (ucast b)"
    unfolding crc_shift8_def by (simp add: crc_shift_low_byte del: push_bit_Suc push_bit_0_id)
  also have "Suc (Suc (Suc (Suc (Suc (Suc (Suc (Suc 0))))))) = 8" by simp
  finally show ?thesis by simp
qed

lemma crc_lut: "crc_ccitt_lut ! unat (h :: u8) = crc_shift8 (push_bit 8 (ucast h))"
proof -
  have "(of_nat (unat h) :: u16) = ucast h" by (simp add: unsigned_of_nat)
  then show ?thesis by (simp flip: crc_table)
qed

lemma split_u16_bytes: "(crc :: u16) = push_bit 8 (ucast (ucast (drop_bit 8 crc) :: u8)) XOR ucast (ucast crc :: u8)"
  by (rule bit_word_eqI) (auto simp: bit_simps)

lemma crc_step_bitwise: "crc_step crc b = crc_shift8 (crc XOR push_bit 8 (ucast b))"
proof -
  let ?h = "ucast (drop_bit 8 crc) :: u8" and ?l = "ucast crc :: u8"
  have "crc XOR push_bit 8 (ucast b) = push_bit 8 (ucast (b XOR ?h)) XOR ucast ?l"
    by (rule bit_word_eqI) (auto simp: bit_simps)
  moreover have "push_bit 8 (ucast ?l) = push_bit 8 crc"
    by (rule bit_word_eqI) (auto simp: bit_simps)
  ultimately show ?thesis
    by (simp add: crc_step_def crc_lut crc_shift8_xor crc_shift8_low_byte)
qed

text \<open>C11: The table-driven CRC of the code is the bitwise CRC-16/CCITT: for every buffer, the 256
  entries of the table and the update with the byte index compute the polynomial division.\<close>

theorem crc_fromBuffer_is_ccitt: "crc_fromBuffer bs (length bs) = Inr (crc_ccitt bs)"
proof -
  have "foldl crc_step init bs = foldl (\<lambda>crc b. crc_shift8 (crc XOR push_bit 8 (ucast b))) init bs" for init
    by (induction bs arbitrary: init) (simp_all add: crc_step_bitwise)
  then show ?thesis by (simp add: crc_fromBuffer_def crc_ccitt_def)
qed
section \<open>Reference: escaping, unescaping and the framed message\<close>

text \<open>
  \<^verbatim>\<open>escape\<close> and \<^verbatim>\<open>unescape\<close> are the encoding of RFC 1055 as functions on byte lists;
  \<^verbatim>\<open>slip_frame\<close> appends the CRC to a message and escapes the whole, \<^verbatim>\<open>wire_frame\<close>
  adds the END octets that \<^verbatim>\<open>Slip_send_buffer\<close> puts around it.
\<close>

fun escape1 :: "u8 \<Rightarrow> u8 list" where
  "escape1 b = (if b = END_SLIP_OCTET then [ESC_SLIP_OCTET, END_SUBS_OCTET]
                else if b = ESC_SLIP_OCTET then [ESC_SLIP_OCTET, ESC_SUBS_OCTET] else [b])"

definition escape :: "u8 list \<Rightarrow> u8 list" where
  "escape bs = concat (map escape1 bs)"

fun unescape :: "u8 list \<Rightarrow> u8 list option" where
  "unescape [] = Some []"
| "unescape [c] = (if c = ESC_SLIP_OCTET then None else Some [c])"
| "unescape (c # d # cs) =
     (if c = ESC_SLIP_OCTET
      then map_option ((#) (if d = END_SUBS_OCTET then END_SLIP_OCTET else ESC_SLIP_OCTET))
             (unescape cs)
      else map_option ((#) c) (unescape (d # cs)))"

lemma escape_simps [simp]:
  "escape [] = []" "escape (b # bs) = escape1 b @ escape bs"
  "escape (bs @ cs) = escape bs @ escape cs"
  by (simp_all add: escape_def)

declare escape1.simps [simp del]

lemma unescape_escape1 [simp]: "unescape (escape1 b @ cs) = map_option ((#) b) (unescape cs)"
  by (cases cs) (auto simp: escape1.simps)

lemma unescape_escape [simp]: "unescape (escape bs) = Some bs"
  by (induction bs) simp_all

lemma END_notin_escape: "END_SLIP_OCTET \<notin> set (escape bs)"
  by (induction bs) (auto simp: escape1.simps)

lemma length_escape_bounds: "length bs \<le> length (escape bs)" "length (escape bs) \<le> 2 * length bs"
  by (induction bs) (auto simp: escape1.simps)

lemma unescape_Cons:
  "c \<noteq> ESC_SLIP_OCTET \<Longrightarrow> unescape (c # cs) = map_option ((#) c) (unescape cs)"
  by (cases cs) auto

lemma poke_at:
  assumes "i = int k" "k < length mem" shows "poke mem i v = Inr (mem[k := v])"
  using assms by (simp add: poke_def)

lemma poke_offset:
  assumes "k + unat (w :: u8) < length mem"
  shows "poke mem (int k + uint w) v = Inr (mem[k + unat w := v])"
  by (rule poke_at [OF _ assms]) simp

lemma peek_at: "k < length mem \<Longrightarrow> peek mem (int k) = Inr (mem ! k)"
  unfolding peek_def by simp

lemma poke_uint:
  assumes "unat (w :: u8) < length mem"
  shows "poke mem (uint w) v = Inr (mem[unat w := v])"
  by (rule poke_at [OF _ assms]) simp


lemma slip_decode_loop_correct:
  assumes "unescape (drop r buf) = Some out" "length buf = len"
    and "unat w + length out < 256" "unat w \<le> r"
  shows "\<exists>buf'. slip_decode_loop buf len r w = Inr (w + of_nat (length out), buf')
           \<and> length buf' = len \<and> take (unat w + length out) buf' = take (unat w) buf @ out"
  using assms
proof (induction buf len r w arbitrary: out rule: slip_decode_loop.induct)
  case (1 buf len r w)
  note prems = "1.prems"
  show ?case
  proof (cases "r < len")
    case False
    with prems show ?thesis by (auto simp: slip_decode_loop.simps [of buf len r w])
  next
    case True
    define c where "c = buf ! r"
    have drop_read: "drop r buf = c # drop (Suc r) buf"
      using True prems(2) by (simp add: c_def Cons_nth_drop_Suc)
    have pc: "peek buf (int r) = Inr c" using True prems(2) by (simp add: peek_def c_def)
    show ?thesis
    proof (cases "c = ESC_SLIP_OCTET")
      case esc: False
      from prems(1) drop_read esc obtain out' where
        o: "unescape (drop (Suc r) buf) = Some out'" "out = c # out'"
        by (auto simp: unescape_Cons)
      let ?b = "buf[unat w := c]"
      have w: "unat (w + 1) = Suc (unat w)" using prems(3) o by (intro unat_u8_Suc) simp
      have pk: "poke buf (uint w) c = Inr ?b"
        using True prems by (intro poke_uint) simp
      have d: "drop (Suc r) ?b = drop (Suc r) buf" using prems(4) by simp
      have "\<exists>buf'. slip_decode_loop ?b len (Suc r) (w + 1) = Inr (w + 1 + of_nat (length out'), buf')
           \<and> length buf' = len \<and> take (unat (w + 1) + length out') buf' = take (unat (w + 1)) ?b @ out'"
        using o d w prems by (intro "1.IH"(2)[OF True pc esc pk]) auto
      then show ?thesis using o w True pc pk esc prems
        by (auto simp: slip_decode_loop.simps [of buf len r w] take_list_update_append add.assoc)
    next
      case esc: True
      obtain d ds where dds: "drop (Suc r) buf = d # ds"
        using prems(1) drop_read esc by (cases "drop (Suc r) buf") auto
      have r1: "Suc r < length buf" using dds by (metis drop_all list.distinct(1) not_less)
      have d: "d = buf ! Suc r" "ds = drop (Suc (Suc r)) buf"
        using dds r1 by (metis Cons_nth_drop_Suc list.inject)+
      have pd: "peek buf (int (Suc r)) = Inr d" using r1 d by (simp only: peek_at)
      define v where "v = (if d = END_SUBS_OCTET then END_SLIP_OCTET else ESC_SLIP_OCTET)"
      from prems(1) drop_read esc dds obtain out' where
        o: "unescape ds = Some out'" "out = v # out'" by (auto simp: v_def)
      let ?b = "buf[unat w := v]"
      have w: "unat (w + 1) = Suc (unat w)" using prems(3) o by (intro unat_u8_Suc) simp
      have pk: "poke buf (uint w) v = Inr ?b"
        using True prems by (intro poke_uint) simp
      have dr: "drop (Suc (Suc r)) ?b = ds" using prems(4) d by simp
      have "\<exists>buf'. slip_decode_loop ?b len (Suc (Suc r)) (w + 1) = Inr (w + 1 + of_nat (length out'), buf')
           \<and> length buf' = len \<and> take (unat (w + 1) + length out') buf' = take (unat (w + 1)) ?b @ out'"
        using o dr w prems by (intro "1.IH"(1)[OF True pc esc pd pk [unfolded v_def], folded v_def]) auto
      then show ?thesis using o w True pc pd pk esc prems
        by (auto simp: slip_decode_loop.simps [of buf len r w] take_list_update_append add.assoc v_def [symmetric])
    qed
  qed
qed

definition blit :: "'a list \<Rightarrow> nat \<Rightarrow> 'a list \<Rightarrow> 'a list" where
  "blit mem k xs = take k mem @ xs @ drop (k + length xs) mem"

lemma length_blit [simp]: "k + length xs \<le> length mem \<Longrightarrow> length (blit mem k xs) = length mem"
  by (simp add: blit_def)

lemma blit_Nil [simp]: "k \<le> length mem \<Longrightarrow> blit mem k [] = mem"
  by (simp add: blit_def)

lemma update_eq_blit: "k < length mem \<Longrightarrow> mem[k := v] = blit mem k [v]"
  by (simp add: blit_def upd_conv_take_nth_drop)

lemma blit_blit:
  assumes "k + length xs + length ys \<le> length mem"
  shows "blit (blit mem k xs) (k + length xs) ys = blit mem k (xs @ ys)"
  using assms by (simp add: blit_def ac_simps)

lemma take_blit: "k + length xs \<le> length mem \<Longrightarrow> take (k + length xs) (blit mem k xs) = take k mem @ xs"
  by (simp add: blit_def)

lemma le_ucast_u8: "(L :: u32) \<le> ucast (w :: u8) \<longleftrightarrow> unat L \<le> unat w"
  by (simp add: word_le_nat_alt)

lemma slip_encode_loop_correct:
  assumes "unat w + length (escape bs) < 256" "unat w + length (escape bs) \<le> unat L"
    and "k + unat w + length (escape bs) \<le> length mem"
  shows "slip_encode_loop bs mem (int k) L w =
           Inr (ucast (w + of_nat (length (escape bs))), blit mem (k + unat w) (escape bs))"
  using assms
proof (induction bs arbitrary: mem w)
  case Nil
  then show ?case by simp
next
  case (Cons b bs)
  show ?case
  proof (cases "b = END_SLIP_OCTET \<or> b = ESC_SLIP_OCTET")
    case special: True
    define v where "v = (if b = END_SLIP_OCTET then END_SUBS_OCTET else ESC_SUBS_OCTET)"
    have e: "escape1 b = [ESC_SLIP_OCTET, v]" using special by (auto simp: escape1.simps v_def)
    have w: "unat (w + 1) = Suc (unat w)" using Cons.prems(1) e by (intro unat_u8_Suc) simp
    have w2: "unat (w + 1 + 1) = Suc (Suc (unat w))"
      using Cons.prems(1) e w by (subst unat_u8_Suc) simp_all
    let ?m1 = "mem[k + unat w := ESC_SLIP_OCTET]" and ?m2 = "blit mem (k + unat w) [ESC_SLIP_OCTET, v]"
    have p1: "poke mem (int k + uint w) ESC_SLIP_OCTET = Inr ?m1"
      using Cons.prems(3) e by (intro poke_offset) simp
    have p2: "poke ?m1 (int k + uint (w + 1)) v = Inr (?m1[k + unat w + 1 := v])"
      using Cons.prems(3) e w poke_offset [of k "w + 1" ?m1 v] by simp
    have m2: "?m1[k + unat w + 1 := v] = ?m2"
      using Cons.prems(3) e blit_blit [of "k + unat w" "[ESC_SLIP_OCTET]" "[v]" mem]
      by (simp add: update_eq_blit)
    have ih: "slip_encode_loop bs ?m2 (int k) L (w + 1 + 1) =
        Inr (ucast (w + 1 + 1 + of_nat (length (escape bs))), blit ?m2 (k + unat (w + 1 + 1)) (escape bs))"
      using Cons.prems e w2 by (intro Cons.IH) simp_all
    have fin: "blit ?m2 (k + unat (w + 1 + 1)) (escape bs) = blit mem (k + unat w) (escape (b # bs))"
      using Cons.prems(3) e w2 blit_blit [of "k + unat w" "[ESC_SLIP_OCTET, v]" "escape bs" mem] by simp
    show ?thesis
      using special Cons.prems(2) e w p1 p2 m2 ih fin
      by (simp add: le_ucast_u8 v_def [symmetric] add.assoc)
  next
    case plain: False
    then have e: "escape1 b = [b]" by (auto simp: escape1.simps)
    have w: "unat (w + 1) = Suc (unat w)" using Cons.prems(1) e by (intro unat_u8_Suc) simp
    let ?m1 = "blit mem (k + unat w) [b]"
    have p1: "poke mem (int k + uint w) b = Inr ?m1"
      using Cons.prems(3) e poke_offset [of k w mem b] by (simp add: update_eq_blit)
    have ih: "slip_encode_loop bs ?m1 (int k) L (w + 1) =
        Inr (ucast (w + 1 + of_nat (length (escape bs))), blit ?m1 (k + unat (w + 1)) (escape bs))"
      using Cons.prems e w by (intro Cons.IH) simp_all
    have fin: "blit ?m1 (k + unat (w + 1)) (escape bs) = blit mem (k + unat w) (escape (b # bs))"
      using Cons.prems(3) e w blit_blit [of "k + unat w" "[b]" "escape bs" mem] by simp
    show ?thesis
      using plain Cons.prems(2) e w p1 ih fin by (simp add: le_ucast_u8 add.assoc)
  qed
qed

definition crc16 :: "u8 list \<Rightarrow> u16" where
  "crc16 bs = foldl crc_step 0xffff bs"

definition slip_frame :: "u8 list \<Rightarrow> u8 list" where
  "slip_frame bs = escape (bs @ uint16_encode_le (crc16 bs))"

lemma crc_fromBuffer_all [simp]: "crc_fromBuffer bs (length bs) = Inr (crc16 bs)"
  by (simp add: crc_fromBuffer_def crc16_def)

lemma sint_ucast_u8 [simp]: "sint (ucast (w :: u8) :: u32) = int (unat w)"
proof -
  have "uint (ucast w :: u32) = int (unat w)"
    by (metis uint_nat unat_ucast_u8_u32)
  moreover have "signed_take_bit 31 (int n) = int n" if "n < 256" for n
    using that by (intro signed_take_bit_int_eq_self) simp_all
  moreover have "LENGTH(32) - Suc 0 = 31" by simp
  ultimately show ?thesis unfolding sint_uint by (simp only: unat_u8_less One_nat_def)
qed

lemma slip_encode_buffer_correct:
  assumes "length (escape bs) < 256" "length (escape bs) \<le> unat L"
    and "k + length (escape bs) \<le> length mem"
  shows "slip_encode_buffer bs mem (int k) L =
           Inr (ucast (of_nat (length (escape bs)) :: u8), blit mem k (escape bs))"
  using slip_encode_loop_correct [of 0 bs L k mem] assms by (simp add: slip_encode_buffer_def)

lemma slip_encode_crc_correct:
  assumes "t + length (escape bs) \<le> unat L" "k + t + length (escape bs) \<le> length mem"
    and "bs = map (\<lambda>i. ucast (drop_bit (8 * i) crc AND 0xff)) is"
  shows "slip_encode_crc is crc mem (int k) L (int t) =
           Inr (int (t + length (escape bs)), blit mem (k + t) (escape bs))"
  using assms
proof (induction "is" arbitrary: bs mem t)
  case Nil
  then show ?case by simp
next
  case (Cons i "is")
  define b where "b = (ucast (drop_bit (8 * i) crc AND 0xff) :: u8)"
  define cs where "cs = map (\<lambda>i. ucast (drop_bit (8 * i) crc AND 0xff) :: u8) is"
  let ?n = "length (escape1 b)"
  have n: "?n \<le> 2" by (simp add: escape1.simps)
  have bs: "bs = b # cs" using Cons.prems(3) by (simp add: b_def cs_def)
  have L: "unat (L - of_nat t) = unat L - t"
  proof -
    have "t \<le> unat L" using Cons.prems(1) by simp
    then have "unat (of_nat t :: u32) = t"
      using unsigned_less [of L, where 'a = nat] by (intro unat_of_nat_u32) simp
    with \<open>t \<le> unat L\<close> show ?thesis by (simp add: unat_sub word_le_nat_alt)
  qed
  have 1: "slip_encode_buffer [b] mem (int (k + t)) (L - of_nat t) =
             Inr (ucast (of_nat ?n :: u8), blit mem (k + t) (escape1 b))"
    using Cons.prems n bs L slip_encode_buffer_correct [of "[b]" "L - of_nat t" "k + t" mem]
    by simp
  have 2: "slip_encode_crc is crc (blit mem (k + t) (escape1 b)) (int k) L (int (t + ?n)) =
     Inr (int (t + ?n + length (escape cs)), blit (blit mem (k + t) (escape1 b)) (k + (t + ?n)) (escape cs))"
    using Cons.prems bs by (intro Cons.IH) (simp_all add: cs_def)
  have "unat (of_nat ?n :: u8) = ?n" using n by (intro unat_of_nat_u8) simp
  then show ?case
    using 1 2 bs Cons.prems(2) blit_blit [of "k + t" "escape1 b" "escape cs" mem]
    by (simp add: b_def [symmetric] Let_def add.assoc)
qed

lemma crc_bytes: "map (\<lambda>i. ucast (drop_bit (8 * i) crc AND 0xff)) [0, 1] = uint16_encode_le crc"
proof -
  have m: "(0xff :: u16) = mask 8" by (simp add: mask_eq_exp_minus_1)
  show ?thesis
    unfolding m by (simp add: uint16_encode_le_bytes ucast_take_bit_8 flip: take_bit_eq_mask)
qed

lemma Slip_encode_correct:
  assumes "length (escape bs) < 256" "length (slip_frame bs) \<le> unat L"
    and "k + length (slip_frame bs) \<le> length mem"
  shows "Slip_encode bs mem (int k) L =
           Inr (int (length (slip_frame bs)), blit mem k (slip_frame bs))"
proof -
  let ?c = "uint16_encode_le (crc16 bs)" and ?n = "length (escape bs)"
  have 1: "slip_encode_buffer bs mem (int k) L = Inr (ucast (of_nat ?n :: u8), blit mem k (escape bs))"
    using assms by (intro slip_encode_buffer_correct) (simp_all add: slip_frame_def)
  have 2: "slip_encode_crc [0, 1] (crc16 bs) (blit mem k (escape bs)) (int k) L (int ?n) =
     Inr (int (?n + length (escape ?c)), blit (blit mem k (escape bs)) (k + ?n) (escape ?c))"
    using assms by (intro slip_encode_crc_correct) (simp_all add: slip_frame_def crc_bytes [symmetric])
  have "unat (of_nat ?n :: u8) = ?n" using assms(1) by (rule unat_of_nat_u8)
  then show ?thesis
    using 1 2 assms(3) blit_blit [of k "escape bs" "escape ?c" mem]
    by (simp add: Slip_encode_def slip_frame_def)
qed

lemma slip_frame_bounds: "length bs + 2 \<le> length (slip_frame bs)" "length (slip_frame bs) \<le> 2 * length bs + 4"
  using length_escape_bounds [of "bs @ uint16_encode_le (crc16 bs)"] by (simp_all add: slip_frame_def)

definition wire_frame :: "u8 list \<Rightarrow> u8 list" where
  "wire_frame bs = replicate 3 END_SLIP_OCTET @ slip_frame bs @ [END_SLIP_OCTET]"

lemma encode_for_sending_correct:
  assumes "length (escape bs) < 256" "length (slip_frame bs) \<le> 2 * length bs + 2"
  shows "encode_for_sending bs = Inr (wire_frame bs)"
proof -
  let ?n = "length bs" and ?f = "slip_frame bs"
  define cap where "cap = 2 * ?n + 2 + 4"
  define mem where "mem = (replicate cap (0 :: u8))[0 := END_SLIP_OCTET, 1 := END_SLIP_OCTET, 2 := END_SLIP_OCTET]"
  have len: "length mem = cap" by (simp add: mem_def)
  have t3: "take 3 mem = replicate 3 END_SLIP_OCTET"
    by (simp add: mem_def cap_def numeral_eq_Suc)
  have n: "?n < 256" using assms(1) length_escape_bounds(1) [of bs] by simp
  then have L: "unat (of_nat (cap - 3) :: u32) = cap - 3"
    by (intro unat_of_nat_u32) (simp add: cap_def)
  have e: "Slip_encode bs mem 3 (of_nat (cap - 3)) = Inr (int (length ?f), blit mem 3 ?f)"
    using Slip_encode_correct [of bs "of_nat (cap - 3)" 3 mem] assms L len by (simp add: cap_def)
  have p: "poke (blit mem 3 ?f) (int (length ?f) + 3) END_SLIP_OCTET
      = Inr ((blit mem 3 ?f)[length ?f + 3 := END_SLIP_OCTET])"
    using assms len by (intro poke_at) (simp_all add: cap_def)
  have "take (length ?f + 4) ((blit mem 3 ?f)[length ?f + 3 := END_SLIP_OCTET]) = wire_frame bs"
    using assms len t3 take_list_update_append [of "length ?f + 3" "blit mem 3 ?f" END_SLIP_OCTET]
      take_blit [of 3 ?f mem] by (simp add: wire_frame_def cap_def add.commute)
  moreover have "nat (int (length ?f) + 4) = length ?f + 4" by simp
  ultimately show ?thesis
    unfolding encode_for_sending_def MAX_SIZE_ENCODED_BUFFER_def Let_def
      cap_def [symmetric] mem_def [symmetric]
    using e p by (simp only: sum.case prod.case)
qed

lemma Slip_decode_unfold:
  assumes "slip_decode_buffer raw (length raw) = Inr (w, buf)" "unat w = n + 2"
  shows "Slip_decode raw =
     (case crc_fromBuffer buf n of Inl e \<Rightarrow> Inl e
      | Inr crc \<Rightarrow>
        (case uint16_decode_le (drop n buf) of Inl e \<Rightarrow> Inl e
         | Inr crc_from_frame \<Rightarrow>
           if crc \<noteq> crc_from_frame then
             if crc_from_frame = 0xFFFF then Inr (WPC_INT_WRONG_CRC_FROM_HOST, buf)
             else Inr (WPC_INT_WRONG_CRC, buf)
           else Inr (int n, buf)))"
proof -
  have "n < 256" using assms(2) unat_u8_less [of w] by linarith
  then have "unat (of_nat n :: u32) = n" by (intro unat_of_nat_u32) simp
  then have n: "unat (word_of_int (int n) :: u32) = n" by simp
  have i: "int (n + 2) - 2 = int n" by simp
  show ?thesis
    unfolding Slip_decode_def assms Let_def sum.case prod.case i n nat_int by (rule refl)
qed

lemma Slip_decode_correct:
  assumes "length bs + 2 < 256"
  shows "\<exists>buf. Slip_decode (slip_frame bs) = Inr (int (length bs), buf) \<and> take (length bs) buf = bs"
proof -
  let ?c = "uint16_encode_le (crc16 bs)" and ?n = "length bs" and ?f = "slip_frame bs"
  have "unescape (drop 0 ?f) = Some (bs @ ?c)" by (simp only: slip_frame_def unescape_escape drop_0)
  from slip_decode_loop_correct [OF this refl, of 0] assms obtain buf where
    d: "slip_decode_buffer ?f (length ?f) = Inr (of_nat (?n + 2), buf)" and
    len: "length buf = length ?f" and t: "take (?n + 2) buf = bs @ ?c"
    by (auto simp: slip_decode_buffer_def)
  have u: "unat (of_nat (?n + 2) :: u8) = ?n + 2" using assms by (intro unat_of_nat_u8)
  have le: "?n + 2 \<le> length buf" using len slip_frame_bounds(1) [of bs] by simp
  have tn: "take ?n buf = bs"
    using arg_cong [OF t, of "take ?n"] by (simp add: min_def)
  have "buf = bs @ ?c @ drop (?n + 2) buf" using t by (metis append.assoc append_take_drop_id)
  then have dn: "drop ?n buf = ?c @ drop (?n + 2) buf" by (metis append_eq_conv_conj)
  have c: "crc_fromBuffer buf ?n = Inr (crc16 bs)"
    using le tn by (simp add: crc_fromBuffer_def crc16_def)
  have "uint16_decode_le (drop ?n buf) = Inr (crc16 bs)"
    unfolding dn by (rule le16.dec_enc)
  then show ?thesis
    using Slip_decode_unfold [OF d u] c tn by simp
qed

lemma receive_skip_noise:
  "END_SLIP_OCTET \<notin> set noise \<Longrightarrow>
   slip_receive_loop cap False raw (map (Pair 1) noise @ rx) = slip_receive_loop cap False raw rx"
  by (induction noise) auto

lemma receive_store:
  "END_SLIP_OCTET \<notin> set xs \<Longrightarrow> length raw + length xs \<le> cap \<Longrightarrow>
   slip_receive_loop cap True raw (map (Pair 1) xs @ rx) = slip_receive_loop cap True (raw @ xs) rx"
  by (induction xs arbitrary: raw) auto

lemma receive_wire_frame:
  assumes "2 \<le> length bs" "length (slip_frame bs) \<le> cap" "END_SLIP_OCTET \<notin> set noise"
  shows "slip_receive_loop cap False [] (map (Pair 1) (noise @ wire_frame bs) @ rx)
           = Inr ((None, slip_frame bs), rx)"
proof -
  have "4 \<le> length (slip_frame bs)" using assms(1) slip_frame_bounds(1) [of bs] by simp
  moreover have "slip_receive_loop cap True [] (map (Pair 1) (slip_frame bs) @ (1, END_SLIP_OCTET) # rx)
      = slip_receive_loop cap True ([] @ slip_frame bs) ((1, END_SLIP_OCTET) # rx)"
    using assms by (intro receive_store) (simp_all add: slip_frame_def END_notin_escape)
  ultimately show ?thesis
    using assms(3) by (simp add: wire_frame_def numeral_3_eq_3 receive_skip_noise)
qed

section \<open>Properties of the framing\<close>

text \<open>C10: End-to-end transport. A message whose escaped form has fewer than 256 bytes and in
  which, CRC included, not more than \<^verbatim>\<open>length bs\<close> bytes need an escape is sent with one
  call of the write function; when a receiver reads the written bytes after any noise without
  END octets, \<^verbatim>\<open>Slip_get_buffer\<close> returns its length and exactly its bytes, and leaves the rest
  of the line unread.\<close>

theorem slip_transport:
  assumes "2 \<le> length bs" "length bs \<le> 253" "length bs \<le> len"
    and "length (escape bs) < 256" "length (slip_frame bs) \<le> 2 * length bs + 2"
    and "END_SLIP_OCTET \<notin> set noise"
    and "io_wr s = int (length (wire_frame bs)) # wr"
    and "io_rx r = map (Pair 1) (noise @ wire_frame bs) @ rx"
  shows "Slip_send_buffer bs s = Inr (0, s\<lparr>io_wr := wr, io_tx := io_tx s @ [wire_frame bs]\<rparr>)
     \<and> Slip_get_buffer len timeout r = Inr ((int (length bs), Some bs),
           r\<lparr>io_rx := rx, io_waits := io_waits r @ [timeout]\<rparr>)"
proof -
  have e: "encode_for_sending bs = Inr (wire_frame bs)"
    using assms by (intro encode_for_sending_correct)
  have "Slip_send_buffer bs s = Inr (0, s\<lparr>io_wr := wr, io_tx := io_tx s @ [wire_frame bs]\<rparr>)"
    using e assms(7) by (simp add: Slip_send_buffer_def prog_simps write_function_def)
  moreover have "slip_receive_loop (MAX_SIZE_ENCODED_BUFFER len) False [] (io_rx r) = Inr ((None, slip_frame bs), rx)"
    unfolding assms(8) using assms
    by (intro receive_wire_frame) (simp_all add: MAX_SIZE_ENCODED_BUFFER_def)
  moreover obtain buf where "Slip_decode (slip_frame bs) = Inr (int (length bs), buf)"
    "take (length bs) buf = bs"
    using Slip_decode_correct [of bs] assms(2) by auto
  moreover have "0 < int (length bs)" using assms(1) by (cases bs) auto
  ultimately show ?thesis
    using assms(3) by (simp add: Slip_get_buffer_def receive_raw_def prog_simps)
qed

definition quiet_io :: io where
  "quiet_io = \<lparr>io_rx = [], io_wr = [], io_tx = [], io_clock = [], io_epoch = [], io_waits = []\<rparr>"

theorem slip_transport_witness:
  "Slip_get_buffer 206 500 (quiet_io\<lparr>io_rx := map (Pair 1) ([0, 7] @ wire_frame [0x04, 0xC0, 0x00])\<rparr>)
     = Inr ((3, Some [0x04, 0xC0, 0x00]), quiet_io\<lparr>io_waits := [500]\<rparr>)"
proof -
  let ?bs = "[0x04, 0xC0, 0x00] :: u8 list"
  let ?r = "quiet_io\<lparr>io_rx := map (Pair 1) ([0, 7] @ wire_frame ?bs) @ []\<rparr>"
  let ?s = "quiet_io\<lparr>io_wr := [int (length (wire_frame ?bs))]\<rparr>"
  have c: "length (slip_frame ?bs) \<le> 2 * length ?bs + 2"
    by (simp add: slip_frame_def escape1.simps crc16_def crc_step_def crc_ccitt_lut_def
        uint16_encode_le_def)
  have h: "2 \<le> length ?bs" "length ?bs \<le> 253" "length ?bs \<le> 206" "length (escape ?bs) < 256"
    "END_SLIP_OCTET \<notin> set ([0, 7] :: u8 list)" "io_wr ?s = int (length (wire_frame ?bs)) # []"
    "io_rx ?r = map (Pair 1) ([0, 7] @ wire_frame ?bs) @ []"
    by (simp_all add: escape1.simps)
  show ?thesis
    using slip_transport [OF h(1-4) c h(5-7), of 500] by (simp add: quiet_io_def)
qed

text \<open>C23: Whatever the message, the bytes between the END octets contain no END octet, so a
  receiver never sees a frame end early; and the escaped frame with its CRC has between
  \<^verbatim>\<open>n + 2\<close> and \<^verbatim>\<open>2 n + 4\<close> bytes.\<close>

theorem slip_frame_shape:
  assumes "length (escape bs) < 256" "length (slip_frame bs) \<le> unat L"
    and "k + length (slip_frame bs) \<le> length mem"
  shows "\<exists>mem'. Slip_encode bs mem (int k) L = Inr (int (length (slip_frame bs)), mem')
      \<and> take k mem' = take k mem
      \<and> END_SLIP_OCTET \<notin> set (take (length (slip_frame bs)) (drop k mem'))
      \<and> length bs + 2 \<le> length (slip_frame bs) \<and> length (slip_frame bs) \<le> 2 * length bs + 4"
  using Slip_encode_correct [OF assms] slip_frame_bounds [of bs] assms(3)
    END_notin_escape [of "bs @ uint16_encode_le (crc16 bs)"]
  by (simp add: blit_def slip_frame_def)

theorem slip_frame_shape_witness:
  "\<exists>mem'. Slip_encode [0x04] (replicate 8 0) (int 3) 5 = Inr (int (length (slip_frame [0x04])), mem')"
proof -
  have 1: "length (slip_frame [0x04]) = 3"
    by (simp add: slip_frame_def escape1.simps crc16_def crc_step_def crc_ccitt_lut_def
        uint16_encode_le_def)
  then show ?thesis
    using slip_frame_shape [of "[0x04]" 5 3 "replicate 8 0"] by (auto simp: escape1.simps)
qed

lemma slip_decode_loop_length:
  "slip_decode_loop buf len r w = Inr (w', buf') \<Longrightarrow> length buf' = length buf"
proof (induction buf len r w rule: slip_decode_loop.induct)
  case (1 buf len r w)
  from "1.prems" show ?case
    by (subst (asm) slip_decode_loop.simps)
       (auto split: if_splits sum.splits simp: poke_Inr dest: "1.IH" [rotated -1])
qed

lemma slip_decode_length: "Slip_decode raw = Inr (n, buf) \<Longrightarrow> length buf = length raw"
  by (auto simp: Slip_decode_def slip_decode_buffer_def Let_def
      split: sum.splits if_splits dest: slip_decode_loop_length)

lemma slip_decode_short:
  assumes "slip_decode_buffer raw (length raw) = Inr (w, buf)" "unat w < 2"
    and "length raw < 4294967294"
  shows "Slip_decode raw = Inl Undefined"
proof -
  have len: "length buf = length raw"
    using assms(1) by (simp add: slip_decode_buffer_def slip_decode_loop_length)
  have "unat w = unat (0 :: u8) \<or> unat w = unat (1 :: u8)" using assms(2) by auto
  then have "w = 0 \<or> w = 1" by (metis unsigned_word_eqI)
  then have "4294967294 \<le> unat (word_of_int (int (unat w) - 2) :: u32)"
    by (auto simp: unsigned_minus_1_eq_mask mask_eq_exp_minus_1)
  then have "crc_fromBuffer buf (unat (word_of_int (int (unat w) - 2) :: u32)) = Inl Undefined"
    using len assms(3) by (simp add: crc_fromBuffer_def)
  then show ?thesis unfolding Slip_decode_def assms(1) Let_def sum.case prod.case by simp
qed

lemma Slip_decode_accepts:
  assumes "Slip_decode raw = Inr (n, buf)" "0 \<le> n" "length raw < 4294967294"
  shows "nat n + 2 \<le> length raw \<and> n \<le> 253 \<and> length buf = length raw
           \<and> uint16_decode_le (drop (nat n) buf) = Inr (crc16 (take (nat n) buf))"
proof -
  obtain w b where d: "slip_decode_buffer raw (length raw) = Inr (w, b)"
    using assms(1) by (cases "slip_decode_buffer raw (length raw)") (auto simp: Slip_decode_def)
  have "\<not> unat w < 2" using slip_decode_short [OF d _ assms(3)] assms(1) by auto
  then obtain m where m: "unat w = m + 2" by (metis add.commute le_Suc_ex not_less)
  have "m \<le> 253" using m unat_u8_le [of w] by linarith
  moreover have "length b = length raw"
    using d by (simp add: slip_decode_buffer_def slip_decode_loop_length)
  moreover have "crc_fromBuffer b m = Inr (crc16 (take m b)) \<and> n = int m \<and> b = buf
      \<and> uint16_decode_le (drop m b) = Inr (crc16 (take m b))"
    using Slip_decode_unfold [OF d m] assms(1,2)
    by (auto simp: crc_fromBuffer_def crc16_def wpc_int_codes split: sum.splits if_splits)
  moreover have "m + 2 \<le> length b" if "uint16_decode_le (drop m b) = Inr x" for x
  proof (rule ccontr)
    assume "\<not> m + 2 \<le> length b"
    then have "uint16_decode_le (drop m b) = Inl Undefined" by (intro le16.dec_short) simp
    with that show False by simp
  qed
  ultimately show ?thesis by auto
qed

lemma Slip_decode_codes:
  assumes "Slip_decode raw = Inr (n, buf)" "length raw < 4294967294"
  shows "0 \<le> n \<or> n \<in> {WPC_INT_WRONG_CRC, WPC_INT_WRONG_CRC_FROM_HOST}"
proof -
  obtain w b where d: "slip_decode_buffer raw (length raw) = Inr (w, b)"
    using assms(1) by (cases "slip_decode_buffer raw (length raw)") (auto simp: Slip_decode_def)
  have "\<not> unat w < 2" using slip_decode_short [OF d _ assms(2)] assms(1) by auto
  then obtain m where m: "unat w = m + 2" by (metis add.commute le_Suc_ex not_less)
  show ?thesis using Slip_decode_unfold [OF d m] assms(1) by (auto split: sum.splits if_splits)
qed

text \<open>Integrity of what is accepted: when \<^verbatim>\<open>Slip_decode\<close> returns a length \<^verbatim>\<open>n\<close> (of a
  frame of realistic size), the buffer holds \<^verbatim>\<open>n\<close> message bytes followed by exactly their
  CRC, least significant byte first, and \<^verbatim>\<open>n\<close> is at most 253.\<close>

theorem Slip_decode_checks_crc:
  assumes "Slip_decode raw = Inr (n, buf)" "0 \<le> n" "length raw < 4294967294"
  shows "nat n + 2 \<le> length raw \<and> n \<le> 253
           \<and> uint16_decode_le (drop (nat n) buf) = Inr (crc16 (take (nat n) buf))"
  using Slip_decode_accepts [OF assms] by simp

theorem Slip_decode_checks_crc_witness:
  "\<exists>buf. Slip_decode (slip_frame [0x04, 0xC0]) = Inr (2, buf)
     \<and> uint16_decode_le (drop 2 buf) = Inr (crc16 (take 2 buf))"
proof -
  let ?f = "slip_frame [0x04, 0xC0]"
  obtain buf where b: "Slip_decode ?f = Inr (2, buf)"
    using Slip_decode_correct [of "[0x04, 0xC0]"] by auto
  have l: "length ?f < 4294967294" using slip_frame_bounds(2) [of "[0x04, 0xC0]"] by simp
  show ?thesis using Slip_decode_checks_crc [OF b _ l] b by auto
qed

lemma slip_decode_loop_plain:
  assumes "ESC_SLIP_OCTET \<notin> set (drop r buf)" "len = length buf" "r \<le> len" "unat w \<le> r"
  shows "\<exists>buf'. slip_decode_loop buf len r w = Inr (w + of_nat (len - r), buf')"
  using assms
proof (induction buf len r w rule: slip_decode_loop.induct)
  case (1 buf len r w)
  show ?case
  proof (cases "r < len")
    case False
    with "1.prems" have "r = len" by simp
    then show ?thesis by (subst slip_decode_loop.simps) simp
  next
    case True
    have pc: "peek buf (int r) = Inr (buf ! r)" using True "1.prems"(2) by (simp add: peek_at)
    have ne: "buf ! r \<noteq> ESC_SLIP_OCTET"
      using True "1.prems"(1,2) by (metis Cons_nth_drop_Suc list.set_intros(1))
    have pk: "poke buf (uint w) (buf ! r) = Inr (buf[unat w := buf ! r])"
      using True "1.prems" by (intro poke_uint) simp
    have "set (drop (Suc r) buf) \<subseteq> set (drop r buf)" by (rule set_drop_subset_set_drop) simp
    moreover have "unat (w + 1) \<le> Suc r"
      using "1.prems"(4) by (simp add: unat_word_ariths)
    ultimately have "\<exists>buf'. slip_decode_loop (buf[unat w := buf ! r]) len (Suc r) (w + 1)
        = Inr (w + 1 + of_nat (len - Suc r), buf')"
      using "1.prems" True by (intro "1.IH"(2) [OF True pc ne pk]) auto
    moreover have "of_nat (len - r) = 1 + (of_nat (len - Suc r) :: u8)"
      using True by (metis Suc_diff_Suc of_nat_Suc)
    ultimately show ?thesis
      using True pc ne pk by (simp add: slip_decode_loop.simps [of buf len r w] add.assoc)
  qed
qed

text \<open>The decoder's write index is 8 bits wide. A frame without escapes whose length is 0 or
  1 modulo 256 (256 or 257 bytes of line noise are enough) makes the decoded length wrap below 2,
  the CRC length become about 2^32, and the CRC run read outside the buffer.\<close>

theorem Slip_decode_wraps:
  assumes "ESC_SLIP_OCTET \<notin> set raw" "length raw mod 256 < 2" "length raw < 4294967294"
  shows "Slip_decode raw = Inl Undefined"
proof -
  obtain buf where d: "slip_decode_buffer raw (length raw) = Inr (of_nat (length raw), buf)"
    using slip_decode_loop_plain [of 0 raw "length raw" 0] assms(1)
    by (auto simp: slip_decode_buffer_def)
  have "unat (of_nat (length raw) :: u8) < 2"
    using assms(2) by (simp add: unat_of_nat)
  then show ?thesis using slip_decode_short [OF d] assms(3) by simp
qed

theorem Slip_decode_wraps_witness: "Slip_decode (replicate 256 0) = Inl Undefined"
proof -
  have "ESC_SLIP_OCTET \<notin> set (replicate 256 (0 :: u8))" by simp
  then show ?thesis using Slip_decode_wraps [of "replicate 256 0"] by simp
qed

lemma slip_encode_loop_wraps:
  assumes "256 \<le> unat L" "k + 256 \<le> length mem"
  shows "\<exists>mem'. slip_encode_loop bs mem (int k) L w
           = Inr (ucast (w + of_nat (length (escape bs))), mem')"
  using assms(2)
proof (induction bs arbitrary: mem w)
  case Nil
  then show ?case by simp
next
  case (Cons b bs)
  have L: "\<not> L \<le> ucast v" for v :: u8
    using assms(1) unat_u8_less [of v] unfolding le_ucast_u8 by linarith
  have p: "poke m (int k + uint v) x = Inr (m[k + unat v := x])"
    if "k + 256 \<le> length m" for m and v x :: u8
    using that unat_u8_less [of v] by (intro poke_offset) linarith
  show ?case
  proof (cases "b = END_SLIP_OCTET \<or> b = ESC_SLIP_OCTET")
    case True
    then have "length (escape1 b) = 2" by (auto simp: escape1.simps)
    then show ?thesis
      using True Cons p L Cons.IH [of "mem[k + unat w := ESC_SLIP_OCTET, k + unat (w + 1) :=
         (if b = END_SLIP_OCTET then END_SUBS_OCTET else ESC_SUBS_OCTET)]" "w + 1 + 1"]
      by (simp add: add.assoc)
  next
    case False
    then have "length (escape1 b) = 1" by (auto simp: escape1.simps)
    then show ?thesis
      using False Cons p L Cons.IH [of "mem[k + unat w := b]" "w + 1"]
      by (auto simp: add.assoc)
  qed
qed

text \<open>The encoder's write index is 8 bits wide too: with a buffer of at least 256 bytes (the
  one allocated for a message of 127 bytes or more), the size check never fires and the returned
  length is the escaped length modulo 256, so a message with 256 or more escaped bytes (128 END
  octets suffice) is silently cut, while every message with at most 127 bytes fits.\<close>

theorem slip_encode_buffer_wraps:
  assumes "127 \<le> length bs" "length bs < 65536" "length mem = MAX_SIZE_ENCODED_BUFFER (length bs)"
  shows "\<exists>mem'. slip_encode_buffer bs mem 3 (of_nat (MAX_SIZE_ENCODED_BUFFER (length bs) - 3))
           = Inr (of_nat (length (escape bs) mod 256), mem')"
proof -
  let ?L = "of_nat (MAX_SIZE_ENCODED_BUFFER (length bs) - 3) :: u32"
  have "unat ?L = MAX_SIZE_ENCODED_BUFFER (length bs) - 3"
    using assms(2) by (intro unat_of_nat_u32) (simp add: MAX_SIZE_ENCODED_BUFFER_def)
  then have "256 \<le> unat ?L" "3 + 256 \<le> length mem"
    using assms by (simp_all add: MAX_SIZE_ENCODED_BUFFER_def)
  from slip_encode_loop_wraps [OF this, of bs 0] obtain mem' where
    "slip_encode_buffer bs mem 3 ?L = Inr (ucast (of_nat (length (escape bs)) :: u8), mem')"
    by (auto simp: slip_encode_buffer_def)
  moreover have "(ucast (of_nat n :: u8) :: u32) = of_nat (n mod 256)" for n
  proof -
    have "unat (of_nat n :: u8) = n mod 256" by (simp add: unat_of_nat)
    then show ?thesis by (metis of_nat_unat)
  qed
  ultimately show ?thesis by auto
qed

theorem slip_encode_buffer_wraps_witness:
  "\<exists>mem'. slip_encode_buffer (replicate 128 0xC0) (replicate 262 0) 3 259 = Inr (0, mem')"
proof -
  have "length (escape (replicate n END_SLIP_OCTET)) = 2 * n" for n
    by (induction n) (simp_all add: escape1.simps)
  then show ?thesis
    using slip_encode_buffer_wraps [of "replicate 128 0xC0" "replicate 262 0"]
    by (simp add: MAX_SIZE_ENCODED_BUFFER_def)
qed

lemma slip_encode_loop_result:
  "slip_encode_loop bs mem base L w = Inr (r, mem') \<Longrightarrow>
     (\<exists>v :: u8. r = ucast v) \<or> r = word_of_int WPC_INT_WRONG_BUFFER_SIZE"
  by (induction bs arbitrary: mem w) (auto split: if_splits sum.splits)

text \<open>\<^verbatim>\<open>Slip_encode\<close> tests for \<^verbatim>\<open>-1\<close>, but the escaping routine reports a full buffer
  with \<^const>\<open>WPC_INT_WRONG_BUFFER_SIZE\<close>: for every message, buffer and claimed size, the value
  it returns read as an \<^verbatim>\<open>int\<close> is never \<^verbatim>\<open>-1\<close>, so a full buffer is never reported.\<close>

theorem slip_encode_overflow_undetected:
  assumes "slip_encode_buffer bs mem base L = Inr (r, mem')"
  shows "sint r \<noteq> -1 \<and> (sint r = WPC_INT_WRONG_BUFFER_SIZE \<or> (0 \<le> sint r \<and> sint r < 256))"
proof -
  have "sint (word_of_int WPC_INT_WRONG_BUFFER_SIZE :: u32) = WPC_INT_WRONG_BUFFER_SIZE"
    by (simp add: WPC_INT_WRONG_BUFFER_SIZE_def)
  then have "sint r = WPC_INT_WRONG_BUFFER_SIZE \<or> (0 \<le> sint r \<and> sint r < 256)"
    using slip_encode_loop_result [OF assms [unfolded slip_encode_buffer_def]] unat_u8_less
    by (auto simp del: unat_u8_less simp flip: of_nat_less_iff [where 'a = int])
  then show ?thesis by (auto simp: WPC_INT_WRONG_BUFFER_SIZE_def)
qed

theorem slip_encode_overflow_undetected_witness:
  "\<exists>r m. slip_encode_buffer [0xC0] [0] 0 1 = Inr (r, m) \<and> sint r = -6 \<and> sint r \<noteq> -1"
proof -
  have e: "slip_encode_buffer [0xC0] [0] 0 1 = Inr (word_of_int (-6), [0xDB])"
    by (simp add: slip_encode_buffer_def poke_def WPC_INT_WRONG_BUFFER_SIZE_def)
  have "sint (word_of_int (-6) :: u32) = -6" by simp
  with slip_encode_overflow_undetected [OF e] e show ?thesis by blast
qed

lemma slip_receive_loop_sound:
  "END_SLIP_OCTET \<notin> set raw \<Longrightarrow> length raw \<le> cap \<Longrightarrow>
   slip_receive_loop cap started raw rx = Inr ((err, frame), rest) \<Longrightarrow>
     err \<in> {None, Some WPC_INT_TIMEOUT_ERROR} \<and> length frame \<le> cap
     \<and> END_SLIP_OCTET \<notin> set frame \<and> (err = None \<longrightarrow> 4 \<le> length frame)"
  by (induction cap started raw rx rule: slip_receive_loop.induct) (auto split: if_splits)

text \<open>The receive loop checks the size after storing: the only error it ever returns is the
  timeout, never the "too much bytes" error, because a byte that exceeds the buffer is stored
  outside it first (undefined behaviour); every frame it does return fits the buffer, has at
  least 4 bytes and no END octet.\<close>

theorem slip_receive_loop_outcomes:
  assumes "END_SLIP_OCTET \<notin> set raw" "length raw \<le> cap"
  shows "(\<forall>err frame rest. slip_receive_loop cap started raw rx = Inr ((err, frame), rest) \<longrightarrow>
           err \<in> {None, Some WPC_INT_TIMEOUT_ERROR} \<and> length frame \<le> cap
           \<and> END_SLIP_OCTET \<notin> set frame \<and> (err = None \<longrightarrow> 4 \<le> length frame))
     \<and> (length raw = cap \<and> c \<noteq> END_SLIP_OCTET \<longrightarrow>
           slip_receive_loop cap True raw ((1, c) # rx) = Inl Undefined)"
  using slip_receive_loop_sound [OF assms] by auto

theorem slip_receive_loop_outcomes_witness:
  "slip_receive_loop 418 True (replicate 418 0) [(1, 7)] = Inl Undefined
     \<and> (\<exists>err frame rest. slip_receive_loop 418 False [] [(0, 0)] = Inr ((err, frame), rest)
          \<and> err = Some WPC_INT_TIMEOUT_ERROR)"
  using slip_receive_loop_outcomes [of "replicate 418 0" 418 False "[]" 7]
    slip_receive_loop_outcomes [of "[]" 418 False "[(0, 0)]" 7]
  by simp

section \<open>What a received frame looks like\<close>

lemma Slip_get_buffer_result:
  assumes "Slip_get_buffer len timeout s = Inr ((n, copied), t)" "len \<le> 1000"
  shows "(n < 0 \<longrightarrow> copied = None
           \<and> n \<in> {WPC_INT_TIMEOUT_ERROR, WPC_INT_WRONG_CRC, WPC_INT_WRONG_CRC_FROM_HOST})
     \<and> n \<le> 253
     \<and> (\<forall>bs. copied = Some bs \<longrightarrow> bs \<noteq> [] \<and> n = int (length bs) \<and> length bs \<le> len)"
proof -
  obtain err raw r where raw: "slip_receive_loop (MAX_SIZE_ENCODED_BUFFER len) False [] (io_rx s)
      = Inr ((err, raw), r)"
    and res: "(case err of Some e \<Rightarrow> (n, copied) = (e, None)
      | None \<Rightarrow> (\<exists>buf. Slip_decode raw = Inr (n, buf) \<and> copied =
          (if n > 0 \<and> n \<le> int len then Some (take (nat n) buf) else None)))"
    using assms(1) by (auto simp: Slip_get_buffer_def receive_raw_def prog_simps
        split: sum.splits prod.splits option.splits)
  note o = slip_receive_loop_sound [OF _ _ raw, simplified]
  show ?thesis
  proof (cases err)
    case (Some e)
    with o res show ?thesis by (auto simp: wpc_int_codes)
  next
    case None
    then obtain buf where d: "Slip_decode raw = Inr (n, buf)"
      and c: "copied = (if n > 0 \<and> n \<le> int len then Some (take (nat n) buf) else None)"
      using res by auto
    have l: "length raw < 4294967294" using o assms(2) by (simp add: MAX_SIZE_ENCODED_BUFFER_def)
    show ?thesis
    proof (cases "0 \<le> n")
      case True
      from Slip_decode_accepts [OF d True l] c True show ?thesis by (auto split: if_splits)
    next
      case False
      with Slip_decode_codes [OF d l] c show ?thesis by (auto simp: wpc_int_codes)
    qed
  qed
qed

end
