(* ===== verification/Frame.thy ===== *)
theory Frame
  imports Slip
begin

text \<open>
  The frames that the host and the node exchange: the constants of
  \<^verbatim>\<open>lib/wpc/include/wpc_constants.h\<close> and the packed structure \<^verbatim>\<open>wpc_frame_t\<close> of
  \<^verbatim>\<open>lib/wpc/include/wpc_types.h\<close>. A frame under construction is a record; its payload is the list
  of the payload bytes that have been filled in. A received frame is the list of its bytes.
\<close>

section \<open>Primitive identifiers and sizes\<close>

definition SAP_CONFIRM_OFFSET :: u8 where "SAP_CONFIRM_OFFSET = 0x80"
definition SAP_RESPONSE_OFFSET :: u8 where "SAP_RESPONSE_OFFSET = 0x80"
definition DSAP_DATA_TX_REQUEST :: u8 where "DSAP_DATA_TX_REQUEST = 0x01"
definition DSAP_DATA_TX_TT_REQUEST :: u8 where "DSAP_DATA_TX_TT_REQUEST = 0x1f"
definition DSAP_DATA_TX_FRAG_REQUEST :: u8 where "DSAP_DATA_TX_FRAG_REQUEST = 0x0f"
definition DSAP_DATA_TX_INDICATION :: u8 where "DSAP_DATA_TX_INDICATION = 0x02"
definition DSAP_DATA_RX_INDICATION :: u8 where "DSAP_DATA_RX_INDICATION = 0x03"
definition DSAP_DATA_RX_FRAG_INDICATION :: u8 where "DSAP_DATA_RX_FRAG_INDICATION = 0x10"
definition MSAP_INDICATION_POLL_REQUEST :: u8 where "MSAP_INDICATION_POLL_REQUEST = 0x04"
definition MSAP_STACK_START_REQUEST :: u8 where "MSAP_STACK_START_REQUEST = 0x05"
definition MSAP_STACK_STOP_REQUEST :: u8 where "MSAP_STACK_STOP_REQUEST = 0x06"
definition MSAP_STACK_STATE_INDICATION :: u8 where "MSAP_STACK_STATE_INDICATION = 0x07"
definition MSAP_APP_CONFIG_DATA_WRITE_REQUEST :: u8 where "MSAP_APP_CONFIG_DATA_WRITE_REQUEST = 0x3a"
definition MSAP_APP_CONFIG_DATA_READ_REQUEST :: u8 where "MSAP_APP_CONFIG_DATA_READ_REQUEST = 0x3b"
definition MSAP_APP_CONFIG_DATA_RX_INDICATION :: u8 where "MSAP_APP_CONFIG_DATA_RX_INDICATION = 0x3f"
definition MSAP_ATTRIBUTE_WRITE_REQUEST :: u8 where "MSAP_ATTRIBUTE_WRITE_REQUEST = 0x0b"
definition MSAP_ATTRIBUTE_READ_REQUEST :: u8 where "MSAP_ATTRIBUTE_READ_REQUEST = 0x0c"
definition MSAP_SCRATCH_START_REQUEST :: u8 where "MSAP_SCRATCH_START_REQUEST = 0x17"
definition MSAP_SCRATCH_BLOCK_REQUEST :: u8 where "MSAP_SCRATCH_BLOCK_REQUEST = 0x18"
definition MSAP_SCRATCH_STATUS_REQUEST :: u8 where "MSAP_SCRATCH_STATUS_REQUEST = 0x19"
definition MSAP_SCRATCH_UPDATE_REQUEST :: u8 where "MSAP_SCRATCH_UPDATE_REQUEST = 0x1a"
definition MSAP_SCRATCH_CLEAR_REQUEST :: u8 where "MSAP_SCRATCH_CLEAR_REQUEST = 0x1b"
definition MSAP_GET_NBORS_REQUEST :: u8 where "MSAP_GET_NBORS_REQUEST = 0x20"
definition MSAP_SCAN_NBORS_REQUEST :: u8 where "MSAP_SCAN_NBORS_REQUEST = 0x21"
definition MSAP_SCAN_NBORS_INDICATION :: u8 where "MSAP_SCAN_NBORS_INDICATION = 0x22"
definition MSAP_SINK_COST_WRITE_REQUEST :: u8 where "MSAP_SINK_COST_WRITE_REQUEST = 0x38"
definition MSAP_SINK_COST_READ_REQUEST :: u8 where "MSAP_SINK_COST_READ_REQUEST = 0x39"
definition MSAP_SCRATCH_TARGET_WRITE_REQUEST :: u8 where "MSAP_SCRATCH_TARGET_WRITE_REQUEST = 0x26"
definition MSAP_SCRATCH_TARGET_READ_REQUEST :: u8 where "MSAP_SCRATCH_TARGET_READ_REQUEST = 0x27"
definition MSAP_SCRATCH_BLOCK_READ_REQUEST :: u8 where "MSAP_SCRATCH_BLOCK_READ_REQUEST = 0x28"
definition MSAP_CONFIG_DATA_ITEM_SET_REQUEST :: u8 where "MSAP_CONFIG_DATA_ITEM_SET_REQUEST = 0x29"
definition MSAP_CONFIG_DATA_ITEM_GET_REQUEST :: u8 where "MSAP_CONFIG_DATA_ITEM_GET_REQUEST = 0x30"
definition MSAP_CONFIG_DATA_ITEM_RX_INDICATION :: u8 where "MSAP_CONFIG_DATA_ITEM_RX_INDICATION = 0x31"
definition MSAP_CONFIG_DATA_ITEM_LIST_ITEMS_REQUEST :: u8 where "MSAP_CONFIG_DATA_ITEM_LIST_ITEMS_REQUEST = 0x32"
definition CSAP_ATTRIBUTE_WRITE_REQUEST :: u8 where "CSAP_ATTRIBUTE_WRITE_REQUEST = 0x0d"
definition CSAP_ATTRIBUTE_READ_REQUEST :: u8 where "CSAP_ATTRIBUTE_READ_REQUEST = 0x0e"
definition CSAP_FACTORY_RESET_REQUEST :: u8 where "CSAP_FACTORY_RESET_REQUEST = 0x16"

lemmas primitive_ids =
  SAP_CONFIRM_OFFSET_def SAP_RESPONSE_OFFSET_def
  DSAP_DATA_TX_REQUEST_def
  DSAP_DATA_TX_TT_REQUEST_def
  DSAP_DATA_TX_FRAG_REQUEST_def
  DSAP_DATA_TX_INDICATION_def
  DSAP_DATA_RX_INDICATION_def
  DSAP_DATA_RX_FRAG_INDICATION_def
  MSAP_INDICATION_POLL_REQUEST_def
  MSAP_STACK_START_REQUEST_def
  MSAP_STACK_STOP_REQUEST_def
  MSAP_STACK_STATE_INDICATION_def
  MSAP_APP_CONFIG_DATA_WRITE_REQUEST_def
  MSAP_APP_CONFIG_DATA_READ_REQUEST_def
  MSAP_APP_CONFIG_DATA_RX_INDICATION_def
  MSAP_ATTRIBUTE_WRITE_REQUEST_def
  MSAP_ATTRIBUTE_READ_REQUEST_def
  MSAP_SCRATCH_START_REQUEST_def
  MSAP_SCRATCH_BLOCK_REQUEST_def
  MSAP_SCRATCH_STATUS_REQUEST_def
  MSAP_SCRATCH_UPDATE_REQUEST_def
  MSAP_SCRATCH_CLEAR_REQUEST_def
  MSAP_GET_NBORS_REQUEST_def
  MSAP_SCAN_NBORS_REQUEST_def
  MSAP_SCAN_NBORS_INDICATION_def
  MSAP_SINK_COST_WRITE_REQUEST_def
  MSAP_SINK_COST_READ_REQUEST_def
  MSAP_SCRATCH_TARGET_WRITE_REQUEST_def
  MSAP_SCRATCH_TARGET_READ_REQUEST_def
  MSAP_SCRATCH_BLOCK_READ_REQUEST_def
  MSAP_CONFIG_DATA_ITEM_SET_REQUEST_def
  MSAP_CONFIG_DATA_ITEM_GET_REQUEST_def
  MSAP_CONFIG_DATA_ITEM_RX_INDICATION_def
  MSAP_CONFIG_DATA_ITEM_LIST_ITEMS_REQUEST_def
  CSAP_ATTRIBUTE_WRITE_REQUEST_def
  CSAP_ATTRIBUTE_READ_REQUEST_def
  CSAP_FACTORY_RESET_REQUEST_def

definition MAX_SENT_PACKET_WITH_INDICATION :: nat where "MAX_SENT_PACKET_WITH_INDICATION = 16"
definition MAX_APDU_DSAP_SIZE :: nat where "MAX_APDU_DSAP_SIZE = 180"
definition DEFAULT_MTU_SIZE :: u8 where "DEFAULT_MTU_SIZE = 102"
definition MAX_FULL_PACKET_SIZE :: nat where "MAX_FULL_PACKET_SIZE = 1500"
definition MAXIMUM_CDC_ITEM_PAYLOAD_SIZE :: nat where "MAXIMUM_CDC_ITEM_PAYLOAD_SIZE = 80"
definition MAXIMUM_CDC_ITEM_LIST_BYTE_COUNT :: nat where "MAXIMUM_CDC_ITEM_LIST_BYTE_COUNT = 32"

lemmas size_constants =
  MAX_SENT_PACKET_WITH_INDICATION_def MAX_APDU_DSAP_SIZE_def DEFAULT_MTU_SIZE_def
  MAX_FULL_PACKET_SIZE_def MAXIMUM_CDC_ITEM_PAYLOAD_SIZE_def MAXIMUM_CDC_ITEM_LIST_BYTE_COUNT_def

section \<open>Frames\<close>

record wpc_frame =
  primitive_id :: u8
  frame_id :: u8
  payload_length :: u8
  payload :: "u8 list"

text \<open>
  The largest member of the payload union is the received fragment indication with 201 bytes,
  so the packed frame has 204 bytes; the receive buffer has room for a CRC behind it.
\<close>

definition SIZEOF_FRAME :: nat where "SIZEOF_FRAME = 3 + (21 + MAX_APDU_DSAP_SIZE)"
definition MAX_FRAME_SIZE :: nat where "MAX_FRAME_SIZE = SIZEOF_FRAME + 2"

lemma frame_sizes [simp]: "SIZEOF_FRAME = 204" "MAX_FRAME_SIZE = 206"
  by (simp_all add: SIZEOF_FRAME_def MAX_FRAME_SIZE_def MAX_APDU_DSAP_SIZE_def)

definition frame_bytes :: "wpc_frame \<Rightarrow> u8 list" where
  "frame_bytes f = primitive_id f # frame_id f # payload_length f # payload f"

text \<open>A request whose payload fields have all been filled in before it is sent, and that fits the
  frame structure.\<close>

definition request_filled :: "wpc_frame \<Rightarrow> bool" where
  "request_filled f \<longleftrightarrow> length (payload f) = unat (payload_length f) \<and> length (payload f) \<le> 201"

definition new_request :: "u8 \<Rightarrow> u8 \<Rightarrow> u8 list \<Rightarrow> wpc_frame" where
  "new_request prim len bytes =
     \<lparr>primitive_id = prim, frame_id = 0, payload_length = len, payload = bytes\<rparr>"

text \<open>
  Reading multi-byte fields of an object, given by its initialised prefix, and access to a payload
  field of a received frame by its offset in the payload. \<^verbatim>\<open>memcpy\<close> out of such an object copies the
  part of it that is initialised; only the use of a missing byte is \<^const>\<open>Indeterminate\<close>.
\<close>

definition obj_u16 :: "u8 list \<Rightarrow> nat \<Rightarrow> stop + u16" where
  "obj_u16 obj i = (case bytes_at obj i 2 of Inl e \<Rightarrow> Inl e | Inr bs \<Rightarrow> host_load16 bs)"

definition obj_u32 :: "u8 list \<Rightarrow> nat \<Rightarrow> stop + u32" where
  "obj_u32 obj i = (case bytes_at obj i 4 of Inl e \<Rightarrow> Inl e | Inr bs \<Rightarrow> host_load32 bs)"

definition pl_u8 :: "u8 list \<Rightarrow> nat \<Rightarrow> stop + u8" where
  "pl_u8 frame i = byte_at frame (3 + i)"

definition pl_copy :: "u8 list \<Rightarrow> nat \<Rightarrow> nat \<Rightarrow> u8 list" where
  "pl_copy frame i n = take n (drop (3 + i) frame)"

definition pl_u16 :: "u8 list \<Rightarrow> nat \<Rightarrow> stop + u16" where
  "pl_u16 frame i = obj_u16 frame (3 + i)"

definition pl_u32 :: "u8 list \<Rightarrow> nat \<Rightarrow> stop + u32" where
  "pl_u32 frame i = obj_u32 frame (3 + i)"

lemma new_request_select [simp]:
  "primitive_id (new_request p l bs) = p" "payload_length (new_request p l bs) = l"
  "payload (new_request p l bs) = bs" "frame_id (new_request p l bs) = 0"
  by (simp_all add: new_request_def)

lemma length_frame_bytes [simp]: "length (frame_bytes f) = 3 + length (payload f)"
  by (simp add: frame_bytes_def)

end
