(* ===== verification/Wpc_Internal.thy ===== *)
theory Wpc_Internal
  imports Slip Frame
begin

text \<open>
  The request and indication engine of \<^verbatim>\<open>lib/wpc/wpc_internal.c\<close>: sending a request and waiting
  for the confirm that belongs to it (with the retransmission after a CRC error on the way to the
  node and the search for the right confirm among stale frames), polling for indications and
  answering them, the watchdog that ends the process when the node stays silent, and the mutual
  exclusion of requests of \<^verbatim>\<open>lib/platform/linux/platform.c\<close>.

  The static variables of the file are the fields of the record \<^verbatim>\<open>wpc_int\<close>, which extends
  the state of the serial line. A confirm is the initialised prefix of the caller's
  \<^verbatim>\<open>wpc_frame_t\<close>; it is empty when the function returns an error.

  The field \<open>close_returns\<close> is an input like the readings of the clocks: whether \<^verbatim>\<open>Platform_close\<close>, called
  from here, returns. That depends on the threads that it joins. The theory \<^verbatim>\<open>Platform\<close> has its steps: there a
  close from another thread that returns has found the queue empty and both threads at their ends, one from the polling
  thread waits for the dispatching thread only, and one that comes before the first store of the polling
  thread or from a callback waits for ever.
\<close>

section \<open>State and the platform's lock and clocks\<close>

record wpc_int = io +
  m_locked :: bool
  req_frame_id :: u8
  m_last_successful_answer_ts :: u64
  m_timeout_no_answer_ms :: u32
  m_mtu :: u32
  m_disabled_poll_request :: bool
  close_returns :: bool

definition TIMEOUT_INDICATION_MS :: u16 where "TIMEOUT_INDICATION_MS = 500"
definition TIMEOUT_CONFIRM_MS :: u16 where "TIMEOUT_CONFIRM_MS = 500"
definition MAX_CONFIRM_ATTEMPT :: nat where "MAX_CONFIRM_ATTEMPT = 50"
definition MAX_CRC_REQUEST_ERROR_RETRIES :: nat where "MAX_CRC_REQUEST_ERROR_RETRIES = 3"
definition DEFAULT_MAX_POLL_FAIL_DURATION_MS :: u32 where
  "DEFAULT_MAX_POLL_FAIL_DURATION_MS = 60 * 1000"

lemmas engine_constants =
  TIMEOUT_INDICATION_MS_def TIMEOUT_CONFIRM_MS_def MAX_CONFIRM_ATTEMPT_def
  MAX_CRC_REQUEST_ERROR_RETRIES_def DEFAULT_MAX_POLL_FAIL_DURATION_MS_def

text \<open>The request mutex checks for errors: locking it again from the thread that holds it fails,
  and the caller goes on.\<close>

definition Platform_lock_request :: "('z wpc_int_scheme, bool) prog" where
  "Platform_lock_request s =
     (if m_locked s then Inr (False, s) else Inr (True, s\<lparr>m_locked := True\<rparr>))"

definition Platform_unlock_request :: "('z wpc_int_scheme, unit) prog" where
  "Platform_unlock_request = modify (\<lambda>s. s\<lparr>m_locked := False\<rparr>)"

definition Platform_get_timestamp_ms_monotonic :: "('z wpc_int_scheme, u64) prog" where
  "Platform_get_timestamp_ms_monotonic s =
     (case io_clock s of [] \<Rightarrow> Inl Blocked | t # ts \<Rightarrow> Inr (t, s\<lparr>io_clock := ts\<rparr>))"

definition Platform_get_timestamp_ms_epoch :: "('z wpc_int_scheme, u64) prog" where
  "Platform_get_timestamp_ms_epoch s =
     (case io_epoch s of [] \<Rightarrow> Inl Blocked | t # ts \<Rightarrow> Inr (t, s\<lparr>io_epoch := ts\<rparr>))"

section \<open>Requests\<close>

definition send_response_to_stack :: "u8 \<Rightarrow> u8 \<Rightarrow> bool \<Rightarrow> ('z wpc_int_scheme, int) prog" where
  "send_response_to_stack prim fid more_ind =
     Slip_send_buffer (frame_bytes
       \<lparr>primitive_id = prim, frame_id = fid, payload_length = 1,
        payload = [if more_ind then 1 else 0]\<rparr>)"

text \<open>What \<^verbatim>\<open>Platform_close\<close> changes belongs to the state of the theory \<^verbatim>\<open>Platform\<close>; the process has no use for it
  afterwards, as it exits. A close that does not return keeps the caller waiting.\<close>

definition Platform_close :: "('z wpc_int_scheme, unit) prog" where
  "Platform_close = andthen (gets close_returns) (\<lambda>returns. require returns Blocked)"

text \<open>The subtraction of the two readings of the clock is unsigned. The process closes the platform
  and exits when the node has been silent for longer than the limit.\<close>

definition check_if_timeout_reached_locked :: "('z wpc_int_scheme, bool) prog" where
  "check_if_timeout_reached_locked =
     andthen (gets m_timeout_no_answer_ms) (\<lambda>limit.
     if limit > 0 then
       andthen Platform_get_timestamp_ms_monotonic (\<lambda>now.
       andthen (gets m_last_successful_answer_ts) (\<lambda>last.
       if now - last > ucast limit
       then andthen Platform_unlock_request (\<lambda>_. andthen Platform_close (\<lambda>_. halt Exited))
       else ret False))
     else ret False)"

definition send_frame :: "wpc_frame \<Rightarrow> ('z wpc_int_scheme, int) prog" where
  "send_frame req =
     andthen (require (unat (payload_length req) \<le> length (payload req)) Indeterminate) (\<lambda>_.
     andthen (require (unat (payload_length req) \<le> SIZEOF_FRAME - 3) Undefined) (\<lambda>_.
     Slip_send_buffer (take (unat (payload_length req) + 3) (frame_bytes req))))"

text \<open>
  The waiting loop of \<^verbatim>\<open>send_request_locked\<close>. \<^verbatim>\<open>buffer\<close> is the initialised prefix of the
  local buffer, which keeps the bytes of earlier frames when \<^verbatim>\<open>Slip_get_buffer\<close> returns a size
  without copying; the last step copies \<^verbatim>\<open>confirm_size\<close> bytes over the caller's frame.
\<close>

function send_confirm_loop ::
  "wpc_frame \<Rightarrow> u16 \<Rightarrow> nat \<Rightarrow> nat \<Rightarrow> u8 list \<Rightarrow> ('z wpc_int_scheme, int \<times> u8 list) prog" where
  "send_confirm_loop req timeout_ms attempt retries buffer =
     (if attempt < MAX_CONFIRM_ATTEMPT then
        andthen (Slip_get_buffer MAX_FRAME_SIZE timeout_ms) (\<lambda>(confirm_size, copied).
        let buffer' = (case copied of None \<Rightarrow> buffer | Some bytes \<Rightarrow> overlay bytes buffer) in
        if confirm_size < 0 then
          if confirm_size = WPC_INT_WRONG_CRC_FROM_HOST then
            if retries < MAX_CRC_REQUEST_ERROR_RETRIES then
              andthen (send_frame req) (\<lambda>sent.
              if sent < 0
              then andthen check_if_timeout_reached_locked (\<lambda>_. ret (WPC_INT_GEN_ERROR, []))
              else send_confirm_loop req timeout_ms attempt (retries + 1) buffer')
            else ret (confirm_size, [])
          else if confirm_size = WPC_INT_WRONG_CRC then ret (confirm_size, [])
          else andthen check_if_timeout_reached_locked (\<lambda>_. ret (confirm_size, []))
        else
          andthen Platform_get_timestamp_ms_monotonic (\<lambda>now.
          andthen (modify (\<lambda>s. s\<lparr>m_last_successful_answer_ts := now\<rparr>)) (\<lambda>_.
          andthen (lift_sum (byte_at buffer' 0)) (\<lambda>prim.
          if unat prim \<noteq> unat (primitive_id req) + unat SAP_CONFIRM_OFFSET
          then send_confirm_loop req timeout_ms (attempt + 1) retries buffer'
          else
            andthen (lift_sum (byte_at buffer' 1)) (\<lambda>fid.
            if fid \<noteq> frame_id req
            then send_confirm_loop req timeout_ms (attempt + 1) retries buffer'
            else
              andthen (require (confirm_size \<le> int SIZEOF_FRAME) Undefined) (\<lambda>_.
              ret (0, take (nat confirm_size) buffer')))))))
      else ret (WPC_INT_SYNC_ERROR, []))"
  by pat_completeness auto
termination
  by (relation "measure (\<lambda>(req, timeout_ms, attempt, retries, buffer).
        (MAX_CONFIRM_ATTEMPT - attempt) + (MAX_CRC_REQUEST_ERROR_RETRIES - retries))") auto

declare send_confirm_loop.simps [simp del]

definition send_request_locked ::
  "wpc_frame \<Rightarrow> u16 \<Rightarrow> ('z wpc_int_scheme, int \<times> u8 list) prog" where
  "send_request_locked request timeout_ms =
     andthen (gets req_frame_id) (\<lambda>fid.
     andthen (modify (\<lambda>s. s\<lparr>req_frame_id := fid + 1\<rparr>)) (\<lambda>_.
     let req = request\<lparr>frame_id := fid\<rparr> in
     andthen (send_frame req) (\<lambda>sent.
     if sent < 0
     then andthen check_if_timeout_reached_locked (\<lambda>_. ret (WPC_INT_GEN_ERROR, []))
     else send_confirm_loop req timeout_ms 0 0 [])))"

definition WPC_Int_send_request_timeout ::
  "wpc_frame \<Rightarrow> u16 \<Rightarrow> ('z wpc_int_scheme, int \<times> u8 list) prog" where
  "WPC_Int_send_request_timeout frame timeout_ms =
     andthen Platform_lock_request (\<lambda>_.
     andthen (send_request_locked frame timeout_ms) (\<lambda>res.
     andthen Platform_unlock_request (\<lambda>_. ret res)))"

definition WPC_Int_send_request :: "wpc_frame \<Rightarrow> ('z wpc_int_scheme, int \<times> u8 list) prog" where
  "WPC_Int_send_request frame = WPC_Int_send_request_timeout frame TIMEOUT_CONFIRM_MS"

section \<open>Indications\<close>

text \<open>The frame of an indication is the initialised prefix of the local \<^verbatim>\<open>wpc_frame_t\<close>; its size is
  not checked before the fields are read. \<^verbatim>\<open>cb_locked\<close> is the platform's callback.\<close>

definition handle_indication ::
  "bool \<Rightarrow> (u8 list \<Rightarrow> u64 \<Rightarrow> ('z wpc_int_scheme, unit) prog) \<Rightarrow> ('z wpc_int_scheme, int) prog" where
  "handle_indication last_one cb_locked =
     andthen (Slip_get_buffer SIZEOF_FRAME TIMEOUT_INDICATION_MS) (\<lambda>(res, copied).
     if res \<le> 0 then ret WPC_INT_TIMEOUT_ERROR
     else
       let frame = (case copied of None \<Rightarrow> [] | Some bytes \<Rightarrow> bytes) in
       andthen Platform_get_timestamp_ms_epoch (\<lambda>timestamp_ms_epoch.
       andthen (lift_sum (pl_u8 frame 0)) (\<lambda>remaining_ind.
       andthen (lift_sum (byte_at frame 0)) (\<lambda>prim.
       andthen (lift_sum (byte_at frame 1)) (\<lambda>fid.
       andthen (send_response_to_stack (prim + SAP_RESPONSE_OFFSET) fid
                  (remaining_ind > 0 \<and> \<not> last_one)) (\<lambda>_.
       andthen (cb_locked frame timestamp_ms_epoch) (\<lambda>_.
       ret (int (unat remaining_ind)))))))))"

text \<open>The loop \<^verbatim>\<open>while (max_ind-- && remaining_ind)\<close>.\<close>

primrec poll_loop ::
  "nat \<Rightarrow> int \<Rightarrow> (u8 list \<Rightarrow> u64 \<Rightarrow> ('z wpc_int_scheme, unit) prog) \<Rightarrow> ('z wpc_int_scheme, int) prog" where
  "poll_loop 0 remaining_ind cb_locked = ret (if remaining_ind > 0 then 1 else 0)"
| "poll_loop (Suc max_ind) remaining_ind cb_locked =
     (if remaining_ind = 0 then ret 0
      else
        andthen (handle_indication (max_ind = 0) cb_locked) (\<lambda>remaining.
        if remaining < 0 then ret remaining else poll_loop max_ind remaining cb_locked))"

definition get_indication_locked ::
  "u32 \<Rightarrow> (u8 list \<Rightarrow> u64 \<Rightarrow> ('z wpc_int_scheme, unit) prog) \<Rightarrow> ('z wpc_int_scheme, int) prog" where
  "get_indication_locked max_ind cb_locked =
     (if max_ind = 0 then ret WPC_INT_WRONG_PARAM_ERROR
      else
        andthen (send_request_locked (new_request MSAP_INDICATION_POLL_REQUEST 0 []) TIMEOUT_CONFIRM_MS)
          (\<lambda>(res, confirm).
        if res < 0 then ret res
        else
          andthen (lift_sum (pl_u8 confirm 0)) (\<lambda>result.
          if result = 0 then ret 0 else poll_loop (unat max_ind) 1 cb_locked)))"

definition get_indication ::
  "u32 \<Rightarrow> (u8 list \<Rightarrow> u64 \<Rightarrow> ('z wpc_int_scheme, unit) prog) \<Rightarrow> ('z wpc_int_scheme, int) prog" where
  "get_indication max_ind cb_locked =
     andthen Platform_lock_request (\<lambda>_.
     andthen (gets m_disabled_poll_request) (\<lambda>disabled.
     andthen (if \<not> disabled then get_indication_locked max_ind cb_locked else ret 0) (\<lambda>res.
     andthen Platform_unlock_request (\<lambda>_. ret res))))"

section \<open>Configuration of the engine\<close>

definition WPC_Int_disable_poll_request :: "bool \<Rightarrow> ('z wpc_int_scheme, unit) prog" where
  "WPC_Int_disable_poll_request disabled = modify (\<lambda>s. s\<lparr>m_disabled_poll_request := disabled\<rparr>)"

definition WPC_Int_set_timeout_s_no_answer :: "u32 \<Rightarrow> ('z wpc_int_scheme, bool) prog" where
  "WPC_Int_set_timeout_s_no_answer duration_s =
     andthen (gets m_timeout_no_answer_ms) (\<lambda>limit.
     andthen
       (if limit = 0 \<and> duration_s > 0 then
          andthen Platform_get_timestamp_ms_monotonic (\<lambda>now.
          modify (\<lambda>s. s\<lparr>m_last_successful_answer_ts := now\<rparr>))
        else ret ()) (\<lambda>_.
     andthen (modify (\<lambda>s. s\<lparr>m_timeout_no_answer_ms := duration_s * 1000\<rparr>)) (\<lambda>_.
     ret True)))"

text \<open>Opening the serial port, \<^verbatim>\<open>Slip_init\<close>, starting the platform's threads and \<^verbatim>\<open>dsap_init\<close> are operations of
  other components, here arguments.\<close>

definition WPC_Int_initialize ::
  "('z wpc_int_scheme, int) prog \<Rightarrow> ('z wpc_int_scheme, int) prog \<Rightarrow> ('z wpc_int_scheme, bool) prog
     \<Rightarrow> ('z wpc_int_scheme, unit) prog \<Rightarrow> ('z wpc_int_scheme, unit) prog \<Rightarrow> ('z wpc_int_scheme, int) prog" where
  "WPC_Int_initialize serial_open slip_init platform_init serial_close dsap_init =
     andthen serial_open (\<lambda>opened.
     if opened < 0 then ret WPC_INT_GEN_ERROR
     else
       andthen slip_init (\<lambda>_.
       andthen platform_init (\<lambda>started.
       if \<not> started then andthen serial_close (\<lambda>_. ret WPC_INT_GEN_ERROR)
       else
         andthen dsap_init (\<lambda>_.
         andthen Platform_get_timestamp_ms_monotonic (\<lambda>now.
         andthen (modify (\<lambda>s. s\<lparr>m_last_successful_answer_ts := now\<rparr>)) (\<lambda>_. ret 0))))))"

definition WPC_Int_close ::
  "('z wpc_int_scheme, unit) prog \<Rightarrow> ('z wpc_int_scheme, unit) prog \<Rightarrow> ('z wpc_int_scheme, unit) prog" where
  "WPC_Int_close platform_close serial_close = andthen platform_close (\<lambda>_. serial_close)"

section \<open>Predicates that an exchange with the node maintains\<close>

text \<open>
  A request touches the serial line, the clock, the frame counter, the time of the last answer
  and the mutex. A state predicate that is insensitive to those is maintained by every operation
  that is built from requests, whatever the node does.
\<close>

locale request_invariant =
  fixes I :: "'z wpc_int_scheme \<Rightarrow> bool"
  assumes received: "I s \<Longrightarrow> I (s\<lparr>io_rx := rx, io_waits := waits\<rparr>)"
    and sent: "I s \<Longrightarrow> I (s\<lparr>io_wr := wr, io_tx := io_tx s @ [bytes]\<rparr>)"
    and clock: "I s \<Longrightarrow> io_clock s = now # cs \<Longrightarrow> I (s\<lparr>io_clock := cs\<rparr>)"
    and answered: "I s \<Longrightarrow> I (s\<lparr>m_last_successful_answer_ts := t\<rparr>)"
    and counted: "I s \<Longrightarrow> I (s\<lparr>req_frame_id := fid\<rparr>)"
    and mutex: "I s \<Longrightarrow> I (s\<lparr>m_locked := b\<rparr>)"
begin

lemma keeps_get_buffer: "keeps I (Slip_get_buffer len timeout)"
  by (rule keepsI)
    (auto simp: Slip_get_buffer_def receive_raw_def received split: sum.splits option.splits prod.splits)

lemma keeps_send_buffer: "keeps I (Slip_send_buffer bytes)"
  by (rule keepsI)
    (auto simp: Slip_send_buffer_def write_function_def sent split: if_splits list.splits)

lemma keeps_lock: "keeps I Platform_lock_request"
  by (rule keepsI) (auto simp: Platform_lock_request_def mutex split: if_splits)

lemma keeps_unlock: "keeps I Platform_unlock_request"
  by (rule keepsI) (auto simp: Platform_unlock_request_def mutex)

lemma keeps_monotonic: "keeps I Platform_get_timestamp_ms_monotonic"
  by (rule keepsI) (auto simp: Platform_get_timestamp_ms_monotonic_def clock split: list.splits)

lemma keeps_check: "keeps I check_if_timeout_reached_locked"
  unfolding check_if_timeout_reached_locked_def Platform_close_def
  by (intro keeps_intros keeps_monotonic keeps_unlock)

lemma keeps_send_frame: "keeps I (send_frame req)"
  unfolding send_frame_def by (intro keeps_intros keeps_send_buffer)

lemma keeps_confirm_loop: "keeps I (send_confirm_loop req timeout attempt retries buffer)"
proof (induction req timeout attempt retries buffer rule: send_confirm_loop.induct)
  case (1 req timeout attempt retries buffer)
  show ?case
    by (subst send_confirm_loop.simps, unfold Let_def) (intro keeps_intros keeps_get_buffer keeps_send_frame keeps_check keeps_monotonic 1 answered refl; (assumption | rule refl)?)
qed

lemma keeps_request_locked: "keeps I (send_request_locked req timeout)"
  unfolding send_request_locked_def Let_def
  by (intro keeps_intros keeps_send_frame keeps_check keeps_confirm_loop counted)

lemma keeps_request_timeout [keeps_intros]: "keeps I (WPC_Int_send_request_timeout req timeout)"
  unfolding WPC_Int_send_request_timeout_def
  by (intro keeps_intros keeps_lock keeps_request_locked keeps_unlock)

lemma keeps_request [keeps_intros]: "keeps I (WPC_Int_send_request req)"
  unfolding WPC_Int_send_request_def by (rule keeps_request_timeout)

end

text \<open>Requests leave the configuration of the engine and everything above it alone, and never
  take back a frame that was sent.\<close>

definition engine_config :: "'z wpc_int_scheme \<Rightarrow> u32 \<times> u32 \<times> bool \<times> 'z" where
  "engine_config s = (m_timeout_no_answer_ms s, m_mtu s, m_disabled_poll_request s, wpc_int.more s)"

lemma engine_config_more: "engine_config t = engine_config s \<Longrightarrow> wpc_int.more t = wpc_int.more s"
  by (simp add: engine_config_def)

interpretation config: request_invariant "\<lambda>s. engine_config s = c" for c
  by unfold_locales (auto simp: engine_config_def)

interpretation sent_log: request_invariant "\<lambda>s. \<exists>later. io_tx s = log @ later" for log
  by unfold_locales auto

section \<open>The exchange with a node that answers\<close>

text \<open>
  \<^verbatim>\<open>sendable\<close> is a sufficient condition for a frame to pass the encoder unharmed: its escaped
  form stays below the 256 bytes of the encoder's index, and at least four bytes' worth of room
  is left for the escaped CRC. Two bytes that need no escape are enough for the latter.
\<close>

definition sendable :: "u8 list \<Rightarrow> bool" where
  "sendable bs \<longleftrightarrow> length (escape bs) < 256 \<and> length (escape bs) + 2 \<le> 2 * length bs"

lemma encode_sendable: "sendable bs \<Longrightarrow> encode_for_sending bs = Inr (wire_frame bs)"
  using length_escape_bounds(2) [of "uint16_encode_le (crc16 bs)"]
  by (intro encode_for_sending_correct) (auto simp: sendable_def slip_frame_def)

lemma Slip_send_sendable:
  assumes "sendable bs" "io_wr s = int (length (wire_frame bs)) # wr"
  shows "Slip_send_buffer bs s = Inr (0, s\<lparr>io_wr := wr, io_tx := io_tx s @ [wire_frame bs]\<rparr>)"
  using encode_sendable [OF assms(1)] assms(2)
  by (simp add: Slip_send_buffer_def prog_simps write_function_def)

lemma send_frame_sendable:
  assumes "request_filled req" "sendable (frame_bytes req)"
    and "io_wr s = int (length (wire_frame (frame_bytes req))) # wr"
  shows "send_frame req s = Inr (0, s\<lparr>io_wr := wr, io_tx := io_tx s @ [wire_frame (frame_bytes req)]\<rparr>)"
proof -
  have "take (unat (payload_length req) + 3) (frame_bytes req) = frame_bytes req"
    using assms(1) by (simp add: request_filled_def)
  then show ?thesis
    using assms(1) Slip_send_sendable [OF assms(2,3)]
    by (simp add: send_frame_def request_filled_def require_def)
qed

lemma Slip_get_wire_frame:
  assumes "2 \<le> length bs" "length bs \<le> len" "length bs \<le> 204" "204 \<le> len"
    and "io_rx s = map (Pair 1) (wire_frame bs) @ rx"
  shows "Slip_get_buffer len timeout s
    = Inr ((int (length bs), Some bs), s\<lparr>io_rx := rx, io_waits := io_waits s @ [timeout]\<rparr>)"
proof -
  have "length (slip_frame bs) \<le> MAX_SIZE_ENCODED_BUFFER len"
    using slip_frame_bounds(2) [of bs] assms by (simp add: MAX_SIZE_ENCODED_BUFFER_def)
  then have "slip_receive_loop (MAX_SIZE_ENCODED_BUFFER len) False [] (io_rx s)
      = Inr ((None, slip_frame bs), rx)"
    using receive_wire_frame [of bs _ "[]" rx] assms by simp
  moreover obtain buf where "Slip_decode (slip_frame bs) = Inr (int (length bs), buf)"
    "take (length bs) buf = bs"
    using Slip_decode_correct [of bs] assms by auto
  moreover have "0 < int (length bs)" using assms(1) by (cases bs) auto
  ultimately show ?thesis
    using assms(2) by (simp add: Slip_get_buffer_def receive_raw_def prog_simps)
qed

definition node_answers :: "u8 list \<Rightarrow> u8 list \<Rightarrow> 'z wpc_int_scheme \<Rightarrow> bool" where
  "node_answers sent conf s \<longleftrightarrow>
     (\<exists>rx wr now cs. io_rx s = map (Pair 1) (wire_frame conf) @ rx
        \<and> io_wr s = int (length (wire_frame sent)) # wr \<and> io_clock s = now # cs)"

definition answered :: "u8 list \<Rightarrow> u8 list \<Rightarrow> u16 \<Rightarrow> 'z wpc_int_scheme \<Rightarrow> 'z wpc_int_scheme" where
  "answered sent conf timeout s = s\<lparr>
     io_rx := drop (length (wire_frame conf)) (io_rx s), io_wr := tl (io_wr s),
     io_tx := io_tx s @ [wire_frame sent], io_clock := tl (io_clock s),
     io_waits := io_waits s @ [timeout], m_locked := False, req_frame_id := req_frame_id s + 1,
     m_last_successful_answer_ts := hd (io_clock s)\<rparr>"

text \<open>A confirm that fits the request: its primitive, the frame identifier and its size.\<close>

definition confirms :: "wpc_frame \<Rightarrow> u8 \<Rightarrow> u8 list \<Rightarrow> bool" where
  "confirms req fid conf \<longleftrightarrow> 2 \<le> length conf \<and> length conf \<le> 204
     \<and> unat (conf ! 0) = unat (primitive_id req) + 128 \<and> conf ! 1 = fid"

abbreviation sent_bytes :: "wpc_frame \<Rightarrow> 'z wpc_int_scheme \<Rightarrow> u8 list" where
  "sent_bytes req s \<equiv> frame_bytes (req\<lparr>frame_id := req_frame_id s\<rparr>)"

lemma frame_id_update [simp]:
  "request_filled (req\<lparr>frame_id := f\<rparr>) = request_filled req"
  "primitive_id (req\<lparr>frame_id := f\<rparr>) = primitive_id req"
  by (simp_all add: request_filled_def)

lemma send_request_locked_answered:
  assumes "request_filled req" "sendable (sent_bytes req s)" "confirms req (req_frame_id s) conf"
    and "node_answers (sent_bytes req s) conf s"
  shows "send_request_locked req timeout (s\<lparr>m_locked := True\<rparr>)
    = Inr ((0, conf), (answered (sent_bytes req s) conf timeout s)\<lparr>m_locked := True\<rparr>)"
proof -
  let ?req = "req\<lparr>frame_id := req_frame_id s\<rparr>" and ?b = "sent_bytes req s"
  from assms(4) obtain rx wr now cs where n: "io_rx s = map (Pair 1) (wire_frame conf) @ rx"
    "io_wr s = int (length (wire_frame ?b)) # wr" "io_clock s = now # cs"
    by (auto simp: node_answers_def)
  note c = assms(3) [unfolded confirms_def]
  then have ne: "conf \<noteq> []" by auto
  define s1 where "s1 = s\<lparr>m_locked := True, req_frame_id := req_frame_id s + 1\<rparr>"
  define s2 where "s2 = s1\<lparr>io_wr := wr, io_tx := io_tx s1 @ [wire_frame ?b]\<rparr>"
  define s3 where "s3 = s2\<lparr>io_rx := rx, io_waits := io_waits s2 @ [timeout]\<rparr>"
  have 1: "send_frame ?req s1 = Inr (0, s2)"
    unfolding s2_def using assms(1,2) n by (intro send_frame_sendable) (simp_all add: s1_def)
  have 2: "Slip_get_buffer MAX_FRAME_SIZE timeout s2 = Inr ((int (length conf), Some conf), s3)"
    unfolding s3_def using c n by (intro Slip_get_wire_frame) (simp_all add: s1_def s2_def)
  have "send_confirm_loop ?req timeout 0 0 [] s2
      = Inr ((0, conf), s3\<lparr>io_clock := cs, m_last_successful_answer_ts := now\<rparr>)"
    using 2 c n ne by (subst send_confirm_loop.simps)
      (simp add: engine_constants andthen_def [of "Slip_get_buffer _ _"] overlay_def prog_simps
        Platform_get_timestamp_ms_monotonic_def s3_def s2_def s1_def byte_at_def SAP_CONFIRM_OFFSET_def)
  then have "send_request_locked req timeout (s\<lparr>m_locked := True\<rparr>)
      = Inr ((0, conf), s3\<lparr>io_clock := cs, m_last_successful_answer_ts := now\<rparr>)"
    using 1 by (simp add: send_request_locked_def prog_simps s1_def Let_def)
  then show ?thesis
    using n by (simp add: answered_def s1_def s2_def s3_def)
qed

lemma send_request_answered:
  assumes "request_filled req" "sendable (sent_bytes req s)" "confirms req (req_frame_id s) conf"
    and "node_answers (sent_bytes req s) conf s"
  shows "WPC_Int_send_request_timeout req timeout s
    = Inr ((0, conf), answered (sent_bytes req s) conf timeout s)"
proof -
  have "Platform_lock_request s = Inr (\<not> m_locked s, s\<lparr>m_locked := True\<rparr>)"
    by (simp add: Platform_lock_request_def)
  with send_request_locked_answered [OF assms, of timeout] show ?thesis
    by (simp add: WPC_Int_send_request_timeout_def Platform_unlock_request_def prog_simps answered_def)
qed

section \<open>Outcomes of a request\<close>

text \<open>What is left in the receive buffer by frames that were not the awaited confirm.\<close>

definition stale :: "wpc_frame \<Rightarrow> u8 list \<Rightarrow> bool" where
  "stale req buffer \<longleftrightarrow> buffer = [] \<or> unat (buffer ! 0) \<noteq> unat (primitive_id req) + 128
     \<or> (1 < length buffer \<and> buffer ! 1 \<noteq> frame_id req)"

definition request_failures :: "int set" where
  "request_failures = {WPC_INT_GEN_ERROR, WPC_INT_TIMEOUT_ERROR, WPC_INT_SYNC_ERROR,
     WPC_INT_WRONG_CRC, WPC_INT_WRONG_CRC_FROM_HOST}"

definition right_confirm :: "wpc_frame \<Rightarrow> u8 list \<Rightarrow> bool" where
  "right_confirm req conf \<longleftrightarrow> conf \<noteq> [] \<and> length conf \<le> SIZEOF_FRAME
     \<and> unat (conf ! 0) = unat (primitive_id req) + 128
     \<and> (1 < length conf \<longrightarrow> conf ! 1 = frame_id req)"

definition acceptable :: "wpc_frame \<Rightarrow> int \<times> u8 list \<Rightarrow> bool" where
  "acceptable req r \<longleftrightarrow>
     (fst r = 0 \<and> right_confirm req (snd r)) \<or> (fst r \<in> request_failures \<and> snd r = [])"

lemma acceptable_failure [simp]:
  "acceptable req (WPC_INT_GEN_ERROR, [])" "acceptable req (WPC_INT_SYNC_ERROR, [])"
  by (simp_all add: acceptable_def request_failures_def)

lemma acceptable_code:
  "n \<in> {WPC_INT_TIMEOUT_ERROR, WPC_INT_WRONG_CRC, WPC_INT_WRONG_CRC_FROM_HOST} \<Longrightarrow>
   acceptable req (n, [])"
  by (auto simp: acceptable_def request_failures_def)

text \<open>One round of the waiting loop, after the frame has been read.\<close>

definition confirm_round ::
  "wpc_frame \<Rightarrow> u16 \<Rightarrow> nat \<Rightarrow> nat \<Rightarrow> u8 list \<Rightarrow> int \<Rightarrow> ('z wpc_int_scheme, int \<times> u8 list) prog" where
  "confirm_round req timeout_ms attempt retries buffer n =
     (if n < 0 then
        if n = WPC_INT_WRONG_CRC_FROM_HOST then
          if retries < MAX_CRC_REQUEST_ERROR_RETRIES then
            andthen (send_frame req) (\<lambda>sent.
            if sent < 0
            then andthen check_if_timeout_reached_locked (\<lambda>_. ret (WPC_INT_GEN_ERROR, []))
            else send_confirm_loop req timeout_ms attempt (retries + 1) buffer)
          else ret (n, [])
        else if n = WPC_INT_WRONG_CRC then ret (n, [])
        else andthen check_if_timeout_reached_locked (\<lambda>_. ret (n, []))
      else
        andthen Platform_get_timestamp_ms_monotonic (\<lambda>now.
        andthen (modify (\<lambda>s. s\<lparr>m_last_successful_answer_ts := now\<rparr>)) (\<lambda>_.
        andthen (lift_sum (byte_at buffer 0)) (\<lambda>prim.
        if unat prim \<noteq> unat (primitive_id req) + 128
        then send_confirm_loop req timeout_ms (attempt + 1) retries buffer
        else
          andthen (lift_sum (byte_at buffer 1)) (\<lambda>fid.
          if fid \<noteq> frame_id req
          then send_confirm_loop req timeout_ms (attempt + 1) retries buffer
          else
            andthen (require (n \<le> 204) Undefined) (\<lambda>_.
            ret (0, take (nat n) buffer)))))))"

lemma confirm_loop_step:
  assumes "attempt < MAX_CONFIRM_ATTEMPT"
    and "Slip_get_buffer MAX_FRAME_SIZE timeout s = Inr ((n, copied), s1)"
  shows "send_confirm_loop req timeout attempt retries buffer s = confirm_round req timeout attempt retries
     (case copied of None \<Rightarrow> buffer | Some bytes \<Rightarrow> overlay bytes buffer) n s1"
  using assms(1) assms(2) [simplified]
  by (subst send_confirm_loop.simps)
    (simp add: andthen_def [of "Slip_get_buffer 206 timeout"] confirm_round_def Let_def SAP_CONFIRM_OFFSET_def
       cong: if_cong)

lemma confirm_loop_start:
  assumes "send_confirm_loop req timeout attempt retries buffer s = Inr (r, t)"
    and "attempt < MAX_CONFIRM_ATTEMPT"
  obtains n copied s1 where "Slip_get_buffer MAX_FRAME_SIZE timeout s = Inr ((n, copied), s1)"
    and "confirm_round req timeout attempt retries
       (case copied of None \<Rightarrow> buffer | Some bytes \<Rightarrow> overlay bytes buffer) n s1 = Inr (r, t)"
proof -
  from assms obtain n copied s1 where g: "Slip_get_buffer MAX_FRAME_SIZE timeout s = Inr ((n, copied), s1)"
    by (subst (asm) send_confirm_loop.simps) auto
  with that confirm_loop_step [OF assms(2) g] assms(1) show ?thesis by metis
qed

lemma confirm_loop_end:
  "\<not> attempt < MAX_CONFIRM_ATTEMPT \<Longrightarrow>
   send_confirm_loop req timeout attempt retries buffer = ret (WPC_INT_SYNC_ERROR, [])"
  by (subst send_confirm_loop.simps) simp

lemma confirm_loop_acceptable:
  "stale req buffer \<Longrightarrow>
   send_confirm_loop req timeout attempt retries buffer s = Inr (r, t) \<Longrightarrow> acceptable req r"
proof (induction req timeout attempt retries buffer arbitrary: s rule: send_confirm_loop.induct)
  case (1 req timeout attempt retries buffer)
  show ?case
  proof (cases "attempt < MAX_CONFIRM_ATTEMPT")
    case False
    with "1.prems"(2) show ?thesis by (simp add: confirm_loop_end)
  next
    case True
    define buffer_of where "buffer_of copied = (case copied of None \<Rightarrow> buffer | Some bytes \<Rightarrow> overlay bytes buffer)"
      for copied
    obtain n copied s1 where g: "Slip_get_buffer MAX_FRAME_SIZE timeout s = Inr ((n, copied), s1)"
      and r: "confirm_round req timeout attempt retries (buffer_of copied) n s1 = Inr (r, t)"
      using confirm_loop_start [OF "1.prems"(2) True] unfolding buffer_of_def by metis
    note gr = Slip_get_buffer_result [OF g, simplified]
    define buffer' where "buffer' = buffer_of copied"
    have bs: "\<exists>rest. buffer' = bs @ rest" if "copied = Some bs" for bs
      using that by (simp add: buffer'_def buffer_of_def overlay_def)
    note IH = "1.IH" [OF True refl buffer'_def [unfolded buffer_of_def]]
    show ?thesis
    proof (cases "n < 0")
      case neg: True
      then have nc: "copied = None" and nn: "n \<in> {WPC_INT_TIMEOUT_ERROR, WPC_INT_WRONG_CRC, WPC_INT_WRONG_CRC_FROM_HOST}"
        using gr by auto
      have "stale req buffer'" using nc "1.prems"(1) by (simp add: buffer'_def buffer_of_def)
      then show ?thesis
        using r neg acceptable_code [OF nn] IH(1) [OF neg]
        by (auto simp: confirm_round_def buffer'_def [symmetric] split: if_splits)
    next
      case pos: False
      have fin: "acceptable req (0, take (nat n) buffer')"
        if "buffer' \<noteq> []" "unat (buffer' ! 0) = unat (primitive_id req) + 128" "1 < length buffer'"
          "buffer' ! 1 = frame_id req" "n \<le> 204"
      proof (cases copied)
        case None
        with that "1.prems"(1) show ?thesis by (simp add: buffer'_def buffer_of_def stale_def)
      next
        case (Some c)
        with gr bs [OF Some] that show ?thesis
          by (auto simp: acceptable_def right_confirm_def nth_append)
      qed
      show ?thesis
        using r pos IH(2,3) [OF pos] fin
        by (auto simp: confirm_round_def buffer'_def [symmetric] byte_at_Inr
            SAP_CONFIRM_OFFSET_def stale_def split: if_splits)
    qed
  qed
qed

section \<open>How much a request sends and waits\<close>

lemma Slip_get_buffer_effect:
  "Slip_get_buffer len timeout s = Inr (r, t) \<Longrightarrow>
   io_tx t = io_tx s \<and> io_waits t = io_waits s @ [timeout] \<and> req_frame_id t = req_frame_id s"
  by (auto simp: Slip_get_buffer_def receive_raw_def split: sum.splits option.splits prod.splits)

text \<open>The bytes that are handed to the write function for a request.\<close>

definition frame_image :: "wpc_frame \<Rightarrow> u8 list" where
  "frame_image req =
     (case encode_for_sending (take (unat (payload_length req) + 3) (frame_bytes req)) of
        Inl e \<Rightarrow> [] | Inr encoded \<Rightarrow> encoded)"

lemma send_frame_effect:
  "send_frame req s = Inr (r, t) \<Longrightarrow> io_tx t = io_tx s @ [frame_image req] \<and> io_waits t = io_waits s
     \<and> req_frame_id t = req_frame_id s"
  by (auto simp: send_frame_def Slip_send_buffer_def write_function_def frame_image_def
      split: if_splits list.splits)

lemma check_effect:
  "check_if_timeout_reached_locked s = Inr (r, t) \<Longrightarrow> io_tx t = io_tx s \<and> io_waits t = io_waits s
     \<and> req_frame_id t = req_frame_id s"
  by (auto simp: check_if_timeout_reached_locked_def Platform_get_timestamp_ms_monotonic_def
      split: if_splits list.splits)

definition traffic :: "wpc_frame \<Rightarrow> u16 \<Rightarrow> nat \<Rightarrow> nat \<Rightarrow> 'z wpc_int_scheme \<Rightarrow> 'z wpc_int_scheme \<Rightarrow> bool" where
  "traffic req timeout sends waits s t \<longleftrightarrow>
     req_frame_id t = req_frame_id s \<and> (\<exists>k m. k \<le> sends \<and> m \<le> waits \<and> io_tx t = io_tx s @ replicate k (frame_image req)
        \<and> io_waits t = io_waits s @ replicate m timeout)"

lemma traffic_same: "io_tx t = io_tx s \<Longrightarrow> io_waits t = io_waits s \<Longrightarrow>
   req_frame_id t = req_frame_id s \<Longrightarrow> traffic req timeout k m s t"
  by (auto simp: traffic_def intro!: exI [of _ 0])

lemma traffic_wait:
  assumes "io_tx s1 = io_tx s" "io_waits s1 = io_waits s @ [timeout]"
    "req_frame_id s1 = req_frame_id s" "traffic req timeout k m s1 t"
  shows "traffic req timeout k (Suc m) s t"
proof -
  from assms(4) obtain k' m' where "k' \<le> k" "m' \<le> m" "io_tx t = io_tx s @ replicate k' (frame_image req)"
    "io_waits t = io_waits s @ replicate (Suc m') timeout"
    unfolding traffic_def assms(1,2) by auto
  moreover have "req_frame_id t = req_frame_id s" using assms(3,4) by (simp add: traffic_def)
  ultimately show ?thesis unfolding traffic_def by (metis Suc_le_mono)
qed

lemma traffic_send:
  assumes "io_tx s1 = io_tx s @ [frame_image req]" "io_waits s1 = io_waits s"
    "req_frame_id s1 = req_frame_id s" "traffic req timeout k m s1 t"
  shows "traffic req timeout (Suc k) m s t"
proof -
  from assms(4) obtain k' m' where "k' \<le> k" "m' \<le> m" "io_tx t = io_tx s @ replicate (Suc k') (frame_image req)"
    "io_waits t = io_waits s @ replicate m' timeout"
    unfolding traffic_def assms(1,2) by auto
  moreover have "req_frame_id t = req_frame_id s" using assms(3,4) by (simp add: traffic_def)
  ultimately show ?thesis unfolding traffic_def by (metis Suc_le_mono)
qed

lemma traffic_mono: "traffic req timeout k m s t \<Longrightarrow> k \<le> k' \<Longrightarrow> m \<le> m' \<Longrightarrow> traffic req timeout k' m' s t"
  unfolding traffic_def by (meson order_trans)

lemma confirm_loop_traffic:
  "send_confirm_loop req timeout attempt retries buffer s = Inr (r, t) \<Longrightarrow>
   traffic req timeout (MAX_CRC_REQUEST_ERROR_RETRIES - retries)
     ((MAX_CONFIRM_ATTEMPT - attempt) + (MAX_CRC_REQUEST_ERROR_RETRIES - retries)) s t"
proof (induction req timeout attempt retries buffer arbitrary: s rule: send_confirm_loop.induct)
  case (1 req timeout attempt retries buffer)
  let ?K = "MAX_CRC_REQUEST_ERROR_RETRIES - retries" and ?M = "MAX_CONFIRM_ATTEMPT - attempt"
  show ?case
  proof (cases "attempt < MAX_CONFIRM_ATTEMPT")
    case False
    with "1.prems" show ?thesis by (simp add: confirm_loop_end traffic_same)
  next
    case True
    define buffer_of where "buffer_of copied = (case copied of None \<Rightarrow> buffer | Some bytes \<Rightarrow> overlay bytes buffer)"
      for copied
    obtain n copied s1 where g: "Slip_get_buffer MAX_FRAME_SIZE timeout s = Inr ((n, copied), s1)"
      and r: "confirm_round req timeout attempt retries (buffer_of copied) n s1 = Inr (r, t)"
      using confirm_loop_start [OF "1.prems" True] unfolding buffer_of_def by metis
    define buffer' where "buffer' = buffer_of copied"
    note r' = r [folded buffer'_def]
    note IH = "1.IH" [OF True refl buffer'_def [unfolded buffer_of_def]]
    have "traffic req timeout ?K (?M - 1 + ?K) s1 t"
    proof (cases "n < 0")
      case neg: True
      show ?thesis
      proof (cases "n = WPC_INT_WRONG_CRC_FROM_HOST \<and> retries < MAX_CRC_REQUEST_ERROR_RETRIES")
        case True
        then obtain x s2 where f: "send_frame req s1 = Inr (x, s2)"
          and rest: "(if x < 0 then andthen check_if_timeout_reached_locked (\<lambda>_. ret (WPC_INT_GEN_ERROR, []))
            else send_confirm_loop req timeout attempt (retries + 1) buffer') s2 = Inr (r, t)"
          using r' neg by (auto simp: confirm_round_def)
        have "traffic req timeout (?K - 1) (?M - 1 + ?K) s2 t"
        proof (cases "x < 0")
          case True
          with rest show ?thesis by (auto intro!: traffic_same dest: check_effect)
        next
          case False
          have "traffic req timeout (MAX_CRC_REQUEST_ERROR_RETRIES - (retries + 1))
              (?M + (MAX_CRC_REQUEST_ERROR_RETRIES - (retries + 1))) s2 t"
            using IH(1) [OF neg _ _ False] True rest False by simp
          then show ?thesis
            by (rule traffic_mono) (use True \<open>attempt < MAX_CONFIRM_ATTEMPT\<close> in auto)
        qed
        from traffic_send [OF _ _ _ this] send_frame_effect [OF f] show ?thesis
          using True by (metis Suc_pred' zero_less_diff)
      next
        case False
        then have "io_tx t = io_tx s1 \<and> io_waits t = io_waits s1 \<and> req_frame_id t = req_frame_id s1"
          using r neg check_effect [of s1] by (auto simp: confirm_round_def split: if_splits)
        then show ?thesis by (simp add: traffic_same)
      qed
    next
      case pos: False
      have loop: "traffic req timeout ?K (?M - 1 + ?K) s1 t"
        if "send_confirm_loop req timeout (attempt + 1) retries buffer' s2 = Inr (r, t)"
          "io_tx s2 = io_tx s1" "io_waits s2 = io_waits s1"
          "req_frame_id s2 = req_frame_id s1" for s2
      proof -
        have "traffic req timeout ?K (?M - 1 + ?K) s2 t"
          using that(1) IH(2) [OF pos, of 0] by (simp add: SAP_CONFIRM_OFFSET_def)
        then show ?thesis using that(2-) by (simp add: traffic_def)
      qed
      show ?thesis
        using r' pos
        by (auto simp: confirm_round_def Platform_get_timestamp_ms_monotonic_def traffic_same
            split: if_splits list.splits) (erule loop [simplified]; simp)+
    qed
    from traffic_wait [OF _ _ _ this] Slip_get_buffer_effect [OF g] True
    show ?thesis by (simp add: Suc_diff_Suc)
  qed
qed

lemma send_request_locked_outcome:
  assumes "send_request_locked req timeout s = Inr (r, t)"
  defines "req' \<equiv> req\<lparr>frame_id := req_frame_id s\<rparr>"
  shows "acceptable req' r \<and> req_frame_id t = req_frame_id s + 1
     \<and> traffic req' timeout 4 53 (s\<lparr>req_frame_id := req_frame_id s + 1\<rparr>) t"
proof -
  let ?s = "s\<lparr>req_frame_id := req_frame_id s + 1\<rparr>"
  obtain x s2 where f: "send_frame req' ?s = Inr (x, s2)"
    and rest: "(if x < 0 then andthen check_if_timeout_reached_locked (\<lambda>_. ret (WPC_INT_GEN_ERROR, []))
      else send_confirm_loop req' timeout 0 0 []) s2 = Inr (r, t)"
    using assms(1) unfolding send_request_locked_def Let_def req'_def
    by (auto simp del: One_nat_def)
  have "acceptable req' r \<and> traffic req' timeout 3 53 s2 t"
  proof (cases "x < 0")
    case True
    with rest show ?thesis by (auto intro!: traffic_same dest: check_effect)
  next
    case False
    with rest have l: "send_confirm_loop req' timeout 0 0 [] s2 = Inr (r, t)" by simp
    have "stale req' []" by (simp add: stale_def)
    from confirm_loop_acceptable [OF this l] confirm_loop_traffic [OF l]
    show ?thesis by (simp add: engine_constants)
  qed
  with traffic_send [of s2 ?s req' timeout 3 53 t] send_frame_effect [OF f]
  have "acceptable req' r \<and> traffic req' timeout 4 53 ?s t" by simp
  then show ?thesis by (simp add: traffic_def)
qed

lemma send_request_outcome:
  assumes "WPC_Int_send_request_timeout req timeout s = Inr (r, t)"
  defines "req' \<equiv> req\<lparr>frame_id := req_frame_id s\<rparr>"
  shows "acceptable req' r \<and> req_frame_id t = req_frame_id s + 1 \<and> \<not> m_locked t
     \<and> traffic req' timeout 4 53 (s\<lparr>req_frame_id := req_frame_id s + 1\<rparr>) t"
proof -
  obtain b s1 where l: "Platform_lock_request s = Inr (b, s1)"
    and u: "andthen (send_request_locked req timeout) (\<lambda>res. andthen Platform_unlock_request (\<lambda>_. ret res)) s1
      = Inr (r, t)"
    using assms(1) unfolding WPC_Int_send_request_timeout_def by (rule andthen_InrE)
  from u obtain t1 where r: "send_request_locked req timeout s1 = Inr (r, t1)"
    and t: "t = t1\<lparr>m_locked := False\<rparr>"
    by (auto simp: Platform_unlock_request_def)
  have "io_tx s1 = io_tx s" "io_waits s1 = io_waits s" "req_frame_id s1 = req_frame_id s"
    using l by (auto simp: Platform_lock_request_def split: if_splits)
  with send_request_locked_outcome [OF r] show ?thesis
    by (simp add: t req'_def traffic_def)
qed

section \<open>The exchange as a protocol\<close>

text \<open>
  The node's side of an exchange, seen from the line: a sequence of frames, each given by its
  bytes and the CRC it carries. \<^verbatim>\<open>protocol\<close> says what a request makes of them, without
  buffers, line and clocks: a frame with the right CRC is the confirm if its primitive and frame
  identifier fit, and is skipped otherwise (at most \<^verbatim>\<open>misses\<close> times); the CRC 0xFFFF reports
  that the request arrived damaged, and it is sent again (at most \<^verbatim>\<open>retries\<close> times); any other
  CRC ends the exchange. The result is the code, the confirm and the number of repetitions.
\<close>

fun protocol :: "u8 \<Rightarrow> u8 \<Rightarrow> nat \<Rightarrow> nat \<Rightarrow> (u8 list \<times> u16) list \<Rightarrow> (int \<times> u8 list \<times> nat) option" where
  "protocol prim fid 0 retries frames = Some (WPC_INT_SYNC_ERROR, [], 0)"
| "protocol prim fid (Suc misses) retries [] = None"
| "protocol prim fid (Suc misses) retries ((bytes, crc) # frames) =
     (if crc = crc16 bytes then
        if unat (bytes ! 0) = unat prim + 128 \<and> bytes ! 1 = fid then Some (0, bytes, 0)
        else protocol prim fid misses retries frames
      else if crc = 0xFFFF then
        (case retries of 0 \<Rightarrow> Some (WPC_INT_WRONG_CRC_FROM_HOST, [], 0)
         | Suc r \<Rightarrow>
             map_option (\<lambda>(res, conf, n). (res, conf, Suc n)) (protocol prim fid (Suc misses) r frames))
      else Some (WPC_INT_WRONG_CRC, [], 0))"

definition on_line :: "u8 list \<times> u16 \<Rightarrow> (int \<times> u8) list" where
  "on_line f = map (Pair 1)
     (replicate 3 END_SLIP_OCTET @ escape (fst f @ uint16_encode_le (snd f)) @ [END_SLIP_OCTET])"

lemma on_line_wire_frame: "on_line (bs, crc16 bs) = map (Pair 1) (wire_frame bs)"
  by (simp add: on_line_def wire_frame_def slip_frame_def)

lemma Slip_decode_with_crc:
  assumes "length bs + 2 < 256"
  shows "\<exists>buf. Slip_decode (escape (bs @ uint16_encode_le c)) =
      Inr (if c = crc16 bs then int (length bs)
           else if c = 0xFFFF then WPC_INT_WRONG_CRC_FROM_HOST else WPC_INT_WRONG_CRC, buf)
    \<and> take (length bs) buf = bs"
proof -
  let ?c = "uint16_encode_le c" and ?n = "length bs"
  let ?f = "escape (bs @ ?c)"
  have "unescape (drop 0 ?f) = Some (bs @ ?c)" by (simp only: unescape_escape drop_0)
  from slip_decode_loop_correct [OF this refl, of 0] assms obtain buf where
    d: "slip_decode_buffer ?f (length ?f) = Inr (of_nat (?n + 2), buf)" and
    len: "length buf = length ?f" and t: "take (?n + 2) buf = bs @ ?c"
    by (auto simp: slip_decode_buffer_def)
  have u: "unat (of_nat (?n + 2) :: u8) = ?n + 2" using assms by (intro unat_of_nat_u8)
  have le: "?n + 2 \<le> length buf" using len length_escape_bounds(1) [of "bs @ ?c"] by simp
  have tn: "take ?n buf = bs"
    using arg_cong [OF t, of "take ?n"] by (simp add: min_def)
  have "buf = bs @ ?c @ drop (?n + 2) buf" using t by (metis append.assoc append_take_drop_id)
  then have dn: "drop ?n buf = ?c @ drop (?n + 2) buf" by (metis append_eq_conv_conj)
  have "crc_fromBuffer buf ?n = Inr (crc16 bs)"
    using le tn by (simp add: crc_fromBuffer_def crc16_def)
  moreover have "uint16_decode_le (drop ?n buf) = Inr c"
    unfolding dn by (rule le16.dec_enc)
  ultimately show ?thesis
    using Slip_decode_unfold [OF d u] tn by (cases "c = crc16 bs") simp_all
qed

lemma Slip_get_on_line:
  assumes "2 \<le> length bs" "length bs \<le> 204" "204 \<le> len"
    and "io_rx s = on_line (bs, c) @ rx"
  shows "Slip_get_buffer len timeout s =
      Inr (if c = crc16 bs then (int (length bs), Some bs)
           else (if c = 0xFFFF then WPC_INT_WRONG_CRC_FROM_HOST else WPC_INT_WRONG_CRC, None),
        s\<lparr>io_rx := rx, io_waits := io_waits s @ [timeout]\<rparr>)"
proof -
  let ?f = "escape (bs @ uint16_encode_le c)"
  have l: "length bs + 2 \<le> length ?f" "length ?f \<le> MAX_SIZE_ENCODED_BUFFER len"
    using length_escape_bounds [of "bs @ uint16_encode_le c"] assms(2,3)
    by (simp_all add: MAX_SIZE_ENCODED_BUFFER_def)
  have "slip_receive_loop (MAX_SIZE_ENCODED_BUFFER len) True [] (map (Pair 1) ?f @ (1, END_SLIP_OCTET) # rx)
      = slip_receive_loop (MAX_SIZE_ENCODED_BUFFER len) True ([] @ ?f) ((1, END_SLIP_OCTET) # rx)"
    using l by (intro receive_store) (simp_all add: END_notin_escape)
  then have "slip_receive_loop (MAX_SIZE_ENCODED_BUFFER len) False [] (io_rx s) = Inr ((None, ?f), rx)"
    using l assms(1,4) by (simp add: on_line_def numeral_3_eq_3)
  moreover obtain buf where "Slip_decode ?f =
      Inr (if c = crc16 bs then int (length bs)
           else if c = 0xFFFF then WPC_INT_WRONG_CRC_FROM_HOST else WPC_INT_WRONG_CRC, buf)"
    "take (length bs) buf = bs"
    using Slip_decode_with_crc [of bs c] assms(2) by auto
  moreover have "0 < int (length bs)" using assms(1) by (cases bs) auto
  ultimately show ?thesis
    using assms(2,3) by (simp add: Slip_get_buffer_def receive_raw_def prog_simps wpc_int_codes)
qed

text \<open>The state after a frame has been received, and the round of the loop for each kind of frame.\<close>

abbreviation received_frame :: "u16 \<Rightarrow> (int \<times> u8) list \<Rightarrow> 'z wpc_int_scheme \<Rightarrow> 'z wpc_int_scheme" where
  "received_frame timeout rx s \<equiv> s\<lparr>io_rx := rx, io_waits := io_waits s @ [timeout]\<rparr>"

lemma intact_round:
  assumes "attempt < MAX_CONFIRM_ATTEMPT" "2 \<le> length bs" "length bs \<le> 204"
    and "io_rx s = on_line (bs, crc16 bs) @ rx" "io_clock s = now # cs"
  shows "send_confirm_loop req timeout attempt retries buffer s =
    (let t = (received_frame timeout rx s)\<lparr>io_clock := cs, m_last_successful_answer_ts := now\<rparr> in
     if unat (bs ! 0) = unat (primitive_id req) + 128 \<and> bs ! 1 = frame_id req then Inr ((0, bs), t)
     else send_confirm_loop req timeout (attempt + 1) retries (overlay bs buffer) t)"
proof -
  have ne: "bs \<noteq> []" "Suc 0 < length bs" using assms(2) by auto
  have "send_confirm_loop req timeout attempt retries buffer s =
      confirm_round req timeout attempt retries (overlay bs buffer) (int (length bs)) (received_frame timeout rx s)"
    using confirm_loop_step [OF assms(1), of timeout s "int (length bs)" "Some bs"]
      Slip_get_on_line [OF assms(2,3), of MAX_FRAME_SIZE s "crc16 bs" rx timeout] assms(4) by simp
  with ne assms(2,3,5) show ?thesis
    by (simp add: confirm_round_def prog_simps Platform_get_timestamp_ms_monotonic_def byte_at_def overlay_def
        nth_append Let_def)
qed

lemma damaged_round:
  assumes "attempt < MAX_CONFIRM_ATTEMPT" "2 \<le> length bs" "length bs \<le> 204"
    and "io_rx s = on_line (bs, c) @ rx" "c \<noteq> crc16 bs"
  shows "send_confirm_loop req timeout attempt retries buffer s =
    confirm_round req timeout attempt retries buffer
      (if c = 0xFFFF then WPC_INT_WRONG_CRC_FROM_HOST else WPC_INT_WRONG_CRC) (received_frame timeout rx s)"
  using confirm_loop_step [OF assms(1), of timeout s _ None]
    Slip_get_on_line [OF assms(2,3), of MAX_FRAME_SIZE s c rx timeout] assms(4,5) by simp

text \<open>The node reports a damaged request: it is sent again while repetitions are left.\<close>

lemma repeated_round:
  assumes "MAX_CRC_REQUEST_ERROR_RETRIES - retries = Suc r" "request_filled req" "sendable (frame_bytes req)"
    and "io_wr s = int (length (wire_frame (frame_bytes req))) # wr"
  shows "confirm_round req timeout attempt retries buffer WPC_INT_WRONG_CRC_FROM_HOST s =
    send_confirm_loop req timeout attempt (retries + 1) buffer
      (s\<lparr>io_wr := wr, io_tx := io_tx s @ [wire_frame (frame_bytes req)]\<rparr>)"
proof -
  have "retries < MAX_CRC_REQUEST_ERROR_RETRIES" using assms(1) by linarith
  with send_frame_sendable [OF assms(2-4)] show ?thesis
    by (simp add: confirm_round_def andthen_def [of "send_frame req"] wpc_int_codes)
qed

lemma confirm_loop_protocol:
  assumes "protocol (primitive_id req) (frame_id req) (MAX_CONFIRM_ATTEMPT - attempt)
      (MAX_CRC_REQUEST_ERROR_RETRIES - retries) frames = Some (res, conf, n)"
    and "request_filled req" "sendable (frame_bytes req)"
    and "\<forall>f \<in> set frames. 2 \<le> length (fst f) \<and> length (fst f) \<le> 204"
    and "io_rx s = concat (map on_line frames) @ rx" "length frames \<le> length (io_clock s)"
    and "\<exists>wr. io_wr s = replicate (MAX_CRC_REQUEST_ERROR_RETRIES - retries)
        (int (length (wire_frame (frame_bytes req)))) @ wr"
  shows "\<exists>t. send_confirm_loop req timeout attempt retries buffer s = Inr ((res, conf), t)
      \<and> io_tx t = io_tx s @ replicate n (wire_frame (frame_bytes req))"
  using assms
proof (induction frames arbitrary: attempt retries buffer s n)
  case Nil
  then show ?case
    by (cases "MAX_CONFIRM_ATTEMPT - attempt") (auto simp: confirm_loop_end)
next
  case (Cons f frames)
  obtain bs c where f: "f = (bs, c)" by (cases f)
  let ?rx = "concat (map on_line frames) @ rx" and ?len = "int (length (wire_frame (frame_bytes req)))"
  show ?case
  proof (cases "attempt < MAX_CONFIRM_ATTEMPT")
    case False
    with Cons.prems(1) show ?thesis by (auto simp: confirm_loop_end)
  next
    case True
    then obtain m where m: "MAX_CONFIRM_ATTEMPT - attempt = Suc m" "m = MAX_CONFIRM_ATTEMPT - Suc attempt"
      by (metis Suc_diff_Suc)
    have b: "2 \<le> length bs" "length bs \<le> 204" and rx: "io_rx s = on_line (bs, c) @ ?rx"
      using Cons.prems(4,5) f by auto
    obtain now cs where clock: "io_clock s = now # cs" "length frames \<le> length cs"
      using Cons.prems(6) by (cases "io_clock s") auto
    consider (good) "c = crc16 bs" | (host) "c \<noteq> crc16 bs" "c = 0xFFFF" | (bad) "c \<noteq> crc16 bs" "c \<noteq> 0xFFFF" by blast
    then show ?thesis
    proof cases
      case good
      note round = intact_round [OF True b rx [unfolded good] clock(1), of req timeout retries buffer, unfolded Let_def]
      show ?thesis
      proof (cases "unat (bs ! 0) = unat (primitive_id req) + 128 \<and> bs ! 1 = frame_id req")
        case True
        then show ?thesis using Cons.prems(1) round good by (simp add: f m)
      next
        case False
        let ?t = "(received_frame timeout ?rx s)\<lparr>io_clock := cs, m_last_successful_answer_ts := now\<rparr>"
        have "\<exists>t. send_confirm_loop req timeout (attempt + 1) retries (overlay bs buffer) ?t = Inr ((res, conf), t)
            \<and> io_tx t = io_tx ?t @ replicate n (wire_frame (frame_bytes req))"
          using Cons.prems clock False good by (intro Cons.IH) (auto simp: f m)
        then show ?thesis unfolding round if_not_P [OF False] by simp
      qed
    next
      case host
      note round = damaged_round [OF True b rx host(1), of req timeout retries buffer]
      show ?thesis
      proof (cases "MAX_CRC_REQUEST_ERROR_RETRIES - retries")
        case 0
        then show ?thesis using Cons.prems(1) round host by (simp add: f m confirm_round_def wpc_int_codes)
      next
        case (Suc r)
        from Suc Cons.prems(7) obtain wr where wr: "io_wr s = ?len # replicate r ?len @ wr" by auto
        let ?t = "(received_frame timeout ?rx s)\<lparr>io_wr := replicate r ?len @ wr, io_tx := io_tx s @ [wire_frame (frame_bytes req)]\<rparr>"
        have r: "MAX_CRC_REQUEST_ERROR_RETRIES - (retries + 1) = r" using Suc by simp
        obtain n' where n': "n = Suc n'"
          "protocol (primitive_id req) (frame_id req) (Suc m) r frames = Some (res, conf, n')"
          using Cons.prems(1) host Suc by (auto simp: f m)
        have "\<exists>t. send_confirm_loop req timeout attempt (retries + 1) buffer ?t = Inr ((res, conf), t)
            \<and> io_tx t = io_tx ?t @ replicate n' (wire_frame (frame_bytes req))"
          using Cons.prems(2-6) n' clock unfolding r [symmetric] m(1) [symmetric]
          by (intro Cons.IH) (auto simp: r [simplified])
        with repeated_round [OF Suc Cons.prems(2,3), of "received_frame timeout ?rx s" "replicate r ?len @ wr"] show ?thesis
          using round host(2) wr n'(1) by auto
      qed
    next
      case bad
      then show ?thesis using Cons.prems(1) damaged_round [OF True b rx bad(1), of req timeout retries buffer]
        by (simp add: f m confirm_round_def wpc_int_codes)
    qed
  qed
qed

text \<open>C6: Functional correctness of a request. For every sequence of frames that the node sends (each
  with 2 to 204 bytes, right, damaged or reporting a damaged request), the request returns the
  code and the confirm that the abstract protocol assigns to the sequence with 50 frames of
  patience and 3 repetitions, and the line has seen the request once plus once for every
  repetition, always with the same bytes.\<close>

theorem send_request_refines_protocol:
  assumes "protocol (primitive_id req) (req_frame_id s) 50 3 frames = Some (res, conf, n)"
    and "request_filled req" "sendable (sent_bytes req s)"
    and "\<forall>f \<in> set frames. 2 \<le> length (fst f) \<and> length (fst f) \<le> 204"
    and "io_rx s = concat (map on_line frames) @ rx" "length frames \<le> length (io_clock s)"
    and "io_wr s = replicate 4 (int (length (wire_frame (sent_bytes req s)))) @ wr"
  shows "\<exists>t. WPC_Int_send_request_timeout req timeout s = Inr ((res, conf), t)
      \<and> io_tx t = io_tx s @ replicate (Suc n) (wire_frame (sent_bytes req s))"
proof -
  let ?req = "req\<lparr>frame_id := req_frame_id s\<rparr>" and ?b = "sent_bytes req s"
  let ?len = "int (length (wire_frame ?b))"
  define s1 where "s1 = s\<lparr>m_locked := True, req_frame_id := req_frame_id s + 1\<rparr>"
  define s2 where "s2 = s1\<lparr>io_wr := replicate 3 ?len @ wr, io_tx := io_tx s1 @ [wire_frame ?b]\<rparr>"
  have sf: "send_frame ?req s1 = Inr (0, s2)"
    unfolding s2_def using assms by (intro send_frame_sendable) (simp_all add: s1_def numeral_eq_Suc)
  have "\<exists>t. send_confirm_loop ?req timeout 0 0 [] s2 = Inr ((res, conf), t)
      \<and> io_tx t = io_tx s2 @ replicate n (wire_frame ?b)"
    using assms by (intro confirm_loop_protocol [where frames = frames and rx = rx])
      (auto simp: s1_def s2_def engine_constants)
  then obtain t where "send_request_locked req timeout (s\<lparr>m_locked := True\<rparr>) = Inr ((res, conf), t)"
    and t: "io_tx t = io_tx s @ replicate (Suc n) (wire_frame ?b)"
    using sf by (auto simp: send_request_locked_def prog_simps s1_def s2_def Let_def)
  moreover have "Platform_lock_request s = Inr (\<not> m_locked s, s\<lparr>m_locked := True\<rparr>)"
    by (simp add: Platform_lock_request_def)
  ultimately show ?thesis
    by (simp add: WPC_Int_send_request_timeout_def Platform_unlock_request_def prog_simps)
qed

definition quiet_engine :: wpc_int where
  "quiet_engine = \<lparr>io_rx = [], io_wr = [], io_tx = [], io_clock = [], io_epoch = [], io_waits = [],
     m_locked = False, req_frame_id = 0, m_last_successful_answer_ts = 0,
     m_timeout_no_answer_ms = DEFAULT_MAX_POLL_FAIL_DURATION_MS, m_mtu = ucast DEFAULT_MTU_SIZE,
     m_disabled_poll_request = False, close_returns = True\<rparr>"

text \<open>The node reports a damaged request, then answers with a confirm of an earlier frame, then with
  the right one.\<close>

theorem send_request_refines_protocol_witness:
  "\<exists>(s :: wpc_int) t. WPC_Int_send_request_timeout (new_request 0x21 0 []) 500 s = Inr ((0, [0xA1, 7, 1, 0]), t)
      \<and> req_frame_id s = 7 \<and> length (io_tx t) = 2"
proof -
  let ?req = "new_request 0x21 0 []"
  let ?conf = "[0xA1, 7, 1, 0] :: u8 list" and ?old = "[0xA1, 6, 1, 0] :: u8 list"
  let ?b = "[0x21, 7, 0] :: u8 list" and ?crc = "[0, 0, 0] :: u8 list"
  let ?frames = "[(?crc, 0xFFFF), (?old, crc16 ?old), (?conf, crc16 ?conf)]"
  let ?len = "int (length (wire_frame ?b))"
  let ?s = "quiet_engine\<lparr>req_frame_id := 7, io_rx := concat (map on_line ?frames) @ [],
      io_wr := replicate 4 ?len @ [], io_clock := [1, 2, 3]\<rparr>"
  have b: "sent_bytes ?req ?s = ?b" by (simp add: frame_bytes_def new_request_def)
  have c: "crc16 ?crc \<noteq> 0xFFFF"
    by (simp add: crc16_def crc_step_def crc_ccitt_lut_def)
  have p: "protocol (primitive_id ?req) (req_frame_id ?s) 50 3 ?frames = Some (0, ?conf, 1)"
  proof -
    have "protocol 0x21 7 (Suc (Suc 48)) (Suc 2) ?frames = Some (0, ?conf, 1)"
      using c by (simp del: Suc_numeral)
    then show ?thesis by (simp add: quiet_engine_def)
  qed
  have h: "request_filled ?req" "sendable (sent_bytes ?req ?s)"
    "\<forall>f \<in> set ?frames. 2 \<le> length (fst f) \<and> length (fst f) \<le> 204"
    "io_rx ?s = concat (map on_line ?frames) @ []" "length ?frames \<le> length (io_clock ?s)"
    "io_wr ?s = replicate 4 (int (length (wire_frame (sent_bytes ?req ?s)))) @ []"
    unfolding b by (simp_all add: request_filled_def sendable_def escape1.simps)
  from send_request_refines_protocol [OF p h, of 500]
  obtain t where "WPC_Int_send_request_timeout ?req 500 ?s = Inr ((0, ?conf), t)"
    "io_tx t = io_tx ?s @ replicate (Suc 1) (wire_frame (sent_bytes ?req ?s))"
    by blast
  then show ?thesis
    by (intro exI [of _ ?s] exI [of _ t]) (simp add: quiet_engine_def)
qed

section \<open>Properties of requests\<close>

text \<open>A run in which the write function reports a wrong number of bytes.\<close>

lemma write_failure_run:
  "\<exists>t. WPC_Int_send_request_timeout (new_request 0x21 0 []) 500
     (quiet_engine\<lparr>io_wr := [1000], io_clock := [9]\<rparr>) = Inr ((WPC_INT_GEN_ERROR, []), t)"
proof -
  let ?b = "[0x21, 0, 0] :: u8 list"
  have "sendable ?b" by (simp add: sendable_def escape1.simps)
  then have e: "encode_for_sending ?b = Inr (wire_frame ?b)" by (rule encode_sendable)
  have n: "length (wire_frame ?b) \<noteq> 1000"
    using slip_frame_bounds(2) [of ?b] by (simp add: wire_frame_def)
  show ?thesis
    using e n
    by (simp add: WPC_Int_send_request_timeout_def Platform_lock_request_def Platform_unlock_request_def
        send_request_locked_def send_frame_def Slip_send_buffer_def write_function_def prog_simps
        check_if_timeout_reached_locked_def Platform_get_timestamp_ms_monotonic_def
        quiet_engine_def frame_bytes_def new_request_def DEFAULT_MAX_POLL_FAIL_DURATION_MS_def
        WPC_INT_GEN_ERROR_def)
qed

text \<open>C17: Safety of a request. Whatever the node sends, a request that returns has released the mutex
  and advanced the frame counter by one; it reports success only with a confirm of at most 204
  bytes that carries the primitive of the request plus 0x80 and (if it has two bytes) the frame
  identifier of the request; every other result is one of the five documented error codes.\<close>

theorem send_request_safety:
  assumes "WPC_Int_send_request_timeout req timeout s = Inr ((res, conf), t)"
  shows "\<not> m_locked t \<and> req_frame_id t = req_frame_id s + 1
     \<and> (res = 0 \<and> conf \<noteq> [] \<and> length conf \<le> 204
          \<and> unat (conf ! 0) = unat (primitive_id req) + 128
          \<and> (2 \<le> length conf \<longrightarrow> conf ! 1 = req_frame_id s)
        \<or> res \<in> {WPC_INT_GEN_ERROR, WPC_INT_TIMEOUT_ERROR, WPC_INT_SYNC_ERROR,
            WPC_INT_WRONG_CRC, WPC_INT_WRONG_CRC_FROM_HOST} \<and> conf = [])"
  using send_request_outcome [OF assms]
  by (auto simp: acceptable_def right_confirm_def request_failures_def)

theorem send_request_safety_witness:
  "\<exists>t. WPC_Int_send_request_timeout (new_request 0x21 0 []) 500
       (quiet_engine\<lparr>io_wr := [1000], io_clock := [9]\<rparr>) = Inr ((WPC_INT_GEN_ERROR, []), t)
     \<and> \<not> m_locked t \<and> req_frame_id t = 1"
proof -
  let ?s = "quiet_engine\<lparr>io_wr := [1000], io_clock := [9]\<rparr>"
  obtain t where t: "WPC_Int_send_request_timeout (new_request 0x21 0 []) 500 ?s = Inr ((WPC_INT_GEN_ERROR, []), t)"
    using write_failure_run by blast
  from send_request_safety [OF t] t show ?thesis by (simp add: quiet_engine_def)
qed

text \<open>C18: Bounded effort. A request that returns has put at most 4 frames on the line, all of them the
  same image of the request under its frame identifier, and has waited for at most 53 frames
  (50 attempts and 3 repetitions), each time for the given timeout.\<close>

theorem send_request_bounded:
  assumes "WPC_Int_send_request_timeout req timeout s = Inr (r, t)"
  shows "\<exists>k m. k \<le> 4 \<and> m \<le> 53
     \<and> io_tx t = io_tx s @ replicate k (frame_image (req\<lparr>frame_id := req_frame_id s\<rparr>))
     \<and> io_waits t = io_waits s @ replicate m timeout"
  using send_request_outcome [OF assms] by (simp add: traffic_def)

theorem send_request_bounded_witness:
  "\<exists>t k m. WPC_Int_send_request_timeout (new_request 0x21 0 []) 500
       (quiet_engine\<lparr>io_wr := [1000], io_clock := [9]\<rparr>) = Inr ((WPC_INT_GEN_ERROR, []), t)
     \<and> k \<le> 4 \<and> io_tx t = replicate k (frame_image (new_request 0x21 0 []))"
proof -
  let ?s = "quiet_engine\<lparr>io_wr := [1000], io_clock := [9]\<rparr>"
  obtain t where t: "WPC_Int_send_request_timeout (new_request 0x21 0 []) 500 ?s = Inr ((WPC_INT_GEN_ERROR, []), t)"
    using write_failure_run by blast
  from send_request_bounded [OF t] t show ?thesis by (auto simp: quiet_engine_def new_request_def)
qed

text \<open>C19: The watchdog. When a request meets a node that stays silent, and exactly if a limit is set and the time
  since the last answer exceeds it, the lock of the requests is released, the platform is closed,
  and the process exits once that close returns; when the close waits for ever, so does the caller, and the process does not
  exit. Otherwise the request reports a timeout, the frame has been sent once and the time of the last
  answer is unchanged.\<close>

theorem silent_node_watchdog:
  assumes "request_filled req" "sendable (sent_bytes req s)"
    and "io_rx s = (0, b) # rx" "io_wr s = int (length (wire_frame (sent_bytes req s))) # wr"
    and "io_clock s = now # cs"
  shows "WPC_Int_send_request_timeout req timeout s =
    (if 0 < m_timeout_no_answer_ms s
        \<and> ucast (m_timeout_no_answer_ms s) < now - m_last_successful_answer_ts s
     then Inl (if close_returns s then Exited else Blocked)
     else Inr ((WPC_INT_TIMEOUT_ERROR, []), s\<lparr>io_rx := rx, io_wr := wr,
       io_tx := io_tx s @ [wire_frame (sent_bytes req s)],
       io_clock := (if 0 < m_timeout_no_answer_ms s then cs else now # cs),
       io_waits := io_waits s @ [timeout], m_locked := False, req_frame_id := req_frame_id s + 1\<rparr>))"
proof -
  let ?req = "req\<lparr>frame_id := req_frame_id s\<rparr>" and ?b = "sent_bytes req s"
  define s1 where "s1 = s\<lparr>m_locked := True, req_frame_id := req_frame_id s + 1\<rparr>"
  define s2 where "s2 = s1\<lparr>io_wr := wr, io_tx := io_tx s1 @ [wire_frame ?b]\<rparr>"
  define s3 where "s3 = s2\<lparr>io_rx := rx, io_waits := io_waits s2 @ [timeout]\<rparr>"
  have sf: "send_frame ?req s1 = Inr (0, s2)"
    unfolding s2_def using assms by (intro send_frame_sendable) (simp_all add: s1_def)
  have g: "Slip_get_buffer MAX_FRAME_SIZE timeout s2 = Inr ((WPC_INT_TIMEOUT_ERROR, None), s3)"
    using assms(3) by (simp add: Slip_get_buffer_def receive_raw_def prog_simps s1_def s2_def s3_def)
  have "send_confirm_loop ?req timeout 0 0 [] s2
      = andthen check_if_timeout_reached_locked (\<lambda>_. ret (WPC_INT_TIMEOUT_ERROR, [])) s3"
    using confirm_loop_step [OF _ g, of 0 ?req 0 "[]"]
    by (simp add: engine_constants confirm_round_def wpc_int_codes)
  then have l: "send_request_locked req timeout (s\<lparr>m_locked := True\<rparr>)
      = andthen check_if_timeout_reached_locked (\<lambda>_. ret (WPC_INT_TIMEOUT_ERROR, [])) s3"
    using sf by (simp add: send_request_locked_def prog_simps s1_def Let_def)
  have "Platform_lock_request s = Inr (\<not> m_locked s, s\<lparr>m_locked := True\<rparr>)"
    by (simp add: Platform_lock_request_def)
  then have "WPC_Int_send_request_timeout req timeout s
      = andthen (andthen check_if_timeout_reached_locked (\<lambda>_. ret (WPC_INT_TIMEOUT_ERROR, [])))
          (\<lambda>res. andthen Platform_unlock_request (\<lambda>_. ret res)) s3"
    using l by (simp add: WPC_Int_send_request_timeout_def andthen_def)
  then show ?thesis
    using assms(5)
    by (simp add: check_if_timeout_reached_locked_def Platform_unlock_request_def Platform_close_def prog_simps
        Platform_get_timestamp_ms_monotonic_def s3_def s2_def s1_def)
qed

theorem silent_node_watchdog_witness:
  "WPC_Int_send_request_timeout (new_request 0x21 0 []) 500 (quiet_engine\<lparr>io_rx := [(0, 0)],
       io_wr := [int (length (wire_frame [0x21, 0, 0]))], io_clock := [60001]\<rparr>) = Inl Exited
   \<and> WPC_Int_send_request_timeout (new_request 0x21 0 []) 500 (quiet_engine\<lparr>io_rx := [(0, 0)],
       io_wr := [int (length (wire_frame [0x21, 0, 0]))], io_clock := [60001], close_returns := False\<rparr>) = Inl Blocked
   \<and> (\<exists>t. WPC_Int_send_request_timeout (new_request 0x21 0 []) 500 (quiet_engine\<lparr>io_rx := [(0, 0)],
       io_wr := [int (length (wire_frame [0x21, 0, 0]))], io_clock := [60000]\<rparr>)
         = Inr ((WPC_INT_TIMEOUT_ERROR, []), t))"
proof -
  let ?s = "\<lambda>now ok. quiet_engine\<lparr>io_rx := [(0, 0)],
       io_wr := [int (length (wire_frame [0x21, 0, 0]))], io_clock := [now], close_returns := ok\<rparr>"
  have h: "request_filled (new_request 0x21 0 [])" "sendable (sent_bytes (new_request 0x21 0 []) (?s now ok))"
    "io_rx (?s now ok) = (0, 0) # []"
    "io_wr (?s now ok) = int (length (wire_frame (sent_bytes (new_request 0x21 0 []) (?s now ok)))) # []"
    "io_clock (?s now ok) = now # []" for now ok
    by (simp_all add: request_filled_def sendable_def escape1.simps frame_bytes_def new_request_def
        quiet_engine_def)
  show ?thesis
    using silent_node_watchdog [OF h, of 500 True 60001] silent_node_watchdog [OF h, of 500 False 60001]
      silent_node_watchdog [OF h, of 500 True 60000]
    by (simp add: quiet_engine_def DEFAULT_MAX_POLL_FAIL_DURATION_MS_def)
qed

section \<open>Polling\<close>

text \<open>
  What the host answers to a sequence of indications when it can take \<^verbatim>\<open>n\<close> of them: each is
  acknowledged under its own frame identifier, and the answer tells the node to go on exactly
  when the node has more and the host has room left. \<^verbatim>\<open>deliver\<close> is the effect of the
  platform's callback on the state above the engine.
\<close>

fun poll_answers :: "nat \<Rightarrow> u8 list list \<Rightarrow> u8 list list" where
  "poll_answers n [] = []"
| "poll_answers 0 inds = []"
| "poll_answers (Suc n) (f # fs) =
     [f ! 0 + 0x80, f ! 1, 1, if f ! 3 > 0 \<and> n \<noteq> 0 then 1 else 0] # poll_answers n fs"

definition delivering ::
  "(u8 list \<Rightarrow> u64 \<Rightarrow> 'z \<Rightarrow> 'z) \<Rightarrow> u8 list \<Rightarrow> u64 \<Rightarrow> ('z wpc_int_scheme, unit) prog" where
  "delivering deliver f ts = modify (wpc_int.more_update (deliver f ts))"

text \<open>An indication that can be received and answered: its response has at least two bytes that
  need no escape.\<close>

definition answerable :: "u8 list \<Rightarrow> bool" where
  "answerable f \<longleftrightarrow> 4 \<le> length f \<and> length f \<le> 204"

definition after_indication ::
  "(u8 list \<Rightarrow> u64 \<Rightarrow> 'z \<Rightarrow> 'z) \<Rightarrow> bool \<Rightarrow> u8 list \<Rightarrow> 'z wpc_int_scheme \<Rightarrow> 'z wpc_int_scheme" where
  "after_indication deliver last_one f s =
     wpc_int.more_update (deliver f (hd (io_epoch s)))
       (s\<lparr>io_rx := drop (length (wire_frame f)) (io_rx s), io_wr := tl (io_wr s),
          io_epoch := tl (io_epoch s), io_waits := io_waits s @ [500],
          io_tx := io_tx s @ [wire_frame [f ! 0 + 0x80, f ! 1, 1, if f ! 3 > 0 \<and> \<not> last_one then 1 else 0]]\<rparr>)"

lemma response_sendable: "sendable [p, i, 1, if b then 1 else 0]"
  by (cases "p = END_SLIP_OCTET \<or> p = ESC_SLIP_OCTET"; cases "i = END_SLIP_OCTET \<or> i = ESC_SLIP_OCTET")
    (auto simp: sendable_def escape1.simps)

lemma handle_indication_step:
  assumes "answerable f" "io_rx s = map (Pair 1) (wire_frame f) @ rx"
    and "io_wr s = int (length (wire_frame [f ! 0 + 0x80, f ! 1, 1, if f ! 3 > 0 \<and> \<not> last_one then 1 else 0])) # wr"
    and "io_epoch s = now # es"
  shows "handle_indication last_one (delivering deliver) s
    = Inr (int (unat (f ! 3)), after_indication deliver last_one f s)"
proof -
  let ?r = "[f ! 0 + 0x80, f ! 1, 1, if f ! 3 > 0 \<and> \<not> last_one then 1 else 0]"
  define s1 where "s1 = s\<lparr>io_rx := rx, io_waits := io_waits s @ [500], io_epoch := es\<rparr>"
  have f: "2 \<le> length f" "length f \<le> SIZEOF_FRAME" "length f \<le> 204" "204 \<le> SIZEOF_FRAME" "3 < length f"
    using assms(1) by (simp_all add: answerable_def)
  then have fs: "f \<noteq> []" "Suc 0 < length f" "0 < int (length f)" by auto
  have g: "Slip_get_buffer 204 500 s = Inr ((int (length f), Some f), s\<lparr>io_rx := rx, io_waits := io_waits s @ [500]\<rparr>)"
    using Slip_get_wire_frame [OF f(1-4) assms(2), of 500] by simp
  have "Slip_send_buffer ?r s1 = Inr (0, s1\<lparr>io_wr := wr, io_tx := io_tx s1 @ [wire_frame ?r]\<rparr>)"
    using assms(3) by (intro Slip_send_sendable response_sendable) (simp add: s1_def)
  then show ?thesis
    using f(5) fs assms g
    by (simp add: handle_indication_def engine_constants andthen_def [of "Slip_get_buffer _ _"]
        Platform_get_timestamp_ms_epoch_def prog_simps pl_u8_def byte_at_def send_response_to_stack_def
        frame_bytes_def SAP_RESPONSE_OFFSET_def s1_def delivering_def after_indication_def del: length_greater_0_conv)
qed

text \<open>The indications that one poll fetches: the node announces more with each of them but the last,
  or the host has no more room.\<close>

definition poll_batch :: "nat \<Rightarrow> u8 list list \<Rightarrow> bool" where
  "poll_batch n inds \<longleftrightarrow> inds \<noteq> [] \<and> length inds \<le> n \<and> (\<forall>f \<in> set inds. answerable f)
     \<and> (\<forall>f \<in> set (butlast inds). f ! 3 > 0) \<and> (length inds < n \<longrightarrow> last inds ! 3 = 0)"

lemma poll_batch_Cons:
  "poll_batch (Suc n) (f # fs) \<longleftrightarrow>
     answerable f \<and> (if fs = [] then (0 < n \<longrightarrow> f ! 3 = 0) else f ! 3 > 0 \<and> poll_batch n fs)"
  by (auto simp: poll_batch_def)

lemma poll_loop_batch:
  assumes "poll_batch n inds" "remaining > 0"
    and "io_rx s = concat (map (\<lambda>f. map (Pair 1) (wire_frame f)) inds) @ rx"
    and "io_wr s = map (\<lambda>r. int (length (wire_frame r))) (poll_answers n inds) @ wr"
    and "length inds \<le> length (io_epoch s)"
  shows "\<exists>t. poll_loop n remaining (delivering deliver) s = Inr (if last inds ! 3 > 0 then 1 else 0, t)
     \<and> io_tx t = io_tx s @ map wire_frame (poll_answers n inds)
     \<and> wpc_int.more t = fold (\<lambda>(f, ts). deliver f ts) (zip inds (io_epoch s)) (wpc_int.more s)"
  using assms
proof (induction inds arbitrary: n remaining s)
  case Nil
  then show ?case by (simp add: poll_batch_def)
next
  case (Cons f fs)
  then obtain m where n: "n = Suc m" by (cases n) (auto simp: poll_batch_def)
  note b = Cons.prems(1) [unfolded n poll_batch_Cons]
  define s1 where "s1 = after_indication deliver (m = 0) f s"
  obtain now es where e: "io_epoch s = now # es" "length fs \<le> length es"
    using Cons.prems(5) by (cases "io_epoch s") auto
  have h: "handle_indication (m = 0) (delivering deliver) s = Inr (int (unat (f ! 3)), s1)"
    unfolding s1_def using Cons.prems e b
    by (intro handle_indication_step) (auto simp: n)
  have s1: "io_rx s1 = concat (map (\<lambda>f. map (Pair 1) (wire_frame f)) fs) @ rx"
    "io_wr s1 = map (\<lambda>r. int (length (wire_frame r))) (poll_answers m fs) @ wr"
    "io_epoch s1 = es" "wpc_int.more s1 = deliver f now (wpc_int.more s)"
    "io_tx s1 = io_tx s @ [wire_frame [f ! 0 + 0x80, f ! 1, 1, if f ! 3 > 0 \<and> m \<noteq> 0 then 1 else 0]]"
    using Cons.prems(3,4) e by (simp_all add: s1_def after_indication_def n)
  have step: "poll_loop n remaining (delivering deliver) s
      = poll_loop m (int (unat (f ! 3))) (delivering deliver) s1"
    using h Cons.prems(2) by (simp add: n andthen_def)
  have pos: "0 < uint (f ! 3) \<longleftrightarrow> f ! 3 > 0" by (simp add: word_less_alt)
  show ?case
  proof (cases "fs = []")
    case True
    then show ?thesis
      using step s1 b e by (cases m) (auto simp: n ret_def pos)
  next
    case False
    with b have "poll_batch m fs" "0 < int (unat (f ! 3))"
      using pos by simp_all
    from Cons.IH [OF this s1(1,2)] e s1(3) obtain t where
      "poll_loop m (int (unat (f ! 3))) (delivering deliver) s1 = Inr (if last fs ! 3 > 0 then 1 else 0, t)"
      "io_tx t = io_tx s1 @ map wire_frame (poll_answers m fs)"
      "wpc_int.more t = fold (\<lambda>(f, ts). deliver f ts) (zip fs es) (wpc_int.more s1)"
      by auto
    then show ?thesis using step s1 e False by (simp add: n)
  qed
qed

lemma poll_batch_run:
  assumes "poll_batch (unat max_ind) inds" "max_ind \<noteq> 0" "\<not> m_disabled_poll_request s"
    and "io_rx s = map (Pair 1) (wire_frame [0x84, req_frame_id s, 1, 1])
           @ concat (map (\<lambda>f. map (Pair 1) (wire_frame f)) inds) @ rx"
    and "io_wr s = int (length (wire_frame [0x04, req_frame_id s, 0]))
           # map (\<lambda>r. int (length (wire_frame r))) (poll_answers (unat max_ind) inds) @ wr"
    and "io_clock s = now # cs" "length inds \<le> length (io_epoch s)"
  shows "\<exists>t. get_indication max_ind (delivering deliver) s = Inr (if last inds ! 3 > 0 then 1 else 0, t)
     \<and> io_tx t = io_tx s @ map wire_frame
          ([0x04, req_frame_id s, 0] # poll_answers (unat max_ind) inds)
     \<and> wpc_int.more t = fold (\<lambda>(f, ts). deliver f ts) (zip inds (io_epoch s)) (wpc_int.more s)
     \<and> \<not> m_locked t"
proof -
  let ?poll = "new_request MSAP_INDICATION_POLL_REQUEST 0 []"
  let ?conf = "[0x84, req_frame_id s, 1, 1] :: u8 list"
  have b: "sent_bytes ?poll s = [0x04, req_frame_id s, 0]"
    by (simp add: frame_bytes_def new_request_def MSAP_INDICATION_POLL_REQUEST_def)
  have snd: "sendable (sent_bytes ?poll s)"
    unfolding b by (cases "req_frame_id s = END_SLIP_OCTET \<or> req_frame_id s = ESC_SLIP_OCTET")
      (auto simp: sendable_def escape1.simps)
  define s1 where "s1 = (answered (sent_bytes ?poll s) ?conf 500 s)\<lparr>m_locked := True\<rparr>"
  have r: "send_request_locked ?poll 500 (s\<lparr>m_locked := True\<rparr>) = Inr ((0, ?conf), s1)"
    unfolding s1_def using assms(4-6) snd b
    by (intro send_request_locked_answered)
      (auto simp: request_filled_def confirms_def node_answers_def MSAP_INDICATION_POLL_REQUEST_def)
  obtain t where t: "poll_loop (unat max_ind) 1 (delivering deliver) s1 = Inr (if last inds ! 3 > 0 then 1 else 0, t)"
    "io_tx t = io_tx s1 @ map wire_frame (poll_answers (unat max_ind) inds)"
    "wpc_int.more t = fold (\<lambda>(f, ts). deliver f ts) (zip inds (io_epoch s1)) (wpc_int.more s1)"
    using poll_loop_batch [OF assms(1), of 1 s1 rx wr deliver] assms(4-7)
    by (auto simp: s1_def answered_def)
  have "Platform_lock_request s = Inr (\<not> m_locked s, s\<lparr>m_locked := True\<rparr>)"
    by (simp add: Platform_lock_request_def)
  then have "get_indication max_ind (delivering deliver) s
      = Inr (if last inds ! 3 > 0 then 1 else 0, t\<lparr>m_locked := False\<rparr>)"
    using r t(1) assms(2,3)
    by (simp add: get_indication_def get_indication_locked_def prog_simps engine_constants pl_u8_def
        byte_at_def Platform_unlock_request_def)
  then show ?thesis
    using t b by (simp add: s1_def answered_def)
qed

text \<open>C12: Polling is complete and in order. When the node answers a poll with "indications pending"
  and then sends a batch of indications (announcing more with each but the last, at most as many
  as the host asked for), every indication reaches the platform's callback, in order and with its
  reception time, every one is acknowledged under its own frame identifier, the last
  acknowledgement asks for no more, and the result says whether the node still has some.\<close>

theorem poll_delivers_batch:
  assumes "poll_batch (unat max_ind) inds" "max_ind \<noteq> 0" "\<not> m_disabled_poll_request s"
    and "io_rx s = map (Pair 1) (wire_frame [0x84, req_frame_id s, 1, 1])
           @ concat (map (\<lambda>f. map (Pair 1) (wire_frame f)) inds) @ rx"
    and "io_wr s = int (length (wire_frame [0x04, req_frame_id s, 0]))
           # map (\<lambda>r. int (length (wire_frame r))) (poll_answers (unat max_ind) inds) @ wr"
    and "io_clock s = now # cs" "length inds \<le> length (io_epoch s)"
  shows "\<exists>t. get_indication max_ind (delivering deliver) s = Inr (if last inds ! 3 > 0 then 1 else 0, t)
     \<and> io_tx t = io_tx s @ map wire_frame
          ([0x04, req_frame_id s, 0] # poll_answers (unat max_ind) inds)
     \<and> wpc_int.more t = fold (\<lambda>(f, ts). deliver f ts) (zip inds (io_epoch s)) (wpc_int.more s)
     \<and> \<not> m_locked t"
  using assms by (rule poll_batch_run)

theorem poll_delivers_batch_witness:
  "\<exists>(s :: (u8 list list) wpc_int_scheme) t.
     get_indication 3 (delivering (\<lambda>f ts log. log @ [f])) s = Inr (0, t)
     \<and> wpc_int.more t = [[3, 9, 2, 1, 5], [3, 10, 1, 0]] \<and> length (io_tx t) = 3"
proof -
  let ?inds = "[[3, 9, 2, 1, 5], [3, 10, 1, 0]] :: u8 list list"
  let ?s = "wpc_int.extend (quiet_engine\<lparr>
      io_rx := map (Pair 1) (wire_frame [0x84, 0, 1, 1]) @ concat (map (\<lambda>f. map (Pair 1) (wire_frame f)) ?inds) @ [],
      io_wr := int (length (wire_frame [0x04, 0, 0])) # map (\<lambda>r. int (length (wire_frame r))) (poll_answers 3 ?inds) @ [],
      io_clock := [5], io_epoch := [6, 7]\<rparr>) ([] :: u8 list list)"
  have b: "poll_batch (unat (3 :: u32)) ?inds" by (simp add: poll_batch_def answerable_def)
  have h: "(3 :: u32) \<noteq> 0" "\<not> m_disabled_poll_request ?s"
    "io_rx ?s = map (Pair 1) (wire_frame [0x84, req_frame_id ?s, 1, 1])
       @ concat (map (\<lambda>f. map (Pair 1) (wire_frame f)) ?inds) @ []"
    "io_wr ?s = int (length (wire_frame [0x04, req_frame_id ?s, 0]))
       # map (\<lambda>r. int (length (wire_frame r))) (poll_answers (unat (3 :: u32)) ?inds) @ []"
    "io_clock ?s = 5 # []" "length ?inds \<le> length (io_epoch ?s)"
    by (simp_all add: quiet_engine_def wpc_int.extend_def)
  from poll_delivers_batch [OF b h, of "\<lambda>f ts log. log @ [f]"] obtain t where
    "get_indication 3 (delivering (\<lambda>f ts log. log @ [f])) ?s = Inr (if last ?inds ! 3 > 0 then 1 else 0, t)"
    "io_tx t = io_tx ?s @ map wire_frame ([0x04, req_frame_id ?s, 0] # poll_answers (unat (3 :: u32)) ?inds)"
    "wpc_int.more t = fold (\<lambda>(f, ts). (\<lambda>f ts log. log @ [f]) f ts) (zip ?inds (io_epoch ?s)) (wpc_int.more ?s)"
    by blast
  moreover have "length (poll_answers 3 ?inds) = 2" by (simp add: numeral_3_eq_3)
  ultimately show ?thesis
    by (intro exI [of _ ?s] exI [of _ t]) (simp add: quiet_engine_def wpc_int.extend_def)
qed

end
