(* ===== verification/Sap.thy ===== *)
theory Sap
  imports Wpc_Internal
begin

text \<open>
  What the service access points share: the result codes of the API (\<^verbatim>\<open>lib/api/wpc.h\<close>) and their
  computation from the node's codes (\<^verbatim>\<open>convert_error_code\<close> of \<^verbatim>\<open>lib/wpc/wpc.c\<close>), the identities of
  the application's callbacks, the contract of an operation that is one request (a locale, with the
  facts that hold for each such operation), the attributes of \<^verbatim>\<open>lib/wpc/attribute.c\<close>, the
  configuration service of \<^verbatim>\<open>lib/wpc/csap.c\<close> and the update of the MTU.

  A C function with out-parameters returns them beside its result. An out-parameter of bytes is
  the list of the bytes that were written, empty when nothing was.
\<close>

section \<open>Result codes\<close>

datatype app_res =
    APP_RES_OK | APP_RES_STACK_NOT_STOPPED | APP_RES_STACK_ALREADY_STOPPED
  | APP_RES_STACK_ALREADY_STARTED | APP_RES_INVALID_VALUE | APP_RES_ROLE_NOT_SET
  | APP_RES_NODE_ADD_NOT_SET | APP_RES_NET_ADD_NOT_SET | APP_RES_NET_CHAN_NOT_SET
  | APP_RES_STACK_IS_STOPPED | APP_RES_NODE_NOT_A_SINK | APP_RES_UNKNOWN_DEST
  | APP_RES_NO_CONFIG | APP_RES_ALREADY_REGISTERED | APP_RES_NOT_REGISTERED
  | APP_RES_ATTRIBUTE_NOT_SET | APP_RES_ACCESS_DENIED | APP_RES_DATA_ERROR
  | APP_RES_NO_SCRATCHPAD_START | APP_RES_NO_VALID_SCRATCHPAD | APP_RES_NOT_A_SINK
  | APP_RES_OUT_OF_MEMORY | APP_RES_INVALID_DIAG_INTERVAL | APP_RES_INVALID_SEQ
  | APP_RES_INVALID_START_ADDRESS | APP_RES_INVALID_NUMBER_OF_BYTES | APP_RES_INVALID_SCRATCHPAD
  | APP_RES_INVALID_REBOOT_DELAY | APP_RES_INTERNAL_ERROR | APP_RES_OPERATION_NOT_SUPPORTED

fun app_res_code :: "app_res \<Rightarrow> nat" where
  "app_res_code APP_RES_OK = 0"
| "app_res_code APP_RES_STACK_NOT_STOPPED = 1"
| "app_res_code APP_RES_STACK_ALREADY_STOPPED = 2"
| "app_res_code APP_RES_STACK_ALREADY_STARTED = 3"
| "app_res_code APP_RES_INVALID_VALUE = 4"
| "app_res_code APP_RES_ROLE_NOT_SET = 5"
| "app_res_code APP_RES_NODE_ADD_NOT_SET = 6"
| "app_res_code APP_RES_NET_ADD_NOT_SET = 7"
| "app_res_code APP_RES_NET_CHAN_NOT_SET = 8"
| "app_res_code APP_RES_STACK_IS_STOPPED = 9"
| "app_res_code APP_RES_NODE_NOT_A_SINK = 10"
| "app_res_code APP_RES_UNKNOWN_DEST = 11"
| "app_res_code APP_RES_NO_CONFIG = 12"
| "app_res_code APP_RES_ALREADY_REGISTERED = 13"
| "app_res_code APP_RES_NOT_REGISTERED = 14"
| "app_res_code APP_RES_ATTRIBUTE_NOT_SET = 15"
| "app_res_code APP_RES_ACCESS_DENIED = 16"
| "app_res_code APP_RES_DATA_ERROR = 17"
| "app_res_code APP_RES_NO_SCRATCHPAD_START = 18"
| "app_res_code APP_RES_NO_VALID_SCRATCHPAD = 19"
| "app_res_code APP_RES_NOT_A_SINK = 20"
| "app_res_code APP_RES_OUT_OF_MEMORY = 21"
| "app_res_code APP_RES_INVALID_DIAG_INTERVAL = 22"
| "app_res_code APP_RES_INVALID_SEQ = 23"
| "app_res_code APP_RES_INVALID_START_ADDRESS = 24"
| "app_res_code APP_RES_INVALID_NUMBER_OF_BYTES = 25"
| "app_res_code APP_RES_INVALID_SCRATCHPAD = 26"
| "app_res_code APP_RES_INVALID_REBOOT_DELAY = 27"
| "app_res_code APP_RES_INTERNAL_ERROR = 28"
| "app_res_code APP_RES_OPERATION_NOT_SUPPORTED = 29"

lemma app_res_code_inject: "app_res_code x = app_res_code y \<Longrightarrow> x = y"
  by (cases x; cases y) simp_all

text \<open>The enumeration is ordered by its codes, as C compares it.\<close>

instantiation app_res :: linorder
begin

definition less_eq_app_res :: "app_res \<Rightarrow> app_res \<Rightarrow> bool" where
  "less_eq_app_res x y \<longleftrightarrow> app_res_code x \<le> app_res_code y"

definition less_app_res :: "app_res \<Rightarrow> app_res \<Rightarrow> bool" where
  "less_app_res x y \<longleftrightarrow> app_res_code x < app_res_code y"

instance
  by standard (auto simp: less_eq_app_res_def less_app_res_def intro: app_res_code_inject)

end

definition convert_error_code :: "app_res list \<Rightarrow> int \<Rightarrow> app_res" where
  "convert_error_code lut error =
     (if 0 \<le> error \<and> nat error < length lut then lut ! nat error else APP_RES_INTERNAL_ERROR)"

definition ATT_READ_ERROR_CODE_LUT :: "app_res list" where
  "ATT_READ_ERROR_CODE_LUT = [APP_RES_OK, APP_RES_INTERNAL_ERROR, APP_RES_STACK_NOT_STOPPED,
     APP_RES_INTERNAL_ERROR, APP_RES_ATTRIBUTE_NOT_SET, APP_RES_ACCESS_DENIED, APP_RES_ACCESS_DENIED]"

definition ATT_WRITE_ERROR_CODE_LUT :: "app_res list" where
  "ATT_WRITE_ERROR_CODE_LUT = [APP_RES_OK, APP_RES_INTERNAL_ERROR, APP_RES_STACK_NOT_STOPPED,
     APP_RES_INTERNAL_ERROR, APP_RES_INVALID_VALUE, APP_RES_INTERNAL_ERROR, APP_RES_ACCESS_DENIED]"

text \<open>A table in which only the code 0 means success.\<close>

definition zero_is_ok :: "app_res list \<Rightarrow> bool" where
  "zero_is_ok lut \<longleftrightarrow> lut \<noteq> [] \<and> hd lut = APP_RES_OK \<and> APP_RES_OK \<notin> set (tl lut)"

lemma convert_ok_iff:
  assumes "zero_is_ok lut"
  shows "convert_error_code lut e = APP_RES_OK \<longleftrightarrow> e = 0"
proof -
  from assms obtain rest where lut: "lut = APP_RES_OK # rest" "APP_RES_OK \<notin> set rest"
    by (cases lut) (auto simp: zero_is_ok_def)
  show ?thesis
  proof (cases "0 \<le> e \<and> nat e < length lut")
    case True
    then show ?thesis
      using lut by (cases "nat e") (auto simp: convert_error_code_def dest: nth_mem)
  qed (auto simp: convert_error_code_def lut)
qed

lemma convert_negative: "e < 0 \<Longrightarrow> convert_error_code lut e = APP_RES_INTERNAL_ERROR"
  by (simp add: convert_error_code_def)

lemma attribute_tables [simp]: "zero_is_ok ATT_READ_ERROR_CODE_LUT" "zero_is_ok ATT_WRITE_ERROR_CODE_LUT"
  by (simp_all add: zero_is_ok_def ATT_READ_ERROR_CODE_LUT_def ATT_WRITE_ERROR_CODE_LUT_def)

section \<open>Callbacks of the application\<close>

text \<open>
  A registered function pointer is represented by an identifier, \<^const>\<open>None\<close> being NULL. The
  application's code is a parameter of the operations that call it: a program for every call,
  which for the data callback returns its boolean result.
\<close>

type_synonym callback = nat

datatype app_call =
    Stack_status callback u8
  | App_config callback u8 u16 "u8 list"
  | Scan_done callback u8
  | Config_item callback u16 "u8 list" u8
  | Data_sent callback u16 u32 u8
  | Data_received callback "u8 list" nat u32 u32 bool u8 u8 u32 u8 u64

definition call_if_set :: "('s \<Rightarrow> callback option) \<Rightarrow> (callback \<Rightarrow> ('s, unit) prog) \<Rightarrow> ('s, unit) prog" where
  "call_if_set slot call =
     andthen (gets slot) (\<lambda>cb. case cb of None \<Rightarrow> ret () | Some c \<Rightarrow> call c)"

text \<open>The macros \<^verbatim>\<open>REGISTER_CB\<close> and \<^verbatim>\<open>UNREGISTER_CB\<close> of \<^verbatim>\<open>msap.c\<close>, for a variable given by the
  functions that read and write it.\<close>

definition register_cb ::
  "('z wpc_int_scheme \<Rightarrow> callback option) \<Rightarrow> (callback option \<Rightarrow> 'z wpc_int_scheme \<Rightarrow> 'z wpc_int_scheme)
     \<Rightarrow> callback option \<Rightarrow> ('z wpc_int_scheme, bool) prog" where
  "register_cb slot set_slot cb =
     andthen Platform_lock_request (\<lambda>_.
     andthen (gets slot) (\<lambda>internal_cb.
     andthen (if internal_cb \<noteq> None then ret False else andthen (modify (set_slot cb)) (\<lambda>_. ret True))
       (\<lambda>res.
     andthen Platform_unlock_request (\<lambda>_. ret res))))"

definition unregister_cb ::
  "('z wpc_int_scheme \<Rightarrow> callback option) \<Rightarrow> (callback option \<Rightarrow> 'z wpc_int_scheme \<Rightarrow> 'z wpc_int_scheme)
     \<Rightarrow> ('z wpc_int_scheme, bool) prog" where
  "unregister_cb slot set_slot =
     andthen Platform_lock_request (\<lambda>_.
     andthen (gets slot) (\<lambda>internal_cb.
     andthen (modify (set_slot None)) (\<lambda>_.
     andthen Platform_unlock_request (\<lambda>_. ret (internal_cb \<noteq> None)))))"

locale callback_slot =
  fixes slot :: "'z wpc_int_scheme \<Rightarrow> callback option"
    and set_slot :: "callback option \<Rightarrow> 'z wpc_int_scheme \<Rightarrow> 'z wpc_int_scheme"
  assumes slot_set: "slot (set_slot c s) = c"
    and slot_lock: "slot (s\<lparr>m_locked := b\<rparr>) = slot s"
    and set_lock: "(set_slot c (s\<lparr>m_locked := b\<rparr>))\<lparr>m_locked := b'\<rparr> = set_slot c (s\<lparr>m_locked := b'\<rparr>)"
begin

lemma lock_run: "Platform_lock_request s = Inr (\<not> m_locked s, s\<lparr>m_locked := True\<rparr>)"
  by (simp add: Platform_lock_request_def)

text \<open>Registering fills an empty variable and is refused, without effect, for a full one; the two
  operations together behave like a cell that holds at most one callback.\<close>

lemma register_run:
  "register_cb slot set_slot cb s =
     (if slot s = None then Inr (True, set_slot cb (s\<lparr>m_locked := False\<rparr>))
      else Inr (False, s\<lparr>m_locked := False\<rparr>))"
  by (simp add: register_cb_def lock_run prog_simps slot_lock set_lock Platform_unlock_request_def)

lemma unregister_run:
  "unregister_cb slot set_slot s = Inr (slot s \<noteq> None, set_slot None (s\<lparr>m_locked := False\<rparr>))"
  by (simp add: unregister_cb_def lock_run prog_simps slot_lock set_lock Platform_unlock_request_def)

end

section \<open>The contract of an operation that is one request\<close>

text \<open>The frame identifier is chosen late. Two bytes of the header that need no escape, the primitive
  and the length, and at most 124 bytes of payload are enough for the frame to be sendable.\<close>

definition short_request :: "wpc_frame \<Rightarrow> bool" where
  "short_request f \<longleftrightarrow> request_filled f \<and> length (payload f) \<le> 124 \<and> primitive_id f < 0xC0"

lemma short_request_sendable:
  assumes "short_request f"
  shows "sendable (frame_bytes (f\<lparr>frame_id := fid\<rparr>))"
proof -
  have "unat (primitive_id f) < 192"
    using assms by (simp add: short_request_def word_less_nat_alt)
  then have "primitive_id f \<noteq> END_SLIP_OCTET" "primitive_id f \<noteq> ESC_SLIP_OCTET" by auto
  moreover have "unat (payload_length f) < 192"
    using assms by (simp add: short_request_def request_filled_def)
  then have "payload_length f \<noteq> END_SLIP_OCTET" "payload_length f \<noteq> ESC_SLIP_OCTET" by auto
  ultimately have "length (escape (frame_bytes (f\<lparr>frame_id := fid\<rparr>)))
      = 2 + length (escape1 fid) + length (escape (payload f))"
    by (simp add: frame_bytes_def escape1.simps)
  moreover have "length (escape (payload f)) \<le> 2 * length (payload f)" by (rule length_escape_bounds)
  moreover have "length (escape1 fid) \<le> 2" by (simp add: escape1.simps)
  ultimately show ?thesis
    using assms by (simp add: sendable_def short_request_def)
qed

text \<open>A dialogue is a list of requests, each with the payload of the node's confirm. The frames of the
  requests on the line are numbered from the current frame identifier on; the node follows the
  dialogue when the line holds its confirms in that order.\<close>

fun numbered :: "u8 \<Rightarrow> wpc_frame list \<Rightarrow> u8 list list" where
  "numbered fid [] = []"
| "numbered fid (f # fs) = frame_bytes (f\<lparr>frame_id := fid\<rparr>) # numbered (fid + 1) fs"

definition confirm_bytes :: "wpc_frame \<Rightarrow> u8 \<Rightarrow> u8 list \<Rightarrow> u8 list" where
  "confirm_bytes f fid pl = [primitive_id f + 0x80, fid, of_nat (length pl)] @ pl"

fun numbered_confirms :: "u8 \<Rightarrow> (wpc_frame \<times> u8 list) list \<Rightarrow> u8 list list" where
  "numbered_confirms fid [] = []"
| "numbered_confirms fid ((f, pl) # script) = confirm_bytes f fid pl # numbered_confirms (fid + 1) script"

definition dialogue :: "(wpc_frame \<times> u8 list) list \<Rightarrow> 'z wpc_int_scheme \<Rightarrow> bool" where
  "dialogue script s \<longleftrightarrow>
     (\<exists>rx wr. io_rx s = concat (map (\<lambda>c. map (Pair 1) (wire_frame c)) (numbered_confirms (req_frame_id s) script)) @ rx
       \<and> io_wr s = map (\<lambda>b. int (length (wire_frame b))) (numbered (req_frame_id s) (map fst script)) @ wr
       \<and> length script \<le> length (io_clock s))"

lemma length_numbered [simp]: "length (numbered fid fs) = length fs"
  by (induction fid fs rule: numbered.induct) simp_all

lemma dialogue_Cons:
  fixes timeout :: u16
  assumes "dialogue ((f, pl) # script) s" "short_request f" "primitive_id f < 0x80" "length pl \<le> 200"
  defines "c \<equiv> confirm_bytes f (req_frame_id s) pl"
  defines "t \<equiv> answered (sent_bytes f s) c timeout s"
  shows "WPC_Int_send_request_timeout f timeout s = Inr ((0, c), t)" and "dialogue script t"
    and "io_tx t = io_tx s @ [wire_frame (sent_bytes f s)]" and "req_frame_id t = req_frame_id s + 1"
    and "engine_config t = engine_config s"
proof -
  obtain rx wr where s: "io_rx s = map (Pair 1) (wire_frame c)
      @ concat (map (\<lambda>c. map (Pair 1) (wire_frame c)) (numbered_confirms (req_frame_id s + 1) script)) @ rx"
    "io_wr s = int (length (wire_frame (sent_bytes f s)))
      # map (\<lambda>b. int (length (wire_frame b))) (numbered (req_frame_id s + 1) (map fst script)) @ wr"
    "Suc (length script) \<le> length (io_clock s)"
    using assms(1) by (auto simp: dialogue_def c_def)
  then obtain now cs where clock: "io_clock s = now # cs" "length script \<le> length cs"
    by (cases "io_clock s") auto
  have "unat (primitive_id f) < 128" using assms(3) by (simp add: word_less_nat_alt)
  then have "unat (primitive_id f + 0x80) = unat (primitive_id f) + 128" by (simp add: unat_word_ariths)
  then have "confirms f (req_frame_id s) c" using assms(4) by (simp add: confirms_def c_def confirm_bytes_def)
  moreover have "node_answers (sent_bytes f s) c s" using s(1,2) clock by (auto simp: node_answers_def)
  moreover have "request_filled f" using assms(2) by (simp add: short_request_def)
  ultimately show "WPC_Int_send_request_timeout f timeout s = Inr ((0, c), t)"
    unfolding t_def by (intro send_request_answered short_request_sendable assms(2))
  show "dialogue script t"
    unfolding dialogue_def using s clock by (auto simp: t_def answered_def)
  show "io_tx t = io_tx s @ [wire_frame (sent_bytes f s)]" "req_frame_id t = req_frame_id s + 1"
    "engine_config t = engine_config s"
    by (simp_all add: t_def answered_def engine_config_def)
qed

text \<open>A line that holds exactly the confirms of a dialogue.\<close>

definition on_script :: "(wpc_frame \<times> u8 list) list \<Rightarrow> 'z wpc_int_scheme \<Rightarrow> 'z wpc_int_scheme" where
  "on_script script s = s\<lparr>
     io_rx := concat (map (\<lambda>c. map (Pair 1) (wire_frame c)) (numbered_confirms (req_frame_id s) script)),
     io_wr := map (\<lambda>b. int (length (wire_frame b))) (numbered (req_frame_id s) (map fst script)),
     io_clock := replicate (length script) 0\<rparr>"

lemma dialogue_on_script [simp]: "dialogue script (on_script script s)"
  by (simp add: dialogue_def on_script_def)

lemma on_script_fields [simp]:
  "io_tx (on_script script s) = io_tx s" "req_frame_id (on_script script s) = req_frame_id s"
  "engine_config (on_script script s) = engine_config s"
  "wpc_int.more (on_script script s) = wpc_int.more s" "m_mtu (on_script script s) = m_mtu s"
  by (simp_all add: on_script_def engine_config_def)

text \<open>The precondition \<^verbatim>\<open>ok\<close> says when the operation sends the request at all.\<close>

locale request_service =
  fixes ok :: bool
    and op :: "('z wpc_int_scheme, 'r) prog"
    and frame :: wpc_frame
    and timeout :: u16
    and failure :: "int \<Rightarrow> 'r"
    and decode :: "u8 list \<Rightarrow> stop + 'r"
  assumes short: "ok \<Longrightarrow> short_request frame"
    and run: "ok \<Longrightarrow> op = andthen (WPC_Int_send_request_timeout frame timeout)
        (\<lambda>(res, confirm). if res < 0 then ret (failure res) else lift_sum (decode confirm))"
begin

text \<open>When the node answers, the result is decoded from its confirm, and the request has been on the
  line exactly once.\<close>

lemma answered_result:
  assumes ok "confirms frame (req_frame_id s) confirm" "node_answers (sent_bytes frame s) confirm s"
  shows "op s = (case decode confirm of Inl e \<Rightarrow> Inl e
    | Inr v \<Rightarrow> Inr (v, answered (sent_bytes frame s) confirm timeout s))"
  using send_request_answered [OF _ short_request_sendable [OF short [OF assms(1)]] assms(2,3), of timeout]
    short assms(1)
  by (simp add: run prog_simps short_request_def)

text \<open>Whatever the node does, a result is an error code or the decoding of a confirm that fits the
  request; the configuration of the engine and everything above it is unchanged.\<close>

lemma result:
  assumes ok "op s = Inr (v, t)"
  shows "((\<exists>code \<in> request_failures. v = failure code)
      \<or> (\<exists>confirm. right_confirm (frame\<lparr>frame_id := req_frame_id s\<rparr>) confirm \<and> decode confirm = Inr v))
    \<and> engine_config t = engine_config s \<and> \<not> m_locked t \<and> req_frame_id t = req_frame_id s + 1"
proof -
  obtain res confirm s1 where r: "WPC_Int_send_request_timeout frame timeout s = Inr ((res, confirm), s1)"
    and d: "(if res < 0 then ret (failure res) else lift_sum (decode confirm)) s1 = Inr (v, t)"
    using assms(2) unfolding run [OF assms(1)] by auto
  from d have t: "t = s1" by (auto split: if_splits)
  have "engine_config s1 = engine_config s"
    using keepsD [OF config.keeps_request_timeout _ r] by blast
  moreover from send_request_outcome [OF r] have "acceptable (frame\<lparr>frame_id := req_frame_id s\<rparr>) (res, confirm)"
    "req_frame_id s1 = req_frame_id s + 1" "\<not> m_locked s1"
    by simp_all
  ultimately show ?thesis
    using d by (auto simp: t acceptable_def request_failures_def wpc_int_codes split: if_splits)
qed

lemma failure_only_negative:
  assumes ok "op s = Inr (v, t)" "\<forall>code < 0. v \<noteq> failure code"
  shows "\<exists>confirm. right_confirm (frame\<lparr>frame_id := req_frame_id s\<rparr>) confirm \<and> decode confirm = Inr v"
  using result [OF assms(1,2)] assms(3) by (auto simp: request_failures_def wpc_int_codes)

end

text \<open>Most confirms carry only a result byte.\<close>

definition generic_confirm :: "u8 list \<Rightarrow> stop + int" where
  "generic_confirm confirm =
     (case pl_u8 confirm 0 of Inl e \<Rightarrow> Inl e | Inr r \<Rightarrow> Inr (int (unat r)))"

definition confirm_result :: "int \<times> u8 list \<Rightarrow> ('s, int) prog" where
  "confirm_result = (\<lambda>(res, confirm). if res < 0 then ret res else lift_sum (generic_confirm confirm))"

section \<open>Attributes\<close>

definition MAX_ATTRIBUTE_SIZE :: nat where "MAX_ATTRIBUTE_SIZE = 40"

text \<open>The value is copied from the caller's object \<^verbatim>\<open>value\<close>, which must hold that many bytes.\<close>

definition attribute_write_request ::
  "u8 \<Rightarrow> u16 \<Rightarrow> u8 \<Rightarrow> u8 list \<Rightarrow> ('z wpc_int_scheme, int) prog" where
  "attribute_write_request prim attribute_id attribute_length val =
     (if unat attribute_length > MAX_ATTRIBUTE_SIZE then ret (-1)
      else
        andthen (require (unat attribute_length \<le> length val) Undefined) (\<lambda>_.
        andthen (WPC_Int_send_request
          (new_request prim (3 + attribute_length)
            (uint16_encode_le attribute_id @ attribute_length # take (unat attribute_length) val)))
          confirm_result))"

definition attribute_read_confirm :: "u8 \<Rightarrow> u8 list \<Rightarrow> stop + (int \<times> u8 list)" where
  "attribute_read_confirm attribute_length confirm =
     (case pl_u8 confirm 0 of Inl e \<Rightarrow> Inl e
      | Inr result \<Rightarrow>
        if result = 0 then
          (case pl_u8 confirm 3 of Inl e \<Rightarrow> Inl e
           | Inr actual_size \<Rightarrow>
             if attribute_length \<noteq> actual_size then Inr (-1, [])
             else Inr (int (unat result), pl_copy confirm 4 (unat attribute_length)))
        else Inr (int (unat result), []))"

definition attribute_read_request ::
  "u8 \<Rightarrow> u16 \<Rightarrow> u8 \<Rightarrow> ('z wpc_int_scheme, int \<times> u8 list) prog" where
  "attribute_read_request prim attribute_id attribute_length =
     andthen (WPC_Int_send_request (new_request prim 2 (uint16_encode_le attribute_id)))
       (\<lambda>(res, confirm). if res < 0 then ret (res, [])
                         else lift_sum (attribute_read_confirm attribute_length confirm))"

lemma length_uint_encode [simp]: "length (uint16_encode_le v) = 2" "length (uint32_encode_le w) = 4"
  by (simp_all add: uint16_encode_le_def uint32_encode_le_def)

lemma short_new_request:
  "unat len = length bs \<Longrightarrow> length bs \<le> 124 \<Longrightarrow> prim < 0xC0 \<Longrightarrow> short_request (new_request prim len bs)"
  by (simp add: short_request_def request_filled_def)

lemma short_write_request:
  assumes "unat len \<le> 40" "unat len \<le> length val" "prim < 0xC0"
  shows "short_request (new_request prim (3 + len) (uint16_encode_le attribute_id @ len # take (unat len) val))"
proof -
  have "unat (3 + len) = 3 + unat len" using assms(1) by (simp add: unat_word_ariths)
  then show ?thesis using assms by (intro short_new_request) simp_all
qed

section \<open>Attribute identifiers\<close>

definition C_NODE_ADDRESS_ID :: u16 where "C_NODE_ADDRESS_ID = 1"
definition C_NETWORK_ADDRESS_ID :: u16 where "C_NETWORK_ADDRESS_ID = 2"
definition C_NETWORK_CHANNEL_ID :: u16 where "C_NETWORK_CHANNEL_ID = 3"
definition C_NODE_ROLE_ID :: u16 where "C_NODE_ROLE_ID = 4"
definition C_MTU_ID :: u16 where "C_MTU_ID = 5"
definition C_PDU_BUFFER_SIZE_ID :: u16 where "C_PDU_BUFFER_SIZE_ID = 6"
definition C_SCRATCHPAD_SEQUENCE_ID :: u16 where "C_SCRATCHPAD_SEQUENCE_ID = 7"
definition C_MESH_API_VER_ID :: u16 where "C_MESH_API_VER_ID = 8"
definition C_FIRMWARE_MAJOR_ID :: u16 where "C_FIRMWARE_MAJOR_ID = 9"
definition C_FIRMWARE_MINOR_ID :: u16 where "C_FIRMWARE_MINOR_ID = 10"
definition C_FIRMWARE_MAINT_ID :: u16 where "C_FIRMWARE_MAINT_ID = 11"
definition C_FIRMWARE_DEV_ID :: u16 where "C_FIRMWARE_DEV_ID = 12"
definition C_CIPHER_KEY_ID :: u16 where "C_CIPHER_KEY_ID = 13"
definition C_AUTH_KEY_ID :: u16 where "C_AUTH_KEY_ID = 14"
definition C_CHANNEL_LIM_ID :: u16 where "C_CHANNEL_LIM_ID = 15"
definition C_APP_CONFIG_DATA_SIZE_ID :: u16 where "C_APP_CONFIG_DATA_SIZE_ID = 16"
definition C_HW_MAGIC :: u16 where "C_HW_MAGIC = 17"
definition C_STACK_PROFILE :: u16 where "C_STACK_PROFILE = 18"
definition C_OFFLINE_SCAN :: u16 where "C_OFFLINE_SCAN = 20"
definition C_CHANNEL_MAP :: u16 where "C_CHANNEL_MAP = 21"
definition C_FEATURE_LOCK_BITS :: u16 where "C_FEATURE_LOCK_BITS = 22"
definition C_FEATURE_LOCK_KEY :: u16 where "C_FEATURE_LOCK_KEY = 23"
definition C_RESERVED_CHANNELS :: u16 where "C_RESERVED_CHANNELS = 25"
definition C_NETWORK_KEY_PAIR_ID :: u16 where "C_NETWORK_KEY_PAIR_ID = 26"
definition C_MANAGEMENT_KEY_PAIR_ID :: u16 where "C_MANAGEMENT_KEY_PAIR_ID = 27"
definition MSAP_STACK_STATUS :: u16 where "MSAP_STACK_STATUS = 1"
definition MSAP_PDU_BUFFER_USAGE :: u16 where "MSAP_PDU_BUFFER_USAGE = 2"
definition MSAP_PDU_BUFFER_CAPACITY :: u16 where "MSAP_PDU_BUFFER_CAPACITY = 3"
definition MSAP_ENERGY :: u16 where "MSAP_ENERGY = 5"
definition MSAP_AUTOSTART :: u16 where "MSAP_AUTOSTART = 6"
definition MSAP_ROUTE_COUNT :: u16 where "MSAP_ROUTE_COUNT = 7"
definition MSAP_SYSTEM_TIME :: u16 where "MSAP_SYSTEM_TIME = 8"
definition MSAP_ACCESS_CYCLE_RANGE :: u16 where "MSAP_ACCESS_CYCLE_RANGE = 9"
definition MSAP_ACCESS_CYCLE_LIMITS :: u16 where "MSAP_ACCESS_CYCLE_LIMITS = 10"
definition MSAP_CURRENT_ACCESS_CYCLE :: u16 where "MSAP_CURRENT_ACCESS_CYCLE = 11"
definition MSAP_SCRATCHPAD_BLOCK_MAX :: u16 where "MSAP_SCRATCHPAD_BLOCK_MAX = 12"
definition MSAP_MULTICAST_GROUPS :: u16 where "MSAP_MULTICAST_GROUPS = 13"
definition MSAP_SCRATCHPAD_NUM_BYTES :: u16 where "MSAP_SCRATCHPAD_NUM_BYTES = 14"

section \<open>Configuration service\<close>

definition csap_attribute_write_request :: "u16 \<Rightarrow> u8 \<Rightarrow> u8 list \<Rightarrow> ('z wpc_int_scheme, int) prog" where
  "csap_attribute_write_request = attribute_write_request CSAP_ATTRIBUTE_WRITE_REQUEST"

definition csap_attribute_read_request :: "u16 \<Rightarrow> u8 \<Rightarrow> ('z wpc_int_scheme, int \<times> u8 list) prog" where
  "csap_attribute_read_request = attribute_read_request CSAP_ATTRIBUTE_READ_REQUEST"

definition reset_key_le :: "u8 list" where
  "reset_key_le = [0x44, 0x6f, 0x49, 0x74]"

definition csap_factory_reset_request :: "('z wpc_int_scheme, int) prog" where
  "csap_factory_reset_request =
     andthen (WPC_Int_send_request (new_request CSAP_FACTORY_RESET_REQUEST 4 reset_key_le)) confirm_result"

interpretation csap_read: request_service True "csap_attribute_read_request attribute_id len"
  "new_request CSAP_ATTRIBUTE_READ_REQUEST 2 (uint16_encode_le attribute_id)" TIMEOUT_CONFIRM_MS
  "\<lambda>code. (code, [])" "attribute_read_confirm len" for attribute_id len
  by unfold_locales
    (simp_all add: short_new_request csap_attribute_read_request_def attribute_read_request_def
      WPC_Int_send_request_def CSAP_ATTRIBUTE_READ_REQUEST_def)

interpretation csap_write: request_service
  "unat len \<le> 40 \<and> unat len \<le> length val" "csap_attribute_write_request attribute_id len val"
  "new_request CSAP_ATTRIBUTE_WRITE_REQUEST (3 + len)
     (uint16_encode_le attribute_id @ len # take (unat len) val)" TIMEOUT_CONFIRM_MS
  "\<lambda>code. code" generic_confirm for attribute_id len val
  by unfold_locales
    (simp_all add: short_write_request csap_attribute_write_request_def attribute_write_request_def
      WPC_Int_send_request_def CSAP_ATTRIBUTE_WRITE_REQUEST_def MAX_ATTRIBUTE_SIZE_def confirm_result_def)

interpretation factory_reset: request_service True csap_factory_reset_request
  "new_request CSAP_FACTORY_RESET_REQUEST 4 reset_key_le" TIMEOUT_CONFIRM_MS
  "\<lambda>code. code" generic_confirm
  by unfold_locales
    (simp_all add: short_new_request csap_factory_reset_request_def reset_key_le_def
      WPC_Int_send_request_def CSAP_FACTORY_RESET_REQUEST_def confirm_result_def)

section \<open>The MTU\<close>

text \<open>The bytes of an attribute that was read become the caller's value when there are enough of them;
  using a missing byte is \<^const>\<open>Indeterminate\<close>.\<close>

definition WPC_get_mtu :: "('z wpc_int_scheme, app_res \<times> u8 list) prog" where
  "WPC_get_mtu =
     andthen (csap_attribute_read_request C_MTU_ID 1) (\<lambda>(res, att).
     ret (convert_error_code ATT_READ_ERROR_CODE_LUT res, att))"

text \<open>\<^verbatim>\<open>WPC_Int_set_mtu\<close> of \<^verbatim>\<open>wpc_internal.c\<close>: the variable starts with the default value, which
  \<^verbatim>\<open>WPC_get_mtu\<close> overwrites.\<close>

definition WPC_Int_set_mtu :: "('z wpc_int_scheme, unit) prog" where
  "WPC_Int_set_mtu =
     andthen WPC_get_mtu (\<lambda>(res, att).
     if res = APP_RES_OK
     then andthen (lift_sum (byte_at (overlay att [DEFAULT_MTU_SIZE]) 0)) (\<lambda>mtu.
       modify (\<lambda>s. s\<lparr>m_mtu := ucast mtu\<rparr>))
     else ret ())"

definition WPC_Int_get_mtu :: "('z wpc_int_scheme, u8) prog" where
  "WPC_Int_get_mtu = gets (\<lambda>s. ucast (m_mtu s))"

end
