(* ===== verification/Msap.thy ===== *)
theory Msap
  imports Sap
begin

text \<open>
  The management service of \<^verbatim>\<open>lib/wpc/msap.c\<close>: one operation for each request (start and stop of the
  stack, application configuration, sink cost, neighbours, scratchpad, configuration data items),
  the handlers of its indications and the registration of the application's callbacks. Each
  request operation is shown to meet the contract \<^verbatim>\<open>request_service\<close>.
\<close>

section \<open>State and sizes\<close>

record msap = wpc_int +
  m_app_conf_cb :: "callback option"
  m_scan_neighbor_cb :: "callback option"
  m_stack_status_cb :: "callback option"
  m_config_data_item_cb :: "callback option"

definition SCRATCHPAD_START_TIMEOUT_MS :: u16 where "SCRATCHPAD_START_TIMEOUT_MS = 45000"
definition SCRATCHPAD_BLOCK_TIMEOUT_MS :: u16 where "SCRATCHPAD_BLOCK_TIMEOUT_MS = 5000"
definition MAXIMUM_SCRATCHPAD_BLOCK_SIZE :: nat where "MAXIMUM_SCRATCHPAD_BLOCK_SIZE = 112"
definition MAXIMUM_NUMBER_OF_NEIGHBOR :: nat where "MAXIMUM_NUMBER_OF_NEIGHBOR = 8"
definition MAXIMUM_NUMBER_OF_MULTICAST_GROUPS :: nat where "MAXIMUM_NUMBER_OF_MULTICAST_GROUPS = 10"
definition MAXIMUM_APP_CONFIG_SIZE :: nat where "MAXIMUM_APP_CONFIG_SIZE = 80"

text \<open>The sizes of the packed payload structures that are copied as a whole.\<close>

definition SIZEOF_NBORS_CONF :: nat where "SIZEOF_NBORS_CONF = 1 + 13 * MAXIMUM_NUMBER_OF_NEIGHBOR"
definition SIZEOF_SCRATCHPAD_STATUS_CONF :: nat where "SIZEOF_SCRATCHPAD_STATUS_CONF = 24"
definition SIZEOF_LIST_ITEMS_CONF :: nat where
  "SIZEOF_LIST_ITEMS_CONF = 2 + MAXIMUM_CDC_ITEM_LIST_BYTE_COUNT"

lemmas msap_constants =
  SCRATCHPAD_START_TIMEOUT_MS_def SCRATCHPAD_BLOCK_TIMEOUT_MS_def MAXIMUM_SCRATCHPAD_BLOCK_SIZE_def
  MAXIMUM_NUMBER_OF_NEIGHBOR_def MAXIMUM_NUMBER_OF_MULTICAST_GROUPS_def MAXIMUM_APP_CONFIG_SIZE_def
  SIZEOF_NBORS_CONF_def SIZEOF_SCRATCHPAD_STATUS_CONF_def SIZEOF_LIST_ITEMS_CONF_def
  MAXIMUM_CDC_ITEM_PAYLOAD_SIZE_def MAXIMUM_CDC_ITEM_LIST_BYTE_COUNT_def

section \<open>Requests\<close>

definition msap_stack_start_request ::
  "(app_call \<Rightarrow> ('z msap_scheme, unit) prog) \<Rightarrow> u8 \<Rightarrow> ('z msap_scheme, int) prog" where
  "msap_stack_start_request app start_option =
     andthen (WPC_Int_send_request (new_request MSAP_STACK_START_REQUEST 1 [start_option]))
       (\<lambda>(res, confirm).
     if res < 0 then ret res
     else
       andthen (lift_sum (generic_confirm confirm)) (\<lambda>res.
       andthen (if res = 0 then call_if_set m_stack_status_cb (\<lambda>c. app (Stack_status c 0)) else ret ())
         (\<lambda>_. ret res)))"

definition msap_stack_stop_request :: "('z wpc_int_scheme, int) prog" where
  "msap_stack_stop_request =
     andthen (WPC_Int_send_request (new_request MSAP_STACK_STOP_REQUEST 0 [])) confirm_result"

text \<open>The configuration is copied over 80 zero bytes; more than 80 overrun the field.\<close>

definition msap_app_config_data_write_request ::
  "u8 \<Rightarrow> u16 \<Rightarrow> u8 list \<Rightarrow> u8 \<Rightarrow> ('z wpc_int_scheme, int) prog" where
  "msap_app_config_data_write_request seq interval config_p size_p =
     andthen (require (unat size_p \<le> length config_p \<and> unat size_p \<le> MAXIMUM_APP_CONFIG_SIZE) Undefined)
       (\<lambda>_.
     andthen (WPC_Int_send_request
       (new_request MSAP_APP_CONFIG_DATA_WRITE_REQUEST (of_nat (3 + MAXIMUM_APP_CONFIG_SIZE))
         (seq # host_store16 interval
           @ overlay (take (unat size_p) config_p) (replicate MAXIMUM_APP_CONFIG_SIZE 0))))
       confirm_result)"

definition app_config_read_confirm :: "u8 \<Rightarrow> u8 list \<Rightarrow> stop + (int \<times> (u8 \<times> u16 \<times> u8 list) option)" where
  "app_config_read_confirm size_p confirm =
     (case generic_confirm confirm of Inl e \<Rightarrow> Inl e
      | Inr result \<Rightarrow>
        if result = 0 then
          (case pl_u8 confirm 1 of Inl e \<Rightarrow> Inl e
           | Inr seq \<Rightarrow>
             (case pl_u16 confirm 2 of Inl e \<Rightarrow> Inl e
              | Inr interval \<Rightarrow>
                let size_to_read = (if unat size_p > MAXIMUM_APP_CONFIG_SIZE
                                    then MAXIMUM_APP_CONFIG_SIZE else unat size_p)
                in Inr (result, Some (seq, interval, pl_copy confirm 4 size_to_read))))
        else Inr (result, None))"

definition msap_app_config_data_read_request ::
  "u8 \<Rightarrow> ('z wpc_int_scheme, int \<times> (u8 \<times> u16 \<times> u8 list) option) prog" where
  "msap_app_config_data_read_request size_p =
     andthen (WPC_Int_send_request (new_request MSAP_APP_CONFIG_DATA_READ_REQUEST 0 []))
       (\<lambda>(res, confirm). if res < 0 then ret (res, None) else lift_sum (app_config_read_confirm size_p confirm))"

definition msap_sink_cost_write_request :: "u8 \<Rightarrow> ('z wpc_int_scheme, int) prog" where
  "msap_sink_cost_write_request cost =
     andthen (WPC_Int_send_request (new_request MSAP_SINK_COST_WRITE_REQUEST 1 [cost])) confirm_result"

definition sink_cost_confirm :: "u8 list \<Rightarrow> stop + (int \<times> u8 option)" where
  "sink_cost_confirm confirm =
     (case generic_confirm confirm of Inl e \<Rightarrow> Inl e
      | Inr result \<Rightarrow>
        if result = 0 then
          (case pl_u8 confirm 1 of Inl e \<Rightarrow> Inl e | Inr cost \<Rightarrow> Inr (result, Some cost))
        else Inr (result, None))"

definition msap_sink_cost_read_request :: "('z wpc_int_scheme, int \<times> u8 option) prog" where
  "msap_sink_cost_read_request =
     andthen (WPC_Int_send_request (new_request MSAP_SINK_COST_READ_REQUEST 0 []))
       (\<lambda>(res, confirm). if res < 0 then ret (res, None) else lift_sum (sink_cost_confirm confirm))"

text \<open>The whole payload structure is copied, whatever the node sent of it.\<close>

definition msap_get_nbors_request :: "('z wpc_int_scheme, int \<times> u8 list) prog" where
  "msap_get_nbors_request =
     andthen (WPC_Int_send_request (new_request MSAP_GET_NBORS_REQUEST 0 []))
       (\<lambda>(res, confirm). if res < 0 then ret (res, [])
                         else lift_sum (Inr (0, pl_copy confirm 0 SIZEOF_NBORS_CONF)))"

definition msap_scan_nbors_request :: "('z wpc_int_scheme, int) prog" where
  "msap_scan_nbors_request =
     andthen (WPC_Int_send_request (new_request MSAP_SCAN_NBORS_REQUEST 0 [])) confirm_result"

definition msap_scratchpad_start_request :: "u32 \<Rightarrow> u8 \<Rightarrow> ('z wpc_int_scheme, int) prog" where
  "msap_scratchpad_start_request len seq =
     andthen (WPC_Int_send_request_timeout
       (new_request MSAP_SCRATCH_START_REQUEST 5 (host_store32 len @ [seq])) SCRATCHPAD_START_TIMEOUT_MS)
       confirm_result"

definition msap_scratchpad_block_request :: "u32 \<Rightarrow> u8 \<Rightarrow> u8 list \<Rightarrow> ('z wpc_int_scheme, int) prog" where
  "msap_scratchpad_block_request start_address number_of_bytes bytes =
     (if unat number_of_bytes > MAXIMUM_SCRATCHPAD_BLOCK_SIZE then ret 6
      else
        andthen (require (unat number_of_bytes \<le> length bytes) Undefined) (\<lambda>_.
        andthen (WPC_Int_send_request_timeout
          (new_request MSAP_SCRATCH_BLOCK_REQUEST (5 + number_of_bytes)
            (host_store32 start_address @ number_of_bytes # take (unat number_of_bytes) bytes))
          SCRATCHPAD_BLOCK_TIMEOUT_MS) confirm_result))"

definition msap_scratchpad_status_request :: "('z wpc_int_scheme, int \<times> u8 list) prog" where
  "msap_scratchpad_status_request =
     andthen (WPC_Int_send_request (new_request MSAP_SCRATCH_STATUS_REQUEST 0 []))
       (\<lambda>(res, confirm). if res < 0 then ret (res, [])
                         else lift_sum (Inr (0, pl_copy confirm 0 SIZEOF_SCRATCHPAD_STATUS_CONF)))"

definition msap_scratchpad_update_request :: "('z wpc_int_scheme, int) prog" where
  "msap_scratchpad_update_request =
     andthen (WPC_Int_send_request (new_request MSAP_SCRATCH_UPDATE_REQUEST 0 [])) confirm_result"

definition msap_scratchpad_clear_request :: "('z wpc_int_scheme, int) prog" where
  "msap_scratchpad_clear_request =
     andthen (WPC_Int_send_request_timeout (new_request MSAP_SCRATCH_CLEAR_REQUEST 0 [])
       SCRATCHPAD_START_TIMEOUT_MS) confirm_result"

definition msap_scratchpad_target_write_request ::
  "u8 \<Rightarrow> u16 \<Rightarrow> u8 \<Rightarrow> u8 \<Rightarrow> ('z wpc_int_scheme, int) prog" where
  "msap_scratchpad_target_write_request target_sequence target_crc action param =
     andthen (WPC_Int_send_request (new_request MSAP_SCRATCH_TARGET_WRITE_REQUEST 5
       (target_sequence # host_store16 target_crc @ [action, param]))) confirm_result"

definition target_read_confirm :: "u8 list \<Rightarrow> stop + (int \<times> (u8 \<times> u16 \<times> u8 \<times> u8) option)" where
  "target_read_confirm confirm =
     (case generic_confirm confirm of Inl e \<Rightarrow> Inl e
      | Inr result \<Rightarrow>
        if result = 0 then
          (case (pl_u8 confirm 1, pl_u16 confirm 2, pl_u8 confirm 4, pl_u8 confirm 5) of
             (Inr seq, Inr crc, Inr action, Inr param) \<Rightarrow> Inr (result, Some (seq, crc, action, param))
           | _ \<Rightarrow> Inl Indeterminate)
        else Inr (result, None))"

definition msap_scratchpad_target_read_request ::
  "('z wpc_int_scheme, int \<times> (u8 \<times> u16 \<times> u8 \<times> u8) option) prog" where
  "msap_scratchpad_target_read_request =
     andthen (WPC_Int_send_request (new_request MSAP_SCRATCH_TARGET_READ_REQUEST 0 []))
       (\<lambda>(res, confirm). if res < 0 then ret (res, None) else lift_sum (target_read_confirm confirm))"

definition block_read_confirm :: "u8 \<Rightarrow> u8 list \<Rightarrow> stop + (int \<times> u8 list)" where
  "block_read_confirm number_of_bytes confirm =
     (case generic_confirm confirm of Inl e \<Rightarrow> Inl e
      | Inr result \<Rightarrow>
        Inr (result, if result = 0 then pl_copy confirm 1 (unat number_of_bytes) else []))"

definition msap_scratchpad_block_read_request ::
  "u32 \<Rightarrow> u8 \<Rightarrow> ('z wpc_int_scheme, int \<times> u8 list) prog" where
  "msap_scratchpad_block_read_request start_address number_of_bytes =
     (if unat number_of_bytes > MAXIMUM_SCRATCHPAD_BLOCK_SIZE then ret (6, [])
      else
        andthen (WPC_Int_send_request (new_request MSAP_SCRATCH_BLOCK_READ_REQUEST 5
          (host_store32 start_address @ [number_of_bytes])))
          (\<lambda>(res, confirm). if res < 0 then ret (res, [])
                            else lift_sum (block_read_confirm number_of_bytes confirm)))"

definition msap_config_data_item_set_request ::
  "u16 \<Rightarrow> u8 list \<Rightarrow> u8 \<Rightarrow> ('z wpc_int_scheme, int) prog" where
  "msap_config_data_item_set_request endpoint payload_p payload_size =
     (if unat payload_size > MAXIMUM_CDC_ITEM_PAYLOAD_SIZE then ret WPC_INT_WRONG_PARAM_ERROR
      else
        andthen (require (unat payload_size \<le> length payload_p) Undefined) (\<lambda>_.
        andthen (WPC_Int_send_request
          (new_request MSAP_CONFIG_DATA_ITEM_SET_REQUEST (3 + payload_size)
            (host_store16 endpoint @ payload_size # take (unat payload_size) payload_p)))
          confirm_result))"

definition item_get_confirm :: "nat \<Rightarrow> u8 list \<Rightarrow> stop + (int \<times> (u8 list \<times> u8) option)" where
  "item_get_confirm payload_capacity confirm =
     (case generic_confirm confirm of Inl e \<Rightarrow> Inl e
      | Inr result \<Rightarrow>
        if result = 0 then
          (case pl_u8 confirm 1 of Inl e \<Rightarrow> Inl e
           | Inr payload_len \<Rightarrow>
             if unat payload_len > payload_capacity then Inr (WPC_INT_WRONG_BUFFER_SIZE, None)
             else if unat payload_len > MAXIMUM_CDC_ITEM_PAYLOAD_SIZE
             then Inr (WPC_INT_WRONG_PARAM_ERROR, None)
             else Inr (result, Some (pl_copy confirm 2 (unat payload_len), payload_len)))
        else Inr (result, None))"

definition msap_config_data_item_get_request ::
  "u16 \<Rightarrow> nat \<Rightarrow> ('z wpc_int_scheme, int \<times> (u8 list \<times> u8) option) prog" where
  "msap_config_data_item_get_request endpoint payload_capacity =
     andthen (WPC_Int_send_request (new_request MSAP_CONFIG_DATA_ITEM_GET_REQUEST 2 (host_store16 endpoint)))
       (\<lambda>(res, confirm). if res < 0 then ret (res, None)
                         else lift_sum (item_get_confirm payload_capacity confirm))"

definition list_items_confirm :: "u8 list \<Rightarrow> stop + (int \<times> u8 list)" where
  "list_items_confirm confirm =
     (case generic_confirm confirm of Inl e \<Rightarrow> Inl e
      | Inr result \<Rightarrow>
        Inr (result, if result = 0 then pl_copy confirm 0 SIZEOF_LIST_ITEMS_CONF else []))"

definition msap_config_data_item_list_items_request :: "u8 \<Rightarrow> ('z wpc_int_scheme, int \<times> u8 list) prog" where
  "msap_config_data_item_list_items_request command =
     andthen (WPC_Int_send_request (new_request MSAP_CONFIG_DATA_ITEM_LIST_ITEMS_REQUEST 1 [command]))
       (\<lambda>(res, confirm). if res < 0 then ret (res, []) else lift_sum (list_items_confirm confirm))"

definition msap_attribute_write_request :: "u16 \<Rightarrow> u8 \<Rightarrow> u8 list \<Rightarrow> ('z wpc_int_scheme, int) prog" where
  "msap_attribute_write_request = attribute_write_request MSAP_ATTRIBUTE_WRITE_REQUEST"

definition msap_attribute_read_request :: "u16 \<Rightarrow> u8 \<Rightarrow> ('z wpc_int_scheme, int \<times> u8 list) prog" where
  "msap_attribute_read_request = attribute_read_request MSAP_ATTRIBUTE_READ_REQUEST"

section \<open>Indications\<close>

text \<open>A handler gets a pointer to the payload of the frame, here the bytes of the frame.\<close>

definition msap_stack_state_indication_handler ::
  "(app_call \<Rightarrow> ('z msap_scheme, unit) prog) \<Rightarrow> u8 list \<Rightarrow> ('z msap_scheme, unit) prog" where
  "msap_stack_state_indication_handler app frame =
     andthen (lift_sum (pl_u8 frame 1)) (\<lambda>status.
     andthen (call_if_set m_stack_status_cb (\<lambda>c. app (Stack_status c status))) (\<lambda>_.
     WPC_Int_set_mtu))"

definition msap_app_config_data_rx_indication_handler ::
  "(app_call \<Rightarrow> ('z msap_scheme, unit) prog) \<Rightarrow> u8 list \<Rightarrow> ('z msap_scheme, unit) prog" where
  "msap_app_config_data_rx_indication_handler app frame =
     call_if_set m_app_conf_cb (\<lambda>c.
     andthen (lift_sum (pl_u8 frame 1)) (\<lambda>seq.
     andthen (lift_sum (pl_u16 frame 2)) (\<lambda>interval.
     app (App_config c seq interval (pl_copy frame 4 MAXIMUM_APP_CONFIG_SIZE)))))"

definition msap_scan_nbors_indication_handler ::
  "(app_call \<Rightarrow> ('z msap_scheme, unit) prog) \<Rightarrow> u8 list \<Rightarrow> ('z msap_scheme, unit) prog" where
  "msap_scan_nbors_indication_handler app frame =
     andthen (lift_sum (pl_u8 frame 1)) (\<lambda>scan_ready.
     call_if_set m_scan_neighbor_cb (\<lambda>c. app (Scan_done c scan_ready)))"

definition msap_config_data_item_rx_indication_handler ::
  "(app_call \<Rightarrow> ('z msap_scheme, unit) prog) \<Rightarrow> u8 list \<Rightarrow> ('z msap_scheme, unit) prog" where
  "msap_config_data_item_rx_indication_handler app frame =
     call_if_set m_config_data_item_cb (\<lambda>c.
     andthen (lift_sum (pl_u16 frame 1)) (\<lambda>endpoint.
     andthen (lift_sum (pl_u8 frame 3)) (\<lambda>payload_len.
     app (Config_item c endpoint (pl_copy frame 4 MAXIMUM_CDC_ITEM_PAYLOAD_SIZE) payload_len))))"

section \<open>Registration of callbacks\<close>

definition msap_register_for_app_config :: "callback option \<Rightarrow> ('z msap_scheme, bool) prog" where
  "msap_register_for_app_config cb = register_cb m_app_conf_cb (\<lambda>c s. s\<lparr>m_app_conf_cb := c\<rparr>) cb"

definition msap_unregister_from_app_config :: "('z msap_scheme, bool) prog" where
  "msap_unregister_from_app_config = unregister_cb m_app_conf_cb (\<lambda>c s. s\<lparr>m_app_conf_cb := c\<rparr>)"

definition msap_register_for_scan_neighbors_done :: "callback option \<Rightarrow> ('z msap_scheme, bool) prog" where
  "msap_register_for_scan_neighbors_done cb =
     register_cb m_scan_neighbor_cb (\<lambda>c s. s\<lparr>m_scan_neighbor_cb := c\<rparr>) cb"

definition msap_unregister_from_scan_neighbors_done :: "('z msap_scheme, bool) prog" where
  "msap_unregister_from_scan_neighbors_done =
     unregister_cb m_scan_neighbor_cb (\<lambda>c s. s\<lparr>m_scan_neighbor_cb := c\<rparr>)"

definition msap_register_for_stack_status :: "callback option \<Rightarrow> ('z msap_scheme, bool) prog" where
  "msap_register_for_stack_status cb =
     register_cb m_stack_status_cb (\<lambda>c s. s\<lparr>m_stack_status_cb := c\<rparr>) cb"

definition msap_unregister_from_stack_status :: "('z msap_scheme, bool) prog" where
  "msap_unregister_from_stack_status =
     unregister_cb m_stack_status_cb (\<lambda>c s. s\<lparr>m_stack_status_cb := c\<rparr>)"

definition msap_register_for_config_data_item :: "callback option \<Rightarrow> ('z msap_scheme, bool) prog" where
  "msap_register_for_config_data_item cb =
     register_cb m_config_data_item_cb (\<lambda>c s. s\<lparr>m_config_data_item_cb := c\<rparr>) cb"

definition msap_unregister_from_config_data_item :: "('z msap_scheme, bool) prog" where
  "msap_unregister_from_config_data_item =
     unregister_cb m_config_data_item_cb (\<lambda>c s. s\<lparr>m_config_data_item_cb := c\<rparr>)"

interpretation app_config_slot: callback_slot m_app_conf_cb "\<lambda>c s. s\<lparr>m_app_conf_cb := c\<rparr>"
  by unfold_locales simp_all

interpretation scan_slot: callback_slot m_scan_neighbor_cb "\<lambda>c s. s\<lparr>m_scan_neighbor_cb := c\<rparr>"
  by unfold_locales simp_all

interpretation status_slot: callback_slot m_stack_status_cb "\<lambda>c s. s\<lparr>m_stack_status_cb := c\<rparr>"
  by unfold_locales simp_all

interpretation item_slot: callback_slot m_config_data_item_cb "\<lambda>c s. s\<lparr>m_config_data_item_cb := c\<rparr>"
  by unfold_locales simp_all

section \<open>The requests meet their contract\<close>

lemmas msap_request_defs =
  msap_stack_stop_request_def msap_app_config_data_write_request_def
  msap_app_config_data_read_request_def msap_sink_cost_write_request_def
  msap_sink_cost_read_request_def msap_get_nbors_request_def msap_scan_nbors_request_def
  msap_scratchpad_start_request_def msap_scratchpad_block_request_def
  msap_scratchpad_status_request_def msap_scratchpad_update_request_def
  msap_scratchpad_clear_request_def msap_scratchpad_target_write_request_def
  msap_scratchpad_target_read_request_def msap_scratchpad_block_read_request_def
  msap_config_data_item_set_request_def msap_config_data_item_get_request_def
  msap_config_data_item_list_items_request_def msap_attribute_write_request_def
  msap_attribute_read_request_def attribute_write_request_def attribute_read_request_def
  WPC_Int_send_request_def confirm_result_def MAX_ATTRIBUTE_SIZE_def

lemma short_counted_request:
  assumes "unat n + k \<le> 124" "length bs = k + unat n" "prim < 0xC0" "k < 100"
  shows "short_request (new_request prim (of_nat k + n) bs)"
proof -
  have "unat (of_nat k + n) = k + unat n"
    using assms(1,4) by (simp add: unat_word_ariths unat_of_nat)
  then show ?thesis using assms by (intro short_new_request) simp_all
qed

lemma length_host_store [simp]: "length (host_store16 v) = 2" "length (host_store32 w) = 4"
  by (simp_all add: host_simps)

lemmas msap_request_simps = msap_request_defs msap_constants primitive_ids short_new_request
  short_write_request short_counted_request [where k = 5, simplified] short_counted_request [where k = 3, simplified] overlay_def

interpretation stack_stop: request_service True msap_stack_stop_request
  "new_request MSAP_STACK_STOP_REQUEST 0 []"
  TIMEOUT_CONFIRM_MS "\<lambda>code. code" generic_confirm
  by unfold_locales (simp_all add: msap_request_simps)

interpretation app_config_write: request_service "unat size_p \<le> length config_p \<and> unat size_p \<le> 80" "msap_app_config_data_write_request seq interval config_p size_p"
  "new_request MSAP_APP_CONFIG_DATA_WRITE_REQUEST 83 (seq # host_store16 interval @ overlay (take (unat size_p) config_p) (replicate 80 0))"
  TIMEOUT_CONFIRM_MS "\<lambda>code. code" generic_confirm for seq interval config_p size_p
  by unfold_locales (simp_all add: msap_request_simps)

interpretation app_config_read: request_service True "msap_app_config_data_read_request size_p"
  "new_request MSAP_APP_CONFIG_DATA_READ_REQUEST 0 []"
  TIMEOUT_CONFIRM_MS "\<lambda>code. (code, None)" "app_config_read_confirm size_p" for size_p
  by unfold_locales (simp_all add: msap_request_simps)

interpretation sink_cost_write: request_service True "msap_sink_cost_write_request cost"
  "new_request MSAP_SINK_COST_WRITE_REQUEST 1 [cost]"
  TIMEOUT_CONFIRM_MS "\<lambda>code. code" generic_confirm for cost
  by unfold_locales (simp_all add: msap_request_simps)

interpretation sink_cost_read: request_service True msap_sink_cost_read_request
  "new_request MSAP_SINK_COST_READ_REQUEST 0 []"
  TIMEOUT_CONFIRM_MS "\<lambda>code. (code, None)" sink_cost_confirm
  by unfold_locales (simp_all add: msap_request_simps)

interpretation get_nbors: request_service True msap_get_nbors_request
  "new_request MSAP_GET_NBORS_REQUEST 0 []"
  TIMEOUT_CONFIRM_MS "\<lambda>code. (code, [])" "\<lambda>confirm. Inr (0, pl_copy confirm 0 SIZEOF_NBORS_CONF)"
  by unfold_locales (simp_all add: msap_request_simps)

interpretation scan_nbors: request_service True msap_scan_nbors_request
  "new_request MSAP_SCAN_NBORS_REQUEST 0 []"
  TIMEOUT_CONFIRM_MS "\<lambda>code. code" generic_confirm
  by unfold_locales (simp_all add: msap_request_simps)

interpretation scratchpad_start: request_service True "msap_scratchpad_start_request len seq"
  "new_request MSAP_SCRATCH_START_REQUEST 5 (host_store32 len @ [seq])"
  SCRATCHPAD_START_TIMEOUT_MS "\<lambda>code. code" generic_confirm for len seq
  by unfold_locales (simp_all add: msap_request_simps)

interpretation scratchpad_block: request_service "unat n \<le> 112 \<and> unat n \<le> length bytes" "msap_scratchpad_block_request addr n bytes"
  "new_request MSAP_SCRATCH_BLOCK_REQUEST (5 + n) (host_store32 addr @ n # take (unat n) bytes)"
  SCRATCHPAD_BLOCK_TIMEOUT_MS "\<lambda>code. code" generic_confirm for addr n bytes
  by unfold_locales (simp_all add: msap_request_simps)

interpretation scratchpad_status: request_service True msap_scratchpad_status_request
  "new_request MSAP_SCRATCH_STATUS_REQUEST 0 []"
  TIMEOUT_CONFIRM_MS "\<lambda>code. (code, [])" "\<lambda>confirm. Inr (0, pl_copy confirm 0 SIZEOF_SCRATCHPAD_STATUS_CONF)"
  by unfold_locales (simp_all add: msap_request_simps)

interpretation scratchpad_update: request_service True msap_scratchpad_update_request
  "new_request MSAP_SCRATCH_UPDATE_REQUEST 0 []"
  TIMEOUT_CONFIRM_MS "\<lambda>code. code" generic_confirm
  by unfold_locales (simp_all add: msap_request_simps)

interpretation scratchpad_clear: request_service True msap_scratchpad_clear_request
  "new_request MSAP_SCRATCH_CLEAR_REQUEST 0 []"
  SCRATCHPAD_START_TIMEOUT_MS "\<lambda>code. code" generic_confirm
  by unfold_locales (simp_all add: msap_request_simps)

interpretation target_write: request_service True "msap_scratchpad_target_write_request seq crc action param"
  "new_request MSAP_SCRATCH_TARGET_WRITE_REQUEST 5 (seq # host_store16 crc @ [action, param])"
  TIMEOUT_CONFIRM_MS "\<lambda>code. code" generic_confirm for seq crc action param
  by unfold_locales (simp_all add: msap_request_simps)

interpretation target_read: request_service True msap_scratchpad_target_read_request
  "new_request MSAP_SCRATCH_TARGET_READ_REQUEST 0 []"
  TIMEOUT_CONFIRM_MS "\<lambda>code. (code, None)" target_read_confirm
  by unfold_locales (simp_all add: msap_request_simps)

interpretation block_read: request_service "unat n \<le> 112" "msap_scratchpad_block_read_request addr n"
  "new_request MSAP_SCRATCH_BLOCK_READ_REQUEST 5 (host_store32 addr @ [n])"
  TIMEOUT_CONFIRM_MS "\<lambda>code. (code, [])" "block_read_confirm n" for addr n
  by unfold_locales (simp_all add: msap_request_simps)

interpretation item_set: request_service "unat n \<le> 80 \<and> unat n \<le> length bytes" "msap_config_data_item_set_request endpoint bytes n"
  "new_request MSAP_CONFIG_DATA_ITEM_SET_REQUEST (3 + n) (host_store16 endpoint @ n # take (unat n) bytes)"
  TIMEOUT_CONFIRM_MS "\<lambda>code. code" generic_confirm for endpoint bytes n
  by unfold_locales (simp_all add: msap_request_simps)

interpretation item_get: request_service True "msap_config_data_item_get_request endpoint capacity"
  "new_request MSAP_CONFIG_DATA_ITEM_GET_REQUEST 2 (host_store16 endpoint)"
  TIMEOUT_CONFIRM_MS "\<lambda>code. (code, None)" "item_get_confirm capacity" for endpoint capacity
  by unfold_locales (simp_all add: msap_request_simps)

interpretation list_items: request_service True "msap_config_data_item_list_items_request command"
  "new_request MSAP_CONFIG_DATA_ITEM_LIST_ITEMS_REQUEST 1 [command]"
  TIMEOUT_CONFIRM_MS "\<lambda>code. (code, [])" list_items_confirm for command
  by unfold_locales (simp_all add: msap_request_simps)

interpretation msap_write: request_service "unat len \<le> 40 \<and> unat len \<le> length val" "msap_attribute_write_request attribute_id len val"
  "new_request MSAP_ATTRIBUTE_WRITE_REQUEST (3 + len) (uint16_encode_le attribute_id @ len # take (unat len) val)"
  TIMEOUT_CONFIRM_MS "\<lambda>code. code" generic_confirm for attribute_id len val
  by unfold_locales (simp_all add: msap_request_simps)

interpretation msap_read: request_service True "msap_attribute_read_request attribute_id len"
  "new_request MSAP_ATTRIBUTE_READ_REQUEST 2 (uint16_encode_le attribute_id)"
  TIMEOUT_CONFIRM_MS "\<lambda>code. (code, [])" "attribute_read_confirm len" for attribute_id len
  by unfold_locales (simp_all add: msap_request_simps)

end
