(* ===== verification/Reassembly.thy ===== *)
theory Reassembly
  imports Msap "HOL-Library.AList" "HOL-Library.Multiset"
begin

text \<open>
  The reassembly of fragmented packets, \<^verbatim>\<open>lib/wpc/reassembly/reassembly.c\<close>. The hash of packets
  under construction is an association list in insertion order, keyed by source address and packet
  identifier; a packet holds the linked list of its fragments, latest first. The results of the
  coming allocations are part of the state (every allocation succeeds once the list is empty). The
  theory \<^verbatim>\<open>Reassembly_Heap\<close> has the same operations with the pointers and macros of the code.
\<close>

section \<open>State\<close>

definition MIN_GARBAGE_COLLECT_PERIOD_S :: u64 where "MIN_GARBAGE_COLLECT_PERIOD_S = 5"

type_synonym packet_key = "u32 \<times> u16"

record reassembly_fragment =
  fr_src_add :: u32
  fr_packet_id :: u16
  fr_bytes :: "u8 list"
  fr_offset :: nat
  fr_last :: bool

text \<open>A stored fragment: its offset and its bytes.\<close>

type_synonym internal_fragment = "nat \<times> u8 list"

record full_packet =
  fp_full_size :: nat
  fp_is_full :: bool
  fp_head :: "internal_fragment list"
  fp_timestamp_ms_epoch_last :: u64

record reassembly = msap +
  mallocs :: "bool list"
  m_fragment_max_duration_s :: u32
  m_packets :: "(packet_key \<times> full_packet) list"
  m_is_queue_empty :: bool
  m_last_gc_ts_ms :: u64

definition Platform_malloc :: "('z reassembly_scheme, bool) prog" where
  "Platform_malloc s =
     (case mallocs s of [] \<Rightarrow> Inr (True, s) | ok # rest \<Rightarrow> Inr (ok, s\<lparr>mallocs := rest\<rparr>))"

section \<open>Operations\<close>

definition reassembly_set_max_fragment_duration :: "u32 \<Rightarrow> ('z reassembly_scheme, unit) prog" where
  "reassembly_set_max_fragment_duration duration = modify (\<lambda>s. s\<lparr>m_fragment_max_duration_s := duration\<rparr>)"

definition get_packet_from_hash :: "packet_key \<Rightarrow> ('z reassembly_scheme, full_packet option) prog" where
  "get_packet_from_hash key = gets (\<lambda>s. map_of (m_packets s) key)"

definition put_packet :: "packet_key \<Rightarrow> full_packet \<Rightarrow> ('z reassembly_scheme, unit) prog" where
  "put_packet key p = modify (\<lambda>s. s\<lparr>m_packets := AList.update key p (m_packets s)\<rparr>)"

definition create_packet_in_hash :: "packet_key \<Rightarrow> ('z reassembly_scheme, full_packet option) prog" where
  "create_packet_in_hash key =
     andthen Platform_malloc (\<lambda>ok.
     if \<not> ok then ret None
     else
       let p = \<lparr>fp_full_size = 0, fp_is_full = False, fp_head = [], fp_timestamp_ms_epoch_last = 0\<rparr> in
       andthen (put_packet key p) (\<lambda>_. ret (Some p)))"

text \<open>The packet is a pointer in C; here the updated packet is written back under its key.\<close>

definition add_fragment_to_full_packet ::
  "packet_key \<Rightarrow> full_packet \<Rightarrow> reassembly_fragment \<Rightarrow> ('z reassembly_scheme, full_packet option) prog" where
  "add_fragment_to_full_packet key p frag =
     (if fr_offset frag \<in> set (map fst (fp_head p)) then ret None
      else
        andthen Platform_malloc (\<lambda>f_ok.
        andthen Platform_malloc (\<lambda>data_ok.
        if \<not> f_ok \<or> \<not> data_ok then ret None
        else
          andthen Platform_get_timestamp_ms_monotonic (\<lambda>now.
          let p' = p\<lparr>fp_head := (fr_offset frag, fr_bytes frag) # fp_head p,
                     fp_full_size := (if fr_last frag then fr_offset frag + length (fr_bytes frag)
                                      else fp_full_size p),
                     fp_timestamp_ms_epoch_last := now\<rparr> in
          andthen (put_packet key p') (\<lambda>_. ret (Some p'))))))"

definition rx_size :: "full_packet \<Rightarrow> nat" where
  "rx_size p = sum_list (map (\<lambda>f. length (snd f)) (fp_head p))"

definition is_packet_full :: "packet_key \<Rightarrow> full_packet \<Rightarrow> ('z reassembly_scheme, bool) prog" where
  "is_packet_full key p =
     (if fp_is_full p then ret True
      else if fp_full_size p = 0 then ret False
      else if rx_size p = fp_full_size p then
        andthen (put_packet key (p\<lparr>fp_is_full := True\<rparr>)) (\<lambda>_. ret True)
      else ret False)"

text \<open>Copying the fragments into the caller's buffer; a copy outside it is undefined.\<close>

fun copy_fragments :: "internal_fragment list \<Rightarrow> u8 list \<Rightarrow> stop + u8 list" where
  "copy_fragments [] buffer = Inr buffer"
| "copy_fragments ((offset, bytes) # fs) buffer =
     (if offset + length bytes \<le> length buffer then copy_fragments fs (blit buffer offset bytes)
      else Inl Undefined)"

text \<open>\<^verbatim>\<open>size_p\<close> is the size of the buffer on entry; the results are the boolean, the buffer and the
  size on exit.\<close>

definition reassemble_full_packet ::
  "packet_key \<Rightarrow> full_packet \<Rightarrow> u8 list \<Rightarrow> nat \<Rightarrow> ('z reassembly_scheme, bool \<times> u8 list \<times> nat) prog" where
  "reassemble_full_packet key p buffer size_p =
     (if \<not> fp_is_full p then ret (False, buffer, 0)
      else if size_p < fp_full_size p then ret (False, buffer, size_p)
      else
        andthen (lift_sum (copy_fragments (fp_head p) buffer)) (\<lambda>buffer'.
        andthen (modify (\<lambda>s. s\<lparr>m_packets := AList.delete key (m_packets s)\<rparr>)) (\<lambda>_.
        andthen (modify (\<lambda>s. s\<lparr>m_is_queue_empty := (m_packets s = [])\<rparr>)) (\<lambda>_.
        ret (True, buffer', fp_full_size p)))))"

definition reassembly_is_queue_empty :: "('z reassembly_scheme, bool) prog" where
  "reassembly_is_queue_empty = gets m_is_queue_empty"

text \<open>The result is the boolean and the full size, 0 while the packet is not complete.\<close>

definition reassembly_add_fragment :: "reassembly_fragment \<Rightarrow> ('z reassembly_scheme, bool \<times> nat) prog" where
  "reassembly_add_fragment frag =
     (let key = (fr_src_add frag, fr_packet_id frag) in
      andthen (modify (\<lambda>s. s\<lparr>m_is_queue_empty := False\<rparr>)) (\<lambda>_.
      andthen (get_packet_from_hash key) (\<lambda>found.
      andthen (case found of None \<Rightarrow> create_packet_in_hash key | Some p \<Rightarrow> ret (Some p)) (\<lambda>holder.
      case holder of None \<Rightarrow> ret (False, 0)
      | Some p \<Rightarrow>
        andthen (add_fragment_to_full_packet key p frag) (\<lambda>added.
        case added of None \<Rightarrow> ret (False, 0)
        | Some p' \<Rightarrow>
          andthen (is_packet_full key p') (\<lambda>full.
          ret (True, if full then fp_full_size p' else 0)))))))"

definition reassembly_get_full_message ::
  "u32 \<Rightarrow> u16 \<Rightarrow> u8 list \<Rightarrow> nat \<Rightarrow> ('z reassembly_scheme, bool \<times> u8 list \<times> nat) prog" where
  "reassembly_get_full_message src_add packet_id buffer size_p =
     andthen (get_packet_from_hash (src_add, packet_id)) (\<lambda>found.
     case found of None \<Rightarrow> ret (False, buffer, size_p)
     | Some p \<Rightarrow> reassemble_full_packet (src_add, packet_id) p buffer size_p)"

text \<open>One pass of the collector over the packets: the clock is read for each of them.\<close>

primrec collect_packets :: "(packet_key \<times> full_packet) list \<Rightarrow> ('z reassembly_scheme, unit) prog" where
  "collect_packets [] = ret ()"
| "collect_packets (kp # kps) =
     andthen Platform_get_timestamp_ms_monotonic (\<lambda>now.
     andthen (gets m_fragment_max_duration_s) (\<lambda>max_duration.
     let last_activity = ucast ((now - fp_timestamp_ms_epoch_last (snd kp)) div 1000) :: u32 in
     andthen (if last_activity > max_duration
              then modify (\<lambda>s. s\<lparr>m_packets := AList.delete (fst kp) (m_packets s)\<rparr>) else ret ()) (\<lambda>_.
     collect_packets kps)))"

definition reassembly_garbage_collect :: "('z reassembly_scheme, unit) prog" where
  "reassembly_garbage_collect =
     andthen (gets m_fragment_max_duration_s) (\<lambda>max_duration.
     if max_duration > 0 then
       andthen Platform_get_timestamp_ms_monotonic (\<lambda>now.
       andthen (gets m_last_gc_ts_ms) (\<lambda>last_gc.
       if now - last_gc > MIN_GARBAGE_COLLECT_PERIOD_S * 1000 then
         andthen Platform_get_timestamp_ms_monotonic (\<lambda>now'.
         andthen (modify (\<lambda>s. s\<lparr>m_last_gc_ts_ms := now'\<rparr>)) (\<lambda>_.
         andthen (gets m_packets) (\<lambda>packets.
         andthen (collect_packets packets) (\<lambda>_.
         modify (\<lambda>s. s\<lparr>m_is_queue_empty := (m_packets s = [])\<rparr>)))))
       else ret ()))
     else ret ())"

section \<open>Keyed stores\<close>

text \<open>
  Operations that work on one entry of a keyed store. The law is the frame property: an operation
  on one key leaves the entries of all other keys alone. Then a sequence of operations leaves
  alone every key that it does not name.
\<close>

primrec run_each :: "('a \<Rightarrow> ('s, 'r) prog) \<Rightarrow> 'a list \<Rightarrow> ('s, 'r list) prog" where
  "run_each f [] = ret []"
| "run_each f (a # as) = andthen (f a) (\<lambda>r. andthen (run_each f as) (\<lambda>rs. ret (r # rs)))"

lemma run_each_snoc:
  "run_each f (as @ [a]) = andthen (run_each f as) (\<lambda>rs. andthen (f a) (\<lambda>r. ret (rs @ [r])))"
  by (induction as) (simp_all add: andthen_assoc)

lemma run_each_length: "run_each f as s = Inr (rs, t) \<Longrightarrow> length rs = length as"
  by (induction as arbitrary: s rs) auto

locale keyed_store =
  fixes lookup :: "'s \<Rightarrow> 'k \<Rightarrow> 'v option"
    and op :: "'a \<Rightarrow> ('s, 'r) prog"
    and key :: "'a \<Rightarrow> 'k"
  assumes frame: "op a s = Inr (r, t) \<Longrightarrow> k \<noteq> key a \<Longrightarrow> lookup t k = lookup s k"
begin

lemma run_frame:
  "run_each op as s = Inr (rs, t) \<Longrightarrow> k \<notin> key ` set as \<Longrightarrow> lookup t k = lookup s k"
proof (induction as arbitrary: s rs)
  case (Cons a as)
  then obtain r s1 rs' where "op a s = Inr (r, s1)" "run_each op as s1 = Inr (rs', t)" by auto
  with Cons show ?case using frame [of a s r s1 k] by auto
qed simp

end

definition packet_at :: "'z reassembly_scheme \<Rightarrow> packet_key \<Rightarrow> full_packet option" where
  "packet_at s key = map_of (m_packets s) key"

definition fr_key :: "reassembly_fragment \<Rightarrow> packet_key" where
  "fr_key f = (fr_src_add f, fr_packet_id f)"

lemma packet_at_update [simp]:
  "packet_at (s\<lparr>m_packets := AList.update key p (m_packets s)\<rparr>) k = (if k = key then Some p else packet_at s k)"
  by (simp add: packet_at_def update_conv')

lemma packet_at_delete [simp]:
  "packet_at (s\<lparr>m_packets := AList.delete key (m_packets s)\<rparr>) k = (if k = key then None else packet_at s k)"
  by (simp add: packet_at_def delete_conv')

lemma packet_at_other_fields [simp]:
  "packet_at (s\<lparr>m_is_queue_empty := b\<rparr>) = packet_at s" "packet_at (s\<lparr>mallocs := ms\<rparr>) = packet_at s"
  "packet_at (s\<lparr>io_clock := cs\<rparr>) = packet_at s" "packet_at (s\<lparr>m_last_gc_ts_ms := ts\<rparr>) = packet_at s"
  by (simp_all add: packet_at_def fun_eq_iff)

text \<open>What an addition does to the packet of its key.\<close>

definition empty_packet :: full_packet where
  "empty_packet = \<lparr>fp_full_size = 0, fp_is_full = False, fp_head = [], fp_timestamp_ms_epoch_last = 0\<rparr>"

definition with_fragment :: "reassembly_fragment \<Rightarrow> u64 \<Rightarrow> full_packet \<Rightarrow> full_packet" where
  "with_fragment f now p = p\<lparr>fp_head := (fr_offset f, fr_bytes f) # fp_head p,
     fp_full_size := (if fr_last f then fr_offset f + length (fr_bytes f) else fp_full_size p),
     fp_timestamp_ms_epoch_last := now\<rparr>"

definition fullness :: "full_packet \<Rightarrow> bool" where
  "fullness p \<longleftrightarrow> fp_is_full p \<or> (fp_full_size p \<noteq> 0 \<and> rx_size p = fp_full_size p)"

lemma malloc_ok [simp]: "mallocs s = [] \<Longrightarrow> Platform_malloc s = Inr (True, s)"
  by (simp add: Platform_malloc_def)

lemma packet_at_kept:
  "Platform_malloc s = Inr (b, t) \<Longrightarrow> packet_at t = packet_at s"
  "Platform_get_timestamp_ms_monotonic s = Inr (now, t) \<Longrightarrow> packet_at t = packet_at s"
  by (auto simp: Platform_malloc_def Platform_get_timestamp_ms_monotonic_def split: list.splits)

lemma keeps_other_packet [keeps_intros]:
  "keeps (\<lambda>s. packet_at s k = v) Platform_malloc"
  "keeps (\<lambda>s. packet_at s k = v) Platform_get_timestamp_ms_monotonic"
  "k \<noteq> key \<Longrightarrow> keeps (\<lambda>s. packet_at s k = v) (put_packet key p)"
  by (auto intro!: keepsI dest: packet_at_kept simp: put_packet_def)

lemma additions_keep_other_packets:
  assumes "k \<noteq> fr_key f"
  shows "keeps (\<lambda>s. packet_at s k = v) (reassembly_add_fragment f)"
  using assms unfolding reassembly_add_fragment_def Let_def get_packet_from_hash_def
    create_packet_in_hash_def add_fragment_to_full_packet_def is_packet_full_def fr_key_def
  by (intro keeps_intros) simp_all

interpretation additions: keyed_store packet_at reassembly_add_fragment fr_key
  by unfold_locales (blast dest: additions_keep_other_packets [THEN keepsD, OF _ refl])

lemma add_to_packet_run:
  assumes "mallocs s = []" "io_clock s = now # cs"
  shows "add_fragment_to_full_packet key p f s =
     (if fr_offset f \<in> set (map fst (fp_head p)) then Inr (None, s)
      else Inr (Some (with_fragment f now p), s\<lparr>io_clock := cs,
        m_packets := AList.update key (with_fragment f now p) (m_packets s)\<rparr>))"
  using assms
  by (simp add: add_fragment_to_full_packet_def prog_simps Platform_get_timestamp_ms_monotonic_def
      put_packet_def with_fragment_def Let_def)

lemma is_packet_full_run:
  "is_packet_full key p s = Inr (fullness p,
     if fullness p \<and> \<not> fp_is_full p
     then s\<lparr>m_packets := AList.update key (p\<lparr>fp_is_full := True\<rparr>) (m_packets s)\<rparr> else s)"
  by (simp add: is_packet_full_def fullness_def put_packet_def prog_simps)

lemma fullness_settled:
  assumes "m_packets s = AList.update key p al"
  shows "(if fullness p \<and> \<not> fp_is_full p
      then s\<lparr>m_packets := AList.update key (p\<lparr>fp_is_full := True\<rparr>) (m_packets s)\<rparr> else s)
    = s\<lparr>m_packets := AList.update key (p\<lparr>fp_is_full := fullness p\<rparr>) al\<rparr>"
proof (cases "fullness p \<and> \<not> fp_is_full p")
  case True
  then show ?thesis using assms by simp
next
  case False
  then have "p\<lparr>fp_is_full := fullness p\<rparr> = p" by (auto simp: fullness_def)
  with False show ?thesis using assms [symmetric] by auto
qed

lemma add_fragment_run:
  fixes f :: reassembly_fragment and s :: "'z reassembly_scheme"
  assumes "mallocs s = []" "io_clock s = now # cs"
  defines "p \<equiv> (case packet_at s (fr_key f) of None \<Rightarrow> empty_packet | Some p \<Rightarrow> p)"
  defines "p' \<equiv> with_fragment f now p"
  assumes "fr_offset f \<notin> set (map fst (fp_head p))"
  shows "reassembly_add_fragment f s = Inr ((True, if fullness p' then fp_full_size p' else 0),
     s\<lparr>io_clock := cs, m_is_queue_empty := False,
       m_packets := AList.update (fr_key f) (p'\<lparr>fp_is_full := fullness p'\<rparr>) (m_packets s)\<rparr>)"
proof -
  define s1 where "s1 = s\<lparr>m_is_queue_empty := False,
    m_packets := (if packet_at s (fr_key f) = None then AList.update (fr_key f) p (m_packets s) else m_packets s)\<rparr>"
  have u: "AList.update (fr_key f) q (m_packets s1) = AList.update (fr_key f) q (m_packets s)" for q
    by (simp add: s1_def)
  have a: "add_fragment_to_full_packet (fr_key f) p f s1 = Inr (Some p', s1\<lparr>io_clock := cs,
      m_packets := AList.update (fr_key f) p' (m_packets s)\<rparr>)" (is "_ = Inr (_, ?s2)")
    using assms(1,2,5) by (subst add_to_packet_run [of _ now cs]) (simp_all add: u p'_def, simp_all add: s1_def)
  have i: "is_packet_full (fr_key f) p' ?s2 = Inr (fullness p',
      ?s2\<lparr>m_packets := AList.update (fr_key f) (p'\<lparr>fp_is_full := fullness p'\<rparr>) (m_packets s)\<rparr>)"
    by (subst is_packet_full_run, subst fullness_settled [where al = "m_packets s"]) simp_all
  show ?thesis
    using a i assms(1)
    by (simp add: reassembly_add_fragment_def Let_def get_packet_from_hash_def create_packet_in_hash_def
        put_packet_def prog_simps p_def packet_at_def fr_key_def s1_def empty_packet_def
        split: option.splits)
qed

lemma add_fragment_duplicate:
  assumes "packet_at s (fr_key f) = Some p" "fr_offset f \<in> set (map fst (fp_head p))"
  shows "reassembly_add_fragment f s = Inr ((False, 0), s\<lparr>m_is_queue_empty := False\<rparr>)"
  using assms
  by (simp add: reassembly_add_fragment_def Let_def get_packet_from_hash_def prog_simps
      add_fragment_to_full_packet_def packet_at_def fr_key_def)

section \<open>Cutting a message into fragments\<close>

text \<open>The specification side: the fragments of a message, each with its offset, its bytes and the flag
  of the last one.\<close>

fun fragments :: "nat \<Rightarrow> nat \<Rightarrow> u8 list \<Rightarrow> (nat \<times> u8 list \<times> bool) list" where
  "fragments mtu offset msg =
     (if mtu = 0 \<or> length msg \<le> mtu then [(offset, msg, True)]
      else (offset, take mtu msg, False) # fragments mtu (offset + mtu) (drop mtu msg))"

declare fragments.simps [simp del]

text \<open>A fragment of the message, found at its offset.\<close>

definition piece_of :: "u8 list \<Rightarrow> nat \<times> u8 list \<Rightarrow> bool" where
  "piece_of msg f \<longleftrightarrow> fst f + length (snd f) \<le> length msg \<and> take (length (snd f)) (drop (fst f) msg) = snd f"

lemma fragments_piece:
  "(o', bs, l) \<in> set (fragments mtu off msg) \<Longrightarrow>
   off \<le> o' \<and> piece_of msg (o' - off, bs) \<and> (msg \<noteq> [] \<longrightarrow> bs \<noteq> [])
   \<and> (l \<longrightarrow> o' + length bs = off + length msg)"
proof (induction mtu off msg rule: fragments.induct)
  case (1 mtu off msg)
  show ?case
  proof (cases "mtu = 0 \<or> length msg \<le> mtu")
    case True
    with "1.prems" show ?thesis by (simp add: fragments.simps [of mtu off msg] piece_of_def)
  next
    case False
    then consider (head) "(o', bs, l) = (off, take mtu msg, False)"
      | (tail) "(o', bs, l) \<in> set (fragments mtu (off + mtu) (drop mtu msg))"
      using "1.prems" by (auto simp: fragments.simps [of mtu off msg])
    then show ?thesis
    proof cases
      case head
      with False show ?thesis by (auto simp: piece_of_def)
    next
      case tail
      then have IH: "off + mtu \<le> o' \<and> piece_of (drop mtu msg) (o' - (off + mtu), bs) \<and> bs \<noteq> []
          \<and> (l \<longrightarrow> o' + length bs = off + mtu + length (drop mtu msg))"
        using "1.IH" [OF False] False by auto
      then have "o' - off = mtu + (o' - (off + mtu))" by simp
      with IH False show ?thesis by (auto simp: piece_of_def add.commute)
    qed
  qed
qed

lemma fragments_sum: "sum_list (map (\<lambda>f. length (fst (snd f))) (fragments mtu off msg)) = length msg"
proof (induction mtu off msg rule: fragments.induct)
  case (1 mtu off msg)
  then show ?case
    by (cases "mtu = 0 \<or> length msg \<le> mtu") (simp_all add: fragments.simps [of mtu off msg])
qed

lemma fragments_covers:
  "i < length msg \<Longrightarrow> \<exists>(o', bs, l) \<in> set (fragments mtu off msg). o' \<le> off + i \<and> off + i < o' + length bs"
proof (induction mtu off msg arbitrary: i rule: fragments.induct)
  case (1 mtu off msg)
  show ?case
  proof (cases "mtu = 0 \<or> length msg \<le> mtu")
    case True
    with "1.prems" show ?thesis by (simp add: fragments.simps [of mtu off msg])
  next
    case False
    show ?thesis
    proof (cases "i < mtu")
      case True
      with False "1.prems" show ?thesis by (simp add: fragments.simps [of mtu off msg])
    next
      case ge: False
      have "\<exists>(o', bs, l) \<in> set (fragments mtu (off + mtu) (drop mtu msg)).
          o' \<le> off + mtu + (i - mtu) \<and> off + mtu + (i - mtu) < o' + length bs"
        using "1.prems" ge by (intro "1.IH" [OF False]) simp
      with ge False show ?thesis by (auto simp: fragments.simps [of mtu off msg])
    qed
  qed
qed

lemma fragments_nonempty: "fragments mtu off msg \<noteq> []"
  by (subst fragments.simps) simp

lemma fragments_offsets_ge: "f \<in> set (fragments mtu off msg) \<Longrightarrow> off \<le> fst f"
  using fragments_piece [of "fst f" "fst (snd f)" "snd (snd f)"] by simp

lemma fragments_distinct: "distinct (map fst (fragments mtu off msg))"
proof (induction mtu off msg rule: fragments.induct)
  case (1 mtu off msg)
  show ?case
  proof (cases "mtu = 0 \<or> length msg \<le> mtu")
    case False
    moreover have "off \<notin> fst ` set (fragments mtu (off + mtu) (drop mtu msg))"
      using fragments_offsets_ge [of _ mtu "off + mtu" "drop mtu msg"] False by fastforce
    ultimately show ?thesis using "1.IH" by (simp add: fragments.simps [of mtu off msg])
  qed (simp add: fragments.simps [of mtu off msg])
qed

lemma fragments_has_last: "\<exists>f \<in> set (fragments mtu off msg). snd (snd f)"
proof (induction mtu off msg rule: fragments.induct)
  case (1 mtu off msg)
  then show ?case
    by (cases "mtu = 0 \<or> length msg \<le> mtu") (auto simp: fragments.simps [of mtu off msg])
qed

section \<open>Copying fragments back\<close>

lemma nth_blit:
  assumes "k + length xs \<le> length mem" "i < length mem"
  shows "blit mem k xs ! i = (if k \<le> i \<and> i < k + length xs then xs ! (i - k) else mem ! i)"
  using assms by (auto simp: blit_def nth_append min_def)

text \<open>Pieces of one message can be copied in any order: they agree wherever they overlap.\<close>

lemma copy_pieces:
  assumes "\<forall>f \<in> set fs. piece_of msg f" "length msg \<le> length buffer"
  shows "\<exists>buffer'. copy_fragments fs buffer = Inr buffer' \<and> length buffer' = length buffer
    \<and> (\<forall>i < length buffer. buffer' ! i =
        (if \<exists>f \<in> set fs. fst f \<le> i \<and> i < fst f + length (snd f) then msg ! i else buffer ! i))"
  using assms
proof (induction fs arbitrary: buffer)
  case Nil
  then show ?case by simp
next
  case (Cons f fs)
  obtain k xs where f: "f = (k, xs)" by (cases f)
  from Cons.prems f have k: "k + length xs \<le> length msg" "take (length xs) (drop k msg) = xs"
    by (auto simp: piece_of_def)
  then have fit: "k + length xs \<le> length buffer" using Cons.prems(2) by simp
  then have len: "length (blit buffer k xs) = length buffer" by simp
  from Cons.IH [of "blit buffer k xs"] Cons.prems len obtain buffer' where
    b: "copy_fragments fs (blit buffer k xs) = Inr buffer'" "length buffer' = length buffer"
    "\<forall>i < length buffer. buffer' ! i =
      (if \<exists>f \<in> set fs. fst f \<le> i \<and> i < fst f + length (snd f) then msg ! i else blit buffer k xs ! i)"
    by auto
  have "xs ! (i - k) = msg ! i" if "k \<le> i" "i < k + length xs" for i
  proof -
    have "xs ! (i - k) = take (length xs) (drop k msg) ! (i - k)" using k(2) by simp
    also have "\<dots> = msg ! i" using that k(1) by simp
    finally show ?thesis .
  qed
  with b fit show ?case by (auto simp: f nth_blit)
qed

lemma copy_all_pieces:
  assumes "\<forall>f \<in> set fs. piece_of msg f" "length msg \<le> length buffer"
    and "\<forall>i < length msg. \<exists>f \<in> set fs. fst f \<le> i \<and> i < fst f + length (snd f)"
  shows "copy_fragments fs buffer = Inr (overlay msg buffer)"
proof -
  obtain buffer' where b: "copy_fragments fs buffer = Inr buffer'" "length buffer' = length buffer"
    "\<forall>i < length buffer. buffer' ! i =
        (if \<exists>f \<in> set fs. fst f \<le> i \<and> i < fst f + length (snd f) then msg ! i else buffer ! i)"
    using copy_pieces [OF assms(1,2)] by auto
  have "buffer' = overlay msg buffer"
  proof (rule nth_equalityI)
    show "length buffer' = length (overlay msg buffer)" using b(2) assms(2) by (simp add: overlay_def)
    fix i assume i: "i < length buffer'"
    show "buffer' ! i = overlay msg buffer ! i"
    proof (cases "i < length msg")
      case True
      with b i assms(3) show ?thesis by (simp add: overlay_def nth_append)
    next
      case False
      then have none: "\<not> (\<exists>f \<in> set fs. fst f \<le> i \<and> i < fst f + length (snd f))"
        using assms(1) by (fastforce simp: piece_of_def)
      have "buffer' ! i = buffer ! i" using b(2,3) i none by presburger
      with b i False assms(2) show ?thesis by (simp add: overlay_def nth_append)
    qed
  qed
  with b show ?thesis by simp
qed

section \<open>Assembling a message from its fragments\<close>

definition content :: "reassembly_fragment \<Rightarrow> nat \<times> u8 list \<times> bool" where
  "content f = (fr_offset f, fr_bytes f, fr_last f)"

definition received :: "reassembly_fragment list \<Rightarrow> nat" where
  "received os = sum_list (map (\<lambda>f. length (fr_bytes f)) os)"

text \<open>Some of the fragments of the message, each at most once.\<close>

definition parts_of :: "nat \<Rightarrow> u8 list \<Rightarrow> reassembly_fragment list \<Rightarrow> bool" where
  "parts_of mtu msg os \<longleftrightarrow> mset (map content os) \<subseteq># mset (fragments mtu 0 msg)"

lemma distinct_sub_mset:
  assumes "mset xs \<subseteq># mset ys" "distinct ys"
  shows "distinct xs"
proof -
  have "count (mset xs) x \<le> 1" for x
  proof -
    have "count (mset ys) x \<le> 1"
      using assms(2) by (cases "x \<in> set ys") (simp_all add: distinct_count_atmost_1 count_mset_0_iff [THEN iffD2])
    then show ?thesis using mset_subset_eq_count [OF assms(1), of x] by simp
  qed
  moreover have "0 < count (mset xs) x" if "x \<in> set xs" for x
    using that by simp
  ultimately show ?thesis
    unfolding distinct_count_atmost_1 by (metis count_mset_0_iff le_antisym less_one not_le)
qed

lemma parts_prefix: "parts_of mtu msg (os @ os') \<Longrightarrow> parts_of mtu msg os"
  unfolding parts_of_def by (metis map_append mset_append mset_subset_eq_add_left subset_mset.order_trans)

lemma parts_distinct:
  assumes "parts_of mtu msg os"
  shows "distinct (map fr_offset os)"
proof -
  have "mset (map fst (map content os)) \<subseteq># mset (map fst (fragments mtu 0 msg))"
    using assms unfolding parts_of_def by (metis image_mset_subseteq_mono mset_map)
  from distinct_sub_mset [OF this fragments_distinct] show ?thesis by (simp add: content_def comp_def)
qed

lemma parts_piece:
  assumes "parts_of mtu msg os" "f \<in> set os" "msg \<noteq> []"
  shows "piece_of msg (fr_offset f, fr_bytes f)" "fr_bytes f \<noteq> []"
    "fr_last f \<Longrightarrow> fr_offset f + length (fr_bytes f) = length msg"
proof -
  have "content f \<in># mset (fragments mtu 0 msg)"
    using assms(1,2) unfolding parts_of_def by (metis image_eqI list.set_map mset_subset_eqD set_mset_mset)
  then have "(fr_offset f, fr_bytes f, fr_last f) \<in> set (fragments mtu 0 msg)" by (simp add: content_def)
  from fragments_piece [OF this] assms(3)
  show "piece_of msg (fr_offset f, fr_bytes f)" "fr_bytes f \<noteq> []"
    "fr_last f \<Longrightarrow> fr_offset f + length (fr_bytes f) = length msg" by simp_all
qed

lemma parts_received:
  assumes "parts_of mtu msg os" "msg \<noteq> []"
  shows "received os \<le> length msg"
    and "received os = length msg \<longleftrightarrow> mset (map content os) = mset (fragments mtu 0 msg)"
proof -
  let ?F = "mset (fragments mtu 0 msg)" and ?M = "mset (map content os)"
  let ?len = "\<lambda>f :: nat \<times> u8 list \<times> bool. length (fst (snd f))"
  have sub: "?M \<subseteq># ?F" using assms(1) by (simp add: parts_of_def)
  have F: "sum_mset (image_mset ?len ?F) = length msg"
    using fragments_sum [of mtu 0 msg] by (simp flip: sum_mset_sum_list)
  have M: "sum_mset (image_mset ?len ?M) = received os"
    by (simp add: received_def content_def comp_def multiset.map_comp flip: sum_mset_sum_list)
  have split: "length msg = received os + sum_mset (image_mset ?len (?F - ?M))"
  proof -
    have "image_mset ?len ?F = image_mset ?len ?M + image_mset ?len (?F - ?M)"
      using subset_mset.add_diff_inverse [OF sub] by (metis image_mset_union)
    then have "sum_mset (image_mset ?len ?F) = sum_mset (image_mset ?len ?M) + sum_mset (image_mset ?len (?F - ?M))"
      by (simp only: sum_mset.union)
    then show ?thesis unfolding F M .
  qed
  then show "received os \<le> length msg" by simp
  have pos: "0 < ?len f" if "f \<in># ?F - ?M" for f
  proof -
    have "f \<in> set (fragments mtu 0 msg)" using that by (metis in_diffD set_mset_mset)
    then show ?thesis using fragments_piece [of "fst f" "fst (snd f)" "snd (snd f)" mtu 0 msg] assms(2) by simp
  qed
  show "received os = length msg \<longleftrightarrow> ?M = ?F"
  proof
    assume "received os = length msg"
    then have "sum_mset (image_mset ?len (?F - ?M)) = 0" using split by simp
    then have "?F - ?M = {#}"
      using pos by (metis (no_types, lifting) image_eqI less_irrefl multiset_nonemptyE set_image_mset sum_mset_0_iff)
    then show "?M = ?F" using sub by (metis Diff_eq_empty_iff_mset subset_mset.antisym)
  next
    assume "?M = ?F"
    then show "received os = length msg" using F M by simp
  qed
qed

lemma parts_all_last:
  assumes "parts_of mtu msg os" "msg \<noteq> []" "received os = length msg"
  shows "\<exists>f \<in> set os. fr_last f"
proof -
  have "mset (map content os) = mset (fragments mtu 0 msg)" using parts_received [OF assms(1,2)] assms(3) by simp
  then have "set (map content os) = set (fragments mtu 0 msg)" by (metis set_mset_mset)
  moreover obtain g where "g \<in> set (fragments mtu 0 msg)" "snd (snd g)"
    using fragments_has_last [of mtu 0 msg] by blast
  ultimately obtain f where "f \<in> set os" "g = content f" by auto
  with \<open>snd (snd g)\<close> show ?thesis by (auto simp: content_def)
qed

text \<open>The packet of the key after some fragments of the message have been added.\<close>

definition assembling :: "u8 list \<Rightarrow> reassembly_fragment list \<Rightarrow> full_packet option \<Rightarrow> bool" where
  "assembling msg os p \<longleftrightarrow> (case p of None \<Rightarrow> os = []
     | Some q \<Rightarrow> os \<noteq> [] \<and> fp_head q = rev (map (\<lambda>f. (fr_offset f, fr_bytes f)) os)
        \<and> fp_full_size q = (if \<exists>f \<in> set os. fr_last f then length msg else 0)
        \<and> fp_is_full q = (received os = length msg))"

lemma assembling_step:
  fixes now :: u64
  assumes "assembling msg os p" "parts_of mtu msg (os @ [f])" "msg \<noteq> []"
  defines "q \<equiv> (case p of None \<Rightarrow> empty_packet | Some q \<Rightarrow> q)"
  defines "q' \<equiv> with_fragment f now q"
  shows "fr_offset f \<notin> set (map fst (fp_head q))"
    and "assembling msg (os @ [f]) (Some (q'\<lparr>fp_is_full := fullness q'\<rparr>))"
    and "(if fullness q' then fp_full_size q' else 0)
      = (if received (os @ [f]) = length msg then length msg else 0)"
proof -
  have head: "fp_head q = rev (map (\<lambda>f. (fr_offset f, fr_bytes f)) os)"
    and size: "fp_full_size q = (if \<exists>f \<in> set os. fr_last f then length msg else 0)"
    using assms(1) by (auto simp: assembling_def q_def empty_packet_def split: option.splits)
  show new: "fr_offset f \<notin> set (map fst (fp_head q))"
    using parts_distinct [OF assms(2)] by (auto simp: head)
  note f = parts_piece [OF assms(2) _ assms(3), of f, simplified]
  have more: "received (os @ [f]) = received os + length (fr_bytes f)" by (simp add: received_def)
  have "received os \<noteq> length msg"
    using parts_received(1) [OF assms(2,3)] f(2) by (cases "fr_bytes f") (auto simp: more)
  then have notfull: "\<not> fp_is_full q"
    using assms(1) by (auto simp: assembling_def q_def empty_packet_def split: option.splits)
  have rx: "rx_size q' = received (os @ [f])"
    by (simp add: q'_def with_fragment_def rx_size_def received_def head comp_def sum_list_rev flip: rev_map)
  have size': "fp_full_size q' = (if \<exists>g \<in> set (os @ [f]). fr_last g then length msg else 0)"
    using f(3) by (auto simp: q'_def with_fragment_def size)
  have full: "fullness q' \<longleftrightarrow> received (os @ [f]) = length msg"
    using notfull parts_all_last [OF assms(2,3)] assms(3) rx size'
    by (auto simp: fullness_def q'_def with_fragment_def)
  then show "(if fullness q' then fp_full_size q' else 0)
      = (if received (os @ [f]) = length msg then length msg else 0)"
    using parts_all_last [OF assms(2,3)] size' by auto
  show "assembling msg (os @ [f]) (Some (q'\<lparr>fp_is_full := fullness q'\<rparr>))"
    using full size' head by (simp add: assembling_def q'_def with_fragment_def)
qed

abbreviation own :: "packet_key \<Rightarrow> reassembly_fragment list \<Rightarrow> reassembly_fragment list" where
  "own k frs \<equiv> filter (\<lambda>f. fr_key f = k) frs"

lemma add_fragment_any:
  assumes "mallocs s = []" "io_clock s \<noteq> []"
  shows "\<exists>r t. reassembly_add_fragment f s = Inr (r, t) \<and> mallocs t = []
    \<and> length (io_clock s) \<le> Suc (length (io_clock t))"
proof -
  obtain now cs where c: "io_clock s = now # cs" using assms(2) by (cases "io_clock s") auto
  show ?thesis
  proof (cases "fr_offset f \<in> set (map fst (fp_head (case packet_at s (fr_key f) of None \<Rightarrow> empty_packet | Some p \<Rightarrow> p)))")
    case True
    then obtain p where "packet_at s (fr_key f) = Some p" "fr_offset f \<in> set (map fst (fp_head p))"
      by (auto simp: empty_packet_def split: option.splits)
    from add_fragment_duplicate [OF this] show ?thesis
      using assms(1) by (intro exI [of _ "(False, 0)"] exI [of _ "s\<lparr>m_is_queue_empty := False\<rparr>"]) simp
  next
    case False
    show ?thesis
      unfolding add_fragment_run [OF assms(1) c False]
      by (intro exI conjI, rule refl) (simp_all add: assms(1) c)
  qed
qed

lemma assemble_prefix:
  assumes "packet_at s k = None" "mallocs s = []" "length frs \<le> length (io_clock s)"
    and "parts_of mtu msg (own k frs)" "msg \<noteq> []"
  shows "\<exists>rs t. run_each reassembly_add_fragment frs s = Inr (rs, t) \<and> mallocs t = []
    \<and> length (io_clock s) \<le> length frs + length (io_clock t)
    \<and> assembling msg (own k frs) (packet_at t k)
    \<and> (\<forall>i < length frs. fr_key (frs ! i) = k \<longrightarrow> rs ! i =
        (True, if received (own k (take (Suc i) frs)) = length msg then length msg else 0))"
  using assms(3,4)
proof (induction frs rule: rev_induct)
  case Nil
  then show ?case using assms(1,2) by (simp add: assembling_def)
next
  case (snoc f frs)
  have parts: "parts_of mtu msg (own k frs)"
    using snoc.prems(2) parts_prefix by (cases "fr_key f = k") auto
  with snoc obtain rs t where IH: "run_each reassembly_add_fragment frs s = Inr (rs, t)" "mallocs t = []"
    "length (io_clock s) \<le> length frs + length (io_clock t)" "assembling msg (own k frs) (packet_at t k)"
    "\<forall>i < length frs. fr_key (frs ! i) = k \<longrightarrow> rs ! i =
        (True, if received (own k (take (Suc i) frs)) = length msg then length msg else 0)"
    by auto
  have len: "length rs = length frs" using IH(1) by (rule run_each_length)
  have "io_clock t \<noteq> []" using IH(3) snoc.prems(1) by auto
  then obtain r u where a: "reassembly_add_fragment f t = Inr (r, u)" "mallocs u = []"
    "length (io_clock t) \<le> Suc (length (io_clock u))"
    using add_fragment_any [OF IH(2), of f] by auto
  have run: "run_each reassembly_add_fragment (frs @ [f]) s = Inr (rs @ [r], u)"
    unfolding run_each_snoc using IH(1) a(1) by (simp add: prog_simps)
  have own: "assembling msg (own k (frs @ [f])) (packet_at u k)
      \<and> (fr_key f = k \<longrightarrow> r = (True, if received (own k (frs @ [f])) = length msg then length msg else 0))"
  proof (cases "fr_key f = k")
    case False
    then have "packet_at u k = packet_at t k" using additions.frame [OF a(1)] by simp
    with False IH(4) show ?thesis by simp
  next
    case True
    obtain now cs where c: "io_clock t = now # cs" using \<open>io_clock t \<noteq> []\<close> by (cases "io_clock t") auto
    have p: "parts_of mtu msg (own k frs @ [f])" using snoc.prems(2) True by simp
    note step = assembling_step(2,3) [OF IH(4) p assms(5), of now]
    from add_fragment_run [OF IH(2) c, of f] assembling_step(1) [OF IH(4) p assms(5)] True a(1)
    have r: "r = (True, if received (own k frs @ [f]) = length msg then length msg else 0)"
      and u: "packet_at u k = Some ((with_fragment f now (case packet_at t k of None \<Rightarrow> empty_packet | Some q \<Rightarrow> q))
        \<lparr>fp_is_full := fullness (with_fragment f now (case packet_at t k of None \<Rightarrow> empty_packet | Some q \<Rightarrow> q))\<rparr>)"
      unfolding step(2) [symmetric] by (auto simp: packet_at_def update_conv')
    show ?thesis using step(1) r u True by simp
  qed
  have "\<forall>i < length (frs @ [f]). fr_key ((frs @ [f]) ! i) = k \<longrightarrow> (rs @ [r]) ! i =
      (True, if received (own k (take (Suc i) (frs @ [f]))) = length msg then length msg else 0)"
  proof (intro allI impI)
    fix i assume i: "i < length (frs @ [f])" "fr_key ((frs @ [f]) ! i) = k"
    show "(rs @ [r]) ! i = (True, if received (own k (take (Suc i) (frs @ [f]))) = length msg then length msg else 0)"
    proof (cases "i < length frs")
      case True
      with i IH(5) len show ?thesis by (simp add: nth_append)
    next
      case False
      with i have "i = length frs" by simp
      with i own len show ?thesis by (simp add: nth_append)
    qed
  qed
  with run own a IH(3) snoc.prems(1) show ?case by (intro exI [of _ "rs @ [r]"] exI [of _ u]) auto
qed

lemma get_full_run:
  assumes "packet_at s (src, pid) = Some p" "fp_is_full p" "fp_full_size p \<le> size_p"
    and "copy_fragments (fp_head p) buffer = Inr buffer'"
  shows "reassembly_get_full_message src pid buffer size_p s = Inr ((True, buffer', fp_full_size p),
    s\<lparr>m_packets := AList.delete (src, pid) (m_packets s),
      m_is_queue_empty := (AList.delete (src, pid) (m_packets s) = [])\<rparr>)"
  using assms
  by (simp add: reassembly_get_full_message_def get_packet_from_hash_def packet_at_def prog_simps
      reassemble_full_packet_def)

lemma assembled_copy:
  assumes "assembling msg os (Some q)" "parts_of mtu msg os" "msg \<noteq> []"
    and "mset (map content os) = mset (fragments mtu 0 msg)" "length msg \<le> length buffer"
  shows "fp_is_full q" "fp_full_size q = length msg"
    "copy_fragments (fp_head q) buffer = Inr (overlay msg buffer)"
proof -
  have rec: "received os = length msg" using parts_received(2) [OF assms(2,3)] assms(4) by simp
  have q: "fp_head q = rev (map (\<lambda>f. (fr_offset f, fr_bytes f)) os)" "fp_is_full q"
    "fp_full_size q = (if \<exists>f \<in> set os. fr_last f then length msg else 0)"
    using assms(1) rec by (auto simp: assembling_def)
  then show "fp_is_full q" "fp_full_size q = length msg"
    using parts_all_last [OF assms(2,3) rec] by simp_all
  have mem: "set (map content os) = set (fragments mtu 0 msg)" using assms(4) by (metis set_mset_mset)
  show "copy_fragments (fp_head q) buffer = Inr (overlay msg buffer)"
    unfolding q(1)
  proof (rule copy_all_pieces)
    show "\<forall>f \<in> set (rev (map (\<lambda>f. (fr_offset f, fr_bytes f)) os)). piece_of msg f"
      using parts_piece(1) [OF assms(2) _ assms(3)] by auto
    show "\<forall>i < length msg. \<exists>f \<in> set (rev (map (\<lambda>f. (fr_offset f, fr_bytes f)) os)).
        fst f \<le> i \<and> i < fst f + length (snd f)"
    proof (intro allI impI)
      fix i assume "i < length msg"
      from fragments_covers [OF this, of mtu 0] obtain o' bs l where
        f: "(o', bs, l) \<in> set (fragments mtu 0 msg)" "o' \<le> i" "i < o' + length bs" by auto
      then obtain g where "g \<in> set os" "content g = (o', bs, l)" using mem by (metis imageE list.set_map)
      with f(2,3) show "\<exists>f \<in> set (rev (map (\<lambda>f. (fr_offset f, fr_bytes f)) os)).
          fst f \<le> i \<and> i < fst f + length (snd f)"
        by (intro bexI [of _ "(o', bs)"]) (auto simp: content_def)
    qed
  qed (rule assms(5))
qed

lemma reassembly_any_order_run:
  assumes "packet_at s (src, pid) = None" "mallocs s = []" "length frs \<le> length (io_clock s)"
    and "msg \<noteq> []" "length msg \<le> length buffer" "length msg \<le> size_p"
    and "mset (map content (own (src, pid) frs)) = mset (fragments mtu 0 msg)"
    and "frs \<noteq> []" "fr_key (last frs) = (src, pid)"
  shows "\<exists>rs t u. run_each reassembly_add_fragment frs s = Inr (rs, t)
    \<and> last rs = (True, length msg)
    \<and> (\<forall>i < length frs - 1. fr_key (frs ! i) = (src, pid) \<longrightarrow> rs ! i = (True, 0))
    \<and> reassembly_get_full_message src pid buffer size_p t = Inr ((True, overlay msg buffer, length msg), u)
    \<and> packet_at u (src, pid) = None \<and> (\<forall>k. k \<noteq> (src, pid) \<longrightarrow> packet_at u k = packet_at t k)
    \<and> reassembly.more u = reassembly.more t"
proof -
  let ?k = "(src, pid)"
  obtain pre f where frs: "frs = pre @ [f]" using assms(8) by (cases frs rule: rev_cases) auto
  have f: "fr_key f = ?k" using assms(9) by (simp add: frs)
  have parts: "parts_of mtu msg (own ?k frs)" unfolding parts_of_def assms(7) by (rule subset_mset.order_refl)
  have rec: "received (own ?k frs) = length msg" using parts_received(2) [OF parts assms(4)] assms(7) by simp
  obtain rs t where run: "run_each reassembly_add_fragment frs s = Inr (rs, t)"
    and asm: "assembling msg (own ?k frs) (packet_at t ?k)"
    and res: "\<forall>i < length frs. fr_key (frs ! i) = ?k \<longrightarrow> rs ! i =
        (True, if received (own ?k (take (Suc i) frs)) = length msg then length msg else 0)"
    using assemble_prefix [OF assms(1-3) parts assms(4)] by blast
  have len: "length rs = length frs" using run by (rule run_each_length)
  have last: "last rs = (True, length msg)"
  proof -
    have "rs \<noteq> []" using len assms(8) by auto
    then have "last rs = rs ! length pre" using len by (simp add: last_conv_nth frs)
    moreover have "rs ! length pre = (True, length msg)"
      using res [rule_format, of "length pre"] f rec by (simp add: frs)
    ultimately show ?thesis by simp
  qed
  have early: "\<forall>i < length frs - 1. fr_key (frs ! i) = ?k \<longrightarrow> rs ! i = (True, 0)"
  proof (intro allI impI)
    fix i assume i: "i < length frs - 1" "fr_key (frs ! i) = ?k"
    have "f \<in> set (own ?k frs)" using f by (simp add: frs)
    then have nonempty: "0 < length (fr_bytes f)" using parts_piece(2) [OF parts _ assms(4)] by simp
    have "i < length pre" using i(1) by (simp add: frs)
    then have "own ?k pre = own ?k (take (Suc i) frs) @ own ?k (drop (Suc i) pre)"
      by (metis Suc_leI append_take_drop_id filter_append frs take_append take_all take_0 append_Nil2 diff_is_0_eq)
    then have "received (own ?k frs) = received (own ?k (take (Suc i) frs))
        + received (own ?k (drop (Suc i) pre)) + length (fr_bytes f)"
      using f by (simp add: frs received_def)
    then have "received (own ?k (take (Suc i) frs)) \<noteq> length msg" using rec nonempty by simp
    with res i show "rs ! i = (True, 0)" by simp
  qed
  obtain q where q: "packet_at t ?k = Some q"
    using asm f by (cases "packet_at t ?k") (auto simp: assembling_def frs)
  note full = assembled_copy [OF asm [unfolded q] parts assms(4,7,5)]
  have get: "reassembly_get_full_message src pid buffer size_p t = Inr ((True, overlay msg buffer, length msg),
      t\<lparr>m_packets := AList.delete ?k (m_packets t), m_is_queue_empty := (AList.delete ?k (m_packets t) = [])\<rparr>)"
    using get_full_run [OF q full(1) _ full(3), of size_p] full(2) assms(6) by simp
  have "packet_at (t\<lparr>m_packets := AList.delete ?k (m_packets t),
      m_is_queue_empty := (AList.delete ?k (m_packets t) = [])\<rparr>) k = (if k = ?k then None else packet_at t k)" for k
    by (simp add: packet_at_def delete_conv')
  with run last early get show ?thesis by auto
qed

section \<open>Properties of the reassembly\<close>

text \<open>C8: Reassembly in any order and interleaving. When the fragments of a message arrive in any
  order, mixed in any way with fragments of other packets (duplicates and damaged packets among
  them), each own fragment is accepted, exactly the last one reports the full size, fetching the
  packet then yields the message, byte for byte, the packet is gone afterwards and the other
  packets are untouched.\<close>

theorem reassembly_any_order:
  assumes "packet_at s (src, pid) = None" "mallocs s = []" "length frs \<le> length (io_clock s)"
    and "msg \<noteq> []" "length msg \<le> length buffer" "length msg \<le> size_p"
    and "mset (map content (own (src, pid) frs)) = mset (fragments mtu 0 msg)"
    and "frs \<noteq> []" "fr_key (last frs) = (src, pid)"
  shows "\<exists>rs t u. run_each reassembly_add_fragment frs s = Inr (rs, t)
    \<and> last rs = (True, length msg)
    \<and> (\<forall>i < length frs - 1. fr_key (frs ! i) = (src, pid) \<longrightarrow> rs ! i = (True, 0))
    \<and> reassembly_get_full_message src pid buffer size_p t = Inr ((True, overlay msg buffer, length msg), u)
    \<and> packet_at u (src, pid) = None \<and> (\<forall>k. k \<noteq> (src, pid) \<longrightarrow> packet_at u k = packet_at t k)"
  using reassembly_any_order_run [OF assms] by blast

theorem reassembly_any_order_witness:
  "\<exists>(s :: unit reassembly_scheme) rs t u. run_each reassembly_add_fragment
       [\<lparr>fr_src_add = 1, fr_packet_id = 7, fr_bytes = [5], fr_offset = 4, fr_last = True\<rparr>,
        \<lparr>fr_src_add = 2, fr_packet_id = 7, fr_bytes = [9, 9], fr_offset = 0, fr_last = True\<rparr>,
        \<lparr>fr_src_add = 1, fr_packet_id = 7, fr_bytes = [3, 4], fr_offset = 2, fr_last = False\<rparr>,
        \<lparr>fr_src_add = 1, fr_packet_id = 7, fr_bytes = [1, 2], fr_offset = 0, fr_last = False\<rparr>] s
       = Inr (rs, t)
     \<and> reassembly_get_full_message 1 7 (replicate 8 0) 8 t = Inr ((True, [1, 2, 3, 4, 5, 0, 0, 0], 5), u)"
proof -
  let ?f = "\<lambda>src bs off l. \<lparr>fr_src_add = src, fr_packet_id = 7, fr_bytes = bs, fr_offset = off, fr_last = l\<rparr>"
  let ?frs = "[?f 1 [5] 4 True, ?f 2 [9, 9] 0 True, ?f 1 [3, 4] 2 False, ?f 1 [1, 2] 0 False]"
  let ?s = "\<lparr>io_rx = [], io_wr = [], io_tx = [], io_clock = [1, 2, 3, 4], io_epoch = [], io_waits = [],
     m_locked = False, req_frame_id = 0, m_last_successful_answer_ts = 0, m_timeout_no_answer_ms = 0,
     m_mtu = 102, m_disabled_poll_request = False, close_returns = True, m_app_conf_cb = None, m_scan_neighbor_cb = None,
     m_stack_status_cb = None, m_config_data_item_cb = None, mallocs = [], m_fragment_max_duration_s = 0,
     m_packets = [], m_is_queue_empty = True, m_last_gc_ts_ms = 0\<rparr> :: unit reassembly_scheme"
  let ?msg = "[1, 2, 3, 4, 5] :: u8 list"
  have c: "fragments 2 0 ?msg = [(0, [1, 2], False), (2, [3, 4], False), (4, [5], True)]"
    by (simp add: fragments.simps)
  have m: "mset (map content (own (1, 7) ?frs)) = mset (fragments 2 0 ?msg)"
    unfolding c by (simp add: fr_key_def content_def)
  have h: "packet_at ?s (1, 7) = None" "mallocs ?s = []" "length ?frs \<le> length (io_clock ?s)"
    "?msg \<noteq> []" "length ?msg \<le> length (replicate 8 0 :: u8 list)" "length ?msg \<le> 8"
    by (simp_all add: packet_at_def)
  have l: "?frs \<noteq> []" "fr_key (last ?frs) = (1, 7)" by (simp_all add: fr_key_def)
  from reassembly_any_order [OF h m l] obtain rs t u where
    "run_each reassembly_add_fragment ?frs ?s = Inr (rs, t)"
    "reassembly_get_full_message 1 7 (replicate 8 0) 8 t = Inr ((True, overlay ?msg (replicate 8 0), length ?msg), u)"
    by blast
  then show ?thesis
    by (intro exI [of _ ?s] exI [of _ rs] exI [of _ t] exI [of _ u])
      (simp add: overlay_def numeral_eq_Suc)
qed

text \<open>The flag that other threads read: when it says that the queue is empty, no packet is under
  construction.\<close>

definition queue_flag_ok :: "'z reassembly_scheme \<Rightarrow> bool" where
  "queue_flag_ok s \<longleftrightarrow> (m_is_queue_empty s \<longrightarrow> m_packets s = []) \<and> distinct (map fst (m_packets s))"

lemma keeps_flag_basic [keeps_intros]:
  "keeps (\<lambda>s. \<not> m_is_queue_empty s \<and> distinct (map fst (m_packets s))) Platform_malloc"
  "keeps (\<lambda>s. \<not> m_is_queue_empty s \<and> distinct (map fst (m_packets s))) Platform_get_timestamp_ms_monotonic"
  "keeps (\<lambda>s. \<not> m_is_queue_empty s \<and> distinct (map fst (m_packets s))) (put_packet key p)"
  by (auto intro!: keepsI simp: Platform_malloc_def Platform_get_timestamp_ms_monotonic_def put_packet_def
      distinct_update split: list.splits)

lemma add_fragment_flag:
  assumes "reassembly_add_fragment f s = Inr (r, t)" "queue_flag_ok s"
  shows "queue_flag_ok t"
proof -
  let ?I = "\<lambda>s. \<not> m_is_queue_empty s \<and> distinct (map fst (m_packets s))"
  obtain k where run: "k (s\<lparr>m_is_queue_empty := False\<rparr>) = Inr (r, t)" and "keeps ?I k"
  proof
    show "andthen (get_packet_from_hash (fr_src_add f, fr_packet_id f)) (\<lambda>found.
      andthen (case found of None \<Rightarrow> create_packet_in_hash (fr_src_add f, fr_packet_id f) | Some p \<Rightarrow> ret (Some p)) (\<lambda>holder.
      case holder of None \<Rightarrow> ret (False, 0)
      | Some p \<Rightarrow>
        andthen (add_fragment_to_full_packet (fr_src_add f, fr_packet_id f) p f) (\<lambda>added.
        case added of None \<Rightarrow> ret (False, 0)
        | Some p' \<Rightarrow>
          andthen (is_packet_full (fr_src_add f, fr_packet_id f) p') (\<lambda>full.
          ret (True, if full then fp_full_size p' else 0))))) (s\<lparr>m_is_queue_empty := False\<rparr>) = Inr (r, t)"
      using assms(1) by (simp add: reassembly_add_fragment_def Let_def andthen_def [of "modify _"] modify_def)
  next
    show "keeps ?I (andthen (get_packet_from_hash (fr_src_add f, fr_packet_id f)) (\<lambda>found.
      andthen (case found of None \<Rightarrow> create_packet_in_hash (fr_src_add f, fr_packet_id f) | Some p \<Rightarrow> ret (Some p)) (\<lambda>holder.
      case holder of None \<Rightarrow> ret (False, 0)
      | Some p \<Rightarrow>
        andthen (add_fragment_to_full_packet (fr_src_add f, fr_packet_id f) p f) (\<lambda>added.
        case added of None \<Rightarrow> ret (False, 0)
        | Some p' \<Rightarrow>
          andthen (is_packet_full (fr_src_add f, fr_packet_id f) p') (\<lambda>full.
          ret (True, if full then fp_full_size p' else 0))))))"
      unfolding get_packet_from_hash_def create_packet_in_hash_def add_fragment_to_full_packet_def
        is_packet_full_def Let_def
      by (intro keeps_intros)
  qed
  from keepsD [OF this(2) _ run] assms(2) show ?thesis by (simp add: queue_flag_ok_def)
qed

lemma get_full_flag:
  assumes "reassembly_get_full_message src pid buffer size_p s = Inr (r, t)" "queue_flag_ok s"
  shows "queue_flag_ok t"
  using assms
  by (auto simp: reassembly_get_full_message_def get_packet_from_hash_def reassemble_full_packet_def
      queue_flag_ok_def distinct_delete split: option.splits if_splits)

definition expired :: "u32 \<Rightarrow> u64 \<Rightarrow> full_packet \<Rightarrow> bool" where
  "expired max_duration now p \<longleftrightarrow>
     (ucast ((now - fp_timestamp_ms_epoch_last p) div 1000) :: u32) > max_duration"

lemma collect_packets_run:
  "length kps \<le> length (io_clock s) \<Longrightarrow>
   collect_packets kps s = Inr ((), s\<lparr>io_clock := drop (length kps) (io_clock s),
     m_packets := fold (\<lambda>(now, kp) ps. if expired (m_fragment_max_duration_s s) now (snd kp)
       then AList.delete (fst kp) ps else ps) (zip (io_clock s) kps) (m_packets s)\<rparr>)"
proof (induction kps arbitrary: s)
  case Nil
  then show ?case by (simp add: ret_def)
next
  case (Cons kp kps)
  then obtain now cs where c: "io_clock s = now # cs" "length kps \<le> length cs"
    by (cases "io_clock s") auto
  then show ?case
    using Cons.IH [of "s\<lparr>io_clock := cs\<rparr>"]
      Cons.IH [of "s\<lparr>io_clock := cs, m_packets := AList.delete (fst kp) (m_packets s)\<rparr>"]
    by (simp add: prog_simps Platform_get_timestamp_ms_monotonic_def expired_def Let_def)
qed

lemma delete_absent: "k \<notin> fst ` set ps \<Longrightarrow> AList.delete k ps = ps"
  by (induction ps) (auto simp: AList.delete_eq)

lemma fold_delete_filter:
  assumes "length nows = length ps" "distinct (map fst (qs @ ps))"
  shows "fold (\<lambda>(now, kp) r. if old now (snd kp) then AList.delete (fst kp) r else r) (zip nows ps) (qs @ ps)
    = qs @ map snd (filter (\<lambda>(now, kp). \<not> old now (snd kp)) (zip nows ps))"
  using assms
proof (induction nows ps arbitrary: qs rule: list_induct2)
  case (Cons now nows kp ps)
  have d: "AList.delete (fst kp) (qs @ kp # ps) = qs @ ps"
    using Cons.prems delete_absent [of "fst kp" qs] delete_absent [of "fst kp" ps]
    by (auto simp: AList.delete_eq)
  show ?case
    using Cons.IH [of qs] Cons.IH [of "qs @ [kp]"] Cons.prems d by simp
qed simp

lemma garbage_collect_run:
  assumes "m_fragment_max_duration_s s > 0" "io_clock s = now # now' # cs"
    and "now - m_last_gc_ts_ms s > 5000" "length (m_packets s) \<le> length cs"
    and "distinct (map fst (m_packets s))"
  defines "kept \<equiv> map snd (filter (\<lambda>(now, kp). \<not> expired (m_fragment_max_duration_s s) now (snd kp))
      (zip cs (m_packets s)))"
  shows "reassembly_garbage_collect s = Inr ((), s\<lparr>io_clock := drop (length (m_packets s)) cs,
     m_last_gc_ts_ms := now', m_packets := kept, m_is_queue_empty := (kept = [])\<rparr>)"
proof -
  have zip: "zip cs (m_packets s) = zip (take (length (m_packets s)) cs) (m_packets s)"
    using take_zip [of "length (m_packets s)" cs "m_packets s"] by simp
  have f: "fold (\<lambda>(now, kp) r. if expired (m_fragment_max_duration_s s) now (snd kp)
      then AList.delete (fst kp) r else r) (zip cs (m_packets s)) (m_packets s) = kept"
    using fold_delete_filter [of "take (length (m_packets s)) cs" "m_packets s" "[]"
        "expired (m_fragment_max_duration_s s)"] assms(4,5)
    by (simp add: kept_def zip min_def)
  show ?thesis
    using assms(1-4) f collect_packets_run [of "m_packets s" "s\<lparr>io_clock := cs, m_last_gc_ts_ms := now'\<rparr>"]
    by (simp add: reassembly_garbage_collect_def prog_simps Platform_get_timestamp_ms_monotonic_def
        MIN_GARBAGE_COLLECT_PERIOD_S_def)
qed

text \<open>Garbage collection. When a limit is set and more than five seconds have passed since the last
  collection, exactly the packets whose last activity is not older than the limit (in whole
  seconds, at the reading of the clock for that packet) survive, in their order, and the flag for
  other threads says whether any is left.\<close>

theorem garbage_collect_exact:
  assumes "m_fragment_max_duration_s s > 0" "io_clock s = now # now' # cs"
    and "now - m_last_gc_ts_ms s > 5000" "length (m_packets s) \<le> length cs" "queue_flag_ok s"
  shows "\<exists>t. reassembly_garbage_collect s = Inr ((), t)
    \<and> m_packets t = map snd (filter (\<lambda>(now, kp).
        (ucast ((now - fp_timestamp_ms_epoch_last (snd kp)) div 1000) :: u32) \<le> m_fragment_max_duration_s s)
        (zip cs (m_packets s)))
    \<and> m_last_gc_ts_ms t = now' \<and> m_is_queue_empty t = (m_packets t = []) \<and> queue_flag_ok t"
proof -
  let ?kept = "map snd (filter (\<lambda>(now, kp). \<not> expired (m_fragment_max_duration_s s) now (snd kp))
      (zip cs (m_packets s)))"
  have d: "distinct (map fst (m_packets s))" using assms(5) by (simp add: queue_flag_ok_def)
  have "map fst ?kept = map (fst \<circ> snd) (filter (\<lambda>(now, kp). \<not> expired (m_fragment_max_duration_s s) now (snd kp))
      (zip cs (m_packets s)))" by simp
  moreover have "distinct (map (fst \<circ> snd) (zip cs (m_packets s)))"
  proof -
    have "map (fst \<circ> snd) (zip cs (m_packets s)) = map fst (map snd (zip cs (m_packets s)))" by simp
    also have "map snd (zip cs (m_packets s)) = m_packets s" using assms(4) by (simp add: map_snd_zip_take)
    finally have "map (fst \<circ> snd) (zip cs (m_packets s)) = map fst (m_packets s)" .
    with d show ?thesis by metis
  qed
  ultimately have "distinct (map fst ?kept)" by (simp add: distinct_map_filter)
  then show ?thesis
    unfolding garbage_collect_run [OF assms(1-4) d]
    by (simp add: queue_flag_ok_def expired_def not_less)
qed

theorem garbage_collect_exact_witness:
  "\<exists>(s :: unit reassembly_scheme) t. length (m_packets s) = 2
     \<and> reassembly_garbage_collect s = Inr ((), t) \<and> map fst (m_packets t) = [(2, 9)]"
proof -
  let ?s = "\<lparr>io_rx = [], io_wr = [], io_tx = [], io_clock = [70000, 70001, 70002, 70003], io_epoch = [], io_waits = [],
     m_locked = False, req_frame_id = 0, m_last_successful_answer_ts = 0, m_timeout_no_answer_ms = 0,
     m_mtu = 102, m_disabled_poll_request = False, close_returns = True, m_app_conf_cb = None, m_scan_neighbor_cb = None,
     m_stack_status_cb = None, m_config_data_item_cb = None, mallocs = [], m_fragment_max_duration_s = 45,
     m_packets = [((1, 7), empty_packet), ((2, 9), empty_packet\<lparr>fp_timestamp_ms_epoch_last := 60000\<rparr>)],
     m_is_queue_empty = False, m_last_gc_ts_ms = 0\<rparr> :: unit reassembly_scheme"
  have h: "m_fragment_max_duration_s ?s > 0" "io_clock ?s = 70000 # 70001 # [70002, 70003]"
    "70000 - m_last_gc_ts_ms ?s > 5000" "length (m_packets ?s) \<le> length [70002, 70003 :: u64]"
    "queue_flag_ok ?s"
    by (simp_all add: queue_flag_ok_def)
  from garbage_collect_exact [OF h] obtain t where t: "reassembly_garbage_collect ?s = Inr ((), t)"
    "m_packets t = map snd (filter (\<lambda>(now, kp).
        (ucast ((now - fp_timestamp_ms_epoch_last (snd kp)) div 1000) :: u32) \<le> m_fragment_max_duration_s ?s)
        (zip [70002, 70003] (m_packets ?s)))"
    by blast
  have "map fst (m_packets t) = [(2, 9)]"
    unfolding t(2) by (simp add: empty_packet_def)
  with t(1) show ?thesis by (intro exI [of _ ?s] exI [of _ t]) simp
qed

section \<open>Sequences of calls\<close>

datatype store_call = Set_max_duration u32 | Is_queue_empty | Add_fragment reassembly_fragment
  | Get_message u32 u16 "u8 list" nat | Collect

datatype store_result = Done | Emptiness bool | Added "bool \<times> nat" | Fetched "bool \<times> u8 list \<times> nat"

primrec run_store_call :: "store_call \<Rightarrow> ('z reassembly_scheme, store_result) prog" where
  "run_store_call (Set_max_duration d) = andthen (reassembly_set_max_fragment_duration d) (\<lambda>_. ret Done)"
| "run_store_call Is_queue_empty = andthen reassembly_is_queue_empty (\<lambda>b. ret (Emptiness b))"
| "run_store_call (Add_fragment f) = andthen (reassembly_add_fragment f) (\<lambda>r. ret (Added r))"
| "run_store_call (Get_message a b buffer n) = andthen (reassembly_get_full_message a b buffer n) (\<lambda>r. ret (Fetched r))"
| "run_store_call Collect = andthen reassembly_garbage_collect (\<lambda>_. ret Done)"

text \<open>The flag is exact: it says "empty" when no packet is under construction, and only then.\<close>

definition queue_flag_exact :: "'z reassembly_scheme \<Rightarrow> bool" where
  "queue_flag_exact s \<longleftrightarrow> (m_is_queue_empty s \<longleftrightarrow> m_packets s = [])"

lemma update_nonempty [simp]: "AList.update k v ps \<noteq> []"
  by (cases ps) auto

lemma add_fragment_nonempty:
  assumes "reassembly_add_fragment f s = Inr ((added, n), t)"
  shows "if added then m_packets t \<noteq> [] \<and> \<not> m_is_queue_empty t else n = 0"
  using assms
  by (auto simp: reassembly_add_fragment_def get_packet_from_hash_def create_packet_in_hash_def add_fragment_to_full_packet_def
      is_packet_full_def put_packet_def Platform_malloc_def Platform_get_timestamp_ms_monotonic_def prog_simps Let_def
      split: option.splits if_splits list.splits sum.splits)

lemma get_full_exact:
  assumes "reassembly_get_full_message src pid buffer size_p s = Inr (r, t)" "queue_flag_exact s"
  shows "queue_flag_exact t"
  using assms
  by (auto simp: reassembly_get_full_message_def get_packet_from_hash_def reassemble_full_packet_def
      queue_flag_exact_def split: option.splits if_splits)

lemma keeps_collect_packets: "keeps (\<lambda>s. distinct (map fst (m_packets s))) (collect_packets kps)"
proof (induction kps)
  case Nil
  then show ?case by (simp add: keeps_ret)
next
  case (Cons kp kps)
  have "keeps (\<lambda>s. distinct (map fst (m_packets s))) Platform_get_timestamp_ms_monotonic"
    by (auto intro!: keepsI simp: Platform_get_timestamp_ms_monotonic_def split: list.splits)
  then show ?case
    unfolding collect_packets.simps Let_def by (intro keeps_intros Cons.IH) (auto simp: distinct_delete)
qed

text \<open>The collector leaves packets and flag alone, or sets the flag by the packets left.\<close>

lemma garbage_collect_flag:
  assumes "reassembly_garbage_collect s = Inr (x, t)" "distinct (map fst (m_packets s))"
  shows "m_packets t = m_packets s \<and> m_is_queue_empty t = m_is_queue_empty s
    \<or> distinct (map fst (m_packets t)) \<and> queue_flag_exact t"
  using assms
  by (auto simp: reassembly_garbage_collect_def Platform_get_timestamp_ms_monotonic_def queue_flag_exact_def modify_def gets_def ret_def
      split: if_splits list.splits dest!: keepsD [OF keeps_collect_packets, rotated])

lemma call_flag:
  assumes "run_store_call c s = Inr (r, t)" "queue_flag_ok s"
  shows "queue_flag_ok t" "r \<noteq> Added (False, 0) \<Longrightarrow> queue_flag_exact s \<Longrightarrow> queue_flag_exact t"
proof -
  have "queue_flag_ok t \<and> (r \<noteq> Added (False, 0) \<longrightarrow> queue_flag_exact s \<longrightarrow> queue_flag_exact t)"
  proof (cases c)
    case (Add_fragment f)
    with assms(1) obtain a where a: "reassembly_add_fragment f s = Inr (a, t)" "r = Added a" by (auto simp: ret_def)
    show ?thesis
      using add_fragment_flag [OF a(1) assms(2)] add_fragment_nonempty [of f s "fst a" "snd a" t] a
      by (cases a) (auto simp: queue_flag_exact_def split: if_splits)
  next
    case (Get_message a b buffer n)
    with assms show ?thesis using get_full_flag get_full_exact by (auto simp: ret_def)
  next
    case Collect
    with assms(1) have "reassembly_garbage_collect s = Inr ((), t)" by (auto simp: ret_def)
    from garbage_collect_flag [OF this] assms(2) show ?thesis by (auto simp: queue_flag_ok_def queue_flag_exact_def)
  qed (use assms in \<open>auto simp: reassembly_set_max_fragment_duration_def reassembly_is_queue_empty_def prog_simps
      queue_flag_ok_def queue_flag_exact_def\<close>)
  then show "queue_flag_ok t" "r \<noteq> Added (False, 0) \<Longrightarrow> queue_flag_exact s \<Longrightarrow> queue_flag_exact t" by blast+
qed

text \<open>C22: The flag that other threads read: after every sequence of calls of the interface (fragments added and
  messages fetched, the collector and its limit, the flag itself), whether allocations fail or not,
  it says "empty" only when no packet is under construction, and no key occurs twice. As long as
  no addition fails it says so exactly then.\<close>

theorem queue_flag_invariant:
  assumes "queue_flag_ok s" "run_each run_store_call calls s = Inr (rs, t)"
  shows "queue_flag_ok t
    \<and> ((m_is_queue_empty s \<longleftrightarrow> m_packets s = []) \<and> Added (False, 0) \<notin> set rs \<longrightarrow> (m_is_queue_empty t \<longleftrightarrow> m_packets t = []))"
  using assms
proof (induction calls arbitrary: s rs)
  case Nil
  then show ?case by (simp add: ret_def)
next
  case (Cons c calls)
  then obtain r u rs' where "run_store_call c s = Inr (r, u)" "run_each run_store_call calls u = Inr (rs', t)" "rs = r # rs'"
    by (auto simp: ret_def)
  with call_flag [OF this(1) Cons.prems(1)] Cons.IH [of u rs'] show ?case by (auto simp: queue_flag_exact_def)
qed

theorem queue_flag_invariant_witness:
  "\<exists>(s :: unit reassembly_scheme) t. run_each run_store_call
      [Add_fragment \<lparr>fr_src_add = 1, fr_packet_id = 7, fr_bytes = [5], fr_offset = 4, fr_last = False\<rparr>, Collect] s
      = Inr ([Added (False, 0), Done], t)
    \<and> queue_flag_ok t \<and> m_is_queue_empty t"
proof -
  let ?s = "\<lparr>io_rx = [], io_wr = [], io_tx = [], io_clock = [70000, 70001], io_epoch = [], io_waits = [],
     m_locked = False, req_frame_id = 0, m_last_successful_answer_ts = 0, m_timeout_no_answer_ms = 0,
     m_mtu = 102, m_disabled_poll_request = False, close_returns = True, m_app_conf_cb = None, m_scan_neighbor_cb = None,
     m_stack_status_cb = None, m_config_data_item_cb = None, mallocs = [False], m_fragment_max_duration_s = 45,
     m_packets = [], m_is_queue_empty = True, m_last_gc_ts_ms = 0\<rparr> :: unit reassembly_scheme"
  let ?f = "\<lparr>fr_src_add = 1, fr_packet_id = 7, fr_bytes = [5], fr_offset = 4, fr_last = False\<rparr>"
  let ?t = "?s\<lparr>mallocs := [], io_clock := [], m_last_gc_ts_ms := 70001\<rparr>"
  have run: "run_each run_store_call [Add_fragment ?f, Collect] ?s = Inr ([Added (False, 0), Done], ?t)"
    by (simp add: reassembly_add_fragment_def prog_simps Let_def get_packet_from_hash_def
        create_packet_in_hash_def Platform_malloc_def reassembly_garbage_collect_def
        Platform_get_timestamp_ms_monotonic_def MIN_GARBAGE_COLLECT_PERIOD_S_def)
  have "queue_flag_ok ?s" by (simp add: queue_flag_ok_def)
  from queue_flag_invariant [OF this run] have "queue_flag_ok ?t" by blast
  with run show ?thesis by (intro exI [of _ ?s] exI [of _ ?t]) simp
qed

text \<open>C40: Offsets are not checked against the size. Two fragments whose sizes add up to the announced
  full size make a packet full even if one of them lies at an offset behind the end; fetching it
  copies outside the buffer, however large the buffer is below that offset.\<close>

theorem forged_offset_overflows:
  assumes "packet_at s (src, pid) = None" "mallocs s = []" "io_clock s = c1 # c2 # cs"
    and "xs \<noteq> []" "ys \<noteq> []" "length xs + length ys \<le> size_p" "length buffer = size_p"
    and "size_p < off + length xs" "off \<noteq> length xs"
  shows "\<exists>rs t. run_each reassembly_add_fragment
      [\<lparr>fr_src_add = src, fr_packet_id = pid, fr_bytes = xs, fr_offset = off, fr_last = False\<rparr>,
       \<lparr>fr_src_add = src, fr_packet_id = pid, fr_bytes = ys, fr_offset = length xs, fr_last = True\<rparr>] s
      = Inr (rs, t)
    \<and> last rs = (True, length xs + length ys)
    \<and> reassembly_get_full_message src pid buffer size_p t = Inl Undefined"
proof -
  let ?f = "\<lparr>fr_src_add = src, fr_packet_id = pid, fr_bytes = xs, fr_offset = off, fr_last = False\<rparr>"
  let ?g = "\<lparr>fr_src_add = src, fr_packet_id = pid, fr_bytes = ys, fr_offset = length xs, fr_last = True\<rparr>"
  define p where "p = with_fragment ?f c1 empty_packet"
  define s1 where "s1 = s\<lparr>io_clock := c2 # cs, m_is_queue_empty := False,
      m_packets := AList.update (src, pid) (p\<lparr>fp_is_full := False\<rparr>) (m_packets s)\<rparr>"
  have k: "fr_key ?f = (src, pid)" "fr_key ?g = (src, pid)" by (simp_all add: fr_key_def)
  have f: "reassembly_add_fragment ?f s = Inr ((True, 0), s1)"
    using add_fragment_run [OF assms(2,3), of ?f] assms(1)
    by (simp add: k empty_packet_def s1_def p_def with_fragment_def fullness_def)
  have p1: "packet_at s1 (src, pid) = Some p"
    by (simp add: s1_def packet_at_def update_conv' p_def with_fragment_def empty_packet_def)
  define q where "q = (with_fragment ?g c2 p)\<lparr>fp_is_full := True\<rparr>"
  define t where "t = s1\<lparr>io_clock := cs, m_packets := AList.update (src, pid) q (m_packets s1)\<rparr>"
  have g: "reassembly_add_fragment ?g s1 = Inr ((True, length xs + length ys), t)"
    using add_fragment_run [of s1 c2 cs ?g] assms(2,4,9) p1
    by (simp add: k s1_def t_def q_def p_def with_fragment_def empty_packet_def fullness_def rx_size_def)
  have "packet_at t (src, pid) = Some q" by (simp add: t_def packet_at_def update_conv')
  then have "reassembly_get_full_message src pid buffer size_p t = Inl Undefined"
    using assms(6-8)
    by (simp add: reassembly_get_full_message_def get_packet_from_hash_def packet_at_def prog_simps
        reassemble_full_packet_def q_def p_def with_fragment_def empty_packet_def)
  with f g show ?thesis by (simp add: prog_simps)
qed

theorem forged_offset_overflows_witness:
  "\<exists>(s :: unit reassembly_scheme) rs t. run_each reassembly_add_fragment
      [\<lparr>fr_src_add = 1, fr_packet_id = 7, fr_bytes = [5], fr_offset = 4095, fr_last = False\<rparr>,
       \<lparr>fr_src_add = 1, fr_packet_id = 7, fr_bytes = [6], fr_offset = 1, fr_last = True\<rparr>] s = Inr (rs, t)
    \<and> reassembly_get_full_message 1 7 (replicate 1500 0) 1500 t = Inl Undefined"
proof -
  let ?s = "\<lparr>io_rx = [], io_wr = [], io_tx = [], io_clock = [3, 4], io_epoch = [], io_waits = [],
     m_locked = False, req_frame_id = 0, m_last_successful_answer_ts = 0, m_timeout_no_answer_ms = 0,
     m_mtu = 102, m_disabled_poll_request = False, close_returns = True, m_app_conf_cb = None, m_scan_neighbor_cb = None,
     m_stack_status_cb = None, m_config_data_item_cb = None, mallocs = [], m_fragment_max_duration_s = 0,
     m_packets = [], m_is_queue_empty = True, m_last_gc_ts_ms = 0\<rparr> :: unit reassembly_scheme"
  have h: "packet_at ?s (1, 7) = None" "mallocs ?s = []" "io_clock ?s = 3 # 4 # []"
    "[5 :: u8] \<noteq> []" "[6 :: u8] \<noteq> []" "length [5 :: u8] + length [6 :: u8] \<le> 1500"
    "length (replicate 1500 (0 :: u8)) = 1500" "1500 < 4095 + length [5 :: u8]" "4095 \<noteq> length [5 :: u8]"
    by (simp_all add: packet_at_def)
  from forged_offset_overflows [OF h] obtain rs t where
    "run_each reassembly_add_fragment
      [\<lparr>fr_src_add = 1, fr_packet_id = 7, fr_bytes = [5], fr_offset = 4095, fr_last = False\<rparr>,
       \<lparr>fr_src_add = 1, fr_packet_id = 7, fr_bytes = [6], fr_offset = length [5 :: u8], fr_last = True\<rparr>] ?s = Inr (rs, t)"
    "reassembly_get_full_message 1 7 (replicate 1500 0) 1500 t = Inl Undefined"
    by blast
  then show ?thesis by (intro exI [of _ ?s] exI [of _ rs] exI [of _ t]) simp
qed

end
