(* ===== verification/Dsap.thy ===== *)
theory Dsap
  imports Reassembly
begin

text \<open>
  The data service of \<^verbatim>\<open>lib/wpc/dsap.c\<close>, built without \<^verbatim>\<open>REGISTER_DATA_PER_ENDPOINT\<close>: sending a
  packet in one frame or in fragments, the table of the packets whose transmission is to be
  reported, and the handlers of its three indications. The fields of packed structures are laid
  out byte by byte, multi-byte fields in the byte order of the host.
\<close>

section \<open>State\<close>

record packet_with_indication =
  pi_cb :: "callback option"
  pi_pdu_id :: u16
  pi_busy :: bool

record dsap = reassembly +
  m_data_cb :: "callback option"
  reassembly_buffer :: "u8 list"
  indication_sent_cb_table :: "packet_with_indication list"
  tx_packet_id :: u16

definition DSAP_FRAG_LENGTH_MASK :: u16 where "DSAP_FRAG_LENGTH_MASK = 0x0fff"
definition DSAP_FRAG_LAST_FLAG_MASK :: u16 where "DSAP_FRAG_LAST_FLAG_MASK = 0x8000"

section \<open>The table of pending notifications\<close>

text \<open>The first entry that is not busy is taken; taking a notification out releases every busy entry
  of the identifier and returns the callback of the last one.\<close>

fun table_set ::
  "callback option \<Rightarrow> u16 \<Rightarrow> packet_with_indication list \<Rightarrow> bool \<times> packet_with_indication list" where
  "table_set cb pdu_id [] = (False, [])"
| "table_set cb pdu_id (e # es) =
     (if \<not> pi_busy e then (True, \<lparr>pi_cb = cb, pi_pdu_id = pdu_id, pi_busy = True\<rparr> # es)
      else (case table_set cb pdu_id es of (r, es') \<Rightarrow> (r, e # es')))"

fun table_take ::
  "u16 \<Rightarrow> callback option \<Rightarrow> packet_with_indication list \<Rightarrow> callback option \<times> packet_with_indication list" where
  "table_take pdu_id cb [] = (cb, [])"
| "table_take pdu_id cb (e # es) =
     (if pi_busy e \<and> pi_pdu_id e = pdu_id
      then (case table_take pdu_id (pi_cb e) es of (r, es') \<Rightarrow> (r, e\<lparr>pi_busy := False\<rparr> # es'))
      else (case table_take pdu_id cb es of (r, es') \<Rightarrow> (r, e # es')))"

definition set_indication_cb :: "callback option \<Rightarrow> u16 \<Rightarrow> ('z dsap_scheme, bool) prog" where
  "set_indication_cb cb pdu_id s =
     (case table_set cb pdu_id (indication_sent_cb_table s) of
        (r, table) \<Rightarrow> Inr (r, s\<lparr>indication_sent_cb_table := table\<rparr>))"

definition get_indication_cb :: "u16 \<Rightarrow> ('z dsap_scheme, callback option) prog" where
  "get_indication_cb pdu_id s =
     (case table_take pdu_id None (indication_sent_cb_table s) of
        (cb, table) \<Rightarrow> Inr (cb, s\<lparr>indication_sent_cb_table := table\<rparr>))"

section \<open>Sending\<close>

text \<open>The arguments that all frames of a packet share.\<close>

record tx_args =
  ta_pdu_id :: u16
  ta_dest_add :: u32
  ta_qos :: u8
  ta_src_ep :: u8
  ta_dest_ep :: u8
  ta_buffering_delay :: u32

text \<open>\<^verbatim>\<open>fill_tx_tt_request\<close> and the length set by its caller: \<^verbatim>\<open>len\<close> bytes of \<^verbatim>\<open>buffer\<close> are copied into
  the APDU field, which has room for 180.\<close>

definition fill_tx_tt_request :: "tx_args \<Rightarrow> u8 list \<Rightarrow> nat \<Rightarrow> u8 \<Rightarrow> stop + wpc_frame" where
  "fill_tx_tt_request a buffer len tx_options =
     (if len \<le> length buffer \<and> len \<le> MAX_APDU_DSAP_SIZE then
        Inr (new_request DSAP_DATA_TX_TT_REQUEST (of_nat (15 + len))
          (host_store16 (ta_pdu_id a) @ [ta_src_ep a] @ host_store32 (ta_dest_add a)
            @ [ta_dest_ep a, ta_qos a, tx_options] @ host_store32 (ta_buffering_delay a)
            @ [of_nat len] @ take len buffer))
      else Inl Undefined)"

text \<open>\<^verbatim>\<open>fill_tx_frag_request\<close>: the packet identifier is a bit field of 12 bits, the last fragment is
  flagged in the offset, and only the last one asks for a notification.\<close>

definition fill_tx_frag_request ::
  "tx_args \<Rightarrow> u8 list \<Rightarrow> nat \<Rightarrow> u8 \<Rightarrow> u16 \<Rightarrow> u16 \<Rightarrow> bool \<Rightarrow> stop + wpc_frame" where
  "fill_tx_frag_request a buffer len tx_options full_packet_id frag_offset last_frag =
     (let frag_flag = (if last_frag then DSAP_FRAG_LAST_FLAG_MASK else 0);
          tx_options' = (if last_frag then tx_options else tx_options AND 0xFE)
      in if len \<le> length buffer \<and> len \<le> MAX_APDU_DSAP_SIZE then
           Inr (new_request DSAP_DATA_TX_FRAG_REQUEST (of_nat (19 + len))
             (host_store16 (ta_pdu_id a) @ [ta_src_ep a] @ host_store32 (ta_dest_add a)
               @ [ta_dest_ep a, ta_qos a, tx_options'] @ host_store32 (ta_buffering_delay a)
               @ host_store16 (full_packet_id AND 0xfff)
               @ host_store16 ((frag_offset AND DSAP_FRAG_LENGTH_MASK) OR frag_flag)
               @ [of_nat len] @ take len buffer))
         else Inl Undefined)"

text \<open>The loop over the fragments, from fragment \<^verbatim>\<open>i\<close> on with \<^verbatim>\<open>n\<close> left: \<^const>\<open>Some\<close> is an early return, and
  the confirm is the initialised prefix of the variable that all iterations share.\<close>

primrec send_fragments ::
  "nat \<Rightarrow> nat \<Rightarrow> tx_args \<Rightarrow> u8 list \<Rightarrow> nat \<Rightarrow> nat \<Rightarrow> nat \<Rightarrow> u8 \<Rightarrow> u16 \<Rightarrow> u8 list
     \<Rightarrow> ('z wpc_int_scheme, int option \<times> u8 list) prog" where
  "send_fragments 0 i a buffer mtu fragments_n last_size tx_options p_id confirm = ret (None, confirm)"
| "send_fragments (Suc n) i a buffer mtu fragments_n last_size tx_options p_id confirm =
     (let offset = of_nat (i * mtu) :: u16;
          last = (i = fragments_n - 1);
          frag_len = (if last then last_size else mtu)
      in andthen (lift_sum (fill_tx_frag_request a (drop (unat offset) buffer) frag_len tx_options p_id offset last))
           (\<lambda>request.
         andthen (WPC_Int_send_request request) (\<lambda>(res, new_confirm).
         if res < 0 then ret (Some res, confirm)
         else
           let confirm' = overlay new_confirm confirm in
           andthen (lift_sum (pl_u8 confirm' 2)) (\<lambda>confirm_res.
           if confirm_res \<noteq> 0 then ret (Some (int (unat confirm_res)), confirm')
           else send_fragments n (i + 1) a buffer mtu fragments_n last_size tx_options p_id confirm'))))"

definition tx_options_of :: "callback option \<Rightarrow> bool \<Rightarrow> u8 \<Rightarrow> u8" where
  "tx_options_of on_data_sent_cb is_unack_csma_ca hop_limit =
     (if on_data_sent_cb \<noteq> None then 1 else 0) OR (if is_unack_csma_ca then 2 else 0)
     OR push_bit 2 (hop_limit AND 0xf)"

definition dsap_data_tx_request ::
  "u8 list \<Rightarrow> nat \<Rightarrow> tx_args \<Rightarrow> callback option \<Rightarrow> bool \<Rightarrow> u8 \<Rightarrow> ('z dsap_scheme, int) prog" where
  "dsap_data_tx_request buffer len a on_data_sent_cb is_unack_csma_ca hop_limit =
     andthen WPC_Int_get_mtu (\<lambda>mtu.
     let max_data_pdu_size = unat mtu;
         tx_options = tx_options_of on_data_sent_cb is_unack_csma_ca hop_limit
     in
     if len > MAX_FULL_PACKET_SIZE then ret 6
     else
       andthen (require (len \<le> max_data_pdu_size \<or> max_data_pdu_size \<noteq> 0) Undefined) (\<lambda>_.
       let fragments_n = (if len > max_data_pdu_size
                          then (len + max_data_pdu_size - 1) div max_data_pdu_size else 0);
           last_fragment_size = (if len mod max_data_pdu_size = 0 then max_data_pdu_size
                                 else len mod max_data_pdu_size)
       in
       andthen
         (if fragments_n = 0 then
            andthen (lift_sum (fill_tx_tt_request a buffer len tx_options)) (\<lambda>request.
            andthen (WPC_Int_send_request request) (\<lambda>(res, confirm).
            ret (if res < 0 then Some res else None, confirm)))
          else
            andthen (gets tx_packet_id) (\<lambda>packet_id.
            andthen (modify (\<lambda>s. s\<lparr>tx_packet_id := packet_id + 1\<rparr>)) (\<lambda>_.
            send_fragments fragments_n 0 a buffer max_data_pdu_size fragments_n last_fragment_size
              tx_options (packet_id AND 0xfff) [])))
         (\<lambda>(early, confirm).
       case early of Some r \<Rightarrow> ret r
       | None \<Rightarrow>
         andthen (lift_sum (pl_u8 confirm 2)) (\<lambda>confirm_res.
         andthen (if confirm_res = 0 \<and> on_data_sent_cb \<noteq> None
                  then andthen (set_indication_cb on_data_sent_cb (ta_pdu_id a)) (\<lambda>_. ret ())
                  else ret ()) (\<lambda>_.
         ret (int (unat confirm_res)))))))"

section \<open>Indications\<close>

definition dsap_data_tx_indication_handler ::
  "(app_call \<Rightarrow> ('z dsap_scheme, unit) prog) \<Rightarrow> u8 list \<Rightarrow> ('z dsap_scheme, unit) prog" where
  "dsap_data_tx_indication_handler app frame =
     andthen (lift_sum (pl_u16 frame 1)) (\<lambda>pdu_id.
     andthen (get_indication_cb pdu_id) (\<lambda>cb.
     case cb of None \<Rightarrow> ret ()
     | Some c \<Rightarrow>
       andthen (lift_sum (pl_u32 frame 9)) (\<lambda>buffering_delay.
       andthen (lift_sum (pl_u8 frame 13)) (\<lambda>result.
       app (Data_sent c pdu_id (internal_time_to_ms buffering_delay) result)))))"

text \<open>The header that both kinds of received data share: source and destination addresses and
  endpoints, the byte of QoS and hops, and the travel time.\<close>

record rx_header =
  rh_src_add :: u32
  rh_src_ep :: u8
  rh_dest_add :: u32
  rh_dest_ep :: u8
  rh_qos_hop_count :: u8
  rh_travel_time :: u32

definition read_rx_header :: "u8 list \<Rightarrow> stop + rx_header" where
  "read_rx_header frame =
     (case (pl_u32 frame 1, pl_u8 frame 5, pl_u32 frame 6, pl_u8 frame 10, pl_u8 frame 11, pl_u32 frame 12) of
        (Inr src, Inr src_ep, Inr dest, Inr dest_ep, Inr qos_hop, Inr travel) \<Rightarrow>
          Inr \<lparr>rh_src_add = src, rh_src_ep = src_ep, rh_dest_add = dest, rh_dest_ep = dest_ep,
               rh_qos_hop_count = qos_hop, rh_travel_time = travel\<rparr>
      | _ \<Rightarrow> Inl Indeterminate)"

text \<open>The call of the data callback: the QoS is the lowest bit of the byte, the hop count its upper
  six bits.\<close>

definition data_call :: "callback \<Rightarrow> u8 list \<Rightarrow> nat \<Rightarrow> rx_header \<Rightarrow> u64 \<Rightarrow> app_call" where
  "data_call c bytes num_bytes h timestamp =
     Data_received c bytes num_bytes (rh_src_add h) (rh_dest_add h) (bit (rh_qos_hop_count h) 0)
       (rh_src_ep h) (rh_dest_ep h) (internal_time_to_ms (rh_travel_time h))
       (drop_bit 2 (rh_qos_hop_count h)) timestamp"

text \<open>The bytes of a fragment are taken from the frame when the fragment is built; more than 180 lie
  outside the APDU field.\<close>

definition read_rx_fragment :: "u8 list \<Rightarrow> stop + reassembly_fragment" where
  "read_rx_fragment frame =
     (case (pl_u32 frame 1, pl_u16 frame 16, pl_u16 frame 18, pl_u8 frame 20) of
        (Inr src, Inr packet_id, Inr offset_flag, Inr len) \<Rightarrow>
          if unat len > MAX_APDU_DSAP_SIZE then Inl Undefined
          else
            (case bytes_at frame 24 (unat len) of Inl e \<Rightarrow> Inl e
             | Inr bytes \<Rightarrow>
               Inr \<lparr>fr_src_add = src, fr_packet_id = packet_id AND 0xfff, fr_bytes = bytes,
                    fr_offset = unat (offset_flag AND DSAP_FRAG_LENGTH_MASK),
                    fr_last = (offset_flag AND DSAP_FRAG_LAST_FLAG_MASK = DSAP_FRAG_LAST_FLAG_MASK)\<rparr>)
      | _ \<Rightarrow> Inl Indeterminate)"

text \<open>The result of fetching the packet is not looked at; the size on exit decides how much of the
  static buffer the application gets. Without a callback the handler returns before the garbage
  collection.\<close>

definition dsap_data_rx_frag_indication_handler ::
  "(app_call \<Rightarrow> ('z dsap_scheme, unit) prog) \<Rightarrow> u8 list \<Rightarrow> u64 \<Rightarrow> ('z dsap_scheme, unit) prog" where
  "dsap_data_rx_frag_indication_handler app frame timestamp =
     andthen (lift_sum (read_rx_header frame)) (\<lambda>h.
     andthen (lift_sum (read_rx_fragment frame)) (\<lambda>frag.
     andthen (reassembly_add_fragment frag) (\<lambda>(added, full_size).
     if added \<and> full_size \<noteq> 0 then
       andthen (gets reassembly_buffer) (\<lambda>buffer.
       andthen (reassembly_get_full_message (fr_src_add frag) (fr_packet_id frag) buffer MAX_FULL_PACKET_SIZE)
         (\<lambda>(_, buffer', full_size').
       andthen (modify (\<lambda>s. s\<lparr>reassembly_buffer := buffer'\<rparr>)) (\<lambda>_.
       andthen (gets m_data_cb) (\<lambda>cb.
       case cb of None \<Rightarrow> ret ()
       | Some c \<Rightarrow>
         andthen (app (data_call c (take full_size' buffer') full_size' h timestamp)) (\<lambda>_.
         reassembly_garbage_collect)))))
     else reassembly_garbage_collect)))"

definition dsap_data_rx_indication_handler ::
  "(app_call \<Rightarrow> ('z dsap_scheme, unit) prog) \<Rightarrow> u8 list \<Rightarrow> u64 \<Rightarrow> ('z dsap_scheme, unit) prog" where
  "dsap_data_rx_indication_handler app frame timestamp =
     andthen (lift_sum (read_rx_header frame)) (\<lambda>h.
     andthen (lift_sum (pl_u8 frame 16)) (\<lambda>apdu_length.
     call_if_set m_data_cb (\<lambda>c.
     app (data_call c (pl_copy frame 17 (min (unat apdu_length) MAX_APDU_DSAP_SIZE)) (unat apdu_length) h timestamp))))"

section \<open>Registration and initialisation\<close>

definition dsap_register_for_data :: "callback option \<Rightarrow> ('z dsap_scheme, bool) prog" where
  "dsap_register_for_data cb = andthen (modify (\<lambda>s. s\<lparr>m_data_cb := cb\<rparr>)) (\<lambda>_. ret True)"

definition dsap_unregister_for_data :: "('z dsap_scheme, bool) prog" where
  "dsap_unregister_for_data = andthen (modify (\<lambda>s. s\<lparr>m_data_cb := None\<rparr>)) (\<lambda>_. ret True)"

definition dsap_set_max_fragment_duration :: "u32 \<Rightarrow> ('z dsap_scheme, bool) prog" where
  "dsap_set_max_fragment_duration duration =
     andthen (reassembly_set_max_fragment_duration duration) (\<lambda>_. ret True)"

definition dsap_init :: "('z dsap_scheme, unit) prog" where
  "dsap_init = modify (\<lambda>s. s\<lparr>m_data_cb := None, indication_sent_cb_table :=
     replicate MAX_SENT_PACKET_WITH_INDICATION \<lparr>pi_cb = None, pi_pdu_id = 0, pi_busy = False\<rparr>\<rparr>)"

section \<open>The table of notifications is a bounded bag\<close>

text \<open>The abstraction: the bag of the pending (identifier, callback) pairs.\<close>

definition pending :: "packet_with_indication list \<Rightarrow> (u16 \<times> callback option) multiset" where
  "pending table = mset (map (\<lambda>e. (pi_pdu_id e, pi_cb e)) (filter pi_busy table))"

lemma table_set_spec:
  "table_set cb pdu_id table = (r, table') \<Longrightarrow>
   length table' = length table
   \<and> (if size (pending table) < length table
      then r \<and> pending table' = add_mset (pdu_id, cb) (pending table)
      else \<not> r \<and> table' = table)"
proof (induction table arbitrary: r table')
  case (Cons e es)
  have "length (filter pi_busy es) < Suc (length es)" by (simp add: less_Suc_eq_le)
  moreover have "size (filter_mset pi_busy (mset es)) = length (filter pi_busy es)"
    by (metis mset_filter size_mset)
  ultimately show ?case using Cons
    by (auto simp: pending_def split: if_splits prod.splits)
qed (simp add: pending_def)

lemma table_take_spec:
  "table_take pdu_id cb table = (r, table') \<Longrightarrow>
   length table' = length table
   \<and> pending table' = filter_mset (\<lambda>(p, c). p \<noteq> pdu_id) (pending table)
   \<and> (r = cb \<or> (pdu_id, r) \<in># pending table)
   \<and> ((\<exists>c. (pdu_id, c) \<in># pending table) \<longrightarrow> (pdu_id, r) \<in># pending table)"
proof (induction table arbitrary: cb r table')
  case (Cons e es)
  show ?case
  proof (cases "pi_busy e \<and> pi_pdu_id e = pdu_id")
    case True
    then obtain es' where t: "table_take pdu_id (pi_cb e) es = (r, es')" "table' = e\<lparr>pi_busy := False\<rparr> # es'"
      using Cons.prems by (auto split: prod.splits)
    from Cons.IH [OF t(1)] t(2) True show ?thesis by (auto simp: pending_def)
  next
    case False
    then obtain es' where t: "table_take pdu_id cb es = (r, es')" "table' = e # es'"
      using Cons.prems by (auto split: prod.splits)
    from Cons.IH [OF t(1)] t(2) False show ?thesis by (auto simp: pending_def)
  qed
qed (simp add: pending_def)

text \<open>The contract as an interface: a bag of bounded capacity with an insertion that is refused when
  the bag is full and a removal of all entries of a key.\<close>

locale bounded_bag =
  fixes bag :: "'s \<Rightarrow> ('k \<times> 'v) multiset"
    and capacity :: "'s \<Rightarrow> nat"
    and insert_op :: "'k \<Rightarrow> 'v \<Rightarrow> ('s, bool) prog"
    and take_op :: "'k \<Rightarrow> ('s, 'v option) prog"
    and live :: "'v \<Rightarrow> bool"
  assumes insert_law: "insert_op k v s = Inr (r, t) \<Longrightarrow> capacity t = capacity s
      \<and> (if size (bag s) < capacity s then r \<and> bag t = add_mset (k, v) (bag s) else \<not> r \<and> bag t = bag s)"
    and take_law: "take_op k s = Inr (w, t) \<Longrightarrow> capacity t = capacity s
      \<and> bag t = filter_mset (\<lambda>e. fst e \<noteq> k) (bag s)
      \<and> (case w of Some c \<Rightarrow> (k, c) \<in># bag s
         | None \<Rightarrow> (\<forall>c. (k, c) \<in># bag s \<longrightarrow> (\<exists>c. (k, c) \<in># bag s \<and> \<not> live c)))"
begin

lemma bounded: "size (bag s) \<le> capacity s \<Longrightarrow> insert_op k v s = Inr (r, t) \<Longrightarrow> size (bag t) \<le> capacity t"
  using insert_law [of k v s r t] by (auto split: if_splits)

lemma take_gone: "take_op k s = Inr (w, t) \<Longrightarrow> (k, c) \<notin># bag t"
  using take_law [of k s w t] by simp

lemma take_other: "take_op k s = Inr (w, t) \<Longrightarrow> k' \<noteq> k \<Longrightarrow> count (bag t) (k', c) = count (bag s) (k', c)"
  using take_law [of k s w t] by simp

text \<open>What was inserted alone under its key is what is taken out.\<close>

lemma insert_take:
  assumes "size (bag s) < capacity s" "\<forall>c. (k, c) \<notin># bag s" "live v"
    and "insert_op k v s = Inr (r, t)" "take_op k t = Inr (w, u)"
  shows "w = Some v \<and> bag u = bag s"
proof -
  have b: "bag t = add_mset (k, v) (bag s)" using insert_law [OF assms(4)] assms(1) by auto
  have "w \<noteq> None" using take_law [OF assms(5)] assms(2,3) b by (auto split: option.splits)
  moreover have "c = v" if "w = Some c" for c
    using take_law [OF assms(5)] that b assms(2) by auto
  moreover have "filter_mset (\<lambda>e. fst e \<noteq> k) (bag s) = bag s"
    using assms(2) by (auto simp: filter_mset_eq_conv)
  ultimately show ?thesis using take_law [OF assms(5)] b by auto
qed

end

interpretation notifications: bounded_bag "\<lambda>s. pending (indication_sent_cb_table s)"
  "\<lambda>s. length (indication_sent_cb_table s)" "\<lambda>pdu_id cb. set_indication_cb cb pdu_id"
  "\<lambda>pdu_id s. case get_indication_cb pdu_id s of Inl e \<Rightarrow> Inl e | Inr (cb, t) \<Rightarrow> Inr (map_option Some cb, t)"
  "\<lambda>cb. cb \<noteq> None"
proof
  fix k v s r t assume "set_indication_cb v k s = Inr (r, t)"
  then obtain table where "table_set v k (indication_sent_cb_table s) = (r, table)"
    "t = s\<lparr>indication_sent_cb_table := table\<rparr>"
    by (auto simp: set_indication_cb_def split: prod.splits)
  with table_set_spec [OF this(1)] show "length (indication_sent_cb_table t) = length (indication_sent_cb_table s)
      \<and> (if size (pending (indication_sent_cb_table s)) < length (indication_sent_cb_table s)
         then r \<and> pending (indication_sent_cb_table t) = add_mset (k, v) (pending (indication_sent_cb_table s))
         else \<not> r \<and> pending (indication_sent_cb_table t) = pending (indication_sent_cb_table s))"
    by (auto split: if_splits)
next
  fix k s v t
  assume "(case get_indication_cb k s of Inl e \<Rightarrow> Inl e | Inr (cb, t) \<Rightarrow> Inr (map_option Some cb, t)) = Inr (v, t)"
  then obtain cb table where t: "table_take k None (indication_sent_cb_table s) = (cb, table)"
    "t = s\<lparr>indication_sent_cb_table := table\<rparr>" "v = map_option Some cb"
    by (auto simp: get_indication_cb_def split: prod.splits)
  from table_take_spec [OF t(1)] show "length (indication_sent_cb_table t) = length (indication_sent_cb_table s)
      \<and> pending (indication_sent_cb_table t)
          = filter_mset (\<lambda>e. fst e \<noteq> k) (pending (indication_sent_cb_table s))
      \<and> (case v of Some c \<Rightarrow> (k, c) \<in># pending (indication_sent_cb_table s)
         | None \<Rightarrow> (\<forall>c. (k, c) \<in># pending (indication_sent_cb_table s) \<longrightarrow>
             (\<exists>c. (k, c) \<in># pending (indication_sent_cb_table s) \<and> \<not> c \<noteq> None)))"
    by (cases cb) (auto simp: t case_prod_unfold)
qed

section \<open>What is sent for a fragmented packet\<close>

text \<open>The frame of one fragment, from the specification of the cutting.\<close>

definition fragment_frame :: "tx_args \<Rightarrow> u8 \<Rightarrow> u16 \<Rightarrow> nat \<times> u8 list \<times> bool \<Rightarrow> wpc_frame" where
  "fragment_frame a tx_options p_id = (\<lambda>(offset, bytes, last).
     new_request DSAP_DATA_TX_FRAG_REQUEST (of_nat (19 + length bytes))
       (host_store16 (ta_pdu_id a) @ [ta_src_ep a] @ host_store32 (ta_dest_add a)
         @ [ta_dest_ep a, ta_qos a, if last then tx_options else tx_options AND 0xFE]
         @ host_store32 (ta_buffering_delay a) @ host_store16 (p_id AND 0xfff)
         @ host_store16 ((of_nat offset AND DSAP_FRAG_LENGTH_MASK) OR (if last then DSAP_FRAG_LAST_FLAG_MASK else 0))
         @ [of_nat (length bytes)] @ bytes))"

text \<open>The node accepts every frame of a packet.\<close>

abbreviation accepts :: "wpc_frame list \<Rightarrow> 'z wpc_int_scheme \<Rightarrow> bool" where
  "accepts frames s \<equiv> dialogue (map (\<lambda>f. (f, [0, 0, 0, 16])) frames) s"

lemma fragment_frame_short:
  assumes "length bytes \<le> 105"
  shows "short_request (fragment_frame a tx_options p_id (offset, bytes, final))"
    and "primitive_id (fragment_frame a tx_options p_id (offset, bytes, final)) = 0x0f"
proof -
  have "unat (of_nat (19 + length bytes) :: u8) = 19 + length bytes"
    using assms by (intro unat_of_nat_u8) simp
  then show "short_request (fragment_frame a tx_options p_id (offset, bytes, final))"
    using assms by (simp add: fragment_frame_def short_request_def request_filled_def
      DSAP_DATA_TX_FRAG_REQUEST_def)
qed (simp add: fragment_frame_def DSAP_DATA_TX_FRAG_REQUEST_def)

lemma fill_fragment:
  assumes "frag_len \<le> length buffer" "frag_len \<le> 105"
  shows "fill_tx_frag_request a buffer frag_len tx_options p_id (of_nat offset) final
    = Inr (fragment_frame a tx_options p_id (offset, take frag_len buffer, final))"
  using assms by (simp add: fill_tx_frag_request_def fragment_frame_def Let_def MAX_APDU_DSAP_SIZE_def min_def)

text \<open>The number of pieces that are left, and the size of the last one.\<close>

lemma pieces_left:
  assumes "Suc n = (m + mtu - 1) div mtu" "0 < m" "0 < mtu"
  shows "n = 0 \<longleftrightarrow> m \<le> mtu" "mtu < m \<Longrightarrow> n = (m - mtu + mtu - 1) div mtu"
proof -
  show "n = 0 \<longleftrightarrow> m \<le> mtu"
  proof
    assume "n = 0"
    then have "m + mtu - 1 < 2 * mtu"
      using assms(1,3) by (metis One_nat_def div_less_iff_less_mult lessI mult.commute numeral_2_eq_2)
    then show "m \<le> mtu" by simp
  next
    assume "m \<le> mtu"
    then have "m + mtu - 1 < 2 * mtu" using assms(2,3) by simp
    then have "(m + mtu - 1) div mtu < 2" using assms(3) by (simp add: div_less_iff_less_mult mult.commute)
    then show "n = 0" using assms(1) by simp
  qed
  assume "mtu < m"
  then have "m + mtu - 1 = (m - mtu + mtu - 1) + mtu" by simp
  then have "(m + mtu - 1) div mtu = (m - mtu + mtu - 1 + mtu) div mtu" by argo
  also have "\<dots> = Suc ((m - mtu + mtu - 1) div mtu)" using assms(3) by (subst div_add_self2) simp_all
  finally show "n = (m - mtu + mtu - 1) div mtu" using assms(1) by simp
qed

lemma last_piece_size:
  fixes whole m i mtu :: nat
  assumes "whole = m + i * mtu" "0 < m" "m \<le> mtu"
  shows "(if whole mod mtu = 0 then mtu else whole mod mtu) = m"
  using assms by (cases "m = mtu") simp_all

lemma first_fragment:
  assumes "0 < mtu"
  shows "fragments mtu off m = (off, take mtu m, length m \<le> mtu)
    # (if length m \<le> mtu then [] else fragments mtu (off + mtu) (drop mtu m))"
  using assms by (simp add: fragments.simps [of mtu off m])

text \<open>One round of the loop sends one frame.\<close>

lemma send_one_fragment:
  assumes "i * mtu < length msg" "length msg \<le> 1500" "(i = fragments_n - 1) = final"
    and "frag_len = (if final then last_size else mtu)" "frag_len \<le> length (drop (i * mtu) msg)" "frag_len \<le> 105"
    and "f = fragment_frame a tx_options p_id (i * mtu, take frag_len (drop (i * mtu) msg), final)"
    and "accepts (f # fs) s"
  obtains c t where "\<And>n. send_fragments (Suc n) i a (msg @ rest) mtu fragments_n last_size tx_options p_id confirm s
      = send_fragments n (i + 1) a (msg @ rest) mtu fragments_n last_size tx_options p_id (overlay c confirm) t"
    and "pl_u8 (overlay c confirm) 2 = Inr 0" "wpc_int.more t = wpc_int.more s" "accepts fs t"
    and "\<And>fs. io_tx t @ map wire_frame (numbered (req_frame_id t) fs)
      = io_tx s @ map wire_frame (numbered (req_frame_id s) (f # fs))"
proof -
  have off: "unat (of_nat (i * mtu) :: u16) = i * mtu" using assms(1,2) by (intro unat_of_nat_u16) simp
  have fill: "fill_tx_frag_request a (drop (i * mtu) (msg @ rest)) frag_len tx_options p_id (of_nat (i * mtu)) final = Inr f"
    using fill_fragment [of frag_len "drop (i * mtu) msg @ rest" a tx_options p_id "i * mtu" final]
      assms(1,5-7) by simp
  have short: "short_request f" "primitive_id f < 0x80"
    using fragment_frame_short [of "take frag_len (drop (i * mtu) msg)"] assms(5-7) by simp_all
  define c where "c = confirm_bytes f (req_frame_id s) [0, 0, 0, 16]"
  define t where "t = answered (sent_bytes f s) c TIMEOUT_CONFIRM_MS s"
  note step = dialogue_Cons [OF assms(8) [unfolded list.map] short, where timeout = TIMEOUT_CONFIRM_MS,
    simplified, folded c_def, folded t_def]
  have conf: "pl_u8 (overlay c confirm) 2 = Inr 0"
    by (simp add: c_def confirm_bytes_def pl_u8_def byte_at_def overlay_def)
  have run: "send_fragments (Suc n) i a (msg @ rest) mtu fragments_n last_size tx_options p_id confirm s
      = send_fragments n (i + 1) a (msg @ rest) mtu fragments_n last_size tx_options p_id (overlay c confirm) t" for n
    using fill step(1) conf assms(3)
    by (simp add: off Let_def assms(4) [symmetric] prog_simps WPC_Int_send_request_def
        del: of_nat_mult drop_append)
  have "io_tx t @ map wire_frame (numbered (req_frame_id t) fs)
      = io_tx s @ map wire_frame (numbered (req_frame_id s) (f # fs))" for fs
    unfolding step(3,4) by simp
  with that run conf engine_config_more [OF step(5)] step(2) show ?thesis by blast
qed

text \<open>The loop of the code sends exactly the fragments of the specification.\<close>

lemma send_fragments_run:
  assumes "n = (length msg - i * mtu + mtu - 1) div mtu" "i * mtu < length msg" "0 < mtu" "mtu \<le> 105"
    and "length msg \<le> 1500" "fragments_n = i + n"
    and "last_size = (if length msg mod mtu = 0 then mtu else length msg mod mtu)"
    and "accepts (map (fragment_frame a tx_options p_id) (fragments mtu (i * mtu) (drop (i * mtu) msg))) s"
  shows "\<exists>c t. send_fragments n i a (msg @ rest) mtu fragments_n last_size tx_options p_id confirm s
      = Inr ((None, c), t)
    \<and> pl_u8 c 2 = Inr 0 \<and> wpc_int.more t = wpc_int.more s
    \<and> io_tx t = io_tx s @ map wire_frame (numbered (req_frame_id s)
        (map (fragment_frame a tx_options p_id) (fragments mtu (i * mtu) (drop (i * mtu) msg))))"
  using assms
proof (induction n arbitrary: i s confirm)
  case 0
  have "mtu \<le> length msg - i * mtu + mtu - 1" using 0(2) by simp
  then have "0 < (length msg - i * mtu + mtu - 1) div mtu" using 0(3) by (simp only: div_greater_zero_iff)
  with 0(1) show ?case by linarith
next
  case (Suc n)
  define m where "m = drop (i * mtu) msg"
  have m: "0 < length m" "length msg = length m + i * mtu" "Suc n = (length m + mtu - 1) div mtu"
    using Suc.prems(1,2) by (simp_all add: m_def)
  note left = pieces_left [OF m(3,1) Suc.prems(3)]
  have last: "(i = fragments_n - 1) = (length m \<le> mtu)" using Suc.prems(6) left(1) by simp
  define frag_len where "frag_len = (if length m \<le> mtu then last_size else mtu)"
  have "length m \<le> mtu \<Longrightarrow> last_size = length m" using last_piece_size [OF m(2,1)] unfolding Suc.prems(7) .
  then have "frag_len = min (length m) mtu" by (simp add: frag_len_def min_def)
  then have fl: "frag_len \<le> length (drop (i * mtu) msg)" "frag_len \<le> 105" "take frag_len m = take mtu m"
    using Suc.prems(4) by (simp_all add: m_def min_def)
  let ?frame = "fragment_frame a tx_options p_id" and ?next = "if n = 0 then [] else fragments mtu ((i + 1) * mtu) (drop ((i + 1) * mtu) msg)"
  let ?f = "?frame (i * mtu, take frag_len (drop (i * mtu) msg), length m \<le> mtu)"
  have cut: "map ?frame (fragments mtu (i * mtu) (drop (i * mtu) msg)) = ?f # map ?frame ?next"
    using first_fragment [OF Suc.prems(3), of "i * mtu" m] fl(3) left(1) by (simp add: m_def add.commute)
  obtain c t where step: "\<And>n. send_fragments (Suc n) i a (msg @ rest) mtu fragments_n last_size tx_options p_id confirm s
      = send_fragments n (i + 1) a (msg @ rest) mtu fragments_n last_size tx_options p_id (overlay c confirm) t"
    "pl_u8 (overlay c confirm) 2 = Inr 0" "wpc_int.more t = wpc_int.more s" "accepts (map ?frame ?next) t"
    "\<And>fs. io_tx t @ map wire_frame (numbered (req_frame_id t) fs)
      = io_tx s @ map wire_frame (numbered (req_frame_id s) (?f # fs))"
    using send_one_fragment [OF Suc.prems(2,5) last frag_len_def fl(1,2) refl] Suc.prems(8) [unfolded cut] by blast
  show ?case
  proof (cases "n = 0")
    case True
    with step(1-3) step(5) [of "[]"] show ?thesis by (simp add: cut ret_def)
  next
    case False
    then have "mtu < length m" using left(1) by simp
    with left(2) m have "n = (length msg - (i + 1) * mtu + mtu - 1) div mtu" "(i + 1) * mtu < length msg" by simp_all
    then obtain c' t' where rest: "send_fragments n (i + 1) a (msg @ rest) mtu fragments_n last_size tx_options p_id
        (overlay c confirm) t = Inr ((None, c'), t')" "pl_u8 c' 2 = Inr 0" "wpc_int.more t' = wpc_int.more t"
      "io_tx t' = io_tx t @ map wire_frame (numbered (req_frame_id t) (map ?frame ?next))"
      using Suc.IH [of "i + 1" t "overlay c confirm"] Suc.prems(3-7) step(4) False by (auto simp del: send_fragments.simps)
    show ?thesis unfolding cut step(1) using rest step(3) step(5) by metis
  qed
qed

lemma dsap_fields:
  assumes "wpc_int.more (t :: 'z dsap_scheme) = wpc_int.more s"
  shows "tx_packet_id t = tx_packet_id s" "indication_sent_cb_table t = indication_sent_cb_table s"
    "m_packets t = m_packets s" "m_data_cb t = m_data_cb s" "mallocs t = mallocs s"
  using assms by (cases s; cases t; simp)+

lemma set_indication_run:
  assumes "set_indication_cb cb pdu_id s = Inr (r, t)"
  shows "t = s\<lparr>indication_sent_cb_table := snd (table_set cb pdu_id (indication_sent_cb_table s))\<rparr>"
  using assms by (auto simp: set_indication_cb_def split: prod.splits)

text \<open>C7: Sending a long packet. When the packet is longer than the MTU and the node accepts every
  frame, the result is success, the frames on the line are exactly those of the fragments of the
  packet (offsets, sizes, last-fragment flag and the common packet identifier of 12 bits), with
  consecutive frame identifiers, the packet counter is incremented, and the notification asked for
  is entered in the table.\<close>

theorem fragmented_send:
  fixes s :: "'z dsap_scheme"
  assumes "mtu = unat (ucast (m_mtu s) :: u8)" "0 < mtu" "mtu \<le> 105" "mtu < length msg" "length msg \<le> 1500"
    and "frames = map (fragment_frame a (tx_options_of cb unack hop) (tx_packet_id s AND 0xfff))
      (fragments mtu 0 msg)"
    and "accepts frames s"
  shows "\<exists>t. dsap_data_tx_request (msg @ rest) (length msg) a cb unack hop s = Inr (0, t)
    \<and> io_tx t = io_tx s @ map wire_frame (numbered (req_frame_id s) frames)
    \<and> tx_packet_id t = tx_packet_id s + 1
    \<and> indication_sent_cb_table t = (if cb = None then indication_sent_cb_table s
        else snd (table_set cb (ta_pdu_id a) (indication_sent_cb_table s)))"
proof -
  define s1 where "s1 = s\<lparr>tx_packet_id := tx_packet_id s + 1\<rparr>"
  define n where "n = (length msg + mtu - 1) div mtu"
  define last_size where "last_size = (if length msg mod mtu = 0 then mtu else length msg mod mtu)"
  let ?opt = "tx_options_of cb unack hop" and ?id = "tx_packet_id s AND 0xfff"
  have acc: "accepts (map (fragment_frame a ?opt ?id) (fragments mtu (0 * mtu) (drop (0 * mtu) msg))) s1"
    using assms(6,7) by (simp add: dialogue_def s1_def)
  have "0 * mtu < length msg" "n = (length msg - 0 * mtu + mtu - 1) div mtu" "n = 0 + n"
    using assms(4) by (auto simp: n_def)
  from send_fragments_run [OF this(2,1) assms(2,3,5) this(3) last_size_def acc, of rest "[]"]
  obtain c t where run: "send_fragments n 0 a (msg @ rest) mtu n last_size ?opt ?id [] s1 = Inr ((None, c), t)"
    and c: "pl_u8 c 2 = Inr 0" and more: "wpc_int.more t = wpc_int.more s1"
    and tx: "io_tx t = io_tx s1 @ map wire_frame (numbered (req_frame_id s1)
        (map (fragment_frame a ?opt ?id) (fragments mtu (0 * mtu) (drop (0 * mtu) msg))))"
    by blast
  have n: "n \<noteq> 0" using assms(2,4) by (simp add: n_def div_eq_0_iff)
  have tx': "io_tx t = io_tx s @ map wire_frame (numbered (req_frame_id s) frames)"
    using tx by (simp add: s1_def assms(6))
  have more': "tx_packet_id t = tx_packet_id s + 1" "indication_sent_cb_table t = indication_sent_cb_table s"
    using dsap_fields(1,2) [OF more] by (simp_all add: s1_def)
  let ?t = "if cb = None then t
    else t\<lparr>indication_sent_cb_table := snd (table_set cb (ta_pdu_id a) (indication_sent_cb_table t))\<rparr>"
  have note_run: "(if 0 = (0 :: u8) \<and> cb \<noteq> None then andthen (set_indication_cb cb (ta_pdu_id a)) (\<lambda>_. ret ()) else ret ()) t
      = Inr ((), ?t)"
    by (simp add: set_indication_cb_def prog_simps split: prod.splits)
  have "dsap_data_tx_request (msg @ rest) (length msg) a cb unack hop s = Inr (0, ?t)"
    unfolding dsap_data_tx_request_def
    using run note_run c n assms(2,4,5)
    by (simp add: WPC_Int_get_mtu_def assms(1) [symmetric] Let_def MAX_FULL_PACKET_SIZE_def prog_simps
        n_def [unfolded One_nat_def, symmetric] last_size_def [symmetric] s1_def [symmetric]
        cong: if_cong split del: if_split)
  then show ?thesis using tx' more' by auto
qed

definition quiet_dsap :: dsap where
  "quiet_dsap = \<lparr>io_rx = [], io_wr = [], io_tx = [], io_clock = [], io_epoch = [], io_waits = [],
     m_locked = False, req_frame_id = 0, m_last_successful_answer_ts = 0, m_timeout_no_answer_ms = 0,
     m_mtu = 102, m_disabled_poll_request = False, close_returns = True, m_app_conf_cb = None, m_scan_neighbor_cb = None,
     m_stack_status_cb = None, m_config_data_item_cb = None, mallocs = [], m_fragment_max_duration_s = 0,
     m_packets = [], m_is_queue_empty = True, m_last_gc_ts_ms = 0, m_data_cb = None,
     reassembly_buffer = replicate 1500 0,
     indication_sent_cb_table = [\<lparr>pi_cb = None, pi_pdu_id = 0, pi_busy = False\<rparr>,
       \<lparr>pi_cb = None, pi_pdu_id = 0, pi_busy = False\<rparr>], tx_packet_id = 0\<rparr>"

theorem fragmented_send_witness:
  "\<exists>(s :: dsap) t. dsap_data_tx_request [1, 2, 3] 3 \<lparr>ta_pdu_id = 9, ta_dest_add = 7, ta_qos = 0,
       ta_src_ep = 1, ta_dest_ep = 2, ta_buffering_delay = 0\<rparr> (Some 4) False 0 s = Inr (0, t)
     \<and> length (io_tx t) = 2 \<and> tx_packet_id t = 1
     \<and> pending (indication_sent_cb_table t) = {#(9, Some 4)#}"
proof -
  let ?a = "\<lparr>ta_pdu_id = 9, ta_dest_add = 7, ta_qos = 0, ta_src_ep = 1, ta_dest_ep = 2, ta_buffering_delay = 0\<rparr>"
  define frames where "frames = map (fragment_frame ?a (tx_options_of (Some 4) False 0) (0 AND 0xfff))
    (fragments 2 0 [1, 2, 3])"
  have two: "length frames = 2" by (simp add: frames_def fragments.simps)
  define s where "s = on_script (map (\<lambda>f. (f, [0, 0, 0, 16])) frames) (quiet_dsap\<lparr>m_mtu := 2\<rparr>)"
  have acc: "accepts frames s" by (simp add: s_def)
  have f: "frames = map (fragment_frame ?a (tx_options_of (Some 4) False 0) (tx_packet_id s AND 0xfff))
      (fragments 2 0 [1, 2, 3])" by (simp add: frames_def s_def quiet_dsap_def on_script_def)
  have h: "2 = unat (ucast (m_mtu s) :: u8)" "(0::nat) < 2" "(2::nat) \<le> 105" "2 < length [1, 2, 3 :: u8]"
    "length [1, 2, 3 :: u8] \<le> 1500" by (simp_all add: s_def quiet_dsap_def)
  from fragmented_send [OF h f acc, of "[]"] obtain t where
    "dsap_data_tx_request [1, 2, 3] 3 ?a (Some 4) False 0 s = Inr (0, t)"
    "io_tx t = io_tx s @ map wire_frame (numbered (req_frame_id s) frames)" "tx_packet_id t = tx_packet_id s + 1"
    "indication_sent_cb_table t = snd (table_set (Some 4) 9 (indication_sent_cb_table s))"
    by (auto simp: numeral_eq_Suc)
  then show ?thesis
    by (intro exI [of _ s] exI [of _ t]) (simp add: s_def quiet_dsap_def on_script_def two pending_def)
qed

section \<open>Properties of the notifications and of the reception\<close>

lemmas frame_reading = pl_u8_def pl_u16_def pl_u32_def pl_copy_def byte_at_def obj_u16_def obj_u32_def
  bytes_at_def host_simps

lemma table_take_absent:
  "\<forall>e \<in> set table. pi_busy e \<longrightarrow> pi_pdu_id e \<noteq> k \<Longrightarrow> table_take k cb table = (cb, table)"
  by (induction table) auto

lemma pending_none:
  assumes "\<forall>c. (k, c) \<notin># pending table"
  shows "table_take k None table = (None, table)"
  using assms by (intro table_take_absent) (auto simp: pending_def)

text \<open>C20: The notification of a sent packet. When the packet was entered in the table with a callback
  and no other packet with its identifier is pending, the indication of the node calls exactly that
  callback, with the identifier, the delay in milliseconds and the result, and the table then holds
  what it held before the packet was sent.\<close>

theorem notification_delivered:
  fixes s :: "'z dsap_scheme"
  assumes "size (pending (indication_sent_cb_table s)) < length (indication_sent_cb_table s)"
    and "\<forall>c. (pdu_id, c) \<notin># pending (indication_sent_cb_table s)"
    and "set_indication_cb (Some cb) pdu_id s = Inr (entered, t)"
    and "pl_u16 frame 1 = Inr pdu_id" "pl_u32 frame 9 = Inr delay" "pl_u8 frame 13 = Inr result"
  shows "\<exists>u. dsap_data_tx_indication_handler app frame t
      = app (Data_sent cb pdu_id (internal_time_to_ms delay) result) u
    \<and> pending (indication_sent_cb_table u) = pending (indication_sent_cb_table s)"
proof -
  obtain w u where g: "get_indication_cb pdu_id t = Inr (w, u)"
    by (cases "table_take pdu_id None (indication_sent_cb_table t)") (simp add: get_indication_cb_def)
  then have "(case get_indication_cb pdu_id t of Inl e \<Rightarrow> Inl e | Inr (cb, t) \<Rightarrow> Inr (map_option Some cb, t))
      = Inr (map_option Some w, u)" by simp
  from notifications.insert_take [OF assms(1,2) _ assms(3) this]
  have "w = Some cb" "pending (indication_sent_cb_table u) = pending (indication_sent_cb_table s)" by auto
  then show ?thesis
    using g assms(4-6) by (intro exI [of _ u]) (simp add: dsap_data_tx_indication_handler_def prog_simps)
qed

theorem notification_delivered_witness:
  "\<exists>t u. set_indication_cb (Some 4) 9 quiet_dsap = Inr (True, t)
     \<and> dsap_data_tx_indication_handler (\<lambda>c. modify (\<lambda>s. if c = Data_sent 4 9 1000 0 then s\<lparr>m_mtu := 77\<rparr> else s))
         [2, 0, 14, 0, 9, 0, 1, 2, 0, 0, 0, 1, 128, 0, 0, 0, 0] t = Inr ((), u) \<and> m_mtu u = 77"
proof -
  let ?app = "\<lambda>c. modify (\<lambda>s :: dsap. if c = Data_sent 4 9 1000 0 then s\<lparr>m_mtu := 77\<rparr> else s)"
  let ?f = "[2, 0, 14, 0, 9, 0, 1, 2, 0, 0, 0, 1, 128, 0, 0, 0, 0] :: u8 list"
  obtain t where t: "set_indication_cb (Some 4) 9 quiet_dsap = Inr (True, t)"
    by (simp add: set_indication_cb_def quiet_dsap_def)
  have h: "size (pending (indication_sent_cb_table quiet_dsap)) < length (indication_sent_cb_table quiet_dsap)"
    "\<forall>c. (9, c) \<notin># pending (indication_sent_cb_table quiet_dsap)"
    by (simp_all add: quiet_dsap_def pending_def)
  have f: "pl_u16 ?f 1 = Inr 9" "pl_u32 ?f 9 = Inr 128" "pl_u8 ?f 13 = Inr 0"
    by (simp_all add: frame_reading)
  have ms: "internal_time_to_ms 128 = 1000" by (simp add: internal_time_to_ms_def)
  from notification_delivered [OF h t f, of ?app] t show ?thesis
    by (auto simp: ms modify_def)
qed

text \<open>A full table loses the notification. When all entries of the table are in use, a further
  packet with a callback is not entered (its sender is told nothing), and the indication of the
  node for it calls nobody.\<close>

theorem notification_lost_when_full:
  fixes s :: "'z dsap_scheme"
  assumes "size (pending (indication_sent_cb_table s)) = length (indication_sent_cb_table s)"
    and "\<forall>c. (pdu_id, c) \<notin># pending (indication_sent_cb_table s)"
    and "pl_u16 frame 1 = Inr pdu_id"
  shows "set_indication_cb (Some cb) pdu_id s = Inr (False, s)
    \<and> dsap_data_tx_indication_handler app frame s = Inr ((), s)"
proof
  obtain r table where t: "table_set (Some cb) pdu_id (indication_sent_cb_table s) = (r, table)" by fastforce
  from table_set_spec [OF t] assms(1) show "set_indication_cb (Some cb) pdu_id s = Inr (False, s)"
    by (simp add: set_indication_cb_def t)
  show "dsap_data_tx_indication_handler app frame s = Inr ((), s)"
    using pending_none [OF assms(2)] assms(3)
    by (simp add: dsap_data_tx_indication_handler_def get_indication_cb_def prog_simps)
qed

theorem notification_lost_when_full_witness:
  "\<exists>s :: dsap. set_indication_cb (Some 4) 9 s = Inr (False, s)
     \<and> dsap_data_tx_indication_handler (\<lambda>_. halt Undefined) [2, 0, 3, 0, 9, 0] s = Inr ((), s)"
proof -
  let ?s = "quiet_dsap\<lparr>indication_sent_cb_table := [\<lparr>pi_cb = None, pi_pdu_id = 1, pi_busy = True\<rparr>]\<rparr>"
  have "pl_u16 [2, 0, 3, 0, 9, 0] 1 = Inr 9" by (simp add: frame_reading)
  from notification_lost_when_full [of ?s 9 "[2, 0, 3, 0, 9, 0]" 4 "\<lambda>_. halt Undefined", OF _ _ this] show ?thesis
    by (intro exI [of _ ?s]) (simp add: pending_def)
qed

section \<open>Received fragments\<close>

lemma additions_keep:
  assumes "keeps I Platform_malloc" "\<And>key p. keeps I (put_packet key p)"
    and "keeps I Platform_get_timestamp_ms_monotonic" "\<And>b s. I s \<Longrightarrow> I (s\<lparr>m_is_queue_empty := b\<rparr>)"
  shows "keeps I (reassembly_add_fragment f)"
  unfolding reassembly_add_fragment_def Let_def get_packet_from_hash_def
    create_packet_in_hash_def add_fragment_to_full_packet_def is_packet_full_def
  by (intro keeps_intros assms)

lemma reassembly_keeps_rest: "keeps (\<lambda>s. reassembly.more s = m) (reassembly_add_fragment f)"
  by (rule additions_keep) (auto intro!: keepsI simp: Platform_malloc_def put_packet_def
    Platform_get_timestamp_ms_monotonic_def split: list.splits)

lemma additions_keep_duration: "keeps (\<lambda>s. m_fragment_max_duration_s s = d) (reassembly_add_fragment f)"
  by (rule additions_keep) (auto intro!: keepsI simp: Platform_malloc_def put_packet_def
    Platform_get_timestamp_ms_monotonic_def split: list.splits)

lemma run_each_keeps:
  assumes "\<And>a. keeps I (f a)" "I s" "run_each f as s = Inr (rs, t)"
  shows "I t"
  using assms(2,3) by (induction as arbitrary: s rs) (auto dest: keepsD [OF assms(1)])

lemma reception_fields:
  assumes "reassembly.more (t :: 'z dsap_scheme) = reassembly.more s"
  shows "m_data_cb t = m_data_cb s" "reassembly_buffer t = reassembly_buffer s"
  using assms by (cases s; cases t; simp)+

text \<open>The handler on a fragment that makes its packet full.\<close>

lemma rx_frag_run:
  assumes "read_rx_header frame = Inr h" "read_rx_fragment frame = Inr f"
    and "reassembly_add_fragment f s = Inr ((True, n), t)" "n \<noteq> 0" "m_data_cb t = Some c"
    and "reassembly_get_full_message (fr_src_add f) (fr_packet_id f) (reassembly_buffer t) 1500 t
      = Inr ((ok, buffer, n'), u)" "m_data_cb u = Some c"
  shows "dsap_data_rx_frag_indication_handler app frame ts s
    = andthen (app (data_call c (take n' buffer) n' h ts)) (\<lambda>_. reassembly_garbage_collect)
        (u\<lparr>reassembly_buffer := buffer\<rparr>)"
  using assms
  by (simp add: dsap_data_rx_frag_indication_handler_def prog_simps MAX_FULL_PACKET_SIZE_def)

text \<open>What the reception of fragments leaves alone: the epoch clock, a memory that never runs out, and
  everything beyond the data service.\<close>

abbreviation beyond_reception :: "u64 list \<Rightarrow> 'z \<Rightarrow> 'z dsap_scheme \<Rightarrow> bool" where
  "beyond_reception es m s \<equiv> io_epoch s = es \<and> mallocs s = [] \<and> dsap.more s = m"

lemma reception_beyond:
  "keeps (beyond_reception es m) (reassembly_add_fragment f)"
  "keeps (beyond_reception es m) (reassembly_get_full_message src pid buffer n)"
proof -
  show "keeps (beyond_reception es m) (reassembly_add_fragment f)"
    by (rule additions_keep) (auto intro!: keepsI simp: Platform_malloc_def put_packet_def
      Platform_get_timestamp_ms_monotonic_def split: list.splits)
  show "keeps (beyond_reception es m) (reassembly_get_full_message src pid buffer n)"
    unfolding reassembly_get_full_message_def get_packet_from_hash_def reassemble_full_packet_def
    by (intro keeps_intros) simp_all
qed

lemma fragments_delivered_run:
  fixes s :: "'z dsap_scheme"
  assumes "packet_at s (src, pid) = None" "mallocs s = []" "length pre < length (io_clock s)"
    and "msg \<noteq> []" "length msg \<le> 1500" "length (reassembly_buffer s) = 1500" "m_data_cb s = Some c"
    and "run_each reassembly_add_fragment pre s = Inr (rs, t)"
    and "read_rx_header frame = Inr h" "read_rx_fragment frame = Inr f" "fr_key f = (src, pid)"
    and "mset (map content (own (src, pid) (pre @ [f]))) = mset (fragments mtu 0 msg)"
  shows "\<exists>u. dsap_data_rx_frag_indication_handler app frame ts t
      = andthen (app (data_call c msg (length msg) h ts)) (\<lambda>_. reassembly_garbage_collect) u
    \<and> packet_at u (src, pid) = None \<and> beyond_reception (io_epoch s) (dsap.more s) u"
proof -
  let ?frs = "pre @ [f]"
  have "length ?frs \<le> length (io_clock s)" "?frs \<noteq> []" "fr_key (last ?frs) = (src, pid)"
    "length msg \<le> length (reassembly_buffer s)" using assms(3,5,6,11) by simp_all
  from reassembly_any_order_run [OF assms(1,2) this(1) assms(4) this(4) assms(5) assms(12) this(2,3)]
  obtain rs' t' u where run: "run_each reassembly_add_fragment ?frs s = Inr (rs', t')"
    and l: "last rs' = (True, length msg)"
    and get: "reassembly_get_full_message src pid (reassembly_buffer s) 1500 t'
      = Inr ((True, overlay msg (reassembly_buffer s), length msg), u)"
    and gone: "packet_at u (src, pid) = None" and rest: "reassembly.more u = reassembly.more t'"
    by blast
  have add: "reassembly_add_fragment f t = Inr ((True, length msg), t')"
    using run l unfolding run_each_snoc by (auto simp: assms(8) andthen_def ret_def split: sum.splits)
  have same: "reassembly.more t' = reassembly.more s"
    using run_each_keeps [OF reassembly_keeps_rest refl run] .
  have key: "fr_src_add f = src" "fr_packet_id f = pid" using assms(11) by (simp_all add: fr_key_def)
  have "dsap_data_rx_frag_indication_handler app frame ts t
      = andthen (app (data_call c (take (length msg) (overlay msg (reassembly_buffer s))) (length msg) h ts))
        (\<lambda>_. reassembly_garbage_collect) (u\<lparr>reassembly_buffer := overlay msg (reassembly_buffer s)\<rparr>)"
    using get assms(4,7) reception_fields [OF same] reception_fields [OF rest [unfolded same]]
    by (intro rx_frag_run [OF assms(9,10) add]) (simp_all add: key)
  moreover have "beyond_reception (io_epoch s) (dsap.more s) u"
    using keepsD [OF reception_beyond(2) run_each_keeps [OF reception_beyond(1) _ run] get] assms(2) by simp
  ultimately show ?thesis
    using gone by (intro exI [of _ "u\<lparr>reassembly_buffer := overlay msg (reassembly_buffer s)\<rparr>"])
      (simp add: overlay_def packet_at_def)
qed

lemma quiet_dsap_fields [simp]:
  "io_rx quiet_dsap = []" "io_clock quiet_dsap = []" "io_tx quiet_dsap = []" "m_packets quiet_dsap = []"
  "mallocs quiet_dsap = []" "length (reassembly_buffer quiet_dsap) = 1500"
  "reassembly_buffer quiet_dsap = replicate 1500 0" "m_fragment_max_duration_s quiet_dsap = 0"
  by (simp_all only: quiet_dsap_def wpc_int.simps io.simps dsap.simps reassembly.simps length_replicate)

text \<open>Receiving a long packet. When the fragments of a message have arrived in any order, mixed
  with fragments of other packets, the indication that brings the last missing one calls the data
  callback once, with exactly the bytes and the length of the message and the addresses, endpoints
  and times of that indication; the packet is gone from the store when the callback runs.\<close>

theorem fragments_delivered:
  fixes s :: "'z dsap_scheme"
  assumes "packet_at s (src, pid) = None" "mallocs s = []" "length pre < length (io_clock s)"
    and "msg \<noteq> []" "length msg \<le> 1500" "length (reassembly_buffer s) = 1500" "m_data_cb s = Some c"
    and "run_each reassembly_add_fragment pre s = Inr (rs, t)"
    and "read_rx_header frame = Inr h" "read_rx_fragment frame = Inr f" "fr_key f = (src, pid)"
    and "mset (map content (own (src, pid) (pre @ [f]))) = mset (fragments mtu 0 msg)"
  shows "\<exists>u. dsap_data_rx_frag_indication_handler app frame ts t
      = andthen (app (data_call c msg (length msg) h ts)) (\<lambda>_. reassembly_garbage_collect) u
    \<and> packet_at u (src, pid) = None"
  using fragments_delivered_run [OF assms] by blast

theorem fragments_delivered_witness:
  "\<exists>(s :: dsap) t. run_each reassembly_add_fragment
       [\<lparr>fr_src_add = 1, fr_packet_id = 7, fr_bytes = [5], fr_offset = 2, fr_last = True\<rparr>] s = Inr ([(True, 0)], t)
     \<and> dsap_data_rx_frag_indication_handler
         (\<lambda>c. halt (if c = Data_received 4 [8, 9, 5] 3 1 3 True 2 6 1000 5 77 then Exited else Undefined))
         [16, 0, 23, 0, 1, 0, 0, 0, 2, 3, 0, 0, 0, 6, 21, 128, 0, 0, 0, 7, 0, 0, 0, 2, 8, 9] 77 t = Inl Exited"
proof -
  let ?app = "\<lambda>c. halt (if c = Data_received 4 [8, 9, 5] 3 1 3 True 2 6 1000 5 77 then Exited else Undefined) :: (dsap, unit) prog"
  let ?frame = "[16, 0, 23, 0, 1, 0, 0, 0, 2, 3, 0, 0, 0, 6, 21, 128, 0, 0, 0, 7, 0, 0, 0, 2, 8, 9] :: u8 list"
  let ?pre = "[\<lparr>fr_src_add = 1, fr_packet_id = 7, fr_bytes = [5], fr_offset = 2, fr_last = True\<rparr>]"
  let ?f = "\<lparr>fr_src_add = 1, fr_packet_id = 7, fr_bytes = [8, 9], fr_offset = 0, fr_last = False\<rparr>"
  let ?h = "\<lparr>rh_src_add = 1, rh_src_ep = 2, rh_dest_add = 3, rh_dest_ep = 6, rh_qos_hop_count = 21, rh_travel_time = 128\<rparr>"
  define s where "s = quiet_dsap\<lparr>io_clock := [1, 2, 3], m_data_cb := Some 4\<rparr>"
  have hd: "read_rx_header ?frame = Inr ?h" by (simp add: read_rx_header_def frame_reading)
  have fr: "read_rx_fragment ?frame = Inr ?f"
    by (simp add: read_rx_fragment_def frame_reading DSAP_FRAG_LENGTH_MASK_def DSAP_FRAG_LAST_FLAG_MASK_def
      MAX_APDU_DSAP_SIZE_def)
  have cut: "fragments 2 0 [8, 9, 5] = [(0, [8, 9], False), (2, [5], True)]" by (simp add: fragments.simps)
  have m: "mset (map content (own (1, 7) (?pre @ [?f]))) = mset (fragments 2 0 [8, 9, 5])"
    unfolding cut by (simp add: fr_key_def content_def)
  have f0: "mallocs s = []" "io_clock s = 1 # [2, 3]" "packet_at s (1, 7) = None"
    by (simp_all add: s_def packet_at_def)
  obtain t where t: "run_each reassembly_add_fragment ?pre s = Inr ([(True, 0)], t)"
    using add_fragment_run [OF f0(1,2), of "hd ?pre"] f0(3)
    by (simp add: fr_key_def empty_packet_def with_fragment_def fullness_def rx_size_def andthen_def ret_def)
  have "packet_at s (1, 7) = None" "mallocs s = []" "length ?pre < length (io_clock s)" "[8, 9, 5 :: u8] \<noteq> []"
    "length [8, 9, 5 :: u8] \<le> 1500" "length (reassembly_buffer s) = 1500" "m_data_cb s = Some 4" "fr_key ?f = (1, 7)"
    by (simp_all add: s_def packet_at_def fr_key_def)
  note d = fragments_delivered [OF this(1-7) t hd fr this(8) m, of ?app 77]
  have "data_call 4 [8, 9, 5] (length [8, 9, 5 :: u8]) ?h 77 = Data_received 4 [8, 9, 5] 3 1 3 True 2 6 1000 5 77"
    by (simp add: data_call_def internal_time_to_ms_def)
  from d [unfolded this] have "dsap_data_rx_frag_indication_handler ?app ?frame 77 t = Inl Exited"
    by (auto simp: halt_def)
  with t show ?thesis by blast
qed

text \<open>C27: A complete packet of more than 1500 bytes, which offsets of twelve bits allow, is not copied
  out; the callback is called all the same, with the first 1500 bytes of what the static buffer held
  before, and the packet stays in the store.\<close>

theorem oversized_packet_delivers_stale_bytes:
  fixes s :: "'z dsap_scheme"
  assumes "mallocs s = []" "io_clock s = now # cs" "m_data_cb s = Some c"
    and "read_rx_header frame = Inr h" "read_rx_fragment frame = Inr f"
    and "p = (case packet_at s (fr_key f) of None \<Rightarrow> empty_packet | Some p \<Rightarrow> p)"
    and "fr_offset f \<notin> set (map fst (fp_head p))"
    and "fullness (with_fragment f now p)" "1500 < fp_full_size (with_fragment f now p)"
  shows "\<exists>u. dsap_data_rx_frag_indication_handler app frame ts s
      = andthen (app (data_call c (take 1500 (reassembly_buffer s)) 1500 h ts)) (\<lambda>_. reassembly_garbage_collect) u
    \<and> packet_at u (fr_key f) \<noteq> None"
proof -
  let ?q = "with_fragment f now p"
  define t where "t = s\<lparr>io_clock := cs, m_is_queue_empty := False,
       m_packets := AList.update (fr_key f) (?q\<lparr>fp_is_full := True\<rparr>) (m_packets s)\<rparr>"
  have add: "reassembly_add_fragment f s = Inr ((True, fp_full_size ?q), t)"
    using add_fragment_run [OF assms(1,2), of f] assms(6-8) by (simp add: t_def)
  have at: "packet_at t (fr_key f) = Some (?q\<lparr>fp_is_full := True\<rparr>)" by (simp add: packet_at_def t_def update_conv')
  have get: "reassembly_get_full_message (fr_src_add f) (fr_packet_id f) (reassembly_buffer t) 1500 t
      = Inr ((False, reassembly_buffer t, 1500), t)"
    using at assms(9)
    by (simp add: reassembly_get_full_message_def get_packet_from_hash_def packet_at_def fr_key_def
        reassemble_full_packet_def prog_simps)
  have cb: "m_data_cb t = Some c" and buf: "reassembly_buffer t = reassembly_buffer s"
    using assms(3) by (simp_all add: t_def)
  have "fp_full_size ?q \<noteq> 0" using assms(9) by simp
  from rx_frag_run [OF assms(4,5) add this cb get cb] show ?thesis
    using at by (intro exI [of _ "t\<lparr>reassembly_buffer := reassembly_buffer t\<rparr>"]) (simp add: buf packet_at_def)
qed

theorem oversized_packet_delivers_stale_bytes_witness:
  "\<exists>s :: dsap. map snd (fp_head (the (packet_at s (1, 7)))) = [replicate 1500 3]
     \<and> dsap_data_rx_frag_indication_handler
       (\<lambda>c. halt (if c = Data_received 4 (replicate 1500 0) 1500 1 3 True 2 6 1000 5 77 then Exited else Undefined))
         [16, 0, 22, 0, 1, 0, 0, 0, 2, 3, 0, 0, 0, 6, 21, 128, 0, 0, 0, 7, 0, 220, 133, 1, 8] 77 s = Inl Exited"
proof -
  let ?app = "\<lambda>c. halt (if c = Data_received 4 (replicate 1500 0) 1500 1 3 True 2 6 1000 5 77 then Exited else Undefined) :: (dsap, unit) prog"
  let ?frame = "[16, 0, 22, 0, 1, 0, 0, 0, 2, 3, 0, 0, 0, 6, 21, 128, 0, 0, 0, 7, 0, 220, 133, 1, 8] :: u8 list"
  let ?f = "\<lparr>fr_src_add = 1, fr_packet_id = 7, fr_bytes = [8], fr_offset = 1500, fr_last = True\<rparr>"
  let ?h = "\<lparr>rh_src_add = 1, rh_src_ep = 2, rh_dest_add = 3, rh_dest_ep = 6, rh_qos_hop_count = 21, rh_travel_time = 128\<rparr>"
  let ?p = "empty_packet\<lparr>fp_head := [(0, replicate 1500 3)]\<rparr>"
  define s where "s = quiet_dsap\<lparr>io_clock := [1], m_data_cb := Some 4, m_packets := [((1, 7), ?p)]\<rparr>"
  have hd: "read_rx_header ?frame = Inr ?h" by (simp add: read_rx_header_def frame_reading)
  have fr: "read_rx_fragment ?frame = Inr ?f"
    by (simp add: read_rx_fragment_def frame_reading DSAP_FRAG_LENGTH_MASK_def DSAP_FRAG_LAST_FLAG_MASK_def
      MAX_APDU_DSAP_SIZE_def)
  have "mallocs s = []" "io_clock s = 1 # []" "m_data_cb s = Some 4"
    "?p = (case packet_at s (fr_key ?f) of None \<Rightarrow> empty_packet | Some p \<Rightarrow> p)"
    "fr_offset ?f \<notin> set (map fst (fp_head ?p))" "fullness (with_fragment ?f 1 ?p)"
    "1500 < fp_full_size (with_fragment ?f 1 ?p)" "take 1500 (reassembly_buffer s) = replicate 1500 0"
    by (simp_all add: s_def packet_at_def fr_key_def with_fragment_def fullness_def rx_size_def empty_packet_def)
  note d = oversized_packet_delivers_stale_bytes [OF this(1-3) hd fr this(4-7), of ?app 77, unfolded this(8)]
  have c: "data_call 4 (replicate 1500 0) 1500 ?h 77 = Data_received 4 (replicate 1500 0) 1500 1 3 True 2 6 1000 5 77"
    by (simp add: data_call_def internal_time_to_ms_def)
  from d [unfolded c] have "dsap_data_rx_frag_indication_handler ?app ?frame 77 s = Inl Exited"
    by (auto simp: halt_def)
  moreover have "map snd (fp_head (the (packet_at s (1, 7)))) = [replicate 1500 3]"
    by (simp add: s_def packet_at_def)
  ultimately show ?thesis by (intro exI [of _ s] conjI)
qed

text \<open>The guards of sending. A packet of more than 1500 bytes is refused with the code 6 before
  anything is sent; with an MTU of zero, which the node may report, any other nonempty packet makes
  the code divide by zero.\<close>

theorem data_tx_guards:
  fixes s :: "'z dsap_scheme"
  assumes "1500 < len \<or> (0 < len \<and> (ucast (m_mtu s) :: u8) = 0)"
  shows "dsap_data_tx_request buffer len a cb unack hop s = (if 1500 < len then Inr (6, s) else Inl Undefined)"
  using assms
  by (auto simp: dsap_data_tx_request_def WPC_Int_get_mtu_def Let_def MAX_FULL_PACKET_SIZE_def prog_simps)

theorem data_tx_guards_witness:
  "dsap_data_tx_request (replicate 1501 0) 1501
       \<lparr>ta_pdu_id = 9, ta_dest_add = 7, ta_qos = 0, ta_src_ep = 1, ta_dest_ep = 2, ta_buffering_delay = 0\<rparr>
       None False 0 quiet_dsap = Inr (6, quiet_dsap)
   \<and> dsap_data_tx_request [1] 1
       \<lparr>ta_pdu_id = 9, ta_dest_add = 7, ta_qos = 0, ta_src_ep = 1, ta_dest_ep = 2, ta_buffering_delay = 0\<rparr>
       None False 0 (quiet_dsap\<lparr>m_mtu := 256\<rparr>) = Inl Undefined"
  using data_tx_guards [of 1501 quiet_dsap] data_tx_guards [of 1 "quiet_dsap\<lparr>m_mtu := 256\<rparr>"]
  by simp

section \<open>From one host to another\<close>

text \<open>What the mesh delivers for a fragment: the address of the sender, a header of the receiving node
  (endpoints, destination, QoS and travel time), and the last fields of the request unchanged.\<close>

definition relayed :: "u32 \<Rightarrow> u8 list \<Rightarrow> wpc_frame \<Rightarrow> u8 list" where
  "relayed src header f =
     [DSAP_DATA_RX_FRAG_INDICATION, 0, of_nat (length (payload f) + 2), 0] @ host_store32 src @ header
       @ drop 14 (payload f)"

lemma offset_bits:
  assumes "off < 4096"
  shows "(((of_nat off :: u16) AND DSAP_FRAG_LENGTH_MASK) OR (if final then DSAP_FRAG_LAST_FLAG_MASK else 0))
      AND DSAP_FRAG_LENGTH_MASK = of_nat off"
    and "((((of_nat off :: u16) AND DSAP_FRAG_LENGTH_MASK) OR (if final then DSAP_FRAG_LAST_FLAG_MASK else 0))
      AND DSAP_FRAG_LAST_FLAG_MASK = DSAP_FRAG_LAST_FLAG_MASK) = final"
proof -
  have m: "w AND 0x0fff = take_bit 12 w" for w :: u16
    by (simp add: take_bit_eq_mask mask_eq_exp_minus_1)
  have t: "(of_nat off :: u16) AND 0x0fff = of_nat off"
    unfolding m using assms by (simp add: take_bit_nat_eq_self flip: of_nat_take_bit)
  have z: "(0x8000 :: u16) AND 0x0fff = 0" "(0x0fff :: u16) AND 0x8000 = 0" by simp_all
  show "(((of_nat off :: u16) AND DSAP_FRAG_LENGTH_MASK) OR (if final then DSAP_FRAG_LAST_FLAG_MASK else 0))
      AND DSAP_FRAG_LENGTH_MASK = of_nat off"
    by (simp add: DSAP_FRAG_LENGTH_MASK_def DSAP_FRAG_LAST_FLAG_MASK_def t bit.conj_disj_distrib2 z)
  have "(of_nat off :: u16) AND 0x8000 = 0"
    using arg_cong [OF t, of "\<lambda>w. w AND 0x8000"] by (simp add: and.assoc z)
  then show "((((of_nat off :: u16) AND DSAP_FRAG_LENGTH_MASK) OR (if final then DSAP_FRAG_LAST_FLAG_MASK else 0))
      AND DSAP_FRAG_LAST_FLAG_MASK = DSAP_FRAG_LAST_FLAG_MASK) = final"
    by (simp add: DSAP_FRAG_LENGTH_MASK_def DSAP_FRAG_LAST_FLAG_MASK_def t bit.conj_disj_distrib2)
qed

lemma relayed_fragment:
  assumes "length header = 11" "off < 4096" "length bytes \<le> 180"
  shows "read_rx_fragment (relayed src header (fragment_frame a tx_options p_id (off, bytes, final)))
    = Inr \<lparr>fr_src_add = src, fr_packet_id = p_id AND 0xfff, fr_bytes = bytes, fr_offset = off, fr_last = final\<rparr>"
proof -
  let ?o = "((of_nat off AND DSAP_FRAG_LENGTH_MASK) OR (if final then DSAP_FRAG_LAST_FLAG_MASK else 0)) :: u16"
  let ?h = "[DSAP_DATA_RX_FRAG_INDICATION, 0, of_nat (19 + length bytes + 2), 0] :: u8 list"
  have r: "relayed src header (fragment_frame a tx_options p_id (off, bytes, final))
      = ?h @ host_store32 src @ header @ host_store16 (p_id AND 0xfff) @ host_store16 ?o
        @ of_nat (length bytes) # bytes"
    by (simp add: relayed_def fragment_frame_def)
  have len: "unat (of_nat (length bytes) :: u8) = length bytes" using assms(3) by (intro unat_of_nat_u8) simp
  have src: "pl_u32 (?h @ host_store32 src @ rest) 1 = Inr src" if "True" for rest
    by (simp add: pl_u32_def obj_u32_def bytes_at_def host_simps le32.dec_exact)
  have p16: "pl_u16 (?h @ host_store32 src @ header @ host_store16 v @ rest) 16 = Inr v" for v rest
    using assms(1) by (simp add: pl_u16_def obj_u16_def bytes_at_def host_simps le16.dec_exact numeral_eq_Suc)
  have p18: "pl_u16 (?h @ host_store32 src @ header @ host_store16 w @ host_store16 v @ rest) 18 = Inr v" for v w rest
    using assms(1) by (simp add: pl_u16_def obj_u16_def bytes_at_def host_simps le16.dec_exact numeral_eq_Suc)
  have p20: "pl_u8 (?h @ host_store32 src @ header @ host_store16 w @ host_store16 v @ b # rest) 20 = Inr b" for v w b rest
    using assms(1) by (simp add: pl_u8_def byte_at_def nth_append)
  have pb: "bytes_at (?h @ host_store32 src @ header @ host_store16 w @ host_store16 v @ b # bytes) 24 (length bytes)
      = Inr bytes" for v w b
    using assms(1) by (simp add: bytes_at_def)
  show ?thesis
    unfolding r read_rx_fragment_def
    using assms(3) offset_bits [OF assms(2), of final] assms(2)
    by (simp only: src p16 p18 p20 pb sum.case prod.case len MAX_APDU_DSAP_SIZE_def)
       (simp add: unat_of_nat_u16 and.assoc)
qed

lemma relayed_header:
  assumes "length header = 11"
  shows "\<exists>h. read_rx_header (relayed src header f) = Inr h \<and> rh_src_add h = src"
proof -
  obtain e0 d0 d1 d2 d3 e1 q t0 t1 t2 t3 where h: "header = [e0, d0, d1, d2, d3, e1, q, t0, t1, t2, t3]"
    using assms by (auto simp: numeral_eq_Suc length_Suc_conv)
  have "pl_u32 (relayed src header f) 1 = Inr src"
    by (simp add: pl_u32_def relayed_def obj_u32_def bytes_at_def host_simps le32.dec_exact)
  moreover have "pl_u32 (relayed src header f) 6 = uint32_decode_le [d0, d1, d2, d3]"
    "pl_u32 (relayed src header f) 12 = uint32_decode_le [t0, t1, t2, t3]"
    "pl_u8 (relayed src header f) 5 = Inr e0" "pl_u8 (relayed src header f) 10 = Inr e1"
    "pl_u8 (relayed src header f) 11 = Inr q"
    by (simp_all add: h relayed_def pl_u32_def pl_u8_def byte_at_def obj_u32_def bytes_at_def host_simps
      nth_append nth_Cons' del: uint32_decode_le.simps)
  ultimately show ?thesis by (simp add: read_rx_header_def)
qed

lemma handlers_run:
  assumes "\<forall>f \<in> set frames. read_rx_fragment f = Inr (dec f) \<and> (\<exists>h. read_rx_header f = Inr h)"
    and "run_each reassembly_add_fragment (map dec frames) s = Inr (rs, t)" "\<forall>r \<in> set rs. snd r = 0"
    and "m_fragment_max_duration_s s = 0"
  shows "run_each (\<lambda>f. dsap_data_rx_frag_indication_handler app f ts) frames s
      = Inr (replicate (length frames) (), t) \<and> m_fragment_max_duration_s t = 0"
  using assms
proof (induction frames arbitrary: s rs)
  case (Cons f frames)
  obtain r s1 rs1 where r: "reassembly_add_fragment (dec f) s = Inr (r, s1)"
    "run_each reassembly_add_fragment (map dec frames) s1 = Inr (rs1, t)" "rs = r # rs1"
    using Cons.prems(2) by auto
  have d: "m_fragment_max_duration_s s1 = 0"
    using keepsD [OF additions_keep_duration Cons.prems(4) r(1)] .
  obtain h where "read_rx_header f = Inr h" using Cons.prems(1) by auto
  then have "dsap_data_rx_frag_indication_handler app f ts s = Inr ((), s1)"
    using Cons.prems(1,3) r d
    by (cases r) (simp add: dsap_data_rx_frag_indication_handler_def reassembly_garbage_collect_def prog_simps)
  with Cons.IH [OF _ r(2) _ d] Cons.prems(1,3) r(3) show ?case by (simp add: prog_simps)
qed simp

lemma fragments_le: "f \<in> set (fragments mtu off msg) \<Longrightarrow> 0 < mtu \<Longrightarrow> length (fst (snd f)) \<le> mtu"
proof (induction mtu off msg rule: fragments.induct)
  case (1 mtu off msg)
  then show ?case
    by (cases "length msg \<le> mtu") (auto simp: fragments.simps [of mtu off msg])
qed

text \<open>The fragment that a handler takes from a frame.\<close>

definition decoded :: "u8 list \<Rightarrow> reassembly_fragment" where
  "decoded f = (case read_rx_fragment f of Inr fr \<Rightarrow> fr | Inl _ \<Rightarrow> undefined)"

text \<open>Whatever the order of the relayed frames, the handlers take from them exactly the fragments of the packet.\<close>

lemma relayed_frames:
  assumes "0 < mtu" "mtu \<le> 180" "length msg \<le> 1500" "length header = 11"
    and "mset frames = mset (map (relayed src header \<circ> fragment_frame a tx_options p_id) (fragments mtu 0 msg))"
  shows "f \<in> set frames \<Longrightarrow> read_rx_fragment f = Inr (decoded f) \<and> fr_key (decoded f) = (src, p_id AND 0xfff)
      \<and> (\<exists>h. read_rx_header f = Inr h \<and> rh_src_add h = src)"
    and "mset (map content (own (src, p_id AND 0xfff) (map decoded frames))) = mset (fragments mtu 0 msg)"
proof -
  let ?relay = "relayed src header \<circ> fragment_frame a tx_options p_id"
  have rd: "read_rx_fragment (?relay f) = Inr \<lparr>fr_src_add = src, fr_packet_id = p_id AND 0xfff, fr_bytes = fst (snd f),
      fr_offset = fst f, fr_last = snd (snd f)\<rparr>" if f: "f \<in> set (fragments mtu 0 msg)" for f
    using fragments_piece [of "fst f" "fst (snd f)" "snd (snd f)" mtu 0 msg] fragments_le [OF f assms(1)] f assms(1-3)
      relayed_fragment [OF assms(4), of "fst f" "fst (snd f)" src a tx_options p_id "snd (snd f)"]
    by (auto simp: piece_of_def)
  have mem: "set frames = ?relay ` set (fragments mtu 0 msg)" using arg_cong [OF assms(5), of set_mset] by simp
  show all: "read_rx_fragment f = Inr (decoded f) \<and> fr_key (decoded f) = (src, p_id AND 0xfff)
      \<and> (\<exists>h. read_rx_header f = Inr h \<and> rh_src_add h = src)" if "f \<in> set frames" for f
    using that rd relayed_header [OF assms(4)] by (fastforce simp: mem decoded_def fr_key_def)
  have "map (content \<circ> decoded \<circ> ?relay) (fragments mtu 0 msg) = fragments mtu 0 msg"
    by (rule map_idI) (use rd in \<open>auto simp: decoded_def content_def\<close>)
  then have "mset (map content (map decoded frames)) = mset (fragments mtu 0 msg)"
    using arg_cong [OF assms(5), of "image_mset (content \<circ> decoded)"]
    by (simp add: multiset.map_comp comp_assoc flip: mset_map)
  moreover have "own (src, p_id AND 0xfff) (map decoded frames) = map decoded frames"
    using all by (simp add: filter_id_conv)
  ultimately show "mset (map content (own (src, p_id AND 0xfff) (map decoded frames))) = mset (fragments mtu 0 msg)" by simp
qed

text \<open>All frames but the last are stored without completing the packet.\<close>

lemma frames_before_last:
  assumes "packet_at s (src, pid) = None" "mallocs s = []" "length frames < length (io_clock s)" "msg \<noteq> []" "length msg \<le> 1500"
    and "length (reassembly_buffer s) = 1500" "\<forall>f \<in> set (frames @ [l]). fr_key (decoded f) = (src, pid)"
    and "mset (map content (own (src, pid) (map decoded (frames @ [l])))) = mset (fragments mtu 0 msg)"
  obtains rs t where "run_each reassembly_add_fragment (map decoded frames) s = Inr (rs, t)" "\<forall>r \<in> set rs. snd r = 0"
proof -
  let ?fs = "map decoded (frames @ [l])"
  have "length ?fs \<le> length (io_clock s)" "?fs \<noteq> []" "length msg \<le> length (reassembly_buffer s)" "fr_key (last ?fs) = (src, pid)"
    using assms(3,5,6,7) by simp_all
  from reassembly_any_order_run [OF assms(1,2) this(1) assms(4) this(3) assms(5,8) this(2,4)]
  obtain rs t' where run: "run_each reassembly_add_fragment ?fs s = Inr (rs, t')"
    and early: "\<forall>i < length ?fs - 1. fr_key (?fs ! i) = (src, pid) \<longrightarrow> rs ! i = (True, 0)" by blast
  from run obtain rs0 r t where pre: "run_each reassembly_add_fragment (map decoded frames) s = Inr (rs0, t)"
    and rs: "rs = rs0 @ [r]"
    unfolding map_append list.map run_each_snoc by auto
  have len: "length rs0 = length frames" using run_each_length [OF pre] by simp
  have "snd x = 0" if "x \<in> set rs0" for x
  proof -
    from that obtain i where i: "i < length rs0" "x = rs0 ! i" by (auto simp: in_set_conv_nth)
    with assms(7) len have "fr_key (?fs ! i) = (src, pid)" by (simp add: nth_append)
    with early [rule_format, of i] i len show ?thesis by (simp add: rs nth_append)
  qed
  with pre that show ?thesis by blast
qed

text \<open>C1: From one host to another. The frames that one host sends for a packet, delivered by the mesh
  to the other host in any order, make its handlers call the data callback exactly once, when the
  last of them arrives, with the bytes of the packet, byte for byte, and the address of the sender
  (garbage collection is off, as it is by default).\<close>

theorem end_to_end_delivery:
  fixes s :: "'z dsap_scheme"
  assumes "packet_at s (src, p_id AND 0xfff) = None" "mallocs s = []" "m_fragment_max_duration_s s = 0"
    and "m_data_cb s = Some c" "length (reassembly_buffer s) = 1500"
    and "0 < mtu" "mtu \<le> 180" "msg \<noteq> []" "length msg \<le> 1500" "length header = 11"
    and "mset frames = mset (map (relayed src header \<circ> fragment_frame a tx_options p_id) (fragments mtu 0 msg))"
    and "length frames \<le> length (io_clock s)"
  shows "\<exists>h u. rh_src_add h = src \<and> packet_at u (src, p_id AND 0xfff) = None
    \<and> run_each (\<lambda>f. dsap_data_rx_frag_indication_handler app f ts) frames s
      = andthen (andthen (app (data_call c msg (length msg) h ts)) (\<lambda>_. reassembly_garbage_collect))
          (\<lambda>_. ret (replicate (length frames) ())) u"
proof -
  let ?k = "(src, p_id AND 0xfff)"
  note frames = relayed_frames [OF assms(6,7,9-11)]
  from assms(11) fragments_nonempty [of mtu 0 msg] have "frames \<noteq> []" by auto
  then obtain pre l where split: "frames = pre @ [l]" by (cases frames rule: rev_cases) auto
  have key: "\<forall>f \<in> set (pre @ [l]). fr_key (decoded f) = ?k" and l: "length pre < length (io_clock s)" "l \<in> set frames"
    using frames(1) assms(12) by (auto simp: split)
  obtain rs t where run: "run_each reassembly_add_fragment (map decoded pre) s = Inr (rs, t)" "\<forall>r \<in> set rs. snd r = 0"
    using frames_before_last [OF assms(1,2) l(1) assms(8,9,5) key] frames(2) by (auto simp: split)
  have "\<forall>f \<in> set pre. read_rx_fragment f = Inr (decoded f) \<and> (\<exists>h. read_rx_header f = Inr h)"
    using frames(1) by (auto simp: split)
  note before = handlers_run [OF this run assms(3), of app ts]
  from frames(1) [OF l(2)] obtain h where
    h: "read_rx_fragment l = Inr (decoded l)" "read_rx_header l = Inr h" "rh_src_add h = src" by blast
  have "length (map decoded pre) < length (io_clock s)" "fr_key (decoded l) = ?k"
    "mset (map content (own ?k (map decoded pre @ [decoded l]))) = mset (fragments mtu 0 msg)"
    using l key frames(2) by (simp_all add: split)
  from fragments_delivered_run [OF assms(1,2) this(1) assms(8,9,5,4) run(1) h(2,1) this(2,3), of app ts]
  obtain u where u: "dsap_data_rx_frag_indication_handler app l ts t
      = andthen (app (data_call c msg (length msg) h ts)) (\<lambda>_. reassembly_garbage_collect) u"
    "packet_at u ?k = None" by blast
  have "run_each (\<lambda>f. dsap_data_rx_frag_indication_handler app f ts) frames s
      = andthen (\<lambda>s. andthen (app (data_call c msg (length msg) h ts)) (\<lambda>_. reassembly_garbage_collect) s)
          (\<lambda>_. ret (replicate (length frames) ())) u"
    unfolding split run_each_snoc using before u(1)
    by (simp add: andthen_def ret_def replicate_append_same split: sum.splits)
  with h(3) u(2) show ?thesis by blast
qed

theorem end_to_end_delivery_witness:
  "\<exists>s :: dsap. \<forall>a. run_each (\<lambda>f. dsap_data_rx_frag_indication_handler
        (\<lambda>c. halt (case c of Data_received cb bytes n src dst qos e0 e1 travel hops ts \<Rightarrow>
            if cb = 4 \<and> bytes = [8, 9, 5] \<and> n = 3 \<and> src = 1 then Exited else Undefined | _ \<Rightarrow> Undefined)) f 77)
      (rev (map (relayed 1 [2, 3, 0, 0, 0, 6, 21, 128, 0, 0, 0] \<circ> fragment_frame a 0 7) (fragments 2 0 [8, 9, 5]))) s
    = Inl Exited"
proof -
  define s where "s = quiet_dsap\<lparr>io_clock := [1, 2], m_data_cb := Some 4\<rparr>"
  let ?app = "\<lambda>c. halt (case c of Data_received cb bytes n src dst qos e0 e1 travel hops ts \<Rightarrow>
    if cb = 4 \<and> bytes = [8, 9, 5] \<and> n = 3 \<and> src = 1 then Exited else Undefined | _ \<Rightarrow> Undefined) :: (dsap, unit) prog"
  have h: "packet_at s (1, 7 AND 0xfff) = None" "mallocs s = []" "m_fragment_max_duration_s s = 0"
    "m_data_cb s = Some 4" "length (reassembly_buffer s) = 1500" "(0 :: nat) < 2" "(2 :: nat) \<le> 180"
    "[8, 9, 5 :: u8] \<noteq> []" "length [8, 9, 5 :: u8] \<le> 1500"
    "length [2, 3, 0, 0, 0, 6, 21, 128, 0, 0, 0 :: u8] = 11"
    by (simp_all add: s_def packet_at_def)
  have "run_each (\<lambda>f. dsap_data_rx_frag_indication_handler ?app f 77) (rev (map (relayed 1
      [2, 3, 0, 0, 0, 6, 21, 128, 0, 0, 0] \<circ> fragment_frame a 0 7) (fragments 2 0 [8, 9, 5]))) s = Inl Exited" for a
  proof -
    let ?frames = "rev (map (relayed 1 [2, 3, 0, 0, 0, 6, 21, 128, 0, 0, 0] \<circ> fragment_frame a 0 7)
      (fragments 2 0 [8, 9, 5]))"
    have "length ?frames \<le> length (io_clock s)" by (simp add: s_def fragments.simps)
    with end_to_end_delivery [OF h, of ?frames a 0 ?app 77] obtain hd u where "rh_src_add hd = 1"
      "run_each (\<lambda>f. dsap_data_rx_frag_indication_handler ?app f 77) ?frames s
        = andthen (andthen (?app (data_call 4 [8, 9, 5] (length [8, 9, 5 :: u8]) hd 77)) (\<lambda>_. reassembly_garbage_collect))
          (\<lambda>_. ret (replicate (length ?frames) ())) u"
      by auto
    then show ?thesis by (simp add: data_call_def halt_def)
  qed
  then show ?thesis by blast
qed

end
