(* ===== verification/Wpc_Attributes.thy ===== *)
theory Wpc_Attributes
  imports Dsap
begin

text \<open>
  The attribute functions of the public interface, \<^verbatim>\<open>lib/wpc/wpc.c\<close>: reading and writing the
  attributes of the configuration and management services, with the checks of the arguments and
  the conversion of values and of error codes. A result that the code stores through a pointer is a
  second component: the bytes stored for a pointer to bytes, \<^const>\<open>None\<close> for a value that is not
  stored.
\<close>

section \<open>Reading integers out of an attribute\<close>

text \<open>The local array \<^verbatim>\<open>att\<close> is given by its initialised prefix.\<close>

definition att_u16 :: "u8 list \<Rightarrow> nat \<Rightarrow> stop + u16" where
  "att_u16 att i = (case bytes_at att i 2 of Inl e \<Rightarrow> Inl e | Inr bs \<Rightarrow> uint16_decode_le bs)"

definition att_u32 :: "u8 list \<Rightarrow> nat \<Rightarrow> stop + u32" where
  "att_u32 att i = (case bytes_at att i 4 of Inl e \<Rightarrow> Inl e | Inr bs \<Rightarrow> uint32_decode_le bs)"

text \<open>The scheme that the reading functions share: convert the code, leave when it is not \<^verbatim>\<open>APP_RES_OK\<close>,
  else decode the local array.\<close>

definition read_bytes ::
  "('s, int \<times> u8 list) prog \<Rightarrow> ('s, app_res \<times> u8 list) prog" where
  "read_bytes request =
     andthen request (\<lambda>(res, att). ret (convert_error_code ATT_READ_ERROR_CODE_LUT res, att))"

definition read_value ::
  "('s, int \<times> u8 list) prog \<Rightarrow> (u8 list \<Rightarrow> stop + 'v) \<Rightarrow> ('s, app_res \<times> 'v option) prog" where
  "read_value request decode =
     andthen request (\<lambda>(res, att).
     let r = convert_error_code ATT_READ_ERROR_CODE_LUT res in
     if r \<noteq> APP_RES_OK then ret (r, None)
     else andthen (lift_sum (decode att)) (\<lambda>v. ret (APP_RES_OK, Some v)))"

definition write_value :: "('s, int) prog \<Rightarrow> ('s, app_res) prog" where
  "write_value request =
     andthen request (\<lambda>res. ret (convert_error_code ATT_WRITE_ERROR_CODE_LUT res))"

section \<open>Configuration attributes\<close>

definition WPC_get_role :: "('z wpc_int_scheme, app_res \<times> u8 list) prog" where
  "WPC_get_role = read_bytes (csap_attribute_read_request C_NODE_ROLE_ID 1)"

definition WPC_set_role :: "u8 \<Rightarrow> ('z wpc_int_scheme, app_res) prog" where
  "WPC_set_role role = write_value (csap_attribute_write_request C_NODE_ROLE_ID 1 [role])"

definition WPC_get_node_address :: "('z wpc_int_scheme, app_res \<times> u32 option) prog" where
  "WPC_get_node_address =
     read_value (csap_attribute_read_request C_NODE_ADDRESS_ID 4) (\<lambda>att. att_u32 att 0)"

definition WPC_set_node_address :: "u32 \<Rightarrow> ('z wpc_int_scheme, app_res) prog" where
  "WPC_set_node_address add =
     write_value (csap_attribute_write_request C_NODE_ADDRESS_ID 4 (uint32_encode_le add))"

text \<open>The highest byte of the local array is set to 0 beforehand, the other three are read.\<close>

definition WPC_get_network_address :: "('z wpc_int_scheme, app_res \<times> u32 option) prog" where
  "WPC_get_network_address =
     read_value (csap_attribute_read_request C_NETWORK_ADDRESS_ID 3)
       (\<lambda>att. if length att < 3 then Inl Indeterminate else att_u32 (take 3 att @ [0]) 0)"

definition WPC_set_network_address :: "u32 \<Rightarrow> ('z wpc_int_scheme, app_res) prog" where
  "WPC_set_network_address add =
     (if drop_bit 24 add \<noteq> 0 then ret APP_RES_INVALID_VALUE
      else write_value (csap_attribute_write_request C_NETWORK_ADDRESS_ID 3 (uint32_encode_le add)))"

definition WPC_get_network_channel :: "('z wpc_int_scheme, app_res \<times> u8 list) prog" where
  "WPC_get_network_channel = read_bytes (csap_attribute_read_request C_NETWORK_CHANNEL_ID 1)"

definition WPC_set_network_channel :: "u8 \<Rightarrow> ('z wpc_int_scheme, app_res) prog" where
  "WPC_set_network_channel channel =
     write_value (csap_attribute_write_request C_NETWORK_CHANNEL_ID 1 [channel])"

definition WPC_get_pdu_buffer_size :: "('z wpc_int_scheme, app_res \<times> u8 list) prog" where
  "WPC_get_pdu_buffer_size = read_bytes (csap_attribute_read_request C_PDU_BUFFER_SIZE_ID 1)"

definition WPC_get_scratchpad_sequence :: "('z wpc_int_scheme, app_res \<times> u8 list) prog" where
  "WPC_get_scratchpad_sequence = read_bytes (csap_attribute_read_request C_SCRATCHPAD_SEQUENCE_ID 1)"

definition WPC_get_mesh_API_version :: "('z wpc_int_scheme, app_res \<times> u16 option) prog" where
  "WPC_get_mesh_API_version =
     read_value (csap_attribute_read_request C_MESH_API_VER_ID 2) (\<lambda>att. att_u16 att 0)"

text \<open>The loop over the four identifiers: the versions read so far are stored even when a later one
  fails.\<close>

primrec firmware_version_loop ::
  "u16 list \<Rightarrow> u16 list \<Rightarrow> ('z wpc_int_scheme, app_res \<times> u16 list) prog" where
  "firmware_version_loop [] version = ret (APP_RES_OK, version)"
| "firmware_version_loop (ident # idents) version =
     andthen (read_value (csap_attribute_read_request ident 2) (\<lambda>att. att_u16 att 0)) (\<lambda>(r, v).
     case v of None \<Rightarrow> ret (r, version)
     | Some x \<Rightarrow> firmware_version_loop idents (version @ [x]))"

definition WPC_get_firmware_version :: "('z wpc_int_scheme, app_res \<times> u16 list) prog" where
  "WPC_get_firmware_version =
     firmware_version_loop [C_FIRMWARE_MAJOR_ID, C_FIRMWARE_MINOR_ID, C_FIRMWARE_MAINT_ID, C_FIRMWARE_DEV_ID] []"

definition WPC_set_cipher_key :: "u8 list \<Rightarrow> ('z wpc_int_scheme, app_res) prog" where
  "WPC_set_cipher_key key = write_value (csap_attribute_write_request C_CIPHER_KEY_ID 16 key)"

text \<open>A key can be read back only in its error code: 5 means that access to it is denied.\<close>

definition WPC_is_cipher_key_set :: "('z wpc_int_scheme, app_res \<times> bool option) prog" where
  "WPC_is_cipher_key_set =
     andthen (csap_attribute_read_request C_CIPHER_KEY_ID 16) (\<lambda>(res, _).
     if res < 0 then ret (APP_RES_INTERNAL_ERROR, None) else ret (APP_RES_OK, Some (res = 5)))"

definition WPC_remove_cipher_key :: "('z wpc_int_scheme, app_res) prog" where
  "WPC_remove_cipher_key = WPC_set_cipher_key (replicate 16 0xFF)"

definition WPC_set_authentication_key :: "u8 list \<Rightarrow> ('z wpc_int_scheme, app_res) prog" where
  "WPC_set_authentication_key key = write_value (csap_attribute_write_request C_AUTH_KEY_ID 16 key)"

definition WPC_is_authentication_key_set :: "('z wpc_int_scheme, app_res \<times> bool option) prog" where
  "WPC_is_authentication_key_set =
     andthen (csap_attribute_read_request C_AUTH_KEY_ID 16) (\<lambda>(res, _).
     if res < 0 then ret (APP_RES_INTERNAL_ERROR, None) else ret (APP_RES_OK, Some (res = 5)))"

definition WPC_remove_authentication_key :: "('z wpc_int_scheme, app_res) prog" where
  "WPC_remove_authentication_key = WPC_set_authentication_key (replicate 16 0xFF)"

definition WPC_get_channel_limits :: "('z wpc_int_scheme, app_res \<times> (u8 \<times> u8) option) prog" where
  "WPC_get_channel_limits =
     read_value (csap_attribute_read_request C_CHANNEL_LIM_ID 2)
       (\<lambda>att. case (byte_at att 0, byte_at att 1) of (Inr a, Inr b) \<Rightarrow> Inr (a, b) | _ \<Rightarrow> Inl Indeterminate)"

definition FACT_RESET_ERROR_CODE_LUT :: "app_res list" where
  "FACT_RESET_ERROR_CODE_LUT =
     [APP_RES_OK, APP_RES_STACK_NOT_STOPPED, APP_RES_INTERNAL_ERROR, APP_RES_ACCESS_DENIED]"

definition WPC_do_factory_reset :: "('z wpc_int_scheme, app_res) prog" where
  "WPC_do_factory_reset =
     andthen csap_factory_reset_request (\<lambda>res. ret (convert_error_code FACT_RESET_ERROR_CODE_LUT res))"

definition WPC_get_app_config_data_size :: "('z wpc_int_scheme, app_res \<times> u8 list) prog" where
  "WPC_get_app_config_data_size = read_bytes (csap_attribute_read_request C_APP_CONFIG_DATA_SIZE_ID 1)"

definition WPC_get_hw_magic :: "('z wpc_int_scheme, app_res \<times> u16 option) prog" where
  "WPC_get_hw_magic = read_value (csap_attribute_read_request C_HW_MAGIC 2) (\<lambda>att. att_u16 att 0)"

definition WPC_get_stack_profile :: "('z wpc_int_scheme, app_res \<times> u16 option) prog" where
  "WPC_get_stack_profile = read_value (csap_attribute_read_request C_STACK_PROFILE 2) (\<lambda>att. att_u16 att 0)"

definition WPC_get_channel_map :: "('z wpc_int_scheme, app_res \<times> u32 option) prog" where
  "WPC_get_channel_map = read_value (csap_attribute_read_request C_CHANNEL_MAP 4) (\<lambda>att. att_u32 att 0)"

definition WPC_set_channel_map :: "u32 \<Rightarrow> ('z wpc_int_scheme, app_res) prog" where
  "WPC_set_channel_map channel_map =
     write_value (csap_attribute_write_request C_CHANNEL_MAP 4 (uint32_encode_le channel_map))"

definition RESERVED_CHANNELS_MAX_NUM_BYTES :: nat where "RESERVED_CHANNELS_MAX_NUM_BYTES = 16"

text \<open>The caller's bytes are cleared before they are read over.\<close>

definition WPC_get_reserved_channels :: "u8 \<Rightarrow> ('z wpc_int_scheme, app_res \<times> u8 list) prog" where
  "WPC_get_reserved_channels size_p =
     (if unat size_p > RESERVED_CHANNELS_MAX_NUM_BYTES then ret (APP_RES_INVALID_VALUE, [])
      else
        andthen (csap_attribute_read_request C_RESERVED_CHANNELS size_p) (\<lambda>(res, att).
        let channels = overlay att (replicate (unat size_p) 0) in
        if res = 4 then ret (APP_RES_INVALID_VALUE, channels)
        else ret (convert_error_code ATT_READ_ERROR_CODE_LUT res, channels)))"

definition WPC_set_reserved_channels :: "u8 list \<Rightarrow> u8 \<Rightarrow> ('z wpc_int_scheme, app_res) prog" where
  "WPC_set_reserved_channels channels size_p =
     (if unat size_p > RESERVED_CHANNELS_MAX_NUM_BYTES then ret APP_RES_INVALID_VALUE
      else write_value (csap_attribute_write_request C_RESERVED_CHANNELS size_p channels))"

text \<open>A key pair is two keys of 16 bytes and a sequence number, without padding.\<close>

record wpc_key_pair =
  kp_encryption :: "u8 list"
  kp_authentication :: "u8 list"
  kp_sequence_number :: u8

definition key_pair_bytes :: "wpc_key_pair \<Rightarrow> u8 list" where
  "key_pair_bytes kp = kp_encryption kp @ kp_authentication kp @ [kp_sequence_number kp]"

definition set_key_pair :: "u16 \<Rightarrow> u8 list \<Rightarrow> ('z wpc_int_scheme, app_res) prog" where
  "set_key_pair attribute_id val = write_value (csap_attribute_write_request attribute_id 33 val)"

definition WPC_set_network_key_pair :: "wpc_key_pair option \<Rightarrow> ('z wpc_int_scheme, app_res) prog" where
  "WPC_set_network_key_pair key_pair =
     (case key_pair of Some kp \<Rightarrow> set_key_pair C_NETWORK_KEY_PAIR_ID (key_pair_bytes kp)
      | None \<Rightarrow> ret APP_RES_INTERNAL_ERROR)"

definition WPC_set_management_key_pair :: "wpc_key_pair option \<Rightarrow> ('z wpc_int_scheme, app_res) prog" where
  "WPC_set_management_key_pair key_pair =
     (case key_pair of Some kp \<Rightarrow> set_key_pair C_MANAGEMENT_KEY_PAIR_ID (key_pair_bytes kp)
      | None \<Rightarrow> ret APP_RES_INTERNAL_ERROR)"

section \<open>Management attributes\<close>

definition read_single_byte_msap :: "u8 \<Rightarrow> ('z wpc_int_scheme, app_res \<times> u8 list) prog" where
  "read_single_byte_msap att = read_bytes (msap_attribute_read_request (ucast att) 1)"

definition WPC_get_stack_status :: "('z wpc_int_scheme, app_res \<times> u8 list) prog" where
  "WPC_get_stack_status = read_single_byte_msap (ucast MSAP_STACK_STATUS)"

definition WPC_get_PDU_buffer_usage :: "('z wpc_int_scheme, app_res \<times> u8 list) prog" where
  "WPC_get_PDU_buffer_usage = read_single_byte_msap (ucast MSAP_PDU_BUFFER_USAGE)"

definition WPC_get_PDU_buffer_capacity :: "('z wpc_int_scheme, app_res \<times> u8 list) prog" where
  "WPC_get_PDU_buffer_capacity = read_single_byte_msap (ucast MSAP_PDU_BUFFER_CAPACITY)"

definition WPC_get_remaining_energy :: "('z wpc_int_scheme, app_res \<times> u8 list) prog" where
  "WPC_get_remaining_energy = read_single_byte_msap (ucast MSAP_ENERGY)"

definition WPC_set_remaining_energy :: "u8 \<Rightarrow> ('z wpc_int_scheme, app_res) prog" where
  "WPC_set_remaining_energy energy = write_value (msap_attribute_write_request MSAP_ENERGY 1 [energy])"

definition WPC_get_autostart :: "('z wpc_int_scheme, app_res \<times> u8 list) prog" where
  "WPC_get_autostart = read_single_byte_msap (ucast MSAP_AUTOSTART)"

definition WPC_set_autostart :: "u8 \<Rightarrow> ('z wpc_int_scheme, app_res) prog" where
  "WPC_set_autostart enable = write_value (msap_attribute_write_request MSAP_AUTOSTART 1 [enable])"

definition WPC_get_route_count :: "('z wpc_int_scheme, app_res \<times> u8 list) prog" where
  "WPC_get_route_count = read_single_byte_msap (ucast MSAP_ROUTE_COUNT)"

definition WPC_get_system_time :: "('z wpc_int_scheme, app_res \<times> u32 option) prog" where
  "WPC_get_system_time =
     read_value (msap_attribute_read_request MSAP_SYSTEM_TIME 4)
       (\<lambda>att. case att_u32 att 0 of Inl e \<Rightarrow> Inl e | Inr t \<Rightarrow> Inr (internal_time_to_s t))"

definition two_u16 :: "u8 list \<Rightarrow> stop + (u16 \<times> u16)" where
  "two_u16 att =
     (case (att_u16 att 0, att_u16 att 2) of (Inr a, Inr b) \<Rightarrow> Inr (a, b) | _ \<Rightarrow> Inl Indeterminate)"

definition WPC_get_access_cycle_range :: "('z wpc_int_scheme, app_res \<times> (u16 \<times> u16) option) prog" where
  "WPC_get_access_cycle_range = read_value (msap_attribute_read_request MSAP_ACCESS_CYCLE_RANGE 4) two_u16"

definition WPC_set_access_cycle_range :: "u16 \<Rightarrow> u16 \<Rightarrow> ('z wpc_int_scheme, app_res) prog" where
  "WPC_set_access_cycle_range min_ac max_ac =
     write_value (msap_attribute_write_request MSAP_ACCESS_CYCLE_RANGE 4
       (uint16_encode_le min_ac @ uint16_encode_le max_ac))"

definition WPC_get_access_cycle_limits :: "('z wpc_int_scheme, app_res \<times> (u16 \<times> u16) option) prog" where
  "WPC_get_access_cycle_limits = read_value (msap_attribute_read_request MSAP_ACCESS_CYCLE_LIMITS 4) two_u16"

definition WPC_get_current_access_cycle :: "('z wpc_int_scheme, app_res \<times> u16 option) prog" where
  "WPC_get_current_access_cycle =
     read_value (msap_attribute_read_request MSAP_CURRENT_ACCESS_CYCLE 2) (\<lambda>att. att_u16 att 0)"

definition WPC_get_scratchpad_block_max :: "('z wpc_int_scheme, app_res \<times> u8 list) prog" where
  "WPC_get_scratchpad_block_max = read_single_byte_msap (ucast MSAP_SCRATCHPAD_BLOCK_MAX)"

definition WPC_get_scratchpad_size :: "('z wpc_int_scheme, app_res \<times> u32 option) prog" where
  "WPC_get_scratchpad_size =
     read_value (msap_attribute_read_request MSAP_SCRATCHPAD_NUM_BYTES 4) (\<lambda>att. att_u32 att 0)"

section \<open>Multicast groups\<close>

text \<open>The loop over the ten slots, with \<^verbatim>\<open>k\<close> slots left: slots beyond the caller's \<^verbatim>\<open>num\<close> are skipped.\<close>

primrec get_groups_loop :: "nat \<Rightarrow> nat \<Rightarrow> nat \<Rightarrow> u8 list \<Rightarrow> stop + u32 list" where
  "get_groups_loop 0 n num groups = Inr []"
| "get_groups_loop (Suc k) n num groups =
     (if n < num then
        (case att_u32 groups (4 * n) of Inl e \<Rightarrow> Inl e
         | Inr addr \<Rightarrow>
           (case get_groups_loop k (n + 1) num groups of Inl e \<Rightarrow> Inl e
            | Inr addrs \<Rightarrow> Inr ((if addr \<noteq> 0 then addr OR 0x80000000 else addr) # addrs)))
      else get_groups_loop k (n + 1) num groups)"

text \<open>The result lists the addresses stored in the caller's list and the number of slots.\<close>

definition WPC_get_multicast_groups ::
  "u8 \<Rightarrow> ('z wpc_int_scheme, app_res \<times> (u32 list \<times> u8) option) prog" where
  "WPC_get_multicast_groups num_addr =
     read_value (msap_attribute_read_request MSAP_MULTICAST_GROUPS (of_nat (4 * MAXIMUM_NUMBER_OF_MULTICAST_GROUPS)))
       (\<lambda>groups. case get_groups_loop MAXIMUM_NUMBER_OF_MULTICAST_GROUPS 0 (unat num_addr) groups of
          Inl e \<Rightarrow> Inl e | Inr addrs \<Rightarrow> Inr (addrs, of_nat MAXIMUM_NUMBER_OF_MULTICAST_GROUPS))"

text \<open>\<^const>\<open>None\<close> is the early return for an address that is not a multicast address.\<close>

primrec set_groups_loop :: "nat \<Rightarrow> nat \<Rightarrow> u32 list \<Rightarrow> u8 list \<Rightarrow> stop + u8 list option" where
  "set_groups_loop 0 n addr_list groups = Inr (Some groups)"
| "set_groups_loop (Suc k) n addr_list groups =
     (case peek addr_list (int n) of Inl e \<Rightarrow> Inl e
      | Inr addr \<Rightarrow>
        if addr = 0 then set_groups_loop k (n + 1) addr_list groups
        else if addr AND 0xff000000 \<noteq> 0x80000000 then Inr None
        else set_groups_loop k (n + 1) addr_list (blit groups (4 * n) (uint32_encode_le (addr AND 0x00ffffff))))"

definition WPC_set_multicast_groups :: "u32 list \<Rightarrow> u8 \<Rightarrow> ('z wpc_int_scheme, app_res) prog" where
  "WPC_set_multicast_groups addr_list num_addr =
     (if unat num_addr > MAXIMUM_NUMBER_OF_MULTICAST_GROUPS then ret APP_RES_INVALID_VALUE
      else
        andthen (lift_sum (set_groups_loop (unat num_addr) 0 addr_list
            (replicate (4 * MAXIMUM_NUMBER_OF_MULTICAST_GROUPS) 0)))
          (\<lambda>groups. case groups of None \<Rightarrow> ret APP_RES_INVALID_VALUE
           | Some bytes \<Rightarrow>
             write_value (msap_attribute_write_request MSAP_MULTICAST_GROUPS
               (of_nat (4 * MAXIMUM_NUMBER_OF_MULTICAST_GROUPS)) bytes)))"

end
