(* ===== verification/Wpc_Api.thy ===== *)
theory Wpc_Api
  imports Wpc_Attributes
begin

text \<open>
  The rest of the public interface of \<^verbatim>\<open>lib/wpc/wpc.c\<close>: initialisation, starting and stopping the
  stack, the application configuration, the scratchpad with its upload and download loops,
  neighbours, sending of data, configuration data items and the registration of callbacks.
\<close>

section \<open>State and initialisation\<close>

record wpc = dsap +
  m_timeout_after_stop_task_s :: u32

definition DEFAULT_TIMEOUT_AFTER_STOP_STACK_S :: u32 where "DEFAULT_TIMEOUT_AFTER_STOP_STACK_S = 60"

definition WPC_initialize ::
  "('z dsap_scheme, int) prog \<Rightarrow> ('z dsap_scheme, int) prog \<Rightarrow> ('z dsap_scheme, bool) prog \<Rightarrow> ('z dsap_scheme, unit) prog
     \<Rightarrow> ('z dsap_scheme, app_res) prog" where
  "WPC_initialize serial_open slip_init platform_init serial_close =
     andthen (WPC_Int_initialize serial_open slip_init platform_init serial_close dsap_init) (\<lambda>res.
     andthen (if res = 0 then WPC_Int_set_mtu else ret ()) (\<lambda>_.
     ret (if res = 0 then APP_RES_OK else APP_RES_INTERNAL_ERROR)))"

definition WPC_close ::
  "('z wpc_int_scheme, unit) prog \<Rightarrow> ('z wpc_int_scheme, unit) prog \<Rightarrow> ('z wpc_int_scheme, unit) prog" where
  "WPC_close platform_close serial_close = WPC_Int_close platform_close serial_close"

definition WPC_set_max_poll_fail_duration :: "u32 \<Rightarrow> ('z wpc_scheme, app_res) prog" where
  "WPC_set_max_poll_fail_duration duration_s =
     andthen (WPC_Int_set_timeout_s_no_answer duration_s) (\<lambda>ok.
     if ok then
       andthen (modify (\<lambda>s. s\<lparr>m_timeout_after_stop_task_s := duration_s\<rparr>)) (\<lambda>_. ret APP_RES_OK)
     else ret APP_RES_ACCESS_DENIED)"

definition WPC_set_max_fragment_duration :: "u32 \<Rightarrow> ('z dsap_scheme, app_res) prog" where
  "WPC_set_max_fragment_duration duration_s =
     andthen (dsap_set_max_fragment_duration duration_s) (\<lambda>ok.
     ret (if ok then APP_RES_OK else APP_RES_ACCESS_DENIED))"

section \<open>Application configuration and sink cost\<close>

definition APP_CONFIG_READ_ERROR_CODE_LUT :: "app_res list" where
  "APP_CONFIG_READ_ERROR_CODE_LUT = [APP_RES_OK, APP_RES_NO_CONFIG, APP_RES_ACCESS_DENIED]"

definition WPC_get_app_config_data ::
  "u8 \<Rightarrow> ('z wpc_int_scheme, app_res \<times> (u8 \<times> u16 \<times> u8 list) option) prog" where
  "WPC_get_app_config_data size_p =
     andthen WPC_get_app_config_data_size (\<lambda>(max_size_res, att).
     if max_size_res \<noteq> APP_RES_OK then ret (max_size_res, None)
     else
       andthen (lift_sum (byte_at att 0)) (\<lambda>max_size.
       if size_p < max_size then ret (APP_RES_INVALID_VALUE, None)
       else
         andthen (msap_app_config_data_read_request size_p) (\<lambda>(res, conf).
         let r = convert_error_code APP_CONFIG_READ_ERROR_CODE_LUT res in
         if r \<noteq> APP_RES_OK then ret (r, None)
         else
           (case conf of None \<Rightarrow> halt Indeterminate
            | Some (seq, interval_le, config) \<Rightarrow>
              andthen (lift_sum (uint16_decode_le (host_store16 interval_le))) (\<lambda>interval.
              ret (APP_RES_OK, Some (seq, interval, config)))))))"

definition APP_CONFIG_WRITE_ERROR_CODE_LUT :: "app_res list" where
  "APP_CONFIG_WRITE_ERROR_CODE_LUT = [APP_RES_OK, APP_RES_NODE_NOT_A_SINK,
     APP_RES_INVALID_DIAG_INTERVAL, APP_RES_INVALID_SEQ, APP_RES_ACCESS_DENIED]"

definition WPC_set_app_config_data ::
  "u8 \<Rightarrow> u16 \<Rightarrow> u8 list \<Rightarrow> u8 \<Rightarrow> ('z wpc_int_scheme, app_res) prog" where
  "WPC_set_app_config_data seq interval config size_p =
     andthen (lift_sum (host_load16 (uint16_encode_le interval))) (\<lambda>interval_le.
     andthen WPC_get_app_config_data_size (\<lambda>(max_size_res, att).
     if max_size_res \<noteq> APP_RES_OK then ret max_size_res
     else
       andthen (lift_sum (byte_at att 0)) (\<lambda>max_size.
       if size_p > max_size then ret APP_RES_INVALID_VALUE
       else
         andthen (msap_app_config_data_write_request seq interval_le config size_p) (\<lambda>res.
         ret (convert_error_code APP_CONFIG_WRITE_ERROR_CODE_LUT res)))))"

definition SINK_COST_ERROR_CODE_LUT :: "app_res list" where
  "SINK_COST_ERROR_CODE_LUT = [APP_RES_OK, APP_RES_NODE_NOT_A_SINK, APP_RES_ACCESS_DENIED]"

definition WPC_set_sink_cost :: "u8 \<Rightarrow> ('z wpc_int_scheme, app_res) prog" where
  "WPC_set_sink_cost cost =
     andthen (msap_sink_cost_write_request cost) (\<lambda>res. ret (convert_error_code SINK_COST_ERROR_CODE_LUT res))"

definition WPC_get_sink_cost :: "('z wpc_int_scheme, app_res \<times> u8 option) prog" where
  "WPC_get_sink_cost =
     andthen msap_sink_cost_read_request (\<lambda>(res, cost). ret (convert_error_code SINK_COST_ERROR_CODE_LUT res, cost))"

section \<open>Starting and stopping the stack\<close>

text \<open>Polling the status consumes a reading of the clock in every round, so the loop ends with the
  clock of the model.\<close>

interpretation clock_budget: request_invariant "\<lambda>s. length (io_clock s) \<le> n" for n
  by unfold_locales simp_all

lemma stack_status_clock:
  assumes "WPC_get_stack_status s = Inr (r, t)"
  shows "length (io_clock t) \<le> length (io_clock s)"
proof -
  have "keeps (\<lambda>u. length (io_clock u) \<le> length (io_clock s)) WPC_get_stack_status"
    unfolding WPC_get_stack_status_def read_single_byte_msap_def read_bytes_def
      msap_attribute_read_request_def attribute_read_request_def
    by (intro keeps_intros clock_budget.keeps_request)
  from keepsD [OF this _ assms] show ?thesis by simp
qed

function stack_status_loop :: "u64 \<Rightarrow> app_res \<Rightarrow> ('z wpc_int_scheme, app_res) prog" where
  "stack_status_loop timeout res s =
     (if res = APP_RES_OK then Inr (res, s)
      else
        (case Platform_get_timestamp_ms_monotonic s of Inl e \<Rightarrow> Inl e
         | Inr (now, s1) \<Rightarrow>
           if now < timeout then
             (case WPC_get_stack_status s1 of Inl e \<Rightarrow> Inl e
              | Inr ((r, _), s2) \<Rightarrow> stack_status_loop timeout r s2)
           else Inr (res, s1)))"
  by pat_completeness auto

termination
  by (relation "measure (\<lambda>(_, _, s). length (io_clock s))")
    (auto simp: Platform_get_timestamp_ms_monotonic_def dest!: stack_status_clock split: list.splits)

declare stack_status_loop.simps [simp del]

text \<open>The parameter is an unsigned integer of 16 bits.\<close>

definition get_stack_status :: "u16 \<Rightarrow> ('z wpc_int_scheme, bool) prog" where
  "get_stack_status timeout_s =
     andthen Platform_get_timestamp_ms_monotonic (\<lambda>now.
     andthen (stack_status_loop (now + ucast timeout_s * 1000) APP_RES_INTERNAL_ERROR) (\<lambda>res.
     ret (res = APP_RES_OK)))"

definition WPC_start_stack ::
  "(app_call \<Rightarrow> ('z msap_scheme, unit) prog) \<Rightarrow> ('z msap_scheme, app_res) prog" where
  "WPC_start_stack app =
     andthen (msap_stack_start_request app 0) (\<lambda>res.
     if res < 0 then ret APP_RES_INTERNAL_ERROR
     else if res AND 1 = 1 then ret APP_RES_STACK_ALREADY_STARTED
     else if res AND 2 = 2 then ret APP_RES_NET_ADD_NOT_SET
     else if res AND 4 = 4 then ret APP_RES_NODE_ADD_NOT_SET
     else if res AND 8 = 8 then ret APP_RES_ROLE_NOT_SET
     else if res \<noteq> 0 then ret APP_RES_INTERNAL_ERROR
     else
       andthen (get_stack_status 2) (\<lambda>ok.
       ret (if ok then APP_RES_OK else APP_RES_INTERNAL_ERROR)))"

text \<open>The active wait, over the readings of the clock.\<close>

fun busy_wait :: "u64 \<Rightarrow> u64 list \<Rightarrow> stop + u64 list" where
  "busy_wait end_wait [] = Inl Blocked"
| "busy_wait end_wait (now # later) = (if now < end_wait then busy_wait end_wait later else Inr later)"

definition wait_until :: "u64 \<Rightarrow> ('z wpc_int_scheme, unit) prog" where
  "wait_until end_wait s =
     (case busy_wait end_wait (io_clock s) of Inl e \<Rightarrow> Inl e | Inr cs \<Rightarrow> Inr ((), s\<lparr>io_clock := cs\<rparr>))"

definition WPC_stop_stack :: "('z wpc_scheme, app_res) prog" where
  "WPC_stop_stack =
     andthen (WPC_Int_disable_poll_request True) (\<lambda>_.
     andthen msap_stack_stop_request (\<lambda>res.
     andthen
       (if res = 1 then ret APP_RES_STACK_ALREADY_STOPPED
        else if res = 128 then ret APP_RES_ACCESS_DENIED
        else
          andthen Platform_get_timestamp_ms_monotonic (\<lambda>now.
          andthen (wait_until (now + 500)) (\<lambda>_.
          andthen (gets m_timeout_after_stop_task_s) (\<lambda>timeout_s.
          andthen (get_stack_status (ucast timeout_s)) (\<lambda>ok.
          ret (if ok then APP_RES_OK else APP_RES_INTERNAL_ERROR))))))
       (\<lambda>f_res.
     andthen (WPC_Int_disable_poll_request False) (\<lambda>_. ret f_res))))"

section \<open>Scratchpad\<close>

record app_scratchpad_status =
  scrat_len :: u32
  scrat_crc :: u16
  scrat_seq_number :: u8
  scrat_type :: u8
  scrat_status :: u8
  processed_scrat_len :: u32
  processed_scrat_crc :: u16
  processed_scrat_seq_number :: u8
  firmware_memory_area_id :: u32
  firmware_major_ver :: u8
  firmware_minor_ver :: u8
  firmware_maint_ver :: u8
  firmware_dev_ver :: u8

definition convert_internal_to_app_scratchpad_status :: "u8 list \<Rightarrow> stop + app_scratchpad_status" where
  "convert_internal_to_app_scratchpad_status st =
     (case (att_u32 st 0, att_u16 st 4, byte_at st 6, byte_at st 7, byte_at st 8, att_u32 st 9, att_u16 st 13) of
        (Inr len, Inr crc, Inr seq, Inr type, Inr status, Inr plen, Inr pcrc) \<Rightarrow>
          (case (byte_at st 15, att_u32 st 16, byte_at st 20, byte_at st 21, byte_at st 22, byte_at st 23) of
             (Inr pseq, Inr area, Inr major, Inr minor, Inr maint, Inr dev) \<Rightarrow>
               Inr \<lparr>scrat_len = len, scrat_crc = crc, scrat_seq_number = seq, scrat_type = type,
                    scrat_status = status, processed_scrat_len = plen, processed_scrat_crc = pcrc,
                    processed_scrat_seq_number = pseq, firmware_memory_area_id = area,
                    firmware_major_ver = major, firmware_minor_ver = minor,
                    firmware_maint_ver = maint, firmware_dev_ver = dev\<rparr>
           | _ \<Rightarrow> Inl Indeterminate)
      | _ \<Rightarrow> Inl Indeterminate)"

definition WPC_get_local_scratchpad_status ::
  "('z wpc_int_scheme, app_res \<times> app_scratchpad_status option) prog" where
  "WPC_get_local_scratchpad_status =
     andthen msap_scratchpad_status_request (\<lambda>(res, internal_status).
     if res \<noteq> 0 then ret (APP_RES_INTERNAL_ERROR, None)
     else
       andthen (lift_sum (convert_internal_to_app_scratchpad_status internal_status)) (\<lambda>st.
       ret (APP_RES_OK, Some st)))"

definition SCRATCHPAD_LOCAL_START_ERROR_CODE_LUT :: "app_res list" where
  "SCRATCHPAD_LOCAL_START_ERROR_CODE_LUT = [APP_RES_OK, APP_RES_STACK_NOT_STOPPED,
     APP_RES_INVALID_VALUE, APP_RES_INTERNAL_ERROR, APP_RES_ACCESS_DENIED]"

definition WPC_start_local_scratchpad_update :: "u32 \<Rightarrow> u8 \<Rightarrow> ('z wpc_int_scheme, app_res) prog" where
  "WPC_start_local_scratchpad_update len seq =
     andthen (lift_sum (host_load32 (uint32_encode_le len))) (\<lambda>len_le.
     andthen (msap_scratchpad_start_request len_le seq) (\<lambda>res.
     ret (convert_error_code SCRATCHPAD_LOCAL_START_ERROR_CODE_LUT res)))"

definition SCRATCHPAD_LOCAL_BLOCK_ERROR_CODE_LUT :: "app_res list" where
  "SCRATCHPAD_LOCAL_BLOCK_ERROR_CODE_LUT = [APP_RES_OK, APP_RES_OK, APP_RES_DATA_ERROR,
     APP_RES_STACK_NOT_STOPPED, APP_RES_NO_SCRATCHPAD_START, APP_RES_INVALID_START_ADDRESS,
     APP_RES_INVALID_NUMBER_OF_BYTES, APP_RES_INVALID_SCRATCHPAD]"

definition block_size_of :: "u32 \<Rightarrow> u8 \<Rightarrow> u8" where
  "block_size_of remaining max_block_size =
     (if remaining > ucast max_block_size then max_block_size else ucast remaining)"

primrec upload_loop ::
  "nat \<Rightarrow> u32 \<Rightarrow> u8 list \<Rightarrow> u32 \<Rightarrow> u8 \<Rightarrow> u32 \<Rightarrow> ('z wpc_int_scheme, app_res) prog" where
  "upload_loop 0 len bytes start max_block_size loaded = halt OutOfFuel"
| "upload_loop (Suc fuel) len bytes start max_block_size loaded =
     (if loaded < len then
        let block_size = block_size_of (len - loaded) max_block_size in
        andthen (lift_sum (host_load32 (uint32_encode_le (start + loaded)))) (\<lambda>addr_le.
        andthen (msap_scratchpad_block_request addr_le block_size (drop (unat loaded) bytes)) (\<lambda>res.
        if res > 1 \<or> res < 0 then ret (convert_error_code SCRATCHPAD_LOCAL_BLOCK_ERROR_CODE_LUT res)
        else upload_loop fuel len bytes start max_block_size (loaded + ucast block_size)))
      else ret APP_RES_OK)"

definition WPC_upload_local_block_scratchpad ::
  "nat \<Rightarrow> u32 \<Rightarrow> u8 list \<Rightarrow> u32 \<Rightarrow> ('z wpc_int_scheme, app_res) prog" where
  "WPC_upload_local_block_scratchpad fuel len bytes start =
     andthen WPC_get_scratchpad_block_max (\<lambda>(app_res, att).
     if app_res \<noteq> APP_RES_OK then ret app_res
     else
       andthen (lift_sum (byte_at att 0)) (\<lambda>max_block_size.
       upload_loop fuel len bytes start max_block_size 0))"

definition WPC_upload_local_scratchpad ::
  "nat \<Rightarrow> u32 \<Rightarrow> u8 list \<Rightarrow> u8 \<Rightarrow> ('z wpc_int_scheme, app_res) prog" where
  "WPC_upload_local_scratchpad fuel len bytes seq =
     andthen (WPC_start_local_scratchpad_update len seq) (\<lambda>res.
     if res \<noteq> APP_RES_OK then ret res
     else WPC_upload_local_block_scratchpad fuel len bytes 0)"

definition SCRATCHPAD_CLEAR_LOCAL_ERROR_CODE_LUT :: "app_res list" where
  "SCRATCHPAD_CLEAR_LOCAL_ERROR_CODE_LUT = [APP_RES_OK, APP_RES_STACK_NOT_STOPPED, APP_RES_ACCESS_DENIED]"

definition WPC_clear_local_scratchpad :: "('z wpc_int_scheme, app_res) prog" where
  "WPC_clear_local_scratchpad =
     andthen msap_scratchpad_clear_request (\<lambda>res.
     ret (convert_error_code SCRATCHPAD_CLEAR_LOCAL_ERROR_CODE_LUT res))"

definition SCRATCHPAD_UPDATE_LOCAL_ERROR_CODE_LUT :: "app_res list" where
  "SCRATCHPAD_UPDATE_LOCAL_ERROR_CODE_LUT = [APP_RES_OK, APP_RES_STACK_NOT_STOPPED,
     APP_RES_NO_VALID_SCRATCHPAD, APP_RES_ACCESS_DENIED]"

definition WPC_update_local_scratchpad :: "('z wpc_int_scheme, app_res) prog" where
  "WPC_update_local_scratchpad =
     andthen msap_scratchpad_update_request (\<lambda>res.
     ret (convert_error_code SCRATCHPAD_UPDATE_LOCAL_ERROR_CODE_LUT res))"

definition TARGET_SCRATCHPAD_ERROR_CODE_LUT :: "app_res list" where
  "TARGET_SCRATCHPAD_ERROR_CODE_LUT = [APP_RES_OK, APP_RES_NODE_NOT_A_SINK, APP_RES_INVALID_VALUE,
     APP_RES_ACCESS_DENIED]"

definition WPC_write_target_scratchpad ::
  "u8 \<Rightarrow> u16 \<Rightarrow> u8 \<Rightarrow> u8 \<Rightarrow> ('z wpc_int_scheme, app_res) prog" where
  "WPC_write_target_scratchpad target_sequence target_crc action param =
     andthen (msap_scratchpad_target_write_request target_sequence target_crc action param) (\<lambda>res.
     ret (convert_error_code TARGET_SCRATCHPAD_ERROR_CODE_LUT res))"

definition WPC_read_target_scratchpad ::
  "('z wpc_int_scheme, app_res \<times> (u8 \<times> u16 \<times> u8 \<times> u8) option) prog" where
  "WPC_read_target_scratchpad =
     andthen msap_scratchpad_target_read_request (\<lambda>(res, target).
     ret (if res = 0 then APP_RES_OK else APP_RES_INTERNAL_ERROR, target))"

definition SCRATCHPAD_LOCAL_BLOCK_READ_ERROR_CODE_LUT :: "app_res list" where
  "SCRATCHPAD_LOCAL_BLOCK_READ_ERROR_CODE_LUT = [APP_RES_OK, APP_RES_STACK_NOT_STOPPED,
     APP_RES_INVALID_START_ADDRESS, APP_RES_INVALID_NUMBER_OF_BYTES, APP_RES_NO_VALID_SCRATCHPAD,
     APP_RES_ACCESS_DENIED]"

text \<open>The caller's buffer, byte by byte, \<^const>\<open>None\<close> being a byte without a determined value: copying
  \<^verbatim>\<open>n\<close> bytes out of a confirm copies what the node sent of them and leaves the rest undetermined. A
  confirm with another result than 0 copies nothing.\<close>

definition store_block :: "u8 option list \<Rightarrow> nat \<Rightarrow> nat \<Rightarrow> u8 list \<Rightarrow> stop + u8 option list" where
  "store_block buffer offset n data =
     (if offset + n \<le> length buffer
      then Inr (take offset buffer @ map Some (take n data) @ replicate (n - length data) None
                  @ drop (offset + n) buffer)
      else Inl Undefined)"

primrec download_loop ::
  "nat \<Rightarrow> u32 \<Rightarrow> u8 option list \<Rightarrow> u32 \<Rightarrow> u8 \<Rightarrow> u32
     \<Rightarrow> ('z wpc_int_scheme, app_res \<times> u8 option list) prog" where
  "download_loop 0 len buffer start max_block_size loaded = halt OutOfFuel"
| "download_loop (Suc fuel) len buffer start max_block_size loaded =
     (if loaded < len then
        let block_size = block_size_of (len - loaded) max_block_size in
        andthen (lift_sum (host_load32 (uint32_encode_le (start + loaded)))) (\<lambda>addr_le.
        andthen (msap_scratchpad_block_read_request addr_le block_size) (\<lambda>(res, data).
        andthen (if res = 0 then lift_sum (store_block buffer (unat loaded) (unat block_size) data)
                 else ret buffer) (\<lambda>buffer'.
        if res > 1 \<or> res < 0
        then ret (convert_error_code SCRATCHPAD_LOCAL_BLOCK_READ_ERROR_CODE_LUT res, buffer')
        else download_loop fuel len buffer' start max_block_size (loaded + ucast block_size))))
      else ret (APP_RES_OK, buffer))"

definition WPC_download_local_scratchpad ::
  "nat \<Rightarrow> u32 \<Rightarrow> u8 option list \<Rightarrow> u32 \<Rightarrow> ('z wpc_int_scheme, app_res \<times> u8 option list) prog" where
  "WPC_download_local_scratchpad fuel len buffer start =
     andthen WPC_get_scratchpad_block_max (\<lambda>(app_res, att).
     if app_res \<noteq> APP_RES_OK then ret (app_res, buffer)
     else
       andthen (lift_sum (byte_at att 0)) (\<lambda>max_block_size.
       download_loop fuel len buffer start max_block_size 0))"

section \<open>Neighbours\<close>

definition SCAN_NEIGHBORS_ERROR_CODE_LUT :: "app_res list" where
  "SCAN_NEIGHBORS_ERROR_CODE_LUT = [APP_RES_OK, APP_RES_STACK_IS_STOPPED, APP_RES_ACCESS_DENIED]"

definition WPC_start_scan_neighbors :: "('z wpc_int_scheme, app_res) prog" where
  "WPC_start_scan_neighbors =
     andthen msap_scan_nbors_request (\<lambda>res. ret (convert_error_code SCAN_NEIGHBORS_ERROR_CODE_LUT res))"

record app_nbor_info =
  nb_add :: u32
  nb_link_rel :: u8
  nb_norm_rssi :: u8
  nb_cost :: u8
  nb_channel :: u8
  nb_nbor_type :: u8
  nb_tx_power :: u8
  nb_rx_power :: u8
  nb_last_update :: u16

definition read_neighbor :: "u8 list \<Rightarrow> nat \<Rightarrow> stop + app_nbor_info" where
  "read_neighbor internal i =
     (let at = 1 + 13 * i in
      case (att_u32 internal at, byte_at internal (at + 4), byte_at internal (at + 5),
            byte_at internal (at + 6), byte_at internal (at + 7)) of
        (Inr add, Inr link_rel, Inr norm_rssi, Inr cost, Inr channel) \<Rightarrow>
          (case (byte_at internal (at + 8), byte_at internal (at + 9), byte_at internal (at + 10),
                 att_u16 internal (at + 11)) of
             (Inr nbor_type, Inr tx_power, Inr rx_power, Inr last_update) \<Rightarrow>
               Inr \<lparr>nb_add = add, nb_link_rel = link_rel, nb_norm_rssi = norm_rssi, nb_cost = cost,
                    nb_channel = channel, nb_nbor_type = nbor_type, nb_tx_power = tx_power,
                    nb_rx_power = rx_power, nb_last_update = last_update\<rparr>
           | _ \<Rightarrow> Inl Indeterminate)
      | _ \<Rightarrow> Inl Indeterminate)"

text \<open>The loop over the neighbours, \<^verbatim>\<open>k\<close> of them left: the number comes from the node, and index 8 is
  outside both arrays.\<close>

primrec convert_neighbors_loop :: "nat \<Rightarrow> nat \<Rightarrow> u8 list \<Rightarrow> stop + app_nbor_info list" where
  "convert_neighbors_loop 0 i internal = Inr []"
| "convert_neighbors_loop (Suc k) i internal =
     (if i \<ge> MAXIMUM_NUMBER_OF_NEIGHBOR then Inl Undefined
      else
        (case read_neighbor internal i of Inl e \<Rightarrow> Inl e
         | Inr nb \<Rightarrow>
           (case convert_neighbors_loop k (i + 1) internal of Inl e \<Rightarrow> Inl e
            | Inr nbs \<Rightarrow> Inr (nb # nbs))))"

definition convert_internal_to_app_neighbors_status :: "u8 list \<Rightarrow> stop + app_nbor_info list" where
  "convert_internal_to_app_neighbors_status internal =
     (case byte_at internal 0 of Inl e \<Rightarrow> Inl e
      | Inr number_of_neighbors \<Rightarrow> convert_neighbors_loop (unat number_of_neighbors) 0 internal)"

definition WPC_get_neighbors :: "('z wpc_int_scheme, app_res \<times> app_nbor_info list option) prog" where
  "WPC_get_neighbors =
     andthen msap_get_nbors_request (\<lambda>(res, internal_list).
     if res \<noteq> 0 then ret (APP_RES_INTERNAL_ERROR, None)
     else
       andthen (lift_sum (convert_internal_to_app_neighbors_status internal_list)) (\<lambda>nbs.
       ret (APP_RES_OK, Some nbs)))"

section \<open>Sending data\<close>

definition SEND_DATA_ERROR_CODE_LUT :: "app_res list" where
  "SEND_DATA_ERROR_CODE_LUT = [APP_RES_OK, APP_RES_STACK_IS_STOPPED, APP_RES_INVALID_VALUE,
     APP_RES_INVALID_VALUE, APP_RES_OUT_OF_MEMORY, APP_RES_UNKNOWN_DEST, APP_RES_INVALID_VALUE,
     APP_RES_INTERNAL_ERROR, APP_RES_INTERNAL_ERROR, APP_RES_INVALID_VALUE, APP_RES_ACCESS_DENIED]"

text \<open>An enumerated value of \<^verbatim>\<open>app_qos_e\<close> is an unsigned integer.\<close>

record app_message =
  am_bytes :: "u8 list"
  am_dst_addr :: u32
  am_on_data_sent_cb :: "callback option"
  am_buffering_delay :: u32
  am_pdu_id :: u16
  am_num_bytes :: nat
  am_src_ep :: u8
  am_dst_ep :: u8
  am_hop_limit :: u8
  am_qos :: u32
  am_is_unack_csma_ca :: bool

definition APP_QOS_HIGH :: u32 where "APP_QOS_HIGH = 1"

definition WPC_send_data_with_options :: "app_message \<Rightarrow> ('z dsap_scheme, app_res) prog" where
  "WPC_send_data_with_options message =
     andthen (lift_sum (host_load32 (uint32_encode_le (am_dst_addr message)))) (\<lambda>dst_addr_le.
     andthen (lift_sum (host_load16 (uint16_encode_le (am_pdu_id message)))) (\<lambda>pdu_id_le.
     andthen (lift_sum (host_load32 (uint32_encode_le (ms_to_internal_time (am_buffering_delay message)))))
       (\<lambda>buffering_delay_le.
     andthen (dsap_data_tx_request (am_bytes message) (am_num_bytes message)
       \<lparr>ta_pdu_id = pdu_id_le, ta_dest_add = dst_addr_le,
        ta_qos = (if am_qos message AND 0xff = APP_QOS_HIGH then 1 else 0),
        ta_src_ep = am_src_ep message, ta_dest_ep = am_dst_ep message,
        ta_buffering_delay = buffering_delay_le\<rparr>
       (am_on_data_sent_cb message) (am_is_unack_csma_ca message) (am_hop_limit message)) (\<lambda>res.
     ret (convert_error_code SEND_DATA_ERROR_CODE_LUT res)))))"

definition WPC_send_data ::
  "u8 list \<Rightarrow> nat \<Rightarrow> u16 \<Rightarrow> u32 \<Rightarrow> u32 \<Rightarrow> u8 \<Rightarrow> u8 \<Rightarrow> callback option \<Rightarrow> u32 \<Rightarrow> ('z dsap_scheme, app_res) prog" where
  "WPC_send_data bytes num_bytes pdu_id dst_addr qos src_ep dst_ep on_data_sent_cb buffering_delay =
     WPC_send_data_with_options \<lparr>am_bytes = bytes, am_dst_addr = dst_addr,
       am_on_data_sent_cb = on_data_sent_cb, am_buffering_delay = buffering_delay, am_pdu_id = pdu_id,
       am_num_bytes = num_bytes, am_src_ep = src_ep, am_dst_ep = dst_ep, am_hop_limit = 0,
       am_qos = qos, am_is_unack_csma_ca = False\<rparr>"

section \<open>Configuration data items\<close>

definition CDC_ITEM_SET_ERROR_CODE_LUT :: "app_res list" where
  "CDC_ITEM_SET_ERROR_CODE_LUT = [APP_RES_OK, APP_RES_NODE_NOT_A_SINK, APP_RES_INVALID_VALUE,
     APP_RES_OUT_OF_MEMORY, APP_RES_DATA_ERROR, APP_RES_OPERATION_NOT_SUPPORTED]"

definition WPC_set_config_data_item :: "u16 \<Rightarrow> u8 list \<Rightarrow> u8 \<Rightarrow> ('z wpc_int_scheme, app_res) prog" where
  "WPC_set_config_data_item endpoint payload_p size_p =
     andthen (msap_config_data_item_set_request endpoint payload_p size_p) (\<lambda>res.
     ret (convert_error_code CDC_ITEM_SET_ERROR_CODE_LUT res))"

definition CDC_ITEM_GET_ERROR_CODE_LUT :: "app_res list" where
  "CDC_ITEM_GET_ERROR_CODE_LUT = [APP_RES_OK, APP_RES_INVALID_VALUE, APP_RES_OPERATION_NOT_SUPPORTED]"

definition WPC_get_config_data_item ::
  "u16 \<Rightarrow> nat \<Rightarrow> ('z wpc_int_scheme, app_res \<times> (u8 list \<times> u8) option) prog" where
  "WPC_get_config_data_item endpoint payload_capacity =
     andthen (msap_config_data_item_get_request endpoint payload_capacity) (\<lambda>(res, item).
     ret (convert_error_code CDC_ITEM_GET_ERROR_CODE_LUT res, item))"

definition CDC_GET_ITEM_LIST_ERROR_CODE_LUT :: "app_res list" where
  "CDC_GET_ITEM_LIST_ERROR_CODE_LUT = [APP_RES_OK, APP_RES_OPERATION_NOT_SUPPORTED]"

text \<open>The capacity is a number of bytes. The result holds the bytes copied to the caller's list and the number of endpoints.\<close>

definition WPC_get_config_data_item_list ::
  "nat \<Rightarrow> ('z wpc_int_scheme, app_res \<times> (u8 list \<times> u8) option) prog" where
  "WPC_get_config_data_item_list endpoints_capacity =
     andthen (msap_config_data_item_list_items_request 0) (\<lambda>(msap_res, response).
     if msap_res < 0 then ret (APP_RES_INTERNAL_ERROR, None)
     else
       let res = convert_error_code CDC_GET_ITEM_LIST_ERROR_CODE_LUT msap_res in
       if res = APP_RES_OK then
         andthen (lift_sum (byte_at response 1)) (\<lambda>amount_endpoints.
         if unat amount_endpoints * 2 > endpoints_capacity then ret (APP_RES_INTERNAL_ERROR, None)
         else if unat amount_endpoints * 2 > MAXIMUM_CDC_ITEM_LIST_BYTE_COUNT
         then ret (APP_RES_INTERNAL_ERROR, None)
         else ret (res, Some (take (unat amount_endpoints * 2) (drop 2 response), amount_endpoints)))
       else ret (res, None))"

section \<open>Registration of callbacks\<close>

text \<open>A registration function converts the boolean result of its service.\<close>

definition registered :: "('s, bool) prog \<Rightarrow> app_res \<Rightarrow> ('s, app_res) prog" where
  "registered op refusal = andthen op (\<lambda>ok. ret (if ok then APP_RES_OK else refusal))"

definition WPC_register_for_data :: "callback option \<Rightarrow> ('z dsap_scheme, app_res) prog" where
  "WPC_register_for_data cb = registered (dsap_register_for_data cb) APP_RES_INVALID_VALUE"

definition WPC_unregister_for_data :: "('z dsap_scheme, app_res) prog" where
  "WPC_unregister_for_data = registered dsap_unregister_for_data APP_RES_INVALID_VALUE"

definition WPC_register_for_app_config_data :: "callback option \<Rightarrow> ('z msap_scheme, app_res) prog" where
  "WPC_register_for_app_config_data cb = registered (msap_register_for_app_config cb) APP_RES_ALREADY_REGISTERED"

definition WPC_unregister_from_app_config_data :: "('z msap_scheme, app_res) prog" where
  "WPC_unregister_from_app_config_data = registered msap_unregister_from_app_config APP_RES_NOT_REGISTERED"

definition WPC_register_for_scan_neighbors_done :: "callback option \<Rightarrow> ('z msap_scheme, app_res) prog" where
  "WPC_register_for_scan_neighbors_done cb =
     registered (msap_register_for_scan_neighbors_done cb) APP_RES_INVALID_VALUE"

definition WPC_unregister_from_scan_neighbors_done :: "('z msap_scheme, app_res) prog" where
  "WPC_unregister_from_scan_neighbors_done =
     registered msap_unregister_from_scan_neighbors_done APP_RES_INVALID_VALUE"

definition WPC_register_for_stack_status :: "callback option \<Rightarrow> ('z msap_scheme, app_res) prog" where
  "WPC_register_for_stack_status cb = registered (msap_register_for_stack_status cb) APP_RES_INVALID_VALUE"

definition WPC_unregister_from_stack_status :: "('z msap_scheme, app_res) prog" where
  "WPC_unregister_from_stack_status = registered msap_unregister_from_stack_status APP_RES_INVALID_VALUE"

definition WPC_register_for_config_data_item :: "callback option \<Rightarrow> ('z msap_scheme, app_res) prog" where
  "WPC_register_for_config_data_item cb =
     registered (msap_register_for_config_data_item cb) APP_RES_INVALID_VALUE"

definition WPC_unregister_from_config_data_item :: "('z msap_scheme, app_res) prog" where
  "WPC_unregister_from_config_data_item = registered msap_unregister_from_config_data_item APP_RES_INVALID_VALUE"

section \<open>Dispatch of indications\<close>

text \<open>\<^verbatim>\<open>dispatch_indication\<close> of \<^verbatim>\<open>wpc_internal.c\<close>: one case per primitive, any other is logged and
  dropped.\<close>

definition dispatch_indication ::
  "(app_call \<Rightarrow> ('z dsap_scheme, unit) prog) \<Rightarrow> u8 list \<Rightarrow> u64 \<Rightarrow> ('z dsap_scheme, unit) prog" where
  "dispatch_indication app frame timestamp_ms =
     andthen (lift_sum (byte_at frame 0)) (\<lambda>prim.
     if prim = DSAP_DATA_TX_INDICATION then dsap_data_tx_indication_handler app frame
     else if prim = DSAP_DATA_RX_INDICATION then dsap_data_rx_indication_handler app frame timestamp_ms
     else if prim = DSAP_DATA_RX_FRAG_INDICATION
     then dsap_data_rx_frag_indication_handler app frame timestamp_ms
     else if prim = MSAP_STACK_STATE_INDICATION then msap_stack_state_indication_handler app frame
     else if prim = MSAP_APP_CONFIG_DATA_RX_INDICATION
     then msap_app_config_data_rx_indication_handler app frame
     else if prim = MSAP_SCAN_NBORS_INDICATION then msap_scan_nbors_indication_handler app frame
     else if prim = MSAP_CONFIG_DATA_ITEM_RX_INDICATION
     then msap_config_data_item_rx_indication_handler app frame
     else ret ())"

section \<open>Uploading a scratchpad\<close>

text \<open>The specification: the data is cut into blocks of the node's maximal size; a block is sent in one
  frame with its address and its length. The node's result for a block is 0, or 1 for the last one.\<close>

definition block_frame :: "u32 \<Rightarrow> nat \<times> u8 list \<times> bool \<Rightarrow> wpc_frame" where
  "block_frame start = (\<lambda>(offset, bytes, _).
     new_request MSAP_SCRATCH_BLOCK_REQUEST (of_nat (5 + length bytes))
       (host_store32 (start + of_nat offset) @ of_nat (length bytes) # bytes))"

definition block_script :: "u32 \<Rightarrow> (nat \<times> u8 list \<times> bool) list \<Rightarrow> (wpc_frame \<times> u8 list) list" where
  "block_script start pieces =
     map (\<lambda>p. (block_frame start p, [if snd (snd p) then 1 else 0])) pieces"

lemma block_frame_short:
  assumes "length (fst (snd p)) \<le> 112"
  shows "short_request (block_frame start p)" "primitive_id (block_frame start p) = 0x18"
proof -
  have "unat (of_nat (5 + length (fst (snd p))) :: u8) = 5 + length (fst (snd p))"
    using assms by (intro unat_of_nat_u8) simp
  then show "short_request (block_frame start p)"
    using assms by (simp add: block_frame_def case_prod_unfold short_request_def request_filled_def
      MSAP_SCRATCH_BLOCK_REQUEST_def)
qed (simp add: block_frame_def case_prod_unfold MSAP_SCRATCH_BLOCK_REQUEST_def)

lemma block_request_frame:
  assumes "unat n \<le> 112" "unat n \<le> length bytes"
  shows "msap_scratchpad_block_request addr n bytes
    = andthen (WPC_Int_send_request_timeout (new_request MSAP_SCRATCH_BLOCK_REQUEST (of_nat (5 + unat n))
        (host_store32 addr @ of_nat (unat n) # take (unat n) bytes)) SCRATCHPAD_BLOCK_TIMEOUT_MS) confirm_result"
  using assms by (simp add: msap_scratchpad_block_request_def MAXIMUM_SCRATCHPAD_BLOCK_SIZE_def)

text \<open>The size of the next block is that of the first piece of the rest.\<close>

lemma block_size_piece:
  assumes "length rest < 4294967296" "rest \<noteq> []" "0 < max_size"
  shows "unat (block_size_of (of_nat (length rest)) max_size) = min (unat max_size) (length rest)"
proof -
  have r: "unat (of_nat (length rest) :: u32) = length rest" using assms(1) by (intro unat_of_nat_u32)
  have "(of_nat (length rest) > (ucast max_size :: u32)) = (unat max_size < length rest)"
    by (simp add: word_less_nat_alt r)
  moreover have "unat (ucast (of_nat (length rest) :: u32) :: u8) = length rest" if "length rest \<le> unat max_size"
  proof -
    have "length rest < 256" using that unat_u8_less [of max_size] by linarith
    then show ?thesis using r by (simp add: unsigned_ucast_eq take_bit_nat_eq_self)
  qed
  ultimately show ?thesis by (auto simp: block_size_of_def min_def not_less)
qed

text \<open>One round of the loop sends one block; the node answers 1 when it has all of the scratchpad.\<close>

lemma upload_round:
  assumes "len = of_nat (off + length rest)" "off + length rest < 4294967296" "rest \<noteq> []"
    and "0 < max_size" "unat max_size \<le> 112" "drop off bytes = rest @ after"
    and "p = (off, take (unat max_size) rest, length rest \<le> unat max_size)"
    and "dialogue ((block_frame start p, [r]) # script) s" "r = 0 \<or> r = 1"
  obtains t where "\<And>fuel. upload_loop (Suc fuel) len bytes start max_size (of_nat off) s
      = upload_loop fuel len bytes start max_size (of_nat (off + min (unat max_size) (length rest))) t"
    and "dialogue script t" "engine_config t = engine_config s" "req_frame_id t = req_frame_id s + 1"
    and "\<And>fs. io_tx t @ map wire_frame (numbered (req_frame_id t) fs)
      = io_tx s @ map wire_frame (numbered (req_frame_id s) (block_frame start p # fs))"
proof -
  have loaded: "unat (of_nat off :: u32) = off" using assms(2) by (intro unat_of_nat_u32) simp
  have ul: "unat len = off + length rest" using assms(1) unat_of_nat_u32 [OF assms(2)] by (simp del: of_nat_add)
  have less: "of_nat off < len" using assms(3) by (simp add: word_less_nat_alt loaded ul)
  have remaining: "len - of_nat off = of_nat (length rest)" using assms(1) by simp
  define n where "n = block_size_of (of_nat (length rest)) max_size"
  have n: "unat n = min (unat max_size) (length rest)"
    unfolding n_def using block_size_piece [of rest max_size] assms(2-4) by simp
  then have len_n: "unat n \<le> 112" "unat n \<le> length (drop off bytes)" "unat n = length (take (unat max_size) rest)"
    "take (unat n) (drop off bytes) = take (unat max_size) rest"
    using assms(5,6) by (simp_all add: min_def)
  have f: "msap_scratchpad_block_request (start + of_nat off) n (drop off bytes)
      = andthen (WPC_Int_send_request_timeout (block_frame start p) SCRATCHPAD_BLOCK_TIMEOUT_MS) confirm_result"
    unfolding block_request_frame [OF len_n(1,2)] len_n(4) assms(7) using len_n(3)
    by (simp only: block_frame_def prod.case)
  have "length (fst (snd p)) \<le> 112" using assms(5,7) by simp
  note short = block_frame_short [OF this, of start]
  have "primitive_id (block_frame start p) < 0x80" "length [r] \<le> 200" using short(2) by simp_all
  note step = dialogue_Cons [OF assms(8) short(1) this, where timeout = SCRATCHPAD_BLOCK_TIMEOUT_MS]
  let ?c = "confirm_bytes (block_frame start p) (req_frame_id s) [r]"
  define t where "t = answered (sent_bytes (block_frame start p) s) ?c SCRATCHPAD_BLOCK_TIMEOUT_MS s"
  note step = step [folded t_def]
  have req: "msap_scratchpad_block_request (start + of_nat off) n (drop off bytes) s = Inr (int (unat r), t)"
    unfolding f using step(1)
    by (simp add: prog_simps confirm_result_def generic_confirm_def pl_u8_def byte_at_def confirm_bytes_def)
  have r: "\<not> (int (unat r) > 1 \<or> int (unat r) < 0)" using assms(9) by auto
  have le: "host_load32 (uint32_encode_le x) = Inr x" for x by (simp add: host_simps le32.dec_exact)
  have "of_nat off + (ucast n :: u32) = of_nat (off + unat n)"
    by (simp add: word_unat_eq_iff unat_word_ariths unat_of_nat)
  then have run: "upload_loop (Suc fuel) len bytes start max_size (of_nat off) s
      = upload_loop fuel len bytes start max_size (of_nat (off + min (unat max_size) (length rest))) t" for fuel
    using less req r by (simp add: remaining n_def [symmetric] loaded le Let_def prog_simps n del: of_nat_add)
  have "io_tx t @ map wire_frame (numbered (req_frame_id t) fs)
      = io_tx s @ map wire_frame (numbered (req_frame_id s) (block_frame start p # fs))" for fs
    unfolding step(3,4) by simp
  with that run step(2,4,5) show ?thesis by blast
qed

lemma upload_loop_run:
  assumes "len = of_nat (off + length rest)" "off + length rest < 4294967296" "rest \<noteq> []"
    and "0 < max_size" "unat max_size \<le> 112" "drop off bytes = rest @ after"
    and "length (fragments (unat max_size) off rest) < fuel"
    and "dialogue (block_script start (fragments (unat max_size) off rest) @ later) s"
  shows "\<exists>t. upload_loop fuel len bytes start max_size (of_nat off) s = Inr (APP_RES_OK, t)
    \<and> io_tx t = io_tx s @ map wire_frame (numbered (req_frame_id s)
        (map (block_frame start) (fragments (unat max_size) off rest)))
    \<and> engine_config t = engine_config s \<and> dialogue later t
    \<and> req_frame_id t = req_frame_id s + of_nat (length (fragments (unat max_size) off rest))"
  using assms
proof (induction fuel arbitrary: off rest s)
  case (Suc fuel)
  let ?m = "unat max_size"
  have m: "0 < ?m" using Suc.prems(4) by (simp add: word_less_nat_alt)
  let ?p = "(off, take ?m rest, length rest \<le> ?m)" and ?r = "if length rest \<le> ?m then 1 else 0 :: u8"
  let ?next = "if length rest \<le> ?m then [] else fragments ?m (off + ?m) (drop ?m rest)"
  have head: "fragments ?m off rest = ?p # ?next" using m by (simp add: fragments.simps [of ?m off rest])
  have "dialogue ((block_frame start ?p, [?r]) # block_script start ?next @ later) s"
    using Suc.prems(8) unfolding head by (simp add: block_script_def)
  then obtain t where step: "\<And>fuel. upload_loop (Suc fuel) len bytes start max_size (of_nat off) s
      = upload_loop fuel len bytes start max_size (of_nat (off + min ?m (length rest))) t"
    "dialogue (block_script start ?next @ later) t" "engine_config t = engine_config s"
    "req_frame_id t = req_frame_id s + 1" "\<And>fs. io_tx t @ map wire_frame (numbered (req_frame_id t) fs)
      = io_tx s @ map wire_frame (numbered (req_frame_id s) (block_frame start ?p # fs))"
    by (rule upload_round [OF Suc.prems(1-6) refl]) simp_all
  show ?case
  proof (cases "length rest \<le> ?m")
    case True
    then have "of_nat (off + min ?m (length rest)) = len" "fuel \<noteq> 0" using Suc.prems(1,7) head by (simp_all add: min_def)
    then have "upload_loop (Suc fuel) len bytes start max_size (of_nat off) s = Inr (APP_RES_OK, t)"
      unfolding step(1) by (cases fuel) (simp_all add: ret_def)
    then show ?thesis unfolding head using True step(2-4) step(5) [of "[]"] by (simp add: block_script_def)
  next
    case False
    have "\<exists>u. upload_loop fuel len bytes start max_size (of_nat (off + ?m)) t = Inr (APP_RES_OK, u)
      \<and> io_tx u = io_tx t @ map wire_frame (numbered (req_frame_id t)
          (map (block_frame start) (fragments ?m (off + ?m) (drop ?m rest))))
      \<and> engine_config u = engine_config t \<and> dialogue later u
      \<and> req_frame_id u = req_frame_id t + of_nat (length (fragments ?m (off + ?m) (drop ?m rest)))"
    proof (rule Suc.IH [OF _ _ _ Suc.prems(4,5)])
      show "len = of_nat (off + ?m + length (drop ?m rest))" using Suc.prems(1) False by simp
      show "drop (off + ?m) bytes = drop ?m rest @ after"
        using arg_cong [OF Suc.prems(6), of "drop ?m"] False by (simp add: add.commute)
      show "length (fragments ?m (off + ?m) (drop ?m rest)) < fuel" using Suc.prems(7) head False by simp
      show "dialogue (block_script start (fragments ?m (off + ?m) (drop ?m rest)) @ later) t"
        using step(2) False by simp
    qed (use False Suc.prems(2) in simp_all)
    moreover have "min ?m (length rest) = ?m" using False by simp
    ultimately show ?thesis unfolding step(1) head using False step(3,4) step(5) by (auto simp: add.assoc)
  qed
qed simp

text \<open>Reading a single byte of the management service when the node answers.\<close>

abbreviation byte_query :: "u8 \<Rightarrow> wpc_frame" where
  "byte_query att \<equiv> new_request MSAP_ATTRIBUTE_READ_REQUEST 2 (uint16_encode_le (ucast att))"

lemma single_byte_run:
  assumes "dialogue ((byte_query att, [0, i0, i1, 1, v]) # script) s"
  obtains t where "read_single_byte_msap att s = Inr ((APP_RES_OK, [v]), t)" "dialogue script t"
    "io_tx t = io_tx s @ map wire_frame (numbered (req_frame_id s) [byte_query att])"
    "req_frame_id t = req_frame_id s + 1" "engine_config t = engine_config s"
proof -
  have "short_request (byte_query att)" "primitive_id (byte_query att) < 0x80" "length [0, i0, i1, 1, v] \<le> 200"
    by (simp_all add: short_new_request MSAP_ATTRIBUTE_READ_REQUEST_def)
  note step = dialogue_Cons [OF assms this, where timeout = TIMEOUT_CONFIRM_MS]
  have "read_single_byte_msap att s = Inr ((APP_RES_OK, [v]), answered (sent_bytes (byte_query att) s)
      (confirm_bytes (byte_query att) (req_frame_id s) [0, i0, i1, 1, v]) TIMEOUT_CONFIRM_MS s)"
    using step(1)
    by (simp add: read_single_byte_msap_def read_bytes_def msap_attribute_read_request_def attribute_read_request_def
        WPC_Int_send_request_def prog_simps attribute_read_confirm_def confirm_bytes_def pl_u8_def byte_at_def
        pl_copy_def convert_error_code_def ATT_READ_ERROR_CODE_LUT_def)
  with step(2-5) that show ?thesis by simp
qed

abbreviation start_update :: "u32 \<Rightarrow> u8 \<Rightarrow> wpc_frame" where
  "start_update len seq \<equiv> new_request MSAP_SCRATCH_START_REQUEST 5 (host_store32 len @ [seq])"

lemma start_update_run:
  assumes "dialogue ((start_update len seq, [0]) # script) s"
  obtains t where "WPC_start_local_scratchpad_update len seq s = Inr (APP_RES_OK, t)" "dialogue script t"
    "io_tx t = io_tx s @ map wire_frame (numbered (req_frame_id s) [start_update len seq])"
    "req_frame_id t = req_frame_id s + 1" "engine_config t = engine_config s"
proof -
  let ?start = "start_update len seq"
  have "short_request ?start" "primitive_id ?start < 0x80" "length [0 :: u8] \<le> 200"
    by (simp_all add: short_new_request MSAP_SCRATCH_START_REQUEST_def)
  note step = dialogue_Cons [OF assms this, where timeout = SCRATCHPAD_START_TIMEOUT_MS]
  have "WPC_start_local_scratchpad_update len seq s = Inr (APP_RES_OK,
      answered (sent_bytes ?start s) (confirm_bytes ?start (req_frame_id s) [0]) SCRATCHPAD_START_TIMEOUT_MS s)"
    using step(1)
    by (simp add: WPC_start_local_scratchpad_update_def host_simps le32.dec_exact msap_scratchpad_start_request_def
        prog_simps confirm_result_def generic_confirm_def pl_u8_def byte_at_def confirm_bytes_def
        convert_error_code_def SCRATCHPAD_LOCAL_START_ERROR_CODE_LUT_def)
  with step(2-5) that show ?thesis by simp
qed

definition block_dialogue :: "u8 \<Rightarrow> u32 \<Rightarrow> u8 list \<Rightarrow> (wpc_frame \<times> u8 list) list" where
  "block_dialogue max_size start data =
     (byte_query (ucast MSAP_SCRATCHPAD_BLOCK_MAX), [0, 12, 0, 1, max_size])
       # block_script start (fragments (unat max_size) 0 data)"

lemma block_upload_run:
  assumes "length data < 4294967296" "data \<noteq> []" "0 < max_size" "max_size \<le> 112"
    and "length (fragments (unat max_size) 0 data) < fuel" "dialogue (block_dialogue max_size start data @ later) s"
  obtains t where "WPC_upload_local_block_scratchpad fuel (of_nat (length data)) (data @ after) start s = Inr (APP_RES_OK, t)"
    "dialogue later t" "engine_config t = engine_config s"
    "io_tx t = io_tx s @ map wire_frame (numbered (req_frame_id s) (map fst (block_dialogue max_size start data)))"
    "req_frame_id t = req_frame_id s + of_nat (length (block_dialogue max_size start data))"
proof -
  let ?pieces = "fragments (unat max_size) 0 data"
  from single_byte_run assms(6) [unfolded block_dialogue_def append_Cons] obtain s2 where
    query: "read_single_byte_msap (ucast MSAP_SCRATCHPAD_BLOCK_MAX) s = Inr ((APP_RES_OK, [max_size]), s2)"
    and dlg: "dialogue (block_script start ?pieces @ later) s2"
    and tx2: "io_tx s2 = io_tx s @ map wire_frame (numbered (req_frame_id s) [byte_query (ucast MSAP_SCRATCHPAD_BLOCK_MAX)])"
    and id2: "req_frame_id s2 = req_frame_id s + 1" and cfg2: "engine_config s2 = engine_config s" .
  have "of_nat (length data) = of_nat (0 + length data)" "0 + length data < 4294967296" "unat max_size \<le> 112"
    "drop 0 (data @ after) = data @ after" using assms(1,4) by (simp_all add: word_le_nat_alt)
  from upload_loop_run [OF this(1,2) assms(2,3) this(3,4) assms(5) dlg]
  obtain t where run: "upload_loop fuel (of_nat (length data)) (data @ after) start max_size 0 s2 = Inr (APP_RES_OK, t)"
    and tx: "io_tx t = io_tx s2 @ map wire_frame (numbered (req_frame_id s2) (map (block_frame start) ?pieces))"
    and t: "engine_config t = engine_config s2" "dialogue later t"
      "req_frame_id t = req_frame_id s2 + of_nat (length ?pieces)"
    by auto
  have "map fst (block_script start ?pieces) = map (block_frame start) ?pieces" "length (block_script start ?pieces) = length ?pieces"
    by (simp_all add: block_script_def)
  moreover have "WPC_upload_local_block_scratchpad fuel (of_nat (length data)) (data @ after) start s = Inr (APP_RES_OK, t)"
    using query run
    by (simp add: WPC_upload_local_block_scratchpad_def WPC_get_scratchpad_block_max_def prog_simps byte_at_def)
  ultimately show ?thesis
    using that tx tx2 t id2 cfg2 by (simp add: block_dialogue_def add.assoc)
qed

text \<open>C9: Uploading a scratchpad. When the node accepts the start, tells its maximal block size (up to
  112) and accepts every block, the upload succeeds, and what has been sent is the start request
  with the length, the size query and then exactly the blocks of the data: every byte once, in
  order, at its address, with consecutive frame identifiers. One round per block is fuel enough.\<close>

theorem upload_complete:
  assumes "len = of_nat (length data)" "length data < 4294967296" "data \<noteq> []" "0 < max_size" "max_size \<le> 112"
    and "pieces = fragments (unat max_size) 0 data" "length pieces < fuel"
    and "script = (new_request MSAP_SCRATCH_START_REQUEST 5 (host_store32 len @ [seq]), [0])
      # (byte_query (ucast MSAP_SCRATCHPAD_BLOCK_MAX), [0, 12, 0, 1, max_size]) # block_script 0 pieces"
    and "dialogue script s"
  shows "\<exists>t. WPC_upload_local_scratchpad fuel len (data @ after) seq s = Inr (APP_RES_OK, t)
    \<and> io_tx t = io_tx s @ map wire_frame (numbered (req_frame_id s) (map fst script))"
proof -
  let ?rest = "block_dialogue max_size 0 data"
  have script: "script = (start_update len seq, [0]) # ?rest" by (simp add: assms(6,8) block_dialogue_def)
  from start_update_run assms(9) [unfolded script] obtain s1 where
    start: "WPC_start_local_scratchpad_update len seq s = Inr (APP_RES_OK, s1)" and dlg: "dialogue ?rest s1"
    and tx1: "io_tx s1 = io_tx s @ map wire_frame (numbered (req_frame_id s) [start_update len seq])"
    and id1: "req_frame_id s1 = req_frame_id s + 1" .
  from block_upload_run [OF assms(2-5) assms(7) [unfolded assms(6)], of 0 "[]" s1 after] dlg obtain t where
    "WPC_upload_local_block_scratchpad fuel len (data @ after) 0 s1 = Inr (APP_RES_OK, t)"
    "io_tx t = io_tx s1 @ map wire_frame (numbered (req_frame_id s1) (map fst ?rest))"
    by (auto simp: assms(1))
  then show ?thesis
    using start tx1 id1 by (simp add: script WPC_upload_local_scratchpad_def prog_simps)
qed

theorem upload_complete_witness:
  "\<exists>(s :: wpc_int) t. WPC_upload_local_scratchpad 4 5 [1, 2, 3, 4, 5] 7 s = Inr (APP_RES_OK, t)
     \<and> length (io_tx t) = 5"
proof -
  define pieces where "pieces = fragments (unat (2 :: u8)) 0 [1, 2, 3, 4, 5 :: u8]"
  define script where "script = (new_request MSAP_SCRATCH_START_REQUEST 5 (host_store32 5 @ [7]), [0])
    # (byte_query (ucast MSAP_SCRATCHPAD_BLOCK_MAX), [0, 12, 0, 1, 2]) # block_script 0 pieces"
  have p: "length pieces = 3" by (simp add: pieces_def fragments.simps)
  have h: "(5 :: u32) = of_nat (length [1, 2, 3, 4, 5 :: u8])" "length [1, 2, 3, 4, 5 :: u8] < 4294967296"
    "[1, 2, 3, 4, 5 :: u8] \<noteq> []" "(0 :: u8) < 2" "(2 :: u8) \<le> 112" "length pieces < 4"
    by (simp_all add: p)
  have "dialogue script (on_script script quiet_engine)" by simp
  from upload_complete [OF h(1-5) pieces_def h(6) script_def this, of "[]"] obtain t where
    "WPC_upload_local_scratchpad 4 5 [1, 2, 3, 4, 5] 7 (on_script script quiet_engine) = Inr (APP_RES_OK, t)"
    "io_tx t = map wire_frame (numbered 0 (map fst script))"
    by (auto simp: quiet_engine_def)
  then show ?thesis by (intro exI [of _ "on_script script quiet_engine"] exI [of _ t]) (simp add: script_def block_script_def p)
qed

text \<open>C26: A node that reports the maximal block size 0 makes the upload loop run on forever: whatever
  the budget of rounds, as long as the node accepts the empty blocks, the loop does not end.\<close>

theorem upload_never_ends_on_zero_size:
  assumes "0 < len" "dialogue (replicate fuel (block_frame start (0, [], False), [0])) s"
  shows "upload_loop fuel len bytes start 0 0 s = Inl OutOfFuel"
  using assms(2)
proof (induction fuel arbitrary: s)
  case 0
  then show ?case by (simp add: halt_def)
next
  case (Suc fuel)
  let ?f = "block_frame start (0, [], False)"
  have "length (fst (snd (0 :: nat, [] :: u8 list, False))) \<le> 112" by simp
  note short = block_frame_short [OF this, of start]
  have dlg: "dialogue ((?f, [0]) # replicate fuel (?f, [0])) s" using Suc.prems by simp
  have "primitive_id ?f < 0x80" "length [0 :: u8] \<le> 200" using short(2) by simp_all
  note step = dialogue_Cons [OF dlg short(1) this, where timeout = SCRATCHPAD_BLOCK_TIMEOUT_MS]
  have z: "block_size_of len 0 = 0" using assms(1) by (simp add: block_size_of_def)
  have f: "msap_scratchpad_block_request start 0 bytes
      = andthen (WPC_Int_send_request_timeout ?f SCRATCHPAD_BLOCK_TIMEOUT_MS) confirm_result"
    by (subst block_request_frame) (simp_all add: block_frame_def)
  show ?case
    using step(1) Suc.IH [OF step(2)] assms(1)
    by (simp add: z f Let_def host_simps le32.dec_exact prog_simps confirm_result_def generic_confirm_def
        pl_u8_def byte_at_def confirm_bytes_def)
qed

theorem upload_never_ends_on_zero_size_witness:
  "\<exists>s :: wpc_int. upload_loop 3 1 [9] 0 0 0 s = Inl OutOfFuel"
  using upload_never_ends_on_zero_size [of 1 3 0 "on_script (replicate 3 (block_frame 0 (0, [], False), [0])) quiet_engine" "[9]"]
  by auto

end
