(* ===== verification/Proto_Common.thy ===== *)
theory Proto_Common
  imports Wpc_Api
begin

text \<open>
  The common part of the gateway layer, \<^verbatim>\<open>lib/wpc_proto/internal_modules/common.c\<close>: the names of the
  gateway and of the sink, the conversion of result codes into those of the gateway messages, and the
  headers of responses and events. A C string is the list of its bytes before the terminating zero.

  The structures of the messages are those of \<^verbatim>\<open>lib/wpc_proto/gen/generated_protos\<close>, with the fields
  that the code reads or fills in, at their widths; a flag that is always set is left out, and an
  optional field of a request is an option. The code decodes and encodes messages with a library that
  is not part of the repository; its two functions are parameters. An enumeration of a request is a
  number of 32 bits, since the decoder lets every number through.
\<close>

section \<open>State\<close>

record gateway = wpc +
  m_gateway_id :: "u8 list"
  m_gateway_model :: "u8 list"
  m_gateway_version :: "u8 list"
  m_sink_id :: "u8 list"
  rand_values :: "u32 list"

definition GATEWAY_ID_MAX_SIZE :: nat where "GATEWAY_ID_MAX_SIZE = 32"
definition GATEWAY_MODEL_MAX_SIZE :: nat where "GATEWAY_MODEL_MAX_SIZE = 64"
definition GATEWAY_VERSION_MAX_SIZE :: nat where "GATEWAY_VERSION_MAX_SIZE = 32"
definition SINK_ID_MAX_SIZE :: nat where "SINK_ID_MAX_SIZE = 16"

lemmas name_sizes = GATEWAY_ID_MAX_SIZE_def GATEWAY_MODEL_MAX_SIZE_def GATEWAY_VERSION_MAX_SIZE_def
  SINK_ID_MAX_SIZE_def

text \<open>\<^verbatim>\<open>strncpy\<close> into an array of the size, whose last byte is then cleared.\<close>

definition stored_name :: "nat \<Rightarrow> u8 list \<Rightarrow> u8 list" where
  "stored_name size_max name = take (size_max - 1) name"

definition Common_init ::
  "u8 list \<Rightarrow> u8 list \<Rightarrow> u8 list \<Rightarrow> u8 list \<Rightarrow> ('z gateway_scheme, bool) prog" where
  "Common_init gateway_id gateway_model gateway_version sink_id =
     andthen (modify (\<lambda>s. s\<lparr>m_gateway_id := stored_name GATEWAY_ID_MAX_SIZE gateway_id,
       m_gateway_model := stored_name GATEWAY_MODEL_MAX_SIZE gateway_model,
       m_gateway_version := stored_name GATEWAY_VERSION_MAX_SIZE gateway_version,
       m_sink_id := stored_name SINK_ID_MAX_SIZE sink_id\<rparr>)) (\<lambda>_. ret True)"

section \<open>Result codes\<close>

datatype wp_ErrorCode =
    wp_ErrorCode_UNKNOWN_ERROR_CODE | wp_ErrorCode_OK | wp_ErrorCode_INTERNAL_ERROR
  | wp_ErrorCode_INVALID_SINK_ID | wp_ErrorCode_INVALID_ROLE | wp_ErrorCode_INVALID_NETWORK_ADDRESS
  | wp_ErrorCode_INVALID_NETWORK_CHANNEL | wp_ErrorCode_INVALID_CHANNEL_MAP
  | wp_ErrorCode_INVALID_NETWORK_KEYS | wp_ErrorCode_INVALID_AC_RANGE | wp_ErrorCode_INVALID_SINK_STATE
  | wp_ErrorCode_INVALID_DEST_ADDRESS | wp_ErrorCode_INVALID_DEST_ENDPOINT
  | wp_ErrorCode_INVALID_SRC_ENDPOINT | wp_ErrorCode_INVALID_QOS | wp_ErrorCode_INVALID_DATA_PAYLOAD
  | wp_ErrorCode_INVALID_SCRATCHPAD | wp_ErrorCode_INVALID_SCRATCHPAD_SIZE
  | wp_ErrorCode_INVALID_SEQUENCE_NUMBER | wp_ErrorCode_INVALID_REBOOT_DELAY
  | wp_ErrorCode_INVALID_DIAG_INTERVAL | wp_ErrorCode_INVALID_APP_CONFIG | wp_ErrorCode_INVALID_PARAM
  | wp_ErrorCode_NO_SCRATCHPAD_PRESENT | wp_ErrorCode_ACCESS_DENIED | wp_ErrorCode_REQUEST_NEEDS_SINK_ID
  | wp_ErrorCode_INVALID_MAX_HOP_COUNT | wp_ErrorCode_SINK_OUT_OF_MEMORY | wp_ErrorCode_SINK_TIMEOUT
  | wp_ErrorCode_INVALID_SCRATCHPAD_CHUNK_OFFSET | wp_ErrorCode_INVALID_SCRATCHPAD_CHUNK_SIZE

definition APP_ERROR_CODE_LUT :: "wp_ErrorCode list" where
  "APP_ERROR_CODE_LUT =
     [wp_ErrorCode_OK, wp_ErrorCode_INVALID_SINK_STATE, wp_ErrorCode_INVALID_SINK_STATE,
      wp_ErrorCode_INVALID_SINK_STATE, wp_ErrorCode_INVALID_PARAM, wp_ErrorCode_INVALID_ROLE,
      wp_ErrorCode_INVALID_SINK_STATE, wp_ErrorCode_INVALID_NETWORK_ADDRESS,
      wp_ErrorCode_INVALID_NETWORK_CHANNEL, wp_ErrorCode_INVALID_SINK_STATE, wp_ErrorCode_INVALID_ROLE,
      wp_ErrorCode_INVALID_DEST_ADDRESS, wp_ErrorCode_INVALID_APP_CONFIG, wp_ErrorCode_INTERNAL_ERROR,
      wp_ErrorCode_INVALID_PARAM, wp_ErrorCode_INVALID_PARAM, wp_ErrorCode_ACCESS_DENIED,
      wp_ErrorCode_INVALID_DATA_PAYLOAD, wp_ErrorCode_INVALID_SINK_STATE, wp_ErrorCode_INVALID_SCRATCHPAD,
      wp_ErrorCode_INVALID_ROLE, wp_ErrorCode_SINK_OUT_OF_MEMORY, wp_ErrorCode_INVALID_DIAG_INTERVAL,
      wp_ErrorCode_INVALID_SEQUENCE_NUMBER, wp_ErrorCode_INVALID_PARAM, wp_ErrorCode_INVALID_PARAM,
      wp_ErrorCode_INVALID_SCRATCHPAD, wp_ErrorCode_INVALID_REBOOT_DELAY, wp_ErrorCode_INTERNAL_ERROR]"

text \<open>The code is compared with the size of the table in bytes, four for each entry.\<close>

definition Common_convert_error_code :: "app_res \<Rightarrow> stop + wp_ErrorCode" where
  "Common_convert_error_code error =
     (if app_res_code error < 4 * length APP_ERROR_CODE_LUT
      then peek APP_ERROR_CODE_LUT (int (app_res_code error))
      else Inr wp_ErrorCode_INTERNAL_ERROR)"

section \<open>Headers\<close>

record event_header =
  eh_gw_id :: "u8 list"
  eh_has_sink_id :: bool
  eh_sink_id :: "u8 list"
  eh_time_ms_epoch :: u64
  eh_event_id :: u64

record response_header =
  rsp_req_id :: u64
  rsp_gw_id :: "u8 list"
  rsp_has_sink_id :: bool
  rsp_sink_id :: "u8 list"
  rsp_res :: wp_ErrorCode
  rsp_time_ms_epoch :: u64

text \<open>The random numbers are a script.\<close>

definition rand :: "('z gateway_scheme, u32) prog" where
  "rand s = (case rand_values s of [] \<Rightarrow> Inl Blocked | r # rs \<Rightarrow> Inr (r, s\<lparr>rand_values := rs\<rparr>))"

definition Common_fill_event_header :: "bool \<Rightarrow> ('z gateway_scheme, event_header) prog" where
  "Common_fill_event_header has_sink_id =
     andthen Platform_get_timestamp_ms_epoch (\<lambda>now.
     andthen rand (\<lambda>low.
     andthen rand (\<lambda>high.
     andthen (gets m_sink_id) (\<lambda>sink_id.
     andthen (gets m_gateway_id) (\<lambda>gw_id.
     let has = (sink_id \<noteq> [] \<and> has_sink_id) in
     ret \<lparr>eh_gw_id = gw_id, eh_has_sink_id = has, eh_sink_id = (if has then sink_id else []),
          eh_time_ms_epoch = now, eh_event_id = ucast low + push_bit 32 (ucast high)\<rparr>)))))"

definition Common_Fill_response_header ::
  "u64 \<Rightarrow> wp_ErrorCode \<Rightarrow> ('z gateway_scheme, response_header) prog" where
  "Common_Fill_response_header req_id res =
     andthen Platform_get_timestamp_ms_epoch (\<lambda>now.
     andthen (gets m_sink_id) (\<lambda>sink_id.
     andthen (gets m_gateway_id) (\<lambda>gw_id.
     ret \<lparr>rsp_req_id = req_id, rsp_gw_id = gw_id, rsp_has_sink_id = (sink_id \<noteq> []),
          rsp_sink_id = sink_id, rsp_res = res, rsp_time_ms_epoch = now\<rparr>)))"

text \<open>The response to a request that ended with a code of the interface.\<close>

definition respond :: "u64 \<Rightarrow> app_res \<Rightarrow> ('z gateway_scheme, response_header) prog" where
  "respond req_id res =
     andthen (lift_sum (Common_convert_error_code res)) (\<lambda>code. Common_Fill_response_header req_id code)"

section \<open>Interface of the gateway layer\<close>

datatype app_proto_res =
    APP_RES_PROTO_OK | APP_RES_PROTO_WPC_NOT_INITIALIZED | APP_RES_PROTO_ALREADY_REGISTERED
  | APP_RES_PROTO_INVALID_REQUEST | APP_RES_PROTO_CANNOT_GENERATE_RESPONSE
  | APP_RES_PROTO_RESPONSE_BUFFER_TOO_SMALL | APP_RES_PROTO_NOT_ENOUGH_MEMORY
  | APP_RES_PROTO_NOT_IMPLEMENTED | APP_RES_PROTO_WRONG_PARAMETER

definition WPC_PROTO_GENERIC_MESSAGE_OVERHEAD :: nat where "WPC_PROTO_GENERIC_MESSAGE_OVERHEAD = 20"
definition WPC_PROTO_MAX_RESPONSE_SIZE :: nat where
  "WPC_PROTO_MAX_RESPONSE_SIZE = 415 + WPC_PROTO_GENERIC_MESSAGE_OVERHEAD"
definition WPC_PROTO_MAX_EVENTSTATUS_SIZE :: nat where
  "WPC_PROTO_MAX_EVENTSTATUS_SIZE = 520 + WPC_PROTO_GENERIC_MESSAGE_OVERHEAD"
definition WPC_PROTO_OFFSET_DATA_SIZE :: nat where "WPC_PROTO_OFFSET_DATA_SIZE = 100"
definition FRAGMENT_MAX_DURATION_S :: u32 where "FRAGMENT_MAX_DURATION_S = 45"

text \<open>A call of one of the two callbacks of the gateway's client.\<close>

datatype client_call =
    Event_status callback "u8 list"
  | Data_rx_event callback "u8 list" u32 u16 u16

section \<open>Properties\<close>

lemma lut_covers: "length APP_ERROR_CODE_LUT = 29" "res \<noteq> APP_RES_OPERATION_NOT_SUPPORTED \<Longrightarrow> app_res_code res < 29"
  by (simp_all add: APP_ERROR_CODE_LUT_def) (cases res; simp)

text \<open>Every code but the newest one has an entry; for that one the code reads behind the table, since the
  guard compares with a size in bytes.\<close>

lemma convert_error_code_cases:
  "Common_convert_error_code res =
     (if res = APP_RES_OPERATION_NOT_SUPPORTED then Inl Undefined
      else Inr (APP_ERROR_CODE_LUT ! app_res_code res))"
  using lut_covers(2) [of res]
  by (auto simp: Common_convert_error_code_def peek_def lut_covers(1))

text \<open>C25: A response reports success exactly when the request succeeded, and carries the identifier of
  the request and the names of the gateway and the sink. For the newest code the table is read
  outside: there is no response.\<close>

theorem response_reports_result:
  assumes "respond req_id res s = Inr (resp, t)"
  shows "(rsp_res resp = wp_ErrorCode_OK \<longleftrightarrow> res = APP_RES_OK) \<and> rsp_req_id resp = req_id
    \<and> rsp_gw_id resp = m_gateway_id s \<and> rsp_sink_id resp = m_sink_id s
    \<and> respond req_id APP_RES_OPERATION_NOT_SUPPORTED s = Inl Undefined"
proof -
  have lut: "APP_ERROR_CODE_LUT ! app_res_code res = wp_ErrorCode_OK \<longleftrightarrow> res = APP_RES_OK"
    if "res \<noteq> APP_RES_OPERATION_NOT_SUPPORTED"
    using that by (cases res) (simp_all add: APP_ERROR_CODE_LUT_def)
  have clock: "m_gateway_id u = m_gateway_id s \<and> m_sink_id u = m_sink_id s"
    if "Platform_get_timestamp_ms_epoch s = Inr (now, u)" for now u
    using that by (auto simp: Platform_get_timestamp_ms_epoch_def split: list.splits)
  show ?thesis
    using assms lut
    by (auto simp: respond_def convert_error_code_cases Common_Fill_response_header_def prog_simps
        split: if_splits sum.splits dest!: clock)
qed

text \<open>A gateway and a sink that have no more than a name.\<close>

definition named_gateway :: "u8 list \<Rightarrow> u8 list \<Rightarrow> u64 \<Rightarrow> gateway" where
  "named_gateway gw sink now = \<lparr>io_rx = [], io_wr = [], io_tx = [], io_clock = [], io_epoch = [now], io_waits = [],
     m_locked = False, req_frame_id = 0, m_last_successful_answer_ts = 0, m_timeout_no_answer_ms = 0,
     m_mtu = 102, m_disabled_poll_request = False, close_returns = True, m_app_conf_cb = None, m_scan_neighbor_cb = None,
     m_stack_status_cb = None, m_config_data_item_cb = None, mallocs = [], m_fragment_max_duration_s = 0,
     m_packets = [], m_is_queue_empty = True, m_last_gc_ts_ms = 0, m_data_cb = None,
     reassembly_buffer = [], indication_sent_cb_table = [], tx_packet_id = 0,
     m_timeout_after_stop_task_s = 60, m_gateway_id = gw, m_gateway_model = [], m_gateway_version = [],
     m_sink_id = sink, rand_values = []\<rparr>"

theorem response_reports_result_witness:
  "\<exists>resp t. respond 5 APP_RES_STACK_NOT_STOPPED (named_gateway [103] [115] 77) = Inr (resp, t)
     \<and> rsp_res resp \<noteq> wp_ErrorCode_OK \<and> rsp_req_id resp = 5 \<and> rsp_sink_id resp = [115]"
proof -
  obtain resp t where "respond 5 APP_RES_STACK_NOT_STOPPED (named_gateway [103] [115] 77) = Inr (resp, t)"
    by (simp add: respond_def convert_error_code_cases Common_Fill_response_header_def prog_simps
        Platform_get_timestamp_ms_epoch_def named_gateway_def)
  from response_reports_result [OF this] this show ?thesis by (auto simp: named_gateway_def)
qed

end
