(* ===== verification/Proto_Config.thy ===== *)
theory Proto_Config
  imports Proto_Common
begin

text \<open>
  The configuration service of the gateway layer, \<^verbatim>\<open>lib/wpc_proto/internal_modules/proto_config.c\<close>:
  the cache of the configuration of the sink, its conversion into gateway messages, the events on the
  state of the sink, and the handlers of the requests that read and change the configuration and the
  target of the scratchpad. The cache is the record \<^verbatim>\<open>sink_config\<close>.
\<close>

section \<open>State\<close>

record sink_config =
  node_address :: u32
  network_address :: u32
  CipherKeySet :: bool
  AuthenticationKeySet :: bool
  stack_profile :: u16
  hw_magic :: u16
  ac_limit_min :: u16
  ac_limit_max :: u16
  app_config_max_size :: u16
  fw_version :: "u16 list"
  ac_range_min_cur :: u16
  ac_range_max_cur :: u16
  max_mtu :: u8
  ch_range_min :: u8
  ch_range_max :: u8
  pdu_buffer_size :: u8
  StackStatus :: u8
  network_channel :: u8
  app_node_role :: u8
  otap_status :: app_scratchpad_status
  target_sequence :: u8
  target_crc :: u16
  target_action :: u8
  target_param :: u8

record gateway_config = gateway +
  m_sink_config :: sink_config
  m_onProtoEventStatus_cb :: "callback option"

abbreviation update_config :: "(sink_config \<Rightarrow> sink_config) \<Rightarrow> ('z gateway_config_scheme, unit) prog" where
  "update_config f \<equiv> modify (\<lambda>s. s\<lparr>m_sink_config := f (m_sink_config s)\<rparr>)"

definition APP_STACK_STOPPED :: u8 where "APP_STACK_STOPPED = 1"
definition APP_ROLE_MASK :: u8 where "APP_ROLE_MASK = 0x0f"
definition APP_ROLE_OPTION_MASK :: u8 where "APP_ROLE_OPTION_MASK = 0xf0"
definition APP_ROLE_OPTION_LL :: u8 where "APP_ROLE_OPTION_LL = 0x10"
definition APP_ROLE_OPTION_AUTOROLE :: u8 where "APP_ROLE_OPTION_AUTOROLE = 0x80"
definition GW_PROTO_MESSAGE_VERSION :: u32 where "GW_PROTO_MESSAGE_VERSION = 1"
definition GW_PROTO_API_VERSION :: u32 where "GW_PROTO_API_VERSION = 2"
definition IGNORE_STATUS :: u8 where "IGNORE_STATUS = 0xFF"

lemmas role_constants = APP_ROLE_MASK_def APP_ROLE_OPTION_MASK_def APP_ROLE_OPTION_LL_def
  APP_ROLE_OPTION_AUTOROLE_def

section \<open>Conversions\<close>

type_synonym wp_enum = u32

definition wp_NodeRole_RoleFlags_LOW_LATENCY :: wp_enum where "wp_NodeRole_RoleFlags_LOW_LATENCY = 1"
definition wp_NodeRole_RoleFlags_AUTOROLE :: wp_enum where "wp_NodeRole_RoleFlags_AUTOROLE = 2"

lemmas role_flags = wp_NodeRole_RoleFlags_LOW_LATENCY_def wp_NodeRole_RoleFlags_AUTOROLE_def

record node_role =
  nr_role :: wp_enum
  nr_flags :: "wp_enum list"

definition GET_BASE_ROLE :: "u8 \<Rightarrow> u8" where "GET_BASE_ROLE role = role AND APP_ROLE_MASK"
definition GET_ROLE_OPTIONS :: "u8 \<Rightarrow> u8" where "GET_ROLE_OPTIONS role = role AND APP_ROLE_OPTION_MASK"
definition CREATE_ROLE :: "wp_enum \<Rightarrow> u8 \<Rightarrow> u8" where
  "CREATE_ROLE base options = (ucast base AND APP_ROLE_MASK) OR (options AND APP_ROLE_OPTION_MASK)"

text \<open>The loop runs over the flags from the last one to the first.\<close>

definition role_options :: "wp_enum list \<Rightarrow> u8" where
  "role_options flags = fold (\<lambda>flag options. (options
       OR (if flag = wp_NodeRole_RoleFlags_LOW_LATENCY then APP_ROLE_OPTION_LL else 0))
       OR (if flag = wp_NodeRole_RoleFlags_AUTOROLE then APP_ROLE_OPTION_AUTOROLE else 0)) (rev flags) 0"

definition convert_role_to_app_format :: "node_role \<Rightarrow> u8" where
  "convert_role_to_app_format proto_role = CREATE_ROLE (nr_role proto_role) (role_options (nr_flags proto_role))"

definition convert_role_to_proto_format :: "u8 \<Rightarrow> node_role" where
  "convert_role_to_proto_format role =
     \<lparr>nr_role = ucast (GET_BASE_ROLE role),
      nr_flags = (if GET_ROLE_OPTIONS role AND APP_ROLE_OPTION_LL \<noteq> 0
                  then [wp_NodeRole_RoleFlags_LOW_LATENCY] else [])
               @ (if GET_ROLE_OPTIONS role AND APP_ROLE_OPTION_AUTOROLE \<noteq> 0
                  then [wp_NodeRole_RoleFlags_AUTOROLE] else [])\<rparr>"

datatype scratchpad_type = wp_ScratchpadType_BLANK | wp_ScratchpadType_PRESENT | wp_ScratchpadType_PROCESS

definition convert_scrat_type_to_proto_format :: "u8 \<Rightarrow> scratchpad_type" where
  "convert_scrat_type_to_proto_format t =
     (if t = 1 then wp_ScratchpadType_PRESENT
      else if t = 2 then wp_ScratchpadType_PROCESS
      else wp_ScratchpadType_BLANK)"

datatype scratchpad_status = wp_ScratchpadStatus_SUCCESS | wp_ScratchpadStatus_NEW | wp_ScratchpadStatus_ERROR

definition convert_scrat_status_to_proto_format :: "u8 \<Rightarrow> scratchpad_status" where
  "convert_scrat_status_to_proto_format st =
     (if st = 0 then wp_ScratchpadStatus_SUCCESS
      else if st = 255 then wp_ScratchpadStatus_NEW
      else wp_ScratchpadStatus_ERROR)"

definition wp_ProcessingDelay_UNKNOWN_DELAY :: wp_enum where "wp_ProcessingDelay_UNKNOWN_DELAY = 0"
definition wp_ProcessingDelay_TEN_MINUTES :: wp_enum where "wp_ProcessingDelay_TEN_MINUTES = 1"
definition wp_ProcessingDelay_THIRTY_MINUTES :: wp_enum where "wp_ProcessingDelay_THIRTY_MINUTES = 2"
definition wp_ProcessingDelay_ONE_HOUR :: wp_enum where "wp_ProcessingDelay_ONE_HOUR = 3"
definition wp_ProcessingDelay_SIX_HOURS :: wp_enum where "wp_ProcessingDelay_SIX_HOURS = 4"
definition wp_ProcessingDelay_ONE_DAY :: wp_enum where "wp_ProcessingDelay_ONE_DAY = 5"
definition wp_ProcessingDelay_TWO_DAYS :: wp_enum where "wp_ProcessingDelay_TWO_DAYS = 6"
definition wp_ProcessingDelay_FIVE_DAYS :: wp_enum where "wp_ProcessingDelay_FIVE_DAYS = 7"

lemmas processing_delays = wp_ProcessingDelay_UNKNOWN_DELAY_def wp_ProcessingDelay_TEN_MINUTES_def
  wp_ProcessingDelay_THIRTY_MINUTES_def wp_ProcessingDelay_ONE_HOUR_def wp_ProcessingDelay_SIX_HOURS_def
  wp_ProcessingDelay_ONE_DAY_def wp_ProcessingDelay_TWO_DAYS_def wp_ProcessingDelay_FIVE_DAYS_def

definition delay_minute :: nat where "delay_minute = 1"
definition delay_hour :: nat where "delay_hour = 2"
definition delay_day :: nat where "delay_day = 3"
definition GET_DELAY :: "nat \<Rightarrow> nat \<Rightarrow> u8" where "GET_DELAY unit amount = of_nat (unit * 64 + amount)"

definition convert_delay_to_proto_format :: "u8 \<Rightarrow> wp_enum" where
  "convert_delay_to_proto_format delay =
     (if delay = GET_DELAY delay_minute 10 then wp_ProcessingDelay_TEN_MINUTES
      else if delay = GET_DELAY delay_minute 30 then wp_ProcessingDelay_THIRTY_MINUTES
      else if delay = GET_DELAY delay_hour 1 then wp_ProcessingDelay_ONE_HOUR
      else if delay = GET_DELAY delay_hour 6 then wp_ProcessingDelay_SIX_HOURS
      else if delay = GET_DELAY delay_day 1 then wp_ProcessingDelay_ONE_DAY
      else if delay = GET_DELAY delay_day 2 then wp_ProcessingDelay_TWO_DAYS
      else if delay = GET_DELAY delay_day 5 then wp_ProcessingDelay_FIVE_DAYS
      else wp_ProcessingDelay_UNKNOWN_DELAY)"

definition convert_delay_to_app_format :: "wp_enum \<Rightarrow> u8" where
  "convert_delay_to_app_format delay =
     (if delay = wp_ProcessingDelay_TEN_MINUTES then GET_DELAY delay_minute 10
      else if delay = wp_ProcessingDelay_THIRTY_MINUTES then GET_DELAY delay_minute 30
      else if delay = wp_ProcessingDelay_ONE_HOUR then GET_DELAY delay_hour 1
      else if delay = wp_ProcessingDelay_SIX_HOURS then GET_DELAY delay_hour 6
      else if delay = wp_ProcessingDelay_ONE_DAY then GET_DELAY delay_day 1
      else if delay = wp_ProcessingDelay_TWO_DAYS then GET_DELAY delay_day 2
      else if delay = wp_ProcessingDelay_FIVE_DAYS then GET_DELAY delay_day 5
      else 0)"

section \<open>Reading the configuration of the node\<close>

text \<open>\<^verbatim>\<open>get_value_from_node\<close>: the called function stores what it read through its pointers, which are
  fields of \<^verbatim>\<open>m_sink_config\<close>; the result says whether it succeeded.\<close>

definition get_value_from_node ::
  "('z gateway_config_scheme, app_res \<times> 'v option) prog \<Rightarrow> ('v \<Rightarrow> sink_config \<Rightarrow> sink_config) \<Rightarrow> ('z gateway_config_scheme, bool) prog" where
  "get_value_from_node f var =
     andthen f (\<lambda>(res, v).
     andthen (case v of None \<Rightarrow> ret () | Some x \<Rightarrow> update_config (var x)) (\<lambda>_.
     ret (res = APP_RES_OK)))"

text \<open>The functions that read one byte store the bytes of the confirm.\<close>

definition stored_byte :: "('s, app_res \<times> u8 list) prog \<Rightarrow> ('s, app_res \<times> u8 option) prog" where
  "stored_byte f = andthen f (\<lambda>(res, bytes). ret (res, case bytes of [] \<Rightarrow> None | b # _ \<Rightarrow> Some b))"

definition initialize_otap_variables :: "('z gateway_config_scheme, bool) prog" where
  "initialize_otap_variables =
     andthen (get_value_from_node WPC_get_local_scratchpad_status (\<lambda>st c. c\<lparr>otap_status := st\<rparr>)) (\<lambda>a.
     andthen (get_value_from_node WPC_read_target_scratchpad (\<lambda>(seq, crc, action, param) c.
       c\<lparr>target_sequence := seq, target_crc := crc, target_action := action, target_param := param\<rparr>)) (\<lambda>b.
     ret (a \<and> b)))"

text \<open>The maximal size of the application configuration is read as one byte into the low byte of a
  variable of two.\<close>

definition initialize_config_variables :: "('z gateway_config_scheme, bool) prog" where
  "initialize_config_variables =
     andthen (get_value_from_node WPC_get_stack_profile (\<lambda>v c. c\<lparr>stack_profile := v\<rparr>)) (\<lambda>r1.
     andthen (get_value_from_node WPC_get_hw_magic (\<lambda>v c. c\<lparr>hw_magic := v\<rparr>)) (\<lambda>r2.
     andthen (get_value_from_node (stored_byte WPC_get_mtu) (\<lambda>v c. c\<lparr>max_mtu := v\<rparr>)) (\<lambda>r3.
     andthen (get_value_from_node (stored_byte WPC_get_pdu_buffer_size) (\<lambda>v c. c\<lparr>pdu_buffer_size := v\<rparr>)) (\<lambda>r4.
     andthen (get_value_from_node WPC_get_channel_limits
       (\<lambda>(a, b) c. c\<lparr>ch_range_min := a, ch_range_max := b\<rparr>)) (\<lambda>r5.
     andthen (get_value_from_node WPC_get_access_cycle_limits
       (\<lambda>(a, b) c. c\<lparr>ac_limit_min := a, ac_limit_max := b\<rparr>)) (\<lambda>r6.
     andthen (get_value_from_node (stored_byte WPC_get_app_config_data_size)
       (\<lambda>v c. c\<lparr>app_config_max_size := (app_config_max_size c AND 0xff00) OR ucast v\<rparr>)) (\<lambda>r7.
     andthen (get_value_from_node WPC_is_cipher_key_set (\<lambda>v c. c\<lparr>CipherKeySet := v\<rparr>)) (\<lambda>r8.
     andthen (get_value_from_node WPC_is_authentication_key_set (\<lambda>v c. c\<lparr>AuthenticationKeySet := v\<rparr>)) (\<lambda>r9.
     andthen (get_value_from_node (stored_byte WPC_get_stack_status) (\<lambda>v c. c\<lparr>StackStatus := v\<rparr>)) (\<lambda>r10.
     andthen (get_value_from_node WPC_get_access_cycle_range
       (\<lambda>(a, b) c. c\<lparr>ac_range_min_cur := a, ac_range_max_cur := b\<rparr>)) (\<lambda>r11.
     andthen (get_value_from_node WPC_get_node_address (\<lambda>v c. c\<lparr>node_address := v\<rparr>)) (\<lambda>r12.
     andthen (get_value_from_node (stored_byte WPC_get_role) (\<lambda>v c. c\<lparr>app_node_role := v\<rparr>)) (\<lambda>r13.
     andthen (get_value_from_node WPC_get_network_address (\<lambda>v c. c\<lparr>network_address := v\<rparr>)) (\<lambda>r14.
     andthen (get_value_from_node (stored_byte WPC_get_network_channel) (\<lambda>v c. c\<lparr>network_channel := v\<rparr>)) (\<lambda>r15.
     andthen WPC_get_firmware_version (\<lambda>(res, version).
     andthen (update_config (\<lambda>c. c\<lparr>fw_version := overlay version (fw_version c)\<rparr>)) (\<lambda>_.
     ret (r1 \<and> r2 \<and> r3 \<and> r4 \<and> r5 \<and> r6 \<and> r7 \<and> r8 \<and> r9 \<and> r10 \<and> r11 \<and> r12 \<and> r13 \<and> r14 \<and> r15
            \<and> res = APP_RES_OK))))))))))))))))))"

definition refresh_full_stack_state :: "('z gateway_config_scheme, bool) prog" where
  "refresh_full_stack_state =
     andthen initialize_config_variables (\<lambda>a.
     andthen initialize_otap_variables (\<lambda>b. ret (a \<and> b)))"

section \<open>Messages\<close>

definition wp_ScratchpadAction_NO_OTAP :: wp_enum where "wp_ScratchpadAction_NO_OTAP = 1"
definition wp_ScratchpadAction_PROPAGATE_ONLY :: wp_enum where "wp_ScratchpadAction_PROPAGATE_ONLY = 2"
definition wp_ScratchpadAction_PROPAGATE_AND_PROCESS :: wp_enum where
  "wp_ScratchpadAction_PROPAGATE_AND_PROCESS = 3"
definition wp_ScratchpadAction_PROPAGATE_AND_PROCESS_WITH_DELAY :: wp_enum where
  "wp_ScratchpadAction_PROPAGATE_AND_PROCESS_WITH_DELAY = 4"

lemmas scratchpad_actions = wp_ScratchpadAction_NO_OTAP_def wp_ScratchpadAction_PROPAGATE_ONLY_def
  wp_ScratchpadAction_PROPAGATE_AND_PROCESS_def wp_ScratchpadAction_PROPAGATE_AND_PROCESS_WITH_DELAY_def

text \<open>The union \<^verbatim>\<open>param\<close> with its tag \<^verbatim>\<open>which_param\<close>.\<close>

datatype action_param = No_param | Delay_param wp_enum | Raw_param u32

record target_and_action =
  tsa_action :: wp_enum
  tsa_target_sequence :: "u32 option"
  tsa_target_crc :: "u32 option"
  tsa_param :: action_param

definition fill_target_and_action :: "sink_config \<Rightarrow> target_and_action" where
  "fill_target_and_action c =
     \<lparr>tsa_action = ucast (target_action c) + wp_ScratchpadAction_NO_OTAP,
      tsa_target_sequence = Some (ucast (target_sequence c)),
      tsa_target_crc = Some (ucast (target_crc c)),
      tsa_param =
        (if target_action c = 3 then
           (let delay = convert_delay_to_proto_format (target_param c) in
            if delay \<noteq> wp_ProcessingDelay_UNKNOWN_DELAY then Delay_param delay
            else Raw_param (ucast (target_param c)))
         else No_param)\<rparr>"

record scratchpad_info =
  spi_len :: u32
  spi_crc :: u16
  spi_seq :: u8

record app_config_data =
  acd_seq :: u8
  acd_diag_interval_s :: u16
  acd_size :: u16
  acd_bytes :: "u8 list"

definition wp_OnOffState_ON :: wp_enum where "wp_OnOffState_ON = 1"
definition wp_OnOffState_OFF :: wp_enum where "wp_OnOffState_OFF = 2"

record sink_read_config =
  rc_sink_id :: "u8 list"
  rc_node_role :: node_role
  rc_node_address :: u32
  rc_network_address :: u32
  rc_network_channel :: u8
  rc_has_app_config :: bool
  rc_app_config :: app_config_data
  rc_are_keys_set :: bool
  rc_current_ac_range :: "(u16 \<times> u16) option"
  rc_ac_limits :: "u16 \<times> u16"
  rc_max_mtu :: u8
  rc_channel_limits :: "u8 \<times> u8"
  rc_hw_magic :: u16
  rc_stack_profile :: u16
  rc_app_config_max_size :: u16
  rc_firmware_version :: "u16 list"
  rc_sink_state :: wp_enum
  rc_stored_scratchpad :: scratchpad_info
  rc_stored_status :: scratchpad_status
  rc_stored_type :: scratchpad_type
  rc_processed_scratchpad :: scratchpad_info
  rc_firmware_area_id :: u32
  rc_target_and_action :: target_and_action

definition stored_scratchpad :: "app_scratchpad_status \<Rightarrow> scratchpad_info" where
  "stored_scratchpad st = \<lparr>spi_len = scrat_len st, spi_crc = scrat_crc st, spi_seq = scrat_seq_number st\<rparr>"

definition processed_scratchpad :: "app_scratchpad_status \<Rightarrow> scratchpad_info" where
  "processed_scratchpad st =
     \<lparr>spi_len = processed_scrat_len st, spi_crc = processed_scrat_crc st, spi_seq = processed_scrat_seq_number st\<rparr>"

text \<open>The application configuration is read from the node unless its maximal size is more than 80.\<close>

definition fill_sink_read_config :: "('z gateway_config_scheme, sink_read_config) prog" where
  "fill_sink_read_config =
     andthen (gets m_sink_config) (\<lambda>c.
     andthen (gets m_sink_id) (\<lambda>sink_id.
     let none = \<lparr>acd_seq = 0, acd_diag_interval_s = 0, acd_size = 0, acd_bytes = []\<rparr> in
     andthen
       (if MAXIMUM_APP_CONFIG_SIZE \<ge> unat (app_config_max_size c) then
          andthen (WPC_get_app_config_data (of_nat MAXIMUM_APP_CONFIG_SIZE)) (\<lambda>(res, conf).
          case conf of
            None \<Rightarrow> ret (res = APP_RES_OK, none)
          | Some (seq, interval, bytes) \<Rightarrow>
              ret (res = APP_RES_OK, \<lparr>acd_seq = seq, acd_diag_interval_s = interval,
                acd_size = (if res = APP_RES_OK then app_config_max_size c else 0), acd_bytes = bytes\<rparr>))
        else ret (True, none))
       (\<lambda>(has_app_config, app_config).
     ret \<lparr>rc_sink_id = sink_id, rc_node_role = convert_role_to_proto_format (app_node_role c),
          rc_node_address = node_address c, rc_network_address = network_address c,
          rc_network_channel = network_channel c,
          rc_has_app_config = has_app_config, rc_app_config = app_config,
          rc_are_keys_set = (CipherKeySet c \<and> AuthenticationKeySet c),
          rc_current_ac_range = (if ac_range_min_cur c = 0 then None
                                 else Some (ac_range_min_cur c, ac_range_max_cur c)),
          rc_ac_limits = (ac_limit_min c, ac_limit_max c), rc_max_mtu = max_mtu c,
          rc_channel_limits = (ch_range_min c, ch_range_max c), rc_hw_magic = hw_magic c,
          rc_stack_profile = stack_profile c, rc_app_config_max_size = app_config_max_size c,
          rc_firmware_version = fw_version c,
          rc_sink_state = (if StackStatus c AND APP_STACK_STOPPED \<noteq> 0 then wp_OnOffState_OFF else wp_OnOffState_ON),
          rc_stored_scratchpad = stored_scratchpad (otap_status c),
          rc_stored_status = convert_scrat_status_to_proto_format (scrat_status (otap_status c)),
          rc_stored_type = convert_scrat_type_to_proto_format (scrat_type (otap_status c)),
          rc_processed_scratchpad = processed_scratchpad (otap_status c),
          rc_firmware_area_id = firmware_memory_area_id (otap_status c),
          rc_target_and_action = fill_target_and_action c\<rparr>)))"

section \<open>Status events\<close>

definition MAX_SCRATCHPAD_CHUNK :: u32 where "MAX_SCRATCHPAD_CHUNK = 1024"

record status_event =
  se_version :: u32
  se_state :: wp_enum
  se_configs :: "sink_read_config list"
  se_has_gw_model :: bool
  se_gw_model :: "u8 list"
  se_has_gw_version :: bool
  se_gw_version :: "u8 list"
  se_max_scratchpad_size :: u32
  se_header :: event_header

definition fill_status_event ::
  "wp_enum \<Rightarrow> nat \<Rightarrow> ('z gateway_config_scheme, status_event) prog" where
  "fill_status_event state config_count =
     andthen (if config_count = 1 then andthen fill_sink_read_config (\<lambda>c. ret [c]) else ret []) (\<lambda>configs.
     andthen (gets m_gateway_model) (\<lambda>model.
     andthen (gets m_gateway_version) (\<lambda>version.
     andthen (Common_fill_event_header False) (\<lambda>header.
     ret \<lparr>se_version = GW_PROTO_MESSAGE_VERSION, se_state = state, se_configs = configs,
          se_has_gw_model = (model \<noteq> []), se_gw_model = model, se_has_gw_version = (version \<noteq> []),
          se_gw_version = version, se_max_scratchpad_size = MAX_SCRATCHPAD_CHUNK, se_header = header\<rparr>))))"

text \<open>The encoder of events and the client's callbacks.\<close>

record 's event_env =
  encode_event :: "status_event \<Rightarrow> nat \<Rightarrow> u8 list option"
  client :: "client_call \<Rightarrow> ('s, unit) prog"

definition onStackStatusReceived ::
  "('z gateway_config_scheme) event_env \<Rightarrow> u8 \<Rightarrow> ('z gateway_config_scheme, unit) prog" where
  "onStackStatusReceived env status =
     andthen refresh_full_stack_state (\<lambda>_.
     andthen Platform_malloc (\<lambda>event_ok.
     if \<not> event_ok then ret ()
     else
       andthen Platform_malloc (\<lambda>buffer_ok.
       if \<not> buffer_ok then ret ()
       else
         andthen (fill_status_event wp_OnOffState_ON 1) (\<lambda>event.
         case encode_event env event WPC_PROTO_MAX_EVENTSTATUS_SIZE of
           None \<Rightarrow> ret ()
         | Some bytes \<Rightarrow> call_if_set m_onProtoEventStatus_cb (\<lambda>c. client env (Event_status c bytes))))))"

definition Proto_config_refresh_otap_infos ::
  "('z gateway_config_scheme) event_env \<Rightarrow> ('z gateway_config_scheme, unit) prog" where
  "Proto_config_refresh_otap_infos env = onStackStatusReceived env IGNORE_STATUS"

text \<open>The function registered for the state of the stack, under its own number.\<close>

definition ON_STACK_STATUS :: callback where "ON_STACK_STATUS = 1"

definition stack_status_app ::
  "('z gateway_config_scheme) event_env \<Rightarrow> app_call \<Rightarrow> ('z gateway_config_scheme, unit) prog" where
  "stack_status_app env call =
     (case call of Stack_status c status \<Rightarrow>
        if c = ON_STACK_STATUS then onStackStatusReceived env status else ret ()
      | _ \<Rightarrow> ret ())"

definition Proto_config_init :: "('z gateway_config_scheme, bool) prog" where
  "Proto_config_init =
     andthen refresh_full_stack_state (\<lambda>_.
     andthen (WPC_register_for_stack_status (Some ON_STACK_STATUS)) (\<lambda>res. ret (res = APP_RES_OK)))"

definition Proto_config_register_for_event_status ::
  "callback option \<Rightarrow> ('z gateway_config_scheme, app_proto_res) prog" where
  "Proto_config_register_for_event_status cb =
     andthen (gets m_onProtoEventStatus_cb) (\<lambda>registered.
     if registered \<noteq> None then ret APP_RES_PROTO_ALREADY_REGISTERED
     else andthen (modify (\<lambda>s. s\<lparr>m_onProtoEventStatus_cb := cb\<rparr>)) (\<lambda>_. ret APP_RES_PROTO_OK))"

definition Proto_config_get_network_address :: "('z gateway_config_scheme, u32) prog" where
  "Proto_config_get_network_address = gets (\<lambda>s. network_address (m_sink_config s))"

text \<open>The result is the code and the encoded event, which is empty when there is none.\<close>

definition Proto_config_get_current_event_status ::
  "('z gateway_config_scheme) event_env \<Rightarrow> bool \<Rightarrow> bool \<Rightarrow> nat
     \<Rightarrow> ('z gateway_config_scheme, app_proto_res \<times> u8 list) prog" where
  "Proto_config_get_current_event_status env gw_online sink_online buffer_size =
     andthen Platform_malloc (\<lambda>ok.
     if \<not> ok then ret (APP_RES_PROTO_NOT_ENOUGH_MEMORY, [])
     else
       andthen (fill_status_event (if gw_online then wp_OnOffState_ON else wp_OnOffState_OFF)
           (if sink_online then 1 else 0)) (\<lambda>event.
       case encode_event env event buffer_size of
         None \<Rightarrow> ret (APP_RES_PROTO_CANNOT_GENERATE_RESPONSE, [])
       | Some bytes \<Rightarrow> ret (APP_RES_PROTO_OK, bytes)))"

section \<open>Requests about the scratchpad\<close>

record scratchpad_status_resp =
  ssr_header :: response_header
  ssr_stored_scratchpad :: scratchpad_info
  ssr_stored_status :: scratchpad_status
  ssr_stored_type :: scratchpad_type
  ssr_processed_scratchpad :: scratchpad_info
  ssr_firmware_area_id :: u32
  ssr_target_and_action :: target_and_action

definition Proto_config_handle_get_scratchpad_status ::
  "u64 \<Rightarrow> ('z gateway_config_scheme, scratchpad_status_resp) prog" where
  "Proto_config_handle_get_scratchpad_status req_id =
     andthen (gets m_sink_config) (\<lambda>c.
     andthen (respond req_id APP_RES_OK) (\<lambda>header.
     ret \<lparr>ssr_header = header, ssr_stored_scratchpad = stored_scratchpad (otap_status c),
          ssr_stored_status = convert_scrat_status_to_proto_format (scrat_status (otap_status c)),
          ssr_stored_type = convert_scrat_type_to_proto_format (scrat_type (otap_status c)),
          ssr_processed_scratchpad = processed_scratchpad (otap_status c),
          ssr_firmware_area_id = firmware_memory_area_id (otap_status c),
          ssr_target_and_action = fill_target_and_action c\<rparr>))"

text \<open>The arguments of the request to the node, \<^const>\<open>None\<close> for an invalid value. A sequence number or a
  CRC that is not given is taken from the stored scratchpad.\<close>

definition delay_argument :: "action_param \<Rightarrow> u8 option" where
  "delay_argument param =
     (case param of
        Delay_param delay \<Rightarrow>
          (let p = convert_delay_to_app_format delay in if p = 0 then None else Some p)
      | Raw_param raw \<Rightarrow> if raw > 255 then None else Some (ucast raw)
      | No_param \<Rightarrow> None)"

definition sequence_argument :: "u32 option \<Rightarrow> app_scratchpad_status \<Rightarrow> u8 option" where
  "sequence_argument given st =
     (case given of
        Some seq \<Rightarrow> if seq > 255 then None else Some (ucast seq)
      | None \<Rightarrow> if scrat_seq_number st \<noteq> 0 then Some (scrat_seq_number st) else None)"

definition crc_argument :: "u32 option \<Rightarrow> app_scratchpad_status \<Rightarrow> u16 option" where
  "crc_argument given st =
     (case given of
        Some crc \<Rightarrow> if crc > 65535 then None else Some (ucast crc)
      | None \<Rightarrow> Some (scrat_crc st))"

definition write_target ::
  "target_and_action \<Rightarrow> ('z gateway_config_scheme, app_res) prog" where
  "write_target ta =
     andthen (gets (\<lambda>s. otap_status (m_sink_config s))) (\<lambda>st.
     if tsa_action ta = wp_ScratchpadAction_NO_OTAP then WPC_write_target_scratchpad 0 0 0 0
     else if tsa_action ta \<in> {wp_ScratchpadAction_PROPAGATE_AND_PROCESS_WITH_DELAY,
         wp_ScratchpadAction_PROPAGATE_ONLY, wp_ScratchpadAction_PROPAGATE_AND_PROCESS}
     then
       (case (if tsa_action ta = wp_ScratchpadAction_PROPAGATE_AND_PROCESS_WITH_DELAY
              then delay_argument (tsa_param ta) else Some 0) of
          None \<Rightarrow> ret APP_RES_INVALID_VALUE
        | Some param \<Rightarrow>
          (case sequence_argument (tsa_target_sequence ta) st of
             None \<Rightarrow> ret APP_RES_INVALID_VALUE
           | Some seq \<Rightarrow>
             (case crc_argument (tsa_target_crc ta) st of
                None \<Rightarrow> ret APP_RES_INVALID_VALUE
              | Some crc \<Rightarrow>
                WPC_write_target_scratchpad seq crc
                  (ucast (tsa_action ta - wp_ScratchpadAction_NO_OTAP)) param)))
     else ret APP_RES_INVALID_VALUE)"

definition Proto_config_handle_set_scratchpad_target_and_action_request ::
  "('z gateway_config_scheme) event_env \<Rightarrow> u64 \<Rightarrow> target_and_action \<Rightarrow> ('z gateway_config_scheme, response_header) prog" where
  "Proto_config_handle_set_scratchpad_target_and_action_request env req_id ta =
     andthen (write_target ta) (\<lambda>res.
     andthen (Proto_config_refresh_otap_infos env) (\<lambda>_.
     respond req_id res))"

section \<open>Setting the configuration\<close>

record new_app_config =
  nac_seq :: u32
  nac_diag_interval_s :: u32
  nac_bytes :: "u8 list"
  nac_size :: nat

text \<open>A field that the request may leave out is an option.\<close>

record sink_new_config =
  nc_sink_id :: "u8 list"
  nc_node_role :: "node_role option"
  nc_node_address :: "u32 option"
  nc_network_address :: "u64 option"
  nc_network_channel :: "u32 option"
  nc_app_config :: "new_app_config option"
  nc_keys :: "(u8 list \<times> u8 list) option"
  nc_current_ac_range :: "(u32 \<times> u32) option"
  nc_sink_state :: "wp_enum option"

text \<open>Which actions on the stack a request needs: stop it, start it afterwards, and whether that alone
  changes the configuration.\<close>

definition stack_actions :: "u8 \<Rightarrow> sink_new_config \<Rightarrow> bool \<times> bool \<times> bool" where
  "stack_actions status cfg =
     (if status AND APP_STACK_STOPPED \<noteq> 0 then
        (if nc_sink_state cfg = Some wp_OnOffState_ON then (False, True, True) else (False, False, False))
      else
        let needed = (nc_node_role cfg \<noteq> None \<or> nc_node_address cfg \<noteq> None \<or> nc_network_address cfg \<noteq> None
              \<or> nc_network_channel cfg \<noteq> None \<or> nc_keys cfg \<noteq> None \<or> nc_current_ac_range cfg \<noteq> None)
        in if nc_sink_state cfg = Some wp_OnOffState_OFF then (True, False, True) else (needed, needed, False))"

text \<open>The two variables that the sequence of settings carries along: the global result and whether the
  configuration has changed.\<close>

type_synonym progress = "app_res \<times> bool"

definition setting ::
  "('z gateway_config_scheme, app_res) prog \<Rightarrow> ('z gateway_config_scheme, unit) prog \<Rightarrow> progress
     \<Rightarrow> ('z gateway_config_scheme, progress) prog" where
  "setting call on_success acc =
     andthen call (\<lambda>res.
     if res \<noteq> APP_RES_OK then ret (APP_RES_INVALID_VALUE, snd acc)
     else andthen on_success (\<lambda>_. ret (fst acc, True)))"

definition set_node_role :: "sink_new_config \<Rightarrow> progress \<Rightarrow> ('z gateway_config_scheme, progress) prog" where
  "set_node_role cfg acc =
     (case nc_node_role cfg of None \<Rightarrow> ret acc
      | Some r \<Rightarrow>
        let new_role = convert_role_to_app_format r in
        andthen (gets m_sink_config) (\<lambda>c.
        if new_role \<noteq> app_node_role c
        then setting (WPC_set_role new_role) (update_config (\<lambda>c. c\<lparr>app_node_role := new_role\<rparr>)) acc
        else ret acc))"

definition set_node_address :: "sink_new_config \<Rightarrow> progress \<Rightarrow> ('z gateway_config_scheme, progress) prog" where
  "set_node_address cfg acc =
     (case nc_node_address cfg of None \<Rightarrow> ret acc
      | Some a \<Rightarrow>
        andthen (gets m_sink_config) (\<lambda>c.
        if a \<noteq> node_address c
        then setting (WPC_set_node_address a) (update_config (\<lambda>c. c\<lparr>node_address := a\<rparr>)) acc
        else ret acc))"

definition set_network_address :: "sink_new_config \<Rightarrow> progress \<Rightarrow> ('z gateway_config_scheme, progress) prog" where
  "set_network_address cfg acc =
     (case nc_network_address cfg of None \<Rightarrow> ret acc
      | Some a \<Rightarrow>
        andthen (gets m_sink_config) (\<lambda>c.
        if a \<noteq> ucast (network_address c) then
          (if a > 4294967295 then ret (APP_RES_INVALID_VALUE, snd acc)
           else setting (WPC_set_network_address (ucast a))
                  (update_config (\<lambda>c. c\<lparr>network_address := ucast a\<rparr>)) acc)
        else ret acc))"

definition set_network_channel :: "sink_new_config \<Rightarrow> progress \<Rightarrow> ('z gateway_config_scheme, progress) prog" where
  "set_network_channel cfg acc =
     (case nc_network_channel cfg of None \<Rightarrow> ret acc
      | Some ch \<Rightarrow>
        andthen (gets m_sink_config) (\<lambda>c.
        if ch \<noteq> ucast (network_channel c) then
          (if ch > 255 then ret (APP_RES_INVALID_VALUE, snd acc)
           else setting (WPC_set_network_channel (ucast ch))
                  (update_config (\<lambda>c. c\<lparr>network_channel := ucast ch\<rparr>)) acc)
        else ret acc))"

definition set_app_config :: "sink_new_config \<Rightarrow> progress \<Rightarrow> ('z gateway_config_scheme, progress) prog" where
  "set_app_config cfg acc =
     (case nc_app_config cfg of None \<Rightarrow> ret acc
      | Some a \<Rightarrow>
        if nac_seq a > 255 \<or> nac_diag_interval_s a > 65535 then ret (APP_RES_INVALID_VALUE, snd acc)
        else setting (WPC_set_app_config_data (ucast (nac_seq a)) (ucast (nac_diag_interval_s a))
                        (nac_bytes a) (of_nat (nac_size a)))
               (ret ()) acc)"

definition set_keys :: "sink_new_config \<Rightarrow> progress \<Rightarrow> ('z gateway_config_scheme, progress) prog" where
  "set_keys cfg acc =
     (case nc_keys cfg of None \<Rightarrow> ret acc
      | Some (cipher, authentication) \<Rightarrow>
        andthen (setting (WPC_set_cipher_key cipher)
          (andthen (get_value_from_node WPC_is_cipher_key_set (\<lambda>v c. c\<lparr>CipherKeySet := v\<rparr>)) (\<lambda>_. ret ())) acc)
          (\<lambda>acc.
        setting (WPC_set_authentication_key authentication)
          (andthen (get_value_from_node WPC_is_authentication_key_set
             (\<lambda>v c. c\<lparr>AuthenticationKeySet := v\<rparr>)) (\<lambda>_. ret ())) acc))"

definition set_ac_range :: "sink_new_config \<Rightarrow> progress \<Rightarrow> ('z gateway_config_scheme, progress) prog" where
  "set_ac_range cfg acc =
     (case nc_current_ac_range cfg of None \<Rightarrow> ret acc
      | Some (lo, hi) \<Rightarrow>
        if lo > 65535 \<or> hi > 65535 then ret (APP_RES_INVALID_VALUE, snd acc)
        else
          andthen (gets m_sink_config) (\<lambda>c.
          if lo \<noteq> ucast (ac_range_min_cur c) \<or> hi \<noteq> ucast (ac_range_max_cur c)
          then setting (WPC_set_access_cycle_range (ucast lo) (ucast hi))
                 (update_config (\<lambda>c. c\<lparr>ac_range_min_cur := ucast lo, ac_range_max_cur := ucast hi\<rparr>)) acc
          else ret acc))"

definition stop_for_config :: "bool \<Rightarrow> progress \<Rightarrow> ('z gateway_config_scheme, progress) prog" where
  "stop_for_config stop acc =
     (if stop then
        andthen (WPC_set_autostart 0) (\<lambda>_.
        setting WPC_stop_stack (update_config (\<lambda>c. c\<lparr>StackStatus := StackStatus c OR APP_STACK_STOPPED\<rparr>)) acc)
      else ret acc)"

definition restart_after_config ::
  "('z gateway_config_scheme) event_env \<Rightarrow> bool \<Rightarrow> progress \<Rightarrow> ('z gateway_config_scheme, progress) prog" where
  "restart_after_config env restart acc =
     (if restart then
        andthen (WPC_start_stack (stack_status_app env)) (\<lambda>res.
        if res \<noteq> APP_RES_OK then ret (if fst acc = APP_RES_OK then res else fst acc, snd acc)
        else
          andthen (WPC_set_autostart 1) (\<lambda>_.
          andthen (update_config (\<lambda>c. c\<lparr>StackStatus := StackStatus c AND NOT APP_STACK_STOPPED\<rparr>)) (\<lambda>_.
          ret acc)))
      else ret acc)"

text \<open>The handlers get the memory of the response, which is not initialised, and fill it in. The
  configuration is not filled in when the request names another sink.\<close>

record set_config_resp =
  scr_header :: response_header
  scr_config :: sink_read_config

definition Proto_config_handle_set_config ::
  "('z gateway_config_scheme) event_env \<Rightarrow> u64 \<Rightarrow> sink_new_config \<Rightarrow> set_config_resp
     \<Rightarrow> ('z gateway_config_scheme, set_config_resp) prog" where
  "Proto_config_handle_set_config env req_id cfg resp =
     andthen (gets m_sink_id) (\<lambda>sink_id.
     if nc_sink_id cfg \<noteq> sink_id then
       andthen (Common_Fill_response_header req_id wp_ErrorCode_INVALID_SINK_ID) (\<lambda>header. ret (resp\<lparr>scr_header := header\<rparr>))
     else
       andthen (get_value_from_node (stored_byte WPC_get_stack_status) (\<lambda>v c. c\<lparr>StackStatus := v\<rparr>)) (\<lambda>_.
       andthen (gets (\<lambda>s. stack_actions (StackStatus (m_sink_config s)) cfg)) (\<lambda>(stop, restart, changed).
       andthen (stop_for_config stop (APP_RES_OK, changed)) (\<lambda>acc.
       andthen (set_node_role cfg acc) (\<lambda>acc.
       andthen (set_node_address cfg acc) (\<lambda>acc.
       andthen (set_network_address cfg acc) (\<lambda>acc.
       andthen (set_network_channel cfg acc) (\<lambda>acc.
       andthen (set_app_config cfg acc) (\<lambda>acc.
       andthen (set_keys cfg acc) (\<lambda>acc.
       andthen (set_ac_range cfg acc) (\<lambda>acc.
       andthen (restart_after_config env restart acc) (\<lambda>(global_res, changed).
       andthen (if changed then onStackStatusReceived env IGNORE_STATUS else ret ()) (\<lambda>_.
       andthen (respond req_id global_res) (\<lambda>header.
       andthen fill_sink_read_config (\<lambda>config.
       ret (resp\<lparr>scr_header := header, scr_config := config\<rparr>))))))))))))))))"

definition Proto_config_handle_get_configs ::
  "u64 \<Rightarrow> ('z gateway_config_scheme, response_header \<times> sink_read_config) prog" where
  "Proto_config_handle_get_configs req_id =
     andthen (get_value_from_node (stored_byte WPC_get_stack_status) (\<lambda>v c. c\<lparr>StackStatus := v\<rparr>)) (\<lambda>_.
     andthen (Common_Fill_response_header req_id wp_ErrorCode_OK) (\<lambda>header.
     andthen fill_sink_read_config (\<lambda>config.
     ret (header, config))))"

text \<open>The list of the features of the gateway, with its count, is left as it is in memory.\<close>

record gateway_info =
  gi_header :: response_header
  gi_current_time_s_epoch :: u64
  gi_has_gw_model :: bool
  gi_gw_model :: "u8 list"
  gi_has_gw_version :: bool
  gi_gw_version :: "u8 list"
  gi_has_implemented_api_version :: bool
  gi_implemented_api_version :: u32
  gi_has_max_scratchpad_size :: bool
  gi_max_scratchpad_size :: u32
  gi_gw_features_count :: nat
  gi_gw_features :: "wp_enum list"

definition Proto_config_handle_get_gateway_info_request ::
  "u64 \<Rightarrow> gateway_info \<Rightarrow> ('z gateway_config_scheme, gateway_info) prog" where
  "Proto_config_handle_get_gateway_info_request req_id resp =
     andthen (Common_Fill_response_header req_id wp_ErrorCode_OK) (\<lambda>header.
     andthen Platform_get_timestamp_ms_epoch (\<lambda>now.
     andthen (gets m_gateway_model) (\<lambda>model.
     andthen (gets m_gateway_version) (\<lambda>version.
     ret (resp\<lparr>gi_header := header, gi_current_time_s_epoch := now div 1000,
          gi_has_gw_model := True, gi_gw_model := model, gi_has_gw_version := True, gi_gw_version := version,
          gi_has_implemented_api_version := True, gi_implemented_api_version := GW_PROTO_API_VERSION,
          gi_has_max_scratchpad_size := True, gi_max_scratchpad_size := MAX_SCRATCHPAD_CHUNK\<rparr>)))))"

section \<open>Properties of the conversions\<close>

lemma role_options_flags:
  "role_options flags = (if wp_NodeRole_RoleFlags_LOW_LATENCY \<in> set flags then 0x10 else 0)
     OR (if wp_NodeRole_RoleFlags_AUTOROLE \<in> set flags then 0x80 else 0)"
proof (induction flags)
  case (Cons flag flags)
  then show ?case
    by (auto simp: role_options_def role_constants role_flags)
qed (simp add: role_options_def)

lemma single_bit_option: "(if w AND 2 ^ n = 0 then 0 else 2 ^ n) = w AND (2 ^ n :: u8)"
  by (rule bit_word_eqI) (auto simp: bit_simps and_exp_eq_0_iff_not_bit)

lemmas option_bits = single_bit_option [of _ 4, simplified] single_bit_option [of _ 7, simplified]

lemma base_role: "ucast (ucast (n :: u32) AND 0xf :: u8) = n AND 0xf"
proof -
  have "ucast (ucast n AND mask 4 :: u8) = n AND mask 4" by (rule bit_word_eqI) (auto simp: bit_simps)
  then show ?thesis by (simp add: mask_eq_exp_minus_1)
qed

lemma role_as_enum: "ucast (ucast (w :: u8) :: u32) = w"
  by (rule bit_word_eqI) (auto simp: bit_simps)

text \<open>Roles survive the conversion between the node's byte and the gateway message: from the byte
  to the message and back only the two options without a flag are lost, from the message to the byte
  and back the base role keeps its low four bits and the flags that have an option are the same.\<close>

theorem role_round_trip:
  "convert_role_to_app_format (convert_role_to_proto_format r) = r AND 0x9f
     \<and> nr_role (convert_role_to_proto_format (convert_role_to_app_format p)) = nr_role p AND 0xf
     \<and> set (nr_flags (convert_role_to_proto_format (convert_role_to_app_format p)))
         = set (nr_flags p) \<inter> {wp_NodeRole_RoleFlags_LOW_LATENCY, wp_NodeRole_RoleFlags_AUTOROLE}"
proof -
  let ?m = "convert_role_to_proto_format r"
  have "(wp_NodeRole_RoleFlags_LOW_LATENCY \<in> set (nr_flags ?m)) = (r AND 0x10 \<noteq> 0)"
    "(wp_NodeRole_RoleFlags_AUTOROLE \<in> set (nr_flags ?m)) = (r AND 0x80 \<noteq> 0)"
    by (simp_all add: convert_role_to_proto_format_def GET_ROLE_OPTIONS_def role_constants role_flags and.assoc)
  then have "role_options (nr_flags ?m) = (r AND 0x10) OR (r AND 0x80)"
    using option_bits [of r] by (auto simp: role_options_flags split: if_splits)
  then have "convert_role_to_app_format ?m = (r AND 0xf) OR (r AND 0x10) OR (r AND 0x80)"
    by (simp add: convert_role_to_app_format_def CREATE_ROLE_def convert_role_to_proto_format_def
        GET_BASE_ROLE_def role_constants role_as_enum and.assoc bit.conj_disj_distrib2 or.assoc)
  also have "\<dots> = r AND 0x9f" by (simp flip: bit.conj_disj_distrib)
  finally have byte: "convert_role_to_app_format ?m = r AND 0x9f" .
  have masked: "(b AND 0xf) AND 0xf0 = 0" "(b AND 0xf) AND 0xf = b AND 0xf"
    "(b AND 0xf) AND 0x10 = 0" "(b AND 0xf) AND 0x80 = 0" for b :: u8
    by (simp_all add: and.assoc)
  show ?thesis
  proof (intro conjI byte)
    show "nr_role (convert_role_to_proto_format (convert_role_to_app_format p)) = nr_role p AND 0xf"
      by (simp add: convert_role_to_app_format_def CREATE_ROLE_def convert_role_to_proto_format_def
          GET_BASE_ROLE_def role_constants role_options_flags bit.conj_disj_distrib2 masked base_role and.assoc)
    show "set (nr_flags (convert_role_to_proto_format (convert_role_to_app_format p)))
        = set (nr_flags p) \<inter> {wp_NodeRole_RoleFlags_LOW_LATENCY, wp_NodeRole_RoleFlags_AUTOROLE}"
      by (auto simp: convert_role_to_app_format_def CREATE_ROLE_def convert_role_to_proto_format_def
          GET_ROLE_OPTIONS_def role_constants role_options_flags bit.conj_disj_distrib2 and.assoc masked
          split: if_splits)
  qed
qed

end
