(* ===== verification/Proto_Frame.thy ===== *)
theory Proto_Frame
  imports Proto_Config
begin

text \<open>
  What a request of the gateway layer leaves alone: one lemma per operation saying that it maintains
  every state predicate that is insensitive to the exchange with the node and to the variables of the
  configuration service. The scratchpad and data services instantiate it with their own variables.
\<close>

section \<open>What the gateway layer leaves alone\<close>

text \<open>
  A state predicate that is insensitive to everything that a request of the gateway layer touches
  below the layer's own variables: the exchange with the node, the clocks, the switch for polling, the
  allocations and random numbers, and the cache of the configuration.
\<close>

locale gateway_frame = request_invariant I for I :: "'z gateway_config_scheme \<Rightarrow> bool" +
  assumes epoch: "I s \<Longrightarrow> I (s\<lparr>io_epoch := es\<rparr>)"
    and polling: "I s \<Longrightarrow> I (s\<lparr>m_disabled_poll_request := b\<rparr>)"
    and allocated: "I s \<Longrightarrow> I (s\<lparr>mallocs := ms\<rparr>)"
    and random: "I s \<Longrightarrow> I (s\<lparr>rand_values := rs\<rparr>)"
    and cached: "I s \<Longrightarrow> I (s\<lparr>m_sink_config := c\<rparr>)"
begin

lemma keeps_epoch [keeps_intros]: "keeps I Platform_get_timestamp_ms_epoch"
  by (rule keepsI) (auto simp: Platform_get_timestamp_ms_epoch_def epoch split: list.splits)

lemma keeps_malloc [keeps_intros]: "keeps I Platform_malloc"
  by (rule keepsI) (auto simp: Platform_malloc_def allocated split: list.splits)

lemma keeps_rand [keeps_intros]: "keeps I rand"
  by (rule keepsI) (auto simp: rand_def random split: list.splits)

lemma keeps_update_config [keeps_intros]: "keeps I (update_config f)"
  by (rule keeps_modify) (rule cached)

lemma busy_wait_keeps: "busy_wait end_wait cs = Inr cs' \<Longrightarrow> I (s\<lparr>io_clock := cs\<rparr>) \<Longrightarrow> I (s\<lparr>io_clock := cs'\<rparr>)"
proof (induction cs)
  case (Cons now later)
  have "I ((s\<lparr>io_clock := now # later\<rparr>)\<lparr>io_clock := later\<rparr>)" using Cons.prems(2) by (rule clock) simp
  with Cons show ?case by (auto split: if_splits)
qed simp

lemma keeps_wait [keeps_intros]: "keeps I (wait_until end_wait)"
proof (rule keepsI)
  fix s x t
  assume "I s" "wait_until end_wait s = Inr (x, t)"
  then show "I t" using busy_wait_keeps [of end_wait "io_clock s" _ s]
    by (auto simp: wait_until_def split: sum.splits)
qed

lemmas attribute_reading = csap_attribute_read_request_def msap_attribute_read_request_def attribute_read_request_def
  read_value_def read_bytes_def read_single_byte_msap_def

lemma keeps_attribute_read [keeps_intros]: "keeps I (attribute_read_request prim i n)"
  unfolding attribute_read_request_def by (intro keeps_intros)

lemma keeps_attribute_write [keeps_intros]: "keeps I (attribute_write_request prim i n val)"
  unfolding attribute_write_request_def confirm_result_def by (intro keeps_intros)

lemma keeps_read_value [keeps_intros]: "keeps I m \<Longrightarrow> keeps I (read_value m decode)"
  unfolding read_value_def Let_def by (intro keeps_intros)

lemma keeps_read_bytes [keeps_intros]: "keeps I m \<Longrightarrow> keeps I (read_bytes m)"
  unfolding read_bytes_def by (intro keeps_intros)

lemma keeps_write_value [keeps_intros]: "keeps I m \<Longrightarrow> keeps I (write_value m)"
  unfolding write_value_def by (intro keeps_intros)

lemma keeps_stack_status [keeps_intros]: "keeps I WPC_get_stack_status"
  unfolding WPC_get_stack_status_def read_single_byte_msap_def msap_attribute_read_request_def
  by (intro keeps_intros)

lemma keeps_autostart [keeps_intros]: "keeps I (WPC_set_autostart b)"
  unfolding WPC_set_autostart_def msap_attribute_write_request_def by (intro keeps_intros)

lemma stack_status_loop_keeps: "I s \<Longrightarrow> stack_status_loop timeout res s = Inr (r, t) \<Longrightarrow> I t"
proof (induction timeout res s rule: stack_status_loop.induct)
  case (1 timeout res s)
  note run = 1(3) [unfolded stack_status_loop.simps [of timeout res s]]
  show ?case
  proof (cases "res = APP_RES_OK")
    case True
    with run 1(2) show ?thesis by simp
  next
    case False
    then obtain now s1 where now: "Platform_get_timestamp_ms_monotonic s = Inr (now, s1)"
      using run by (auto split: sum.splits)
    have s1: "I s1" using keeps_monotonic 1(2) now by (rule keepsD)
    show ?thesis
    proof (cases "now < timeout")
      case True
      then obtain r' att s2 where s2: "WPC_get_stack_status s1 = Inr ((r', att), s2)"
        and rest: "stack_status_loop timeout r' s2 = Inr (r, t)"
        using run False now by (auto split: sum.splits prod.splits)
      have "I s2" using keeps_stack_status s1 s2 by (rule keepsD)
      then show ?thesis using 1(1) [OF False now refl True s2 refl refl] rest by simp
    qed (use run False now s1 in simp)
  qed
qed

lemma keeps_get_stack_status [keeps_intros]: "keeps I (get_stack_status timeout)"
  unfolding get_stack_status_def
  by (intro keeps_intros keeps_monotonic) (rule keepsI, rule stack_status_loop_keeps)

lemma keeps_disable [keeps_intros]: "keeps I (WPC_Int_disable_poll_request b)"
  unfolding WPC_Int_disable_poll_request_def by (intro keeps_intros keeps_lock keeps_unlock polling)

lemma keeps_stop_stack [keeps_intros]: "keeps I WPC_stop_stack"
  unfolding WPC_stop_stack_def msap_stack_stop_request_def confirm_result_def
  by (intro keeps_intros keeps_monotonic)

lemma keeps_start_stack [keeps_intros]:
  "(\<And>call. keeps I (app call)) \<Longrightarrow> keeps I (WPC_start_stack app)"
  unfolding WPC_start_stack_def msap_stack_start_request_def call_if_set_def
  by (intro keeps_intros)

lemma keeps_get_value [keeps_intros]: "keeps I f \<Longrightarrow> keeps I (get_value_from_node f var)"
  unfolding get_value_from_node_def by (intro keeps_intros)

lemma keeps_stored_byte [keeps_intros]: "keeps I f \<Longrightarrow> keeps I (stored_byte f)"
  unfolding stored_byte_def by (intro keeps_intros)

lemma keeps_firmware_loop [keeps_intros]: "keeps I (firmware_version_loop idents version)"
proof (induction idents arbitrary: version)
  case (Cons ident idents)
  then show ?case unfolding firmware_version_loop.simps csap_attribute_read_request_def by (intro keeps_intros)
qed (simp add: keeps_ret)

lemmas config_readers = WPC_get_stack_profile_def WPC_get_hw_magic_def WPC_get_mtu_def WPC_get_pdu_buffer_size_def
  WPC_get_channel_limits_def WPC_get_access_cycle_limits_def WPC_get_app_config_data_size_def
  WPC_is_cipher_key_set_def WPC_is_authentication_key_set_def WPC_get_access_cycle_range_def
  WPC_get_node_address_def WPC_get_role_def WPC_get_network_address_def WPC_get_network_channel_def
  WPC_get_firmware_version_def csap_attribute_read_request_def msap_attribute_read_request_def

lemma keeps_config_variables [keeps_intros]: "keeps I initialize_config_variables"
  unfolding initialize_config_variables_def config_readers by (intro keeps_intros)

lemma keeps_otap_variables [keeps_intros]: "keeps I initialize_otap_variables"
  unfolding initialize_otap_variables_def WPC_get_local_scratchpad_status_def msap_scratchpad_status_request_def
    WPC_read_target_scratchpad_def msap_scratchpad_target_read_request_def confirm_result_def
  by (intro keeps_intros)

lemma keeps_read_config [keeps_intros]: "keeps I fill_sink_read_config"
  unfolding fill_sink_read_config_def WPC_get_app_config_data_def WPC_get_app_config_data_size_def
    csap_attribute_read_request_def msap_app_config_data_read_request_def Let_def
  by (intro keeps_intros)

lemma keeps_event_header [keeps_intros]: "keeps I (Common_fill_event_header b)"
  unfolding Common_fill_event_header_def Let_def by (intro keeps_intros)

lemma keeps_response [keeps_intros]: "keeps I (respond req_id res)"
  unfolding respond_def Common_Fill_response_header_def by (intro keeps_intros)

lemma keeps_status_event [keeps_intros]: "keeps I (fill_status_event state n)"
  unfolding fill_status_event_def by (intro keeps_intros)

lemma keeps_status_received [keeps_intros]:
  "(\<And>call. keeps I (client env call)) \<Longrightarrow> keeps I (onStackStatusReceived env status)"
  unfolding onStackStatusReceived_def refresh_full_stack_state_def call_if_set_def
  by (intro keeps_intros)

lemma keeps_status_app [keeps_intros]:
  "(\<And>call. keeps I (client env call)) \<Longrightarrow> keeps I (stack_status_app env call)"
  unfolding stack_status_app_def by (cases call) (auto intro!: keeps_intros)

end

section \<open>Requests about the configuration and about data\<close>

context gateway_frame
begin

lemma keeps_setting [keeps_intros]: "keeps I call \<Longrightarrow> keeps I on_success \<Longrightarrow> keeps I (setting call on_success acc)"
  unfolding setting_def by (intro keeps_intros)

lemmas config_writers = WPC_set_role_def WPC_set_node_address_def WPC_set_network_address_def
  WPC_set_network_channel_def WPC_set_app_config_data_def WPC_get_app_config_data_size_def
  WPC_set_cipher_key_def WPC_is_cipher_key_set_def WPC_set_authentication_key_def
  WPC_is_authentication_key_set_def WPC_set_access_cycle_range_def msap_app_config_data_write_request_def
  confirm_result_def csap_attribute_read_request_def csap_attribute_write_request_def
  msap_attribute_write_request_def

lemma keeps_settings:
  "keeps I (set_node_role cfg acc)" "keeps I (set_node_address cfg acc)" "keeps I (set_network_address cfg acc)"
  "keeps I (set_network_channel cfg acc)" "keeps I (set_app_config cfg acc)" "keeps I (set_keys cfg acc)"
  "keeps I (set_ac_range cfg acc)" "keeps I (stop_for_config stop acc)"
  unfolding set_node_role_def set_node_address_def set_network_address_def set_network_channel_def set_app_config_def
    set_keys_def set_ac_range_def stop_for_config_def config_writers Let_def
  by (intro keeps_intros)+

lemma keeps_header [keeps_intros]: "keeps I (Common_Fill_response_header req_id code)"
  unfolding Common_Fill_response_header_def by (intro keeps_intros)

lemma keeps_set_config [keeps_intros]:
  "(\<And>call. keeps I (client env call)) \<Longrightarrow> keeps I (Proto_config_handle_set_config env req_id cfg resp)"
  unfolding Proto_config_handle_set_config_def restart_after_config_def
  by (intro keeps_intros keeps_settings)

lemma keeps_target_request [keeps_intros]:
  "(\<And>call. keeps I (client env call))
     \<Longrightarrow> keeps I (Proto_config_handle_set_scratchpad_target_and_action_request env req_id ta)"
  unfolding Proto_config_handle_set_scratchpad_target_and_action_request_def Proto_config_refresh_otap_infos_def
    write_target_def WPC_write_target_scratchpad_def msap_scratchpad_target_write_request_def confirm_result_def
  by (intro keeps_intros)

lemma keeps_config_requests [keeps_intros]:
  "keeps I (Proto_config_handle_get_configs req_id)" "keeps I (Proto_config_handle_get_scratchpad_status req_id)"
  "keeps I (Proto_config_handle_get_gateway_info_request req_id info)"
  unfolding Proto_config_handle_get_configs_def Proto_config_handle_get_scratchpad_status_def
    Proto_config_handle_get_gateway_info_request_def
  by (intro keeps_intros)+

end

text \<open>Sending a packet also touches the counter of packets and the table of pending notifications.\<close>

locale data_frame = gateway_frame I for I :: "'z gateway_config_scheme \<Rightarrow> bool" +
  assumes numbered_packet: "I s \<Longrightarrow> I (s\<lparr>tx_packet_id := p\<rparr>)"
    and notified: "I s \<Longrightarrow> I (s\<lparr>indication_sent_cb_table := table\<rparr>)"
begin

lemma keeps_send_fragments [keeps_intros]:
  "keeps I (send_fragments n i a buffer mtu fragments_n last_size tx_options p_id confirm)"
proof (induction n arbitrary: i confirm)
  case (Suc n)
  show ?case unfolding send_fragments.simps Let_def by (intro keeps_intros Suc.IH)
qed (simp add: keeps_ret)

lemma keeps_set_indication [keeps_intros]: "keeps I (set_indication_cb cb pdu_id)"
  by (rule keepsI) (auto simp: set_indication_cb_def notified split: prod.splits)

lemma keeps_send_data [keeps_intros]: "keeps I (WPC_send_data bytes n pdu_id dst qos src dest cb delay)"
  unfolding WPC_send_data_def WPC_send_data_with_options_def dsap_data_tx_request_def WPC_Int_get_mtu_def Let_def
  by (intro keeps_intros numbered_packet)

end

end
