(* ===== verification/Proto_Otap.thy ===== *)
theory Proto_Otap
  imports Proto_Frame
begin

text \<open>
  The scratchpad service of the gateway layer, \<^verbatim>\<open>lib/wpc_proto/internal_modules/proto_otap.c\<close>: the
  upload of a scratchpad, whole or in chunks, and its processing. The state machine of a chunked
  upload spans several requests: \<^verbatim>\<open>m_scratchpad_load_current_seq\<close> is the sequence number of the upload
  in progress, and \<^verbatim>\<open>m_restart_after_load\<close> says that the stack was stopped for it and has to be
  started again.
\<close>

section \<open>State and operations\<close>

record otap = gateway_config +
  m_scratchpad_load_current_seq :: u32
  m_restart_after_load :: bool

definition INVALID_CURRENT_SEQ :: u32 where "INVALID_CURRENT_SEQ = -1"

abbreviation set_current_seq :: "u32 \<Rightarrow> ('z otap_scheme, unit) prog" where
  "set_current_seq seq \<equiv> modify (\<lambda>s. s\<lparr>m_scratchpad_load_current_seq := seq\<rparr>)"

definition refresh_unless_restart :: "('z otap_scheme) event_env \<Rightarrow> ('z otap_scheme, unit) prog" where
  "refresh_unless_restart env =
     andthen (gets m_restart_after_load) (\<lambda>restart.
     if \<not> restart then Proto_config_refresh_otap_infos env else ret ())"

text \<open>The first chunk starts the upload; \<^const>\<open>Some\<close> is the early return when the node refuses it.\<close>

definition start_chunked_upload ::
  "('z otap_scheme) event_env \<Rightarrow> u32 \<Rightarrow> u32 \<Rightarrow> ('z otap_scheme, app_res option) prog" where
  "start_chunked_upload env total_size seq =
     andthen (set_current_seq seq) (\<lambda>_.
     andthen (WPC_start_local_scratchpad_update total_size (ucast seq)) (\<lambda>res.
     andthen (refresh_unless_restart env) (\<lambda>_.
     if res \<noteq> APP_RES_OK then andthen (set_current_seq INVALID_CURRENT_SEQ) (\<lambda>_. ret (Some res))
     else ret None)))"

text \<open>\<^verbatim>\<open>chunk_size\<close> and \<^verbatim>\<open>total_size\<close> are of type \<^verbatim>\<open>size_t\<close>, their sum with the offset is exact; the
  node's functions take them as \<^verbatim>\<open>uint32_t\<close>.\<close>

definition load_chunk ::
  "('z otap_scheme) event_env \<Rightarrow> nat \<Rightarrow> u8 list \<Rightarrow> nat \<Rightarrow> u32 \<Rightarrow> nat \<Rightarrow> u32 \<Rightarrow> ('z otap_scheme, app_res) prog" where
  "load_chunk env fuel chunk chunk_size offset total_size seq =
     andthen (gets m_scratchpad_load_current_seq) (\<lambda>current.
     if seq \<noteq> current then ret APP_RES_INVALID_SEQ
     else
       andthen (WPC_upload_local_block_scratchpad fuel (of_nat chunk_size) chunk offset) (\<lambda>res.
       if res \<noteq> APP_RES_OK then ret res
       else if unat offset + chunk_size = total_size then
         andthen (set_current_seq INVALID_CURRENT_SEQ) (\<lambda>_.
         andthen (refresh_unless_restart env) (\<lambda>_. ret APP_RES_OK))
       else ret APP_RES_OK))"

definition handle_scratchpad_chunk ::
  "('z otap_scheme) event_env \<Rightarrow> nat \<Rightarrow> u8 list \<Rightarrow> nat \<Rightarrow> u32 \<Rightarrow> nat \<Rightarrow> u32 \<Rightarrow> ('z otap_scheme, app_res) prog" where
  "handle_scratchpad_chunk env fuel chunk chunk_size offset total_size seq =
     andthen (if offset = 0 then start_chunked_upload env (of_nat total_size) seq else ret None) (\<lambda>refused.
     case refused of Some res \<Rightarrow> ret res
     | None \<Rightarrow> load_chunk env fuel chunk chunk_size offset total_size seq)"

text \<open>Stopping the stack before a change of the scratchpad, when it runs. The result says whether it was
  running.\<close>

definition stop_running_stack :: "('z wpc_scheme, bool) prog" where
  "stop_running_stack =
     andthen WPC_get_stack_status (\<lambda>(res, status).
     if res = APP_RES_OK then
       andthen (lift_sum (byte_at status 0)) (\<lambda>st.
       if st = 0 then
         andthen (WPC_set_autostart 0) (\<lambda>_.
         andthen WPC_stop_stack (\<lambda>_. ret True))
       else ret False)
     else ret False)"

record upload_req =
  up_req_id :: u64
  up_seq :: u32
  up_scratchpad :: "(u8 list \<times> nat) option"
  up_chunk_info :: "(u32 \<times> u32) option"

text \<open>What a request uploads: a chunk (start offset and total size), the whole scratchpad, or nothing,
  which clears the stored one.\<close>

definition perform_upload ::
  "('z otap_scheme) event_env \<Rightarrow> nat \<Rightarrow> upload_req \<Rightarrow> ('z otap_scheme, app_res) prog" where
  "perform_upload env fuel req =
     (case up_scratchpad req of
        Some (bytes, len) \<Rightarrow>
          (case up_chunk_info req of
             Some (start_offset, total_size) \<Rightarrow>
               handle_scratchpad_chunk env fuel bytes len start_offset (unat total_size) (up_seq req)
           | None \<Rightarrow>
               andthen (WPC_upload_local_scratchpad fuel (of_nat len) bytes (ucast (up_seq req))) (\<lambda>res.
               andthen (set_current_seq INVALID_CURRENT_SEQ) (\<lambda>_.
               andthen (refresh_unless_restart env) (\<lambda>_. ret res))))
      | None \<Rightarrow>
          andthen WPC_clear_local_scratchpad (\<lambda>res.
          andthen (set_current_seq INVALID_CURRENT_SEQ) (\<lambda>_. ret res)))"

definition restart_after_upload ::
  "('z otap_scheme) event_env \<Rightarrow> app_res \<Rightarrow> ('z otap_scheme, app_res) prog" where
  "restart_after_upload env res =
     andthen (gets m_restart_after_load) (\<lambda>restart.
     andthen (gets m_scratchpad_load_current_seq) (\<lambda>current.
     if restart \<and> current = INVALID_CURRENT_SEQ then
       andthen (WPC_start_stack (stack_status_app env)) (\<lambda>restart_res.
       andthen (if restart_res \<noteq> APP_RES_OK then ret ()
                else andthen (WPC_set_autostart 1) (\<lambda>_. ret ())) (\<lambda>_.
       andthen (modify (\<lambda>s. s\<lparr>m_restart_after_load := False\<rparr>)) (\<lambda>_.
       ret (if res = APP_RES_OK \<and> restart_res \<noteq> APP_RES_OK then restart_res else res))))
     else ret res))"

definition Proto_otap_handle_upload_scratchpad ::
  "('z otap_scheme) event_env \<Rightarrow> nat \<Rightarrow> upload_req \<Rightarrow> ('z otap_scheme, response_header) prog" where
  "Proto_otap_handle_upload_scratchpad env fuel req =
     (if up_seq req > 255 then respond (up_req_id req) APP_RES_INVALID_VALUE
      else
        andthen stop_running_stack (\<lambda>stopped.
        andthen (if stopped then modify (\<lambda>s. s\<lparr>m_restart_after_load := True\<rparr>) else ret ()) (\<lambda>_.
        andthen (perform_upload env fuel req) (\<lambda>res.
        andthen (restart_after_upload env res) (\<lambda>res.
        respond (up_req_id req) res)))))"

definition Proto_otap_handle_process_scratchpad ::
  "('z otap_scheme) event_env \<Rightarrow> u64 \<Rightarrow> ('z otap_scheme, response_header) prog" where
  "Proto_otap_handle_process_scratchpad env req_id =
     andthen stop_running_stack (\<lambda>restart.
     andthen WPC_update_local_scratchpad (\<lambda>update_res.
     andthen (if update_res \<noteq> APP_RES_OK then ret update_res else WPC_stop_stack) (\<lambda>global_res.
     andthen
       (if restart then
          andthen (WPC_start_stack (stack_status_app env)) (\<lambda>res.
          if res \<noteq> APP_RES_OK then ret (if global_res = APP_RES_OK then res else global_res)
          else andthen (WPC_set_autostart 1) (\<lambda>_. ret global_res))
        else ret global_res) (\<lambda>res.
     respond req_id res))))"

section \<open>A stack stopped for an upload is started again\<close>

context gateway_frame
begin

lemma keeps_start_update [keeps_intros]: "keeps I (WPC_start_local_scratchpad_update len seq)"
  unfolding WPC_start_local_scratchpad_update_def msap_scratchpad_start_request_def confirm_result_def
  by (intro keeps_intros)

lemma keeps_upload_loop: "keeps I (upload_loop fuel len bytes start max_size loaded)"
proof (induction fuel arbitrary: loaded)
  case (Suc fuel)
  show ?case
    unfolding upload_loop.simps msap_scratchpad_block_request_def confirm_result_def Let_def
    by (intro keeps_intros Suc.IH)
qed (simp add: keeps_halt)

lemma keeps_upload_block [keeps_intros]: "keeps I (WPC_upload_local_block_scratchpad fuel len bytes start)"
  unfolding WPC_upload_local_block_scratchpad_def WPC_get_scratchpad_block_max_def read_single_byte_msap_def
    msap_attribute_read_request_def
  by (intro keeps_intros keeps_upload_loop)

lemma keeps_upload [keeps_intros]: "keeps I (WPC_upload_local_scratchpad fuel len bytes seq)"
  unfolding WPC_upload_local_scratchpad_def by (intro keeps_intros)

lemma keeps_clear [keeps_intros]: "keeps I WPC_clear_local_scratchpad"
  unfolding WPC_clear_local_scratchpad_def msap_scratchpad_clear_request_def confirm_result_def
  by (intro keeps_intros)

lemma keeps_stop_running [keeps_intros]: "keeps I stop_running_stack"
  unfolding stop_running_stack_def by (intro keeps_intros)

end

interpretation upload: gateway_frame "\<lambda>s. m_scratchpad_load_current_seq s = seq \<and> m_restart_after_load s = b"
  for seq b
  by unfold_locales simp_all

definition upload_state_ok :: "'z otap_scheme \<Rightarrow> bool" where
  "upload_state_ok s \<longleftrightarrow> (m_restart_after_load s \<longrightarrow> m_scratchpad_load_current_seq s \<noteq> INVALID_CURRENT_SEQ)"

text \<open>The client's callbacks cannot reach the variables of the service.\<close>

definition client_apart :: "('z otap_scheme) event_env \<Rightarrow> bool" where
  "client_apart env \<longleftrightarrow> (\<forall>call seq b.
     keeps (\<lambda>s. m_scratchpad_load_current_seq s = seq \<and> m_restart_after_load s = b) (client env call))"

lemma upload_kept:
  assumes "\<And>seq b. keeps (\<lambda>s. m_scratchpad_load_current_seq s = seq \<and> m_restart_after_load s = b) m" "m s = Inr (x, t)"
  shows "m_scratchpad_load_current_seq t = m_scratchpad_load_current_seq s"
    "m_restart_after_load t = m_restart_after_load s"
  using keepsD [OF assms(1) _ assms(2)] by auto

lemma restart_after_upload_ok: "restart_after_upload env res s = Inr (res', t) \<Longrightarrow> upload_state_ok t"
  unfolding restart_after_upload_def by (auto simp: upload_state_ok_def split: if_splits)

text \<open>Whatever the node answers, after a request to upload a scratchpad the flag that asks for a restart
  is set only while a chunked upload is in progress.\<close>

lemma upload_state_kept:
  assumes "upload_state_ok s" "Proto_otap_handle_upload_scratchpad env fuel req s = Inr (resp, t)"
  shows "upload_state_ok t"
proof -
  have resp: "upload_state_ok u \<Longrightarrow> respond req_id res u = Inr (r, v) \<Longrightarrow> upload_state_ok v" for req_id res u r v
    using upload_kept [OF upload.keeps_response] by (fastforce simp: upload_state_ok_def)
  show ?thesis
    using assms(2) resp [OF assms(1)] resp [OF restart_after_upload_ok]
    unfolding Proto_otap_handle_upload_scratchpad_def by (auto split: if_splits)
qed

section \<open>The state machine of chunked uploads\<close>

text \<open>The upload in progress, and the changes that one request may make to it.\<close>

definition upload_in_progress :: "'z otap_scheme \<Rightarrow> u32 option" where
  "upload_in_progress s =
     (if m_scratchpad_load_current_seq s = INVALID_CURRENT_SEQ then None
      else Some (m_scratchpad_load_current_seq s))"

inductive upload_step :: "upload_req \<Rightarrow> u32 option \<Rightarrow> u32 option \<Rightarrow> bool" where
  sequence_too_large: "up_seq req > 255 \<Longrightarrow> upload_step req st st"
| cleared: "up_scratchpad req = None \<Longrightarrow> upload_step req st None"
| whole_scratchpad: "up_scratchpad req = Some data \<Longrightarrow> up_chunk_info req = None \<Longrightarrow> upload_step req st None"
| first_chunk: "up_chunk_info req = Some (off, total_size) \<Longrightarrow> off = 0
    \<Longrightarrow> st' \<in> {None, Some (up_seq req)} \<Longrightarrow> upload_step req st st'"
| foreign_chunk: "up_chunk_info req = Some (off, total_size) \<Longrightarrow> st \<noteq> Some (up_seq req)
    \<Longrightarrow> upload_step req st st"
| next_chunk: "up_chunk_info req = Some (off, total_size) \<Longrightarrow> st = Some (up_seq req)
    \<Longrightarrow> upload_step req st st"
| last_chunk: "up_scratchpad req = Some (bytes, len) \<Longrightarrow> up_chunk_info req = Some (off, total_size)
    \<Longrightarrow> st = Some (up_seq req) \<Longrightarrow> unat off + len = unat total_size
    \<Longrightarrow> upload_step req st None"

inductive_cases upload_ends: "upload_step req (Some seq) None"
inductive_simps upload_idle: "upload_step req None st"

lemma current_kept:
  assumes "\<And>seq b. keeps (\<lambda>s. m_scratchpad_load_current_seq s = seq \<and> m_restart_after_load s = b) m" "m s = Inr (x, t)"
  shows "upload_in_progress t = upload_in_progress s"
  using upload_kept [OF assms] by (simp add: upload_in_progress_def)

lemma events_apart:
  "client_apart env \<Longrightarrow> keeps (\<lambda>s. m_scratchpad_load_current_seq s = seq \<and> m_restart_after_load s = b) (client env call)"
  by (simp add: client_apart_def)

lemma refresh_kept:
  assumes "client_apart env" "refresh_unless_restart env s = Inr (x, t)"
  shows "m_scratchpad_load_current_seq t = m_scratchpad_load_current_seq s"
proof -
  have "keeps (\<lambda>s. m_scratchpad_load_current_seq s = seq \<and> m_restart_after_load s = b) (refresh_unless_restart env)"
    for seq b
    unfolding refresh_unless_restart_def Proto_config_refresh_otap_infos_def
    by (intro keeps_intros upload.keeps_status_received events_apart assms(1))
  from upload_kept(1) [OF this assms(2)] show ?thesis .
qed

lemma restart_kept:
  assumes "client_apart env" "restart_after_upload env res s = Inr (x, t)"
  shows "m_scratchpad_load_current_seq t = m_scratchpad_load_current_seq s"
proof -
  have k: "m_scratchpad_load_current_seq v = m_scratchpad_load_current_seq u"
    if "WPC_start_stack (stack_status_app env) u = Inr (y, v)" for u v y
    using upload_kept(1) [OF upload.keeps_start_stack [OF upload.keeps_status_app [OF events_apart [OF assms(1)]]] that] .
  have a: "m_scratchpad_load_current_seq v = m_scratchpad_load_current_seq u"
    if "WPC_set_autostart 1 u = Inr (y, v)" for u v y
    using upload_kept(1) [OF upload.keeps_autostart that] .
  show ?thesis
    using assms(2) unfolding restart_after_upload_def
    by (auto split: if_splits dest!: k a)
qed

lemma chunk_steps:
  assumes "client_apart env" "seq \<noteq> INVALID_CURRENT_SEQ"
    and "handle_scratchpad_chunk env fuel bytes len off total_size seq s = Inr (res, t)"
  shows "if off = 0 then m_scratchpad_load_current_seq t \<in> {INVALID_CURRENT_SEQ, seq}
    else m_scratchpad_load_current_seq t = m_scratchpad_load_current_seq s
      \<or> m_scratchpad_load_current_seq s = seq \<and> unat off + len = total_size
        \<and> m_scratchpad_load_current_seq t = INVALID_CURRENT_SEQ"
proof -
  have up: "m_scratchpad_load_current_seq v = m_scratchpad_load_current_seq u"
    if "WPC_upload_local_block_scratchpad fuel n bytes o' u = Inr (y, v)" for n o' u v y
    using upload_kept(1) [OF upload.keeps_upload_block that] .
  have st: "m_scratchpad_load_current_seq v = m_scratchpad_load_current_seq u"
    if "WPC_start_local_scratchpad_update n q u = Inr (y, v)" for n q u v y
    using upload_kept(1) [OF upload.keeps_start_update that] .
  note re = refresh_kept [OF assms(1)]
  show ?thesis
    using assms(3) unfolding handle_scratchpad_chunk_def load_chunk_def start_chunked_upload_def
    by (auto split: if_splits option.splits dest!: up st re)
qed

text \<open>A request to upload a scratchpad only makes the changes of one step: the part that handles the chunk,
  the part that performs the upload, and the whole request.\<close>

lemma chunk_upload_step:
  assumes "client_apart env" "(up_seq req :: u32) \<noteq> INVALID_CURRENT_SEQ"
    and "up_scratchpad req = Some (bytes, len)" "up_chunk_info req = Some (off, total_size)"
    and "handle_scratchpad_chunk env fuel bytes len off (unat total_size) (up_seq req) s = Inr (res, t)"
  shows "upload_step req (upload_in_progress s) (upload_in_progress t)"
proof (cases "off = 0")
  case True
  then have "upload_in_progress t \<in> {None, Some (up_seq req)}"
    using chunk_steps [OF assms(1,2,5)] assms(2) by (auto simp: upload_in_progress_def)
  with True assms(3,4) show ?thesis by (intro first_chunk) auto
next
  case False
  with chunk_steps [OF assms(1,2,5)] consider
      "m_scratchpad_load_current_seq t = m_scratchpad_load_current_seq s"
    | "m_scratchpad_load_current_seq s = up_seq req" "unat off + len = unat total_size"
      "m_scratchpad_load_current_seq t = INVALID_CURRENT_SEQ" by auto
  then show ?thesis
  proof cases
    case 1
    then have "upload_in_progress t = upload_in_progress s" by (simp add: upload_in_progress_def)
    then show ?thesis using assms(4) foreign_chunk next_chunk by metis
  next
    case 2
    then have "upload_in_progress s = Some (up_seq req)" "upload_in_progress t = None"
      using assms(2) by (simp_all add: upload_in_progress_def)
    then show ?thesis using 2(2) assms(3,4) last_chunk by metis
  qed
qed

lemma perform_upload_step:
  assumes "client_apart env" "(up_seq req :: u32) \<noteq> INVALID_CURRENT_SEQ"
    and "perform_upload env fuel req s = Inr (res, t)"
  shows "upload_step req (upload_in_progress s) (upload_in_progress t)"
proof (cases "up_scratchpad req")
  case None
  then have "upload_in_progress t = None" using assms(3) by (auto simp: perform_upload_def upload_in_progress_def)
  with None show ?thesis by (simp add: cleared)
next
  case (Some data)
  obtain bytes len where d: "data = (bytes, len)" by (cases data)
  show ?thesis
  proof (cases "up_chunk_info req")
    case None
    then have "upload_in_progress t = None"
      using assms(3) Some d refresh_kept [OF assms(1)] by (fastforce simp: perform_upload_def upload_in_progress_def)
    with None Some show ?thesis by (simp add: whole_scratchpad)
  next
    case info: (Some info)
    obtain off total_size where i: "info = (off, total_size)" by (cases info)
    have "handle_scratchpad_chunk env fuel bytes len off (unat total_size) (up_seq req) s = Inr (res, t)"
      using assms(3) Some info d i by (simp add: perform_upload_def)
    from chunk_upload_step [OF assms(1,2) _ _ this] Some info d i show ?thesis by simp
  qed
qed

lemma upload_steps:
  assumes "client_apart env" "Proto_otap_handle_upload_scratchpad env fuel req s = Inr (resp, t)"
  shows "upload_step req (upload_in_progress s) (upload_in_progress t)"
proof (cases "up_seq req > 255")
  case True
  then have "respond (up_req_id req) APP_RES_INVALID_VALUE s = Inr (resp, t)"
    using assms(2) by (simp add: Proto_otap_handle_upload_scratchpad_def)
  from current_kept [OF upload.keeps_response this] True show ?thesis by (simp add: sequence_too_large)
next
  case False
  have "255 < INVALID_CURRENT_SEQ"
    by (simp add: INVALID_CURRENT_SEQ_def word_less_nat_alt unsigned_minus_1_eq_mask mask_eq_exp_minus_1)
  with False have valid: "(up_seq req :: u32) \<noteq> INVALID_CURRENT_SEQ" by auto
  obtain stopped s1 s2 res s3 res' s4 where steps: "stop_running_stack s = Inr (stopped, s1)"
    "(if stopped then modify (\<lambda>s. s\<lparr>m_restart_after_load := True\<rparr>) else ret ()) s1 = Inr ((), s2)"
    "perform_upload env fuel req s2 = Inr (res, s3)"
    "restart_after_upload env res s3 = Inr (res', s4)"
    "respond (up_req_id req) res' s4 = Inr (resp, t)"
    using assms(2) False unfolding Proto_otap_handle_upload_scratchpad_def by auto
  have "upload_in_progress s2 = upload_in_progress s"
    using current_kept [OF upload.keeps_stop_running steps(1)] steps(2)
    by (auto simp: upload_in_progress_def split: if_splits)
  moreover have "upload_in_progress t = upload_in_progress s3"
    using current_kept [OF upload.keeps_response steps(5)] restart_kept [OF assms(1) steps(4)]
    by (simp add: upload_in_progress_def)
  ultimately show ?thesis using perform_upload_step [OF assms(1) valid steps(3)] by simp
qed

section \<open>A complete chunked upload\<close>

text \<open>What a client does with a scratchpad in chunks, and what the node has to answer.\<close>

primrec upload_chunks ::
  "('z otap_scheme) event_env \<Rightarrow> nat \<Rightarrow> nat \<Rightarrow> u32 \<Rightarrow> nat \<Rightarrow> u8 list list \<Rightarrow> ('z otap_scheme, app_res list) prog" where
  "upload_chunks env fuel total_size seq off [] = ret []"
| "upload_chunks env fuel total_size seq off (c # cs) =
     andthen (handle_scratchpad_chunk env fuel c (length c) (of_nat off) total_size seq) (\<lambda>r.
     andthen (upload_chunks env fuel total_size seq (off + length c) cs) (\<lambda>rs. ret (r # rs)))"

primrec chunks_dialogue :: "u8 \<Rightarrow> nat \<Rightarrow> u8 list list \<Rightarrow> (wpc_frame \<times> u8 list) list" where
  "chunks_dialogue max_size off [] = []"
| "chunks_dialogue max_size off (c # cs) =
     block_dialogue max_size (of_nat off) c @ chunks_dialogue max_size (off + length c) cs"

definition loading :: "u32 \<Rightarrow> 'z otap_scheme \<Rightarrow> bool" where
  "loading seq s \<longleftrightarrow> m_scratchpad_load_current_seq s = seq \<and> m_restart_after_load s"

lemma loading_config:
  assumes "engine_config t = engine_config s"
  shows "loading seq t \<longleftrightarrow> loading seq s" "m_restart_after_load t = m_restart_after_load s"
proof -
  have "wpc_int.more t = wpc_int.more s" using assms by (rule engine_config_more)
  then have "m_scratchpad_load_current_seq t = m_scratchpad_load_current_seq s"
    "m_restart_after_load t = m_restart_after_load s"
    by (cases s; cases t; simp)+
  then show "loading seq t \<longleftrightarrow> loading seq s" "m_restart_after_load t = m_restart_after_load s"
    by (simp_all add: loading_def)
qed

definition chunk_fits :: "u8 \<Rightarrow> nat \<Rightarrow> u8 list \<Rightarrow> bool" where
  "chunk_fits max_size fuel c \<longleftrightarrow> c \<noteq> [] \<and> length c < 4294967296 \<and> length (fragments (unat max_size) 0 c) < fuel"

lemma load_chunk_run:
  assumes "chunk_fits max_size fuel c" "0 < max_size" "max_size \<le> 112"
    and "dialogue (block_dialogue max_size off c @ later) s" "loading seq s"
  obtains t where "load_chunk env fuel c (length c) off total_size seq s = Inr (APP_RES_OK, t)"
    "dialogue later t" "loading (if unat off + length c = total_size then INVALID_CURRENT_SEQ else seq) t"
    "io_tx t = io_tx s @ map wire_frame (numbered (req_frame_id s) (map fst (block_dialogue max_size off c)))"
    "req_frame_id t = req_frame_id s + of_nat (length (block_dialogue max_size off c))"
proof -
  from block_upload_run [OF _ _ assms(2,3) _ assms(4), of fuel "[]"] assms(1) obtain u where
    up: "WPC_upload_local_block_scratchpad fuel (of_nat (length c)) c off s = Inr (APP_RES_OK, u)"
    and u: "dialogue later u" "engine_config u = engine_config s"
    "io_tx u = io_tx s @ map wire_frame (numbered (req_frame_id s) (map fst (block_dialogue max_size off c)))"
    "req_frame_id u = req_frame_id s + of_nat (length (block_dialogue max_size off c))"
    by (auto simp: chunk_fits_def)
  have lu: "loading seq u" using loading_config(1) [OF u(2)] assms(5) by simp
  define t where "t = (if unat off + length c = total_size
    then u\<lparr>m_scratchpad_load_current_seq := INVALID_CURRENT_SEQ\<rparr> else u)"
  have "load_chunk env fuel c (length c) off total_size seq s = Inr (APP_RES_OK, t)"
    using up lu assms(5)
    by (simp add: load_chunk_def refresh_unless_restart_def loading_def prog_simps t_def)
  moreover have "dialogue later t" using u(1) by (simp add: t_def dialogue_def)
  moreover have "loading (if unat off + length c = total_size then INVALID_CURRENT_SEQ else seq) t"
    using lu by (simp add: t_def loading_def)
  ultimately show ?thesis using that u(3,4) by (simp add: t_def)
qed


lemma numbered_append: "numbered fid (xs @ ys) = numbered fid xs @ numbered (fid + of_nat (length xs)) ys"
  by (induction xs arbitrary: fid) (simp_all add: add.assoc)

text \<open>The chunks after the first one.\<close>

lemma upload_chunks_run:
  assumes "\<forall>c \<in> set chunks. chunk_fits max_size fuel c" "0 < max_size" "max_size \<le> 112"
    and "0 < off" "off + length (concat chunks) = total_size" "total_size < 4294967296"
    and "dialogue (chunks_dialogue max_size off chunks) s" "loading (if chunks = [] then INVALID_CURRENT_SEQ else seq) s"
  shows "\<exists>t. upload_chunks env fuel total_size seq off chunks s = Inr (replicate (length chunks) APP_RES_OK, t)
    \<and> loading INVALID_CURRENT_SEQ t
    \<and> io_tx t = io_tx s @ map wire_frame (numbered (req_frame_id s) (map fst (chunks_dialogue max_size off chunks)))"
  using assms
proof (induction chunks arbitrary: off s)
  case (Cons c cs)
  have fits: "chunk_fits max_size fuel c" and ne: "c \<noteq> []" using Cons.prems(1) by (simp_all add: chunk_fits_def)
  have off: "unat (of_nat off :: u32) = off" using Cons.prems(5,6) by (intro unat_of_nat_u32) simp
  then have nz: "(of_nat off :: u32) \<noteq> 0" using Cons.prems(4) by auto
  have dlg: "dialogue (block_dialogue max_size (of_nat off) c @ chunks_dialogue max_size (off + length c) cs) s"
    using Cons.prems(7) by simp
  have "loading seq s" using Cons.prems(8) by simp
  from load_chunk_run [OF fits assms(2,3) dlg this, of env total_size] obtain u where
    load: "load_chunk env fuel c (length c) (of_nat off) total_size seq s = Inr (APP_RES_OK, u)"
    and u: "dialogue (chunks_dialogue max_size (off + length c) cs) u"
      "loading (if off + length c = total_size then INVALID_CURRENT_SEQ else seq) u"
      "io_tx u = io_tx s @ map wire_frame (numbered (req_frame_id s) (map fst (block_dialogue max_size (of_nat off) c)))"
      "req_frame_id u = req_frame_id s + of_nat (length (block_dialogue max_size (of_nat off) c))"
    unfolding off .
  have end_iff: "(off + length c = total_size) = (cs = [])"
    using Cons.prems(1,5) by (cases cs) (auto simp: chunk_fits_def)
  have "\<exists>t. upload_chunks env fuel total_size seq (off + length c) cs u = Inr (replicate (length cs) APP_RES_OK, t)
      \<and> loading INVALID_CURRENT_SEQ t
      \<and> io_tx t = io_tx u @ map wire_frame (numbered (req_frame_id u) (map fst (chunks_dialogue max_size (off + length c) cs)))"
    using Cons.prems u(1,2) end_iff by (intro Cons.IH) auto
  then show ?case
    using load nz u(3,4) by (auto simp: handle_scratchpad_chunk_def prog_simps numbered_append)
qed (simp add: ret_def)

text \<open>C5: A scratchpad sent in chunks arrives whole. When the stack was stopped for the upload and the node
  accepts the start, tells its maximal block size for each chunk and accepts every block, every chunk
  is answered with success, the frames sent are exactly the start request with the total size and,
  chunk after chunk, the query and the blocks at the addresses of the chunk, and the upload is over
  after the last chunk.\<close>

theorem chunked_upload_complete:
  assumes "chunks \<noteq> []" "\<forall>c \<in> set chunks. chunk_fits max_size fuel c" "0 < max_size" "max_size \<le> 112"
    and "total_size = length (concat chunks)" "total_size < 4294967296" "m_restart_after_load s"
    and "script = (start_update (of_nat total_size) (ucast seq), [0]) # chunks_dialogue max_size 0 chunks"
    and "dialogue script s"
  shows "\<exists>t. upload_chunks env fuel total_size seq 0 chunks s = Inr (replicate (length chunks) APP_RES_OK, t)
    \<and> m_scratchpad_load_current_seq t = INVALID_CURRENT_SEQ \<and> m_restart_after_load t
    \<and> io_tx t = io_tx s @ map wire_frame (numbered (req_frame_id s) (map fst script))"
proof -
  obtain c cs where chunks: "chunks = c # cs" using assms(1) by (cases chunks) simp_all
  have fits: "chunk_fits max_size fuel c" and ne: "c \<noteq> []" using assms(2) by (simp_all add: chunks chunk_fits_def)
  let ?s = "s\<lparr>m_scratchpad_load_current_seq := seq\<rparr>"
  have "dialogue ((start_update (of_nat total_size) (ucast seq), [0])
      # block_dialogue max_size 0 c @ chunks_dialogue max_size (length c) cs) ?s"
    using assms(9) by (simp add: assms(8) chunks dialogue_def)
  from start_update_run [OF this] obtain s1 where
    start: "WPC_start_local_scratchpad_update (of_nat total_size) (ucast seq) ?s = Inr (APP_RES_OK, s1)"
    and dlg: "dialogue (block_dialogue max_size 0 c @ chunks_dialogue max_size (length c) cs) s1"
    and tx1: "io_tx s1 = io_tx ?s @ map wire_frame (numbered (req_frame_id ?s) [start_update (of_nat total_size) (ucast seq)])"
    and id1: "req_frame_id s1 = req_frame_id ?s + 1" and cfg: "engine_config s1 = engine_config ?s" .
  have l1: "loading seq s1" using loading_config(1) [OF cfg] assms(7) by (simp add: loading_def)
  have first: "start_chunked_upload env (of_nat total_size) seq s = Inr (None, s1)"
    using start l1 by (simp add: start_chunked_upload_def refresh_unless_restart_def loading_def prog_simps)
  from load_chunk_run [OF fits assms(3,4) dlg l1, of env total_size] obtain u where
    load: "load_chunk env fuel c (length c) 0 total_size seq s1 = Inr (APP_RES_OK, u)"
    and u: "dialogue (chunks_dialogue max_size (length c) cs) u"
      "loading (if length c = total_size then INVALID_CURRENT_SEQ else seq) u"
      "io_tx u = io_tx s1 @ map wire_frame (numbered (req_frame_id s1) (map fst (block_dialogue max_size 0 c)))"
      "req_frame_id u = req_frame_id s1 + of_nat (length (block_dialogue max_size 0 c))"
    by auto
  have end_iff: "(length c = total_size) = (cs = [])"
    using assms(2,5) by (cases cs) (auto simp: chunks chunk_fits_def)
  have "\<forall>c \<in> set cs. chunk_fits max_size fuel c" "0 < length c" "length c + length (concat cs) = total_size"
    "loading (if cs = [] then INVALID_CURRENT_SEQ else seq) u"
    using assms(2,5) ne u(2) end_iff by (auto simp: chunks)
  from upload_chunks_run [OF this(1) assms(3,4) this(2,3) assms(6) u(1) this(4), of env] obtain t where
    "upload_chunks env fuel total_size seq (length c) cs u = Inr (replicate (length cs) APP_RES_OK, t)"
    "loading INVALID_CURRENT_SEQ t"
    "io_tx t = io_tx u @ map wire_frame (numbered (req_frame_id u) (map fst (chunks_dialogue max_size (length c) cs)))"
    by blast
  then show ?thesis
    using first load u(3,4) tx1 id1
    by (auto simp: chunks assms(8) handle_scratchpad_chunk_def prog_simps loading_def add.assoc numbered_append)
qed

section \<open>Concrete runs\<close>

definition no_scratchpad :: app_scratchpad_status where
  "no_scratchpad = \<lparr>scrat_len = 0, scrat_crc = 0, scrat_seq_number = 0, scrat_type = 0, scrat_status = 0,
     processed_scrat_len = 0, processed_scrat_crc = 0, processed_scrat_seq_number = 0,
     firmware_memory_area_id = 0, firmware_major_ver = 0, firmware_minor_ver = 0, firmware_maint_ver = 0,
     firmware_dev_ver = 0\<rparr>"

definition blank_config :: sink_config where
  "blank_config = \<lparr>node_address = 0, network_address = 0, CipherKeySet = False, AuthenticationKeySet = False,
     stack_profile = 0, hw_magic = 0, ac_limit_min = 0, ac_limit_max = 0, app_config_max_size = 0,
     fw_version = [0, 0, 0, 0], ac_range_min_cur = 0, ac_range_max_cur = 0, max_mtu = 0, ch_range_min = 0,
     ch_range_max = 0, pdu_buffer_size = 0, StackStatus = 0, network_channel = 0, app_node_role = 0,
     otap_status = no_scratchpad, target_sequence = 0, target_crc = 0, target_action = 0, target_param = 0\<rparr>"

definition quiet_otap :: otap where
  "quiet_otap = \<lparr>io_rx = [], io_wr = [], io_tx = [], io_clock = [], io_epoch = [77], io_waits = [],
     m_locked = False, req_frame_id = 0, m_last_successful_answer_ts = 0, m_timeout_no_answer_ms = 0,
     m_mtu = 102, m_disabled_poll_request = False, close_returns = True, m_app_conf_cb = None, m_scan_neighbor_cb = None,
     m_stack_status_cb = None, m_config_data_item_cb = None, mallocs = [], m_fragment_max_duration_s = 0,
     m_packets = [], m_is_queue_empty = True, m_last_gc_ts_ms = 0, m_data_cb = None,
     reassembly_buffer = replicate 1500 0, indication_sent_cb_table = replicate 16
       \<lparr>pi_cb = None, pi_pdu_id = 0, pi_busy = False\<rparr>, tx_packet_id = 0,
     m_timeout_after_stop_task_s = 60, m_gateway_id = [103], m_gateway_model = [], m_gateway_version = [],
     m_sink_id = [115], rand_values = [], m_sink_config = blank_config, m_onProtoEventStatus_cb = None,
     m_scratchpad_load_current_seq = INVALID_CURRENT_SEQ, m_restart_after_load = False\<rparr>"

lemma quiet_otap_fields [simp]:
  "io_tx quiet_otap = []" "req_frame_id quiet_otap = 0" "io_epoch quiet_otap = [77]"
  "m_sink_id quiet_otap = [115]" "m_gateway_id quiet_otap = [103]"
  "m_scratchpad_load_current_seq quiet_otap = INVALID_CURRENT_SEQ" "\<not> m_restart_after_load quiet_otap"
  by (simp_all only: quiet_otap_def otap.simps gateway_config.simps gateway.simps wpc_int.simps io.simps not_False_eq_True)

lemma on_script_otap [simp]:
  "m_scratchpad_load_current_seq (on_script script s) = m_scratchpad_load_current_seq s"
  "m_restart_after_load (on_script script s) = m_restart_after_load s"
  "io_epoch (on_script script s) = io_epoch s" "m_sink_id (on_script script s) = m_sink_id s"
  "m_gateway_id (on_script script s) = m_gateway_id s"
  for s :: "'z otap_scheme"
  by (simp_all add: on_script_def)

text \<open>An environment whose client does nothing.\<close>

definition quiet_env :: "'s event_env" where
  "quiet_env = \<lparr>encode_event = (\<lambda>_ _. None), client = (\<lambda>_. ret ())\<rparr>"

lemma quiet_env_apart: "client_apart quiet_env"
  by (simp add: client_apart_def quiet_env_def keeps_ret)

theorem chunked_upload_complete_witness:
  "\<exists>(s :: otap) t. upload_chunks quiet_env 5 5 9 0 [[1, 2, 3], [4, 5]] s = Inr ([APP_RES_OK, APP_RES_OK], t)
     \<and> m_scratchpad_load_current_seq t = INVALID_CURRENT_SEQ \<and> length (io_tx t) = 6"
proof -
  define chunks :: "u8 list list" where "chunks = [[1, 2, 3], [4, 5]]"
  define script where "script = (start_update (of_nat 5) (ucast (9 :: u32)), [0]) # chunks_dialogue 2 0 chunks"
  define s where "s = on_script script (quiet_otap\<lparr>m_restart_after_load := True\<rparr>)"
  have fits: "\<forall>c \<in> set chunks. chunk_fits 2 5 c"
    by (simp add: chunks_def chunk_fits_def fragments.simps)
  have h: "chunks \<noteq> []" "(0 :: u8) < 2" "(2 :: u8) \<le> 112" "5 = length (concat chunks)" "(5 :: nat) < 4294967296"
    "m_restart_after_load s" "dialogue script s"
    by (simp_all add: chunks_def s_def)
  from chunked_upload_complete [OF h(1) fits h(2-6) script_def h(7), of quiet_env] obtain t where
    t: "upload_chunks quiet_env 5 5 9 0 chunks s = Inr (replicate (length chunks) APP_RES_OK, t)"
    "m_scratchpad_load_current_seq t = INVALID_CURRENT_SEQ"
    "io_tx t = io_tx s @ map wire_frame (numbered (req_frame_id s) (map fst script))"
    by blast
  have "length script = 6"
    by (simp add: script_def chunks_def block_dialogue_def block_script_def fragments.simps)
  with t show ?thesis
    by (intro exI [of _ s] exI [of _ t]) (simp add: chunks_def numeral_2_eq_2 s_def)
qed

abbreviation stack_status_query :: wpc_frame where
  "stack_status_query \<equiv> byte_query (ucast MSAP_STACK_STATUS)"

interpretation epoch_readings: request_invariant "\<lambda>s. io_epoch s = es" for es
  by unfold_locales simp_all

lemma stopped_stack_run:
  assumes "dialogue ((stack_status_query, [0, 1, 0, 1, 1]) # script) s"
  obtains t where "stop_running_stack s = Inr (False, t)" "dialogue script t" "io_epoch t = io_epoch s"
    "engine_config t = engine_config s"
proof -
  from single_byte_run [OF assms] obtain t where
    "read_single_byte_msap (ucast MSAP_STACK_STATUS) s = Inr ((APP_RES_OK, [1]), t)" "dialogue script t"
    "engine_config t = engine_config s" .
  moreover have "keeps (\<lambda>u. io_epoch u = io_epoch s) (read_single_byte_msap (ucast MSAP_STACK_STATUS))"
    unfolding read_single_byte_msap_def read_bytes_def msap_attribute_read_request_def attribute_read_request_def
    by (intro keeps_intros epoch_readings.keeps_request)
  from keepsD [OF this refl calculation(1)] have "io_epoch t = io_epoch s" .
  ultimately show ?thesis using that
    by (simp add: stop_running_stack_def WPC_get_stack_status_def prog_simps byte_at_def)
qed

lemma clear_run:
  assumes "dialogue [(new_request MSAP_SCRATCH_CLEAR_REQUEST 0 [], [0])] s"
  obtains t where "WPC_clear_local_scratchpad s = Inr (APP_RES_OK, t)" "io_epoch t = io_epoch s" "engine_config t = engine_config s"
proof -
  let ?clear = "new_request MSAP_SCRATCH_CLEAR_REQUEST 0 []"
  have "short_request ?clear" "primitive_id ?clear < 0x80" "length [0 :: u8] \<le> 200"
    by (simp_all add: short_new_request MSAP_SCRATCH_CLEAR_REQUEST_def)
  note step = dialogue_Cons [OF assms this, where timeout = SCRATCHPAD_START_TIMEOUT_MS]
  have "WPC_clear_local_scratchpad s = Inr (APP_RES_OK,
      answered (sent_bytes ?clear s) (confirm_bytes ?clear (req_frame_id s) [0]) SCRATCHPAD_START_TIMEOUT_MS s)"
    using step(1)
    by (simp add: WPC_clear_local_scratchpad_def msap_scratchpad_clear_request_def
        prog_simps confirm_result_def generic_confirm_def pl_u8_def byte_at_def confirm_bytes_def
        convert_error_code_def SCRATCHPAD_CLEAR_LOCAL_ERROR_CODE_LUT_def)
  moreover have "io_epoch (answered (sent_bytes ?clear s) (confirm_bytes ?clear (req_frame_id s) [0]) SCRATCHPAD_START_TIMEOUT_MS s) = io_epoch s"
    by (simp add: answered_def)
  ultimately show ?thesis using step(5) that by blast
qed

lemma respond_run:
  assumes "io_epoch s = now # later" "res \<noteq> APP_RES_OPERATION_NOT_SUPPORTED"
  shows "\<exists>resp t. respond req_id res s = Inr (resp, t) \<and> otap.m_scratchpad_load_current_seq t = m_scratchpad_load_current_seq s
    \<and> m_restart_after_load t = m_restart_after_load s"
  using assms
  by (simp add: respond_def convert_error_code_cases Common_Fill_response_header_def prog_simps
      Platform_get_timestamp_ms_epoch_def)

end
