(* ===== verification/Proto_Data.thy ===== *)
theory Proto_Data
  imports Proto_Otap
begin

text \<open>
  The data service of the gateway layer, \<^verbatim>\<open>lib/wpc_proto/internal_modules/proto_data.c\<close>: every packet
  that the node delivers becomes an event for the gateway's client, and a request of the client
  becomes a packet to send.
\<close>

section \<open>State and messages\<close>

record data_service = otap +
  m_rx_event_cb :: "callback option"

record packet_received_event =
  pre_header :: event_header
  pre_source_address :: u32
  pre_destination_address :: u32
  pre_source_endpoint :: u32
  pre_destination_endpoint :: u32
  pre_travel_time_ms :: u32
  pre_rx_time_ms_epoch :: u64
  pre_qos :: u32
  pre_payload :: "u8 list"
  pre_hop_count :: u32
  pre_network_address :: u64

record send_packet_req =
  sp_req_id :: u64
  sp_destination_address :: u32
  sp_source_endpoint :: u32
  sp_destination_endpoint :: u32
  sp_qos :: u32
  sp_payload :: "u8 list"
  sp_payload_size :: nat
  sp_initial_delay_ms :: "u32 option"
  sp_is_unack_csma_ca :: "bool option"
  sp_hop_limit :: "u32 option"

text \<open>The size of the payload of an event.\<close>

definition MAX_EVENT_PAYLOAD :: nat where "MAX_EVENT_PAYLOAD = 1500"

text \<open>The encoder of packets, with the size of the buffer.\<close>

type_synonym packet_encoder = "packet_received_event \<Rightarrow> nat \<Rightarrow> u8 list option"

section \<open>Operations\<close>

definition onDataReceived ::
  "('z data_service_scheme) event_env \<Rightarrow> packet_encoder \<Rightarrow> u8 list \<Rightarrow> nat \<Rightarrow> u32 \<Rightarrow> u32 \<Rightarrow> bool \<Rightarrow> u8 \<Rightarrow> u8
     \<Rightarrow> u32 \<Rightarrow> u8 \<Rightarrow> u64 \<Rightarrow> ('z data_service_scheme, bool) prog" where
  "onDataReceived env encode bytes num_bytes src_addr dst_addr qos src_ep dst_ep travel_time hop_count timestamp_ms =
     andthen Proto_config_get_network_address (\<lambda>network_address.
     if num_bytes > MAX_EVENT_PAYLOAD then ret False
     else
       andthen Platform_malloc (\<lambda>event_ok.
       if \<not> event_ok then ret False
       else
         andthen Platform_malloc (\<lambda>buffer_ok.
         if \<not> buffer_ok then ret False
         else
           andthen (lift_sum (bytes_at bytes 0 num_bytes)) (\<lambda>payload.
           andthen (Common_fill_event_header True) (\<lambda>header.
           case encode \<lparr>pre_header = header, pre_source_address = src_addr, pre_destination_address = dst_addr,
               pre_source_endpoint = ucast src_ep, pre_destination_endpoint = ucast dst_ep,
               pre_travel_time_ms = travel_time, pre_rx_time_ms_epoch = timestamp_ms, pre_qos = of_bool qos,
               pre_payload = payload, pre_hop_count = ucast hop_count,
               pre_network_address = ucast network_address\<rparr> (WPC_PROTO_OFFSET_DATA_SIZE + num_bytes) of
             None \<Rightarrow> ret True
           | Some message \<Rightarrow>
               andthen (call_if_set m_rx_event_cb (\<lambda>c.
                 client env (Data_rx_event c message network_address (ucast src_ep) (ucast dst_ep)))) (\<lambda>_.
               ret True))))))"

text \<open>The function registered for data, under its own number, beside the one for the stack's state.\<close>

definition ON_DATA :: callback where "ON_DATA = 2"

definition gateway_app ::
  "('z data_service_scheme) event_env \<Rightarrow> packet_encoder \<Rightarrow> app_call \<Rightarrow> ('z data_service_scheme, unit) prog" where
  "gateway_app env encode call =
     (case call of
        Data_received c bytes num_bytes src dst qos src_ep dst_ep travel_time hop_count timestamp \<Rightarrow>
          if c = ON_DATA then
            andthen (onDataReceived env encode bytes num_bytes src dst qos src_ep dst_ep travel_time hop_count timestamp)
              (\<lambda>_. ret ())
          else ret ()
      | _ \<Rightarrow> stack_status_app env call)"

definition Proto_data_init :: "('z data_service_scheme, bool) prog" where
  "Proto_data_init = andthen (WPC_register_for_data (Some ON_DATA)) (\<lambda>res. ret (res = APP_RES_OK))"

definition Proto_data_close :: "('z data_service_scheme, unit) prog" where
  "Proto_data_close = andthen WPC_unregister_for_data (\<lambda>_. ret ())"

definition Proto_data_handle_send_data :: "send_packet_req \<Rightarrow> ('z data_service_scheme, response_header) prog" where
  "Proto_data_handle_send_data req =
     andthen
       (if sp_source_endpoint req > 255 \<or> sp_destination_endpoint req > 255 then ret APP_RES_INVALID_VALUE
        else WPC_send_data (sp_payload req) (sp_payload_size req) 0 (sp_destination_address req) (sp_qos req)
               (ucast (sp_source_endpoint req)) (ucast (sp_destination_endpoint req)) None 0)
       (\<lambda>res. respond (sp_req_id req) res)"

definition Proto_data_register_for_data :: "callback option \<Rightarrow> ('z data_service_scheme, app_proto_res) prog" where
  "Proto_data_register_for_data cb =
     andthen (gets m_rx_event_cb) (\<lambda>registered.
     if registered \<noteq> None then ret APP_RES_PROTO_ALREADY_REGISTERED
     else andthen (modify (\<lambda>s. s\<lparr>m_rx_event_cb := cb\<rparr>)) (\<lambda>_. ret APP_RES_PROTO_OK))"

section \<open>From the node to the gateway's client\<close>

text \<open>The event for a received packet: payload, addresses, endpoints and times of the packet, the names
  of the gateway and the sink, and the cached network address.\<close>

definition packet_event ::
  "'z data_service_scheme \<Rightarrow> rx_header \<Rightarrow> u8 list \<Rightarrow> u64 \<Rightarrow> u64 \<Rightarrow> u64 \<Rightarrow> packet_received_event" where
  "packet_event s h msg ts now event_id =
     \<lparr>pre_header = \<lparr>eh_gw_id = m_gateway_id s, eh_has_sink_id = (m_sink_id s \<noteq> []), eh_sink_id = m_sink_id s,
        eh_time_ms_epoch = now, eh_event_id = event_id\<rparr>,
      pre_source_address = rh_src_add h, pre_destination_address = rh_dest_add h,
      pre_source_endpoint = ucast (rh_src_ep h), pre_destination_endpoint = ucast (rh_dest_ep h),
      pre_travel_time_ms = internal_time_to_ms (rh_travel_time h), pre_rx_time_ms_epoch = ts,
      pre_qos = of_bool (bit (rh_qos_hop_count h) 0), pre_payload = msg,
      pre_hop_count = ucast (drop_bit 2 (rh_qos_hop_count h) :: u8),
      pre_network_address = ucast (network_address (m_sink_config s))\<rparr>"

lemma data_service_fields:
  assumes "dsap.more u = dsap.more (s :: 'z data_service_scheme)"
  shows "m_gateway_id u = m_gateway_id s" "m_sink_id u = m_sink_id s" "m_sink_config u = m_sink_config s"
    "rand_values u = rand_values s" "m_rx_event_cb u = m_rx_event_cb s"
  using assms by (cases u; cases s; simp)+

lemma event_header_run:
  assumes "io_epoch u = now # later" "rand_values u = r1 # r2 # rs"
  shows "Common_fill_event_header True u
    = Inr (\<lparr>eh_gw_id = m_gateway_id u, eh_has_sink_id = (m_sink_id u \<noteq> []), eh_sink_id = m_sink_id u,
        eh_time_ms_epoch = now, eh_event_id = ucast r1 + push_bit 32 (ucast r2)\<rparr>,
        u\<lparr>io_epoch := later, rand_values := rs\<rparr>)"
  using assms
  by (simp add: Common_fill_event_header_def Platform_get_timestamp_ms_epoch_def rand_def Let_def prog_simps)

lemma event_of_packet_run:
  assumes "length msg \<le> 1500" "mallocs u = []" "io_epoch u = now # later" "rand_values u = r1 # r2 # rs"
    and "m_rx_event_cb u = Some c"
    and "encode (packet_event u h msg ts now (ucast r1 + push_bit 32 (ucast r2))) (100 + length msg) = Some message"
  shows "gateway_app env encode (data_call ON_DATA msg (length msg) h ts) u
    = client env (Data_rx_event c message (network_address (m_sink_config u)) (ucast (rh_src_ep h)) (ucast (rh_dest_ep h)))
        (u\<lparr>io_epoch := later, rand_values := rs\<rparr>)"
proof -
  have "bytes_at msg 0 (length msg) = Inr msg" by (simp add: bytes_at_def)
  then have "onDataReceived env encode msg (length msg) (rh_src_add h) (rh_dest_add h) (bit (rh_qos_hop_count h) 0)
      (rh_src_ep h) (rh_dest_ep h) (internal_time_to_ms (rh_travel_time h)) (drop_bit 2 (rh_qos_hop_count h)) ts u
    = andthen (client env (Data_rx_event c message (network_address (m_sink_config u)) (ucast (rh_src_ep h))
        (ucast (rh_dest_ep h)))) (\<lambda>_. ret True) (u\<lparr>io_epoch := later, rand_values := rs\<rparr>)"
    using assms event_header_run [OF assms(3,4)]
    by (simp add: onDataReceived_def Proto_config_get_network_address_def MAX_EVENT_PAYLOAD_def Platform_malloc_def
        prog_simps packet_event_def WPC_PROTO_OFFSET_DATA_SIZE_def call_if_set_def)
  then show ?thesis
    by (simp add: gateway_app_def data_call_def prog_simps split: sum.splits)
qed

text \<open>C2: From the node to the gateway's client. When the fragments of a message have arrived in any
  order, mixed with fragments of other packets, the indication that brings the last one makes the
  gateway call its client once, with the encoding of the event for exactly that message.\<close>

theorem gateway_forwards_packets:
  fixes s :: "'z data_service_scheme"
  assumes "packet_at s (src, pid) = None" "mallocs s = []" "length pre < length (io_clock s)"
    and "msg \<noteq> []" "length msg \<le> 1500" "length (reassembly_buffer s) = 1500" "m_data_cb s = Some ON_DATA"
    and "run_each reassembly_add_fragment pre s = Inr (rs, t)"
    and "read_rx_header frame = Inr h" "read_rx_fragment frame = Inr f" "fr_key f = (src, pid)"
    and "mset (map content (own (src, pid) (pre @ [f]))) = mset (fragments mtu 0 msg)"
    and "io_epoch s = now # later" "rand_values s = r1 # r2 # rest" "m_rx_event_cb s = Some c"
    and "encode (packet_event s h msg ts now (ucast r1 + push_bit 32 (ucast r2))) (100 + length msg) = Some message"
  shows "\<exists>u. dsap_data_rx_frag_indication_handler (gateway_app env encode) frame ts t
      = andthen (client env (Data_rx_event c message (network_address (m_sink_config s)) (ucast (rh_src_ep h))
          (ucast (rh_dest_ep h)))) (\<lambda>_. reassembly_garbage_collect) u
    \<and> packet_at u (src, pid) = None"
proof -
  from fragments_delivered_run [OF assms(1-12), of "gateway_app env encode" ts] obtain u where
    run: "dsap_data_rx_frag_indication_handler (gateway_app env encode) frame ts t
      = andthen (gateway_app env encode (data_call ON_DATA msg (length msg) h ts)) (\<lambda>_. reassembly_garbage_collect) u"
    and gone: "packet_at u (src, pid) = None"
    and u: "io_epoch u = io_epoch s" "mallocs u = []" "dsap.more u = dsap.more s"
    by blast
  note same = data_service_fields [OF u(3)]
  have "packet_event u h msg ts now e = packet_event s h msg ts now e" for e by (simp add: packet_event_def same)
  with event_of_packet_run [OF assms(5) u(2), of now later r1 r2 rest c encode h ts message env] assms(13-16) u(1)
  have "gateway_app env encode (data_call ON_DATA msg (length msg) h ts) u
    = client env (Data_rx_event c message (network_address (m_sink_config s)) (ucast (rh_src_ep h)) (ucast (rh_dest_ep h)))
        (u\<lparr>io_epoch := later, rand_values := rest\<rparr>)"
    by (simp add: same)
  with run have "dsap_data_rx_frag_indication_handler (gateway_app env encode) frame ts t
      = andthen (client env (Data_rx_event c message (network_address (m_sink_config s)) (ucast (rh_src_ep h))
          (ucast (rh_dest_ep h)))) (\<lambda>_. reassembly_garbage_collect) (u\<lparr>io_epoch := later, rand_values := rest\<rparr>)"
    by (simp add: andthen_def)
  moreover have "packet_at (u\<lparr>io_epoch := later, rand_values := rest\<rparr>) (src, pid) = None"
    using gone by (simp add: packet_at_def)
  ultimately show ?thesis by blast
qed

definition quiet_gateway :: data_service where
  "quiet_gateway = otap.extend quiet_otap (data_service.fields None)"

lemma quiet_gateway_fields [simp]:
  "io_tx quiet_gateway = []" "req_frame_id quiet_gateway = 0" "io_epoch quiet_gateway = [77]"
  "mallocs quiet_gateway = []" "m_packets quiet_gateway = []" "length (reassembly_buffer quiet_gateway) = 1500"
  "m_sink_id quiet_gateway = [115]" "m_gateway_id quiet_gateway = [103]" "m_sink_config quiet_gateway = blank_config"
  "m_scratchpad_load_current_seq quiet_gateway = INVALID_CURRENT_SEQ" "\<not> m_restart_after_load quiet_gateway"
  by (simp_all only: quiet_gateway_def otap.extend_def data_service.fields_def quiet_otap_def data_service.simps otap.simps
    gateway_config.simps gateway.simps dsap.simps reassembly.simps wpc_int.simps io.simps not_False_eq_True length_replicate)

text \<open>A packet of two fragments, the second one already received, from node 1.\<close>

theorem gateway_forwards_packets_witness:
  "\<exists>(s :: data_service) t. run_each reassembly_add_fragment
       [\<lparr>fr_src_add = 1, fr_packet_id = 7, fr_bytes = [5], fr_offset = 2, fr_last = True\<rparr>] s = Inr ([(True, 0)], t)
     \<and> dsap_data_rx_frag_indication_handler
         (gateway_app (quiet_env\<lparr>client := (\<lambda>call. halt (if call = Data_rx_event 4 [8, 9, 5] 0 2 6 then Exited else Undefined))\<rparr>)
            (\<lambda>event size_max. if pre_source_address event = 1 then Some (pre_payload event) else None))
         [16, 0, 23, 0, 1, 0, 0, 0, 2, 3, 0, 0, 0, 6, 21, 128, 0, 0, 0, 7, 0, 0, 0, 2, 8, 9] 77 t = Inl Exited"
proof -
  let ?client = "\<lambda>call. halt (if call = Data_rx_event 4 [8, 9, 5] 0 2 6 then Exited else Undefined) :: (data_service, unit) prog"
  let ?env = "quiet_env\<lparr>client := ?client\<rparr>"
  let ?encode = "\<lambda>(event :: packet_received_event) (size_max :: nat).
    if pre_source_address event = 1 then Some (pre_payload event) else None"
  let ?frame = "[16, 0, 23, 0, 1, 0, 0, 0, 2, 3, 0, 0, 0, 6, 21, 128, 0, 0, 0, 7, 0, 0, 0, 2, 8, 9] :: u8 list"
  let ?pre = "[\<lparr>fr_src_add = 1, fr_packet_id = 7, fr_bytes = [5], fr_offset = 2, fr_last = True\<rparr>]"
  let ?f = "\<lparr>fr_src_add = 1, fr_packet_id = 7, fr_bytes = [8, 9], fr_offset = 0, fr_last = False\<rparr>"
  let ?h = "\<lparr>rh_src_add = 1, rh_src_ep = 2, rh_dest_add = 3, rh_dest_ep = 6, rh_qos_hop_count = 21, rh_travel_time = 128\<rparr>"
  define s where "s = quiet_gateway\<lparr>io_clock := [1, 2, 3], m_data_cb := Some ON_DATA, rand_values := [5, 6],
    m_rx_event_cb := Some 4\<rparr>"
  have hd: "read_rx_header ?frame = Inr ?h" by (simp add: read_rx_header_def frame_reading)
  have fr: "read_rx_fragment ?frame = Inr ?f"
    by (simp add: read_rx_fragment_def frame_reading DSAP_FRAG_LENGTH_MASK_def DSAP_FRAG_LAST_FLAG_MASK_def
      MAX_APDU_DSAP_SIZE_def)
  have cut: "fragments 2 0 [8, 9, 5] = [(0, [8, 9], False), (2, [5], True)]" by (simp add: fragments.simps)
  have m: "mset (map content (own (1, 7) (?pre @ [?f]))) = mset (fragments 2 0 [8, 9, 5])"
    unfolding cut by (simp add: fr_key_def content_def)
  have f0: "mallocs s = []" "io_clock s = 1 # [2, 3]" "packet_at s (1, 7) = None"
    by (simp_all add: s_def packet_at_def)
  obtain t where t: "run_each reassembly_add_fragment ?pre s = Inr ([(True, 0)], t)"
    using add_fragment_run [OF f0(1,2), of "hd ?pre"] f0(3)
    by (simp add: fr_key_def empty_packet_def with_fragment_def fullness_def rx_size_def andthen_def ret_def)
  have h: "packet_at s (1, 7) = None" "mallocs s = []" "length ?pre < length (io_clock s)" "[8, 9, 5 :: u8] \<noteq> []"
    "length [8, 9, 5 :: u8] \<le> 1500" "length (reassembly_buffer s) = 1500" "m_data_cb s = Some ON_DATA" "fr_key ?f = (1, 7)"
    "io_epoch s = 77 # []" "rand_values s = 5 # 6 # []" "m_rx_event_cb s = Some 4"
    "?encode (packet_event s ?h [8, 9, 5] 77 77 (ucast (5 :: u32) + push_bit 32 (ucast (6 :: u32))))
      (100 + length [8, 9, 5 :: u8]) = Some [8, 9, 5]"
    by (simp_all add: s_def packet_at_def fr_key_def packet_event_def)
  have "network_address (m_sink_config s) = 0" by (simp add: s_def blank_config_def)
  with gateway_forwards_packets [where encode = ?encode and ts = 77 and env = ?env, OF h(1-7) t hd fr h(8) m h(9-12)]
  have "dsap_data_rx_frag_indication_handler (gateway_app ?env ?encode) ?frame 77 t = Inl Exited"
    by (auto simp: quiet_env_def halt_def andthen_def)
  with t show ?thesis by blast
qed

end
