(* ===== verification/Wpc_Proto.thy ===== *)
theory Wpc_Proto
  imports Proto_Data
begin

text \<open>
  The interface of the gateway layer, \<^verbatim>\<open>lib/wpc_proto/wpc_proto.c\<close>: opening and closing the connection
  with the node, registration of the client's callbacks, and the handling of an encoded request.
  Opening the port, \<^verbatim>\<open>Slip_init\<close> and starting the threads are parameters, as in \<^const>\<open>WPC_initialize\<close>.
\<close>

section \<open>Opening and closing\<close>

definition MAX_POLL_FAIL_DURATION_S :: u32 where "MAX_POLL_FAIL_DURATION_S = 120"

record 's port =
  serial_open :: "('s, int) prog"
  slip_init :: "('s, int) prog"
  serial_close :: "('s, unit) prog"
  platform_init :: "('s, bool) prog"
  platform_close :: "('s, unit) prog"

definition open_and_check_connection ::
  "('z data_service_scheme) port \<Rightarrow> ('z data_service_scheme, int) prog" where
  "open_and_check_connection port =
     andthen (WPC_initialize (serial_open port) (slip_init port) (platform_init port) (serial_close port)) (\<lambda>res.
     if res \<noteq> APP_RES_OK then ret (-1)
     else
       andthen WPC_get_mesh_API_version (\<lambda>(res, mesh_version).
       if res \<noteq> APP_RES_OK then
         andthen (WPC_close (platform_close port) (serial_close port)) (\<lambda>_. ret (-1))
       else ret 0))"

definition WPC_Proto_initialize ::
  "('z data_service_scheme) port \<Rightarrow> u8 list \<Rightarrow> u8 list \<Rightarrow> u8 list \<Rightarrow> u8 list
     \<Rightarrow> ('z data_service_scheme, app_proto_res) prog" where
  "WPC_Proto_initialize port gateway_id gateway_model gateway_version sink_id =
     andthen (Common_init gateway_id gateway_model gateway_version sink_id) (\<lambda>_.
     andthen (open_and_check_connection port) (\<lambda>opened.
     if opened \<noteq> 0 then ret APP_RES_PROTO_WPC_NOT_INITIALIZED
     else
       andthen (WPC_set_max_poll_fail_duration MAX_POLL_FAIL_DURATION_S) (\<lambda>res.
       if res \<noteq> APP_RES_OK then ret APP_RES_PROTO_WRONG_PARAMETER
       else
         andthen (WPC_set_max_fragment_duration FRAGMENT_MAX_DURATION_S) (\<lambda>res.
         if res \<noteq> APP_RES_OK then ret APP_RES_PROTO_WRONG_PARAMETER
         else
           andthen Proto_data_init (\<lambda>_.
           andthen Proto_config_init (\<lambda>_. ret APP_RES_PROTO_OK))))))"

definition WPC_Proto_close :: "('z data_service_scheme) port \<Rightarrow> ('z data_service_scheme, unit) prog" where
  "WPC_Proto_close port =
     andthen (WPC_close (platform_close port) (serial_close port)) (\<lambda>_.
     andthen WPC_unregister_from_stack_status (\<lambda>_. Proto_data_close))"

definition WPC_Proto_register_for_data_rx_event :: "callback option \<Rightarrow> ('z data_service_scheme, app_proto_res) prog" where
  "WPC_Proto_register_for_data_rx_event cb = Proto_data_register_for_data cb"

definition WPC_Proto_register_for_event_status :: "callback option \<Rightarrow> ('z data_service_scheme, app_proto_res) prog" where
  "WPC_Proto_register_for_event_status cb = Proto_config_register_for_event_status cb"

definition WPC_Proto_get_current_event_status ::
  "('z data_service_scheme) event_env \<Rightarrow> bool \<Rightarrow> bool \<Rightarrow> nat
     \<Rightarrow> ('z data_service_scheme, app_proto_res \<times> u8 list) prog" where
  "WPC_Proto_get_current_event_status env gw_online sink_online event_status_size =
     Proto_config_get_current_event_status env gw_online sink_online event_status_size"

section \<open>Requests\<close>

text \<open>A decoded request: the fields of \<^verbatim>\<open>wp_WirepasMessage\<close> that the code looks at. A request without
  contents of its own is its identifier.\<close>

record wirepas_message =
  get_configs_req :: "u64 option"
  set_config_req :: "(u64 \<times> sink_new_config) option"
  send_packet_req :: "send_packet_req option"
  get_scratchpad_status_req :: "u64 option"
  upload_scratchpad_req :: "upload_req option"
  process_scratchpad_req :: "u64 option"
  get_gateway_info_req :: "u64 option"
  set_scratchpad_target_and_action_req :: "(u64 \<times> target_and_action) option"

datatype response =
    Get_configs_resp response_header sink_read_config
  | Set_config_resp set_config_resp
  | Send_packet_resp response_header
  | Get_scratchpad_status_resp scratchpad_status_resp
  | Upload_scratchpad_resp response_header
  | Process_scratchpad_resp response_header
  | Get_gateway_info_resp gateway_info
  | Set_scratchpad_target_and_action_resp response_header

text \<open>The decoder (no result for an invalid message, no message for one without a Wirepas part), the
  encoder of responses with the size of the buffer, and what the allocated memory holds at first.\<close>

record codec =
  decode_request :: "u8 list \<Rightarrow> wirepas_message option option"
  encode_response :: "response \<Rightarrow> nat \<Rightarrow> u8 list option"
  fresh_set_config_resp :: set_config_resp
  fresh_gateway_info :: gateway_info

text \<open>Every branch allocates its response first.\<close>

definition handled ::
  "('z data_service_scheme, response) prog \<Rightarrow> ('z data_service_scheme, app_proto_res \<times> response option) prog" where
  "handled handler =
     andthen Platform_malloc (\<lambda>ok.
     if \<not> ok then ret (APP_RES_PROTO_NOT_ENOUGH_MEMORY, None)
     else andthen handler (\<lambda>resp. ret (APP_RES_PROTO_OK, Some resp)))"

definition call_handler ::
  "('z data_service_scheme) event_env \<Rightarrow> codec \<Rightarrow> nat \<Rightarrow> wirepas_message
     \<Rightarrow> ('z data_service_scheme, app_proto_res \<times> response option) prog" where
  "call_handler env codec fuel msg =
     (case get_configs_req msg of Some req_id \<Rightarrow>
        handled (andthen (Proto_config_handle_get_configs req_id) (\<lambda>(header, config). ret (Get_configs_resp header config)))
      | None \<Rightarrow>
     (case set_config_req msg of Some (req_id, cfg) \<Rightarrow>
        handled (andthen (Proto_config_handle_set_config env req_id cfg (fresh_set_config_resp codec))
          (\<lambda>resp. ret (Set_config_resp resp)))
      | None \<Rightarrow>
     (case send_packet_req msg of Some req \<Rightarrow>
        handled (andthen (Proto_data_handle_send_data req) (\<lambda>header. ret (Send_packet_resp header)))
      | None \<Rightarrow>
     (case get_scratchpad_status_req msg of Some req_id \<Rightarrow>
        handled (andthen (Proto_config_handle_get_scratchpad_status req_id) (\<lambda>resp. ret (Get_scratchpad_status_resp resp)))
      | None \<Rightarrow>
     (case upload_scratchpad_req msg of Some req \<Rightarrow>
        handled (andthen (Proto_otap_handle_upload_scratchpad env fuel req) (\<lambda>header. ret (Upload_scratchpad_resp header)))
      | None \<Rightarrow>
     (case process_scratchpad_req msg of Some req_id \<Rightarrow>
        handled (andthen (Proto_otap_handle_process_scratchpad env req_id) (\<lambda>header. ret (Process_scratchpad_resp header)))
      | None \<Rightarrow>
     (case get_gateway_info_req msg of Some req_id \<Rightarrow>
        handled (andthen (Proto_config_handle_get_gateway_info_request req_id (fresh_gateway_info codec))
          (\<lambda>resp. ret (Get_gateway_info_resp resp)))
      | None \<Rightarrow>
     (case set_scratchpad_target_and_action_req msg of Some (req_id, ta) \<Rightarrow>
        handled (andthen (Proto_config_handle_set_scratchpad_target_and_action_request env req_id ta)
          (\<lambda>header. ret (Set_scratchpad_target_and_action_resp header)))
      | None \<Rightarrow> ret (APP_RES_PROTO_INVALID_REQUEST, None)))))))))"

text \<open>The result is the code and the encoded response, which the code stores with its size only when
  there is one.\<close>

definition WPC_Proto_handle_request ::
  "('z data_service_scheme) event_env \<Rightarrow> codec \<Rightarrow> nat \<Rightarrow> u8 list \<Rightarrow> nat
     \<Rightarrow> ('z data_service_scheme, app_proto_res \<times> u8 list option) prog" where
  "WPC_Proto_handle_request env codec fuel request response_size =
     (case decode_request codec request of
        None \<Rightarrow> ret (APP_RES_PROTO_INVALID_REQUEST, None)
      | Some None \<Rightarrow> ret (APP_RES_PROTO_INVALID_REQUEST, None)
      | Some (Some msg) \<Rightarrow>
          andthen (call_handler env codec fuel msg) (\<lambda>(res, resp).
          case resp of
            None \<Rightarrow> ret (res, None)
          | Some r \<Rightarrow>
              (case encode_response codec r response_size of
                 None \<Rightarrow> ret (APP_RES_PROTO_CANNOT_GENERATE_RESPONSE, None)
               | Some bytes \<Rightarrow> ret (APP_RES_PROTO_OK, Some bytes))))"

interpretation upload_data: data_frame
  "\<lambda>s. m_scratchpad_load_current_seq s = seq \<and> m_restart_after_load s = b" for seq b
  by unfold_locales simp_all


lemma process_apart:
  "client_apart env \<Longrightarrow> keeps (\<lambda>s. m_scratchpad_load_current_seq s = seq \<and> m_restart_after_load s = b)
     (Proto_otap_handle_process_scratchpad env req_id)"
  unfolding Proto_otap_handle_process_scratchpad_def WPC_update_local_scratchpad_def msap_scratchpad_update_request_def
    confirm_result_def
  by (intro keeps_intros events_apart)

section \<open>The upload state over all requests\<close>

text \<open>The request that the code handles when a message holds several.\<close>

definition upload_of :: "wirepas_message \<Rightarrow> upload_req option" where
  "upload_of msg =
     (if get_configs_req msg = None \<and> set_config_req msg = None \<and> send_packet_req msg = None
         \<and> get_scratchpad_status_req msg = None
      then upload_scratchpad_req msg else None)"

lemma handled_apart:
  "(\<And>seq b. keeps (\<lambda>s. m_scratchpad_load_current_seq s = seq \<and> m_restart_after_load s = b) h) \<Longrightarrow>
     keeps (\<lambda>s. m_scratchpad_load_current_seq s = seq \<and> m_restart_after_load s = b) (handled h)"
  unfolding handled_def by (intro keeps_intros)

lemma other_requests_apart:
  assumes "client_apart env" "upload_of msg = None"
  shows "keeps (\<lambda>s. m_scratchpad_load_current_seq s = seq \<and> m_restart_after_load s = b) (call_handler env codec fuel msg)"
proof -
  note apart = events_apart [OF assms(1)] and process = process_apart [OF assms(1)]
  have send: "keeps (\<lambda>s. m_scratchpad_load_current_seq s = seq \<and> m_restart_after_load s = b)
    (Proto_data_handle_send_data req)" for seq b req
    unfolding Proto_data_handle_send_data_def by (intro keeps_intros)
  show ?thesis
    using assms(2) unfolding call_handler_def upload_of_def
    by (auto split: option.splits if_splits intro!: handled_apart keeps_intros apart process send)
qed

lemma upload_request:
  "upload_of msg = Some req \<Longrightarrow> call_handler env codec fuel msg
     = handled (andthen (Proto_otap_handle_upload_scratchpad env fuel req) (\<lambda>header. ret (Upload_scratchpad_resp header)))"
  by (auto simp: upload_of_def call_handler_def split: if_splits option.splits)

lemma handle_request_cases:
  assumes "WPC_Proto_handle_request env codec fuel request size_max s = Inr (r, t)"
  obtains "t = s"
  | msg x where "decode_request codec request = Some (Some msg)" "call_handler env codec fuel msg s = Inr (x, t)"
  using assms unfolding WPC_Proto_handle_request_def
  by (auto split: option.splits)

text \<open>A handled request to upload: no memory for the response, or the handler ran.\<close>

lemma upload_request_cases:
  assumes "upload_of msg = Some req" "call_handler env codec fuel msg s = Inr (x, t)"
  obtains "upload_in_progress t = upload_in_progress s" "m_restart_after_load t = m_restart_after_load s"
  | u resp where "upload_in_progress u = upload_in_progress s" "m_restart_after_load u = m_restart_after_load s"
      "Proto_otap_handle_upload_scratchpad env fuel req u = Inr (resp, t)"
proof -
  obtain ok u where u: "Platform_malloc s = Inr (ok, u)"
    and run: "(if \<not> ok then ret (APP_RES_PROTO_NOT_ENOUGH_MEMORY, None)
      else andthen (andthen (Proto_otap_handle_upload_scratchpad env fuel req) (\<lambda>header. ret (Upload_scratchpad_resp header)))
        (\<lambda>resp. ret (APP_RES_PROTO_OK, Some resp))) u = Inr (x, t)"
    using assms(2) unfolding upload_request [OF assms(1)] handled_def by auto
  note same = upload_kept [OF upload.keeps_malloc u]
  then have "upload_in_progress u = upload_in_progress s" by (simp add: upload_in_progress_def)
  with same run that show ?thesis by (cases ok) auto
qed

lemma upload_state_ok_iff:
  "upload_state_ok s \<longleftrightarrow> (m_restart_after_load s \<longrightarrow> upload_in_progress s \<noteq> None)"
  by (simp add: upload_state_ok_def upload_in_progress_def)

lemma other_request_kept:
  assumes "client_apart env" "upload_of msg = None" "call_handler env codec fuel msg s = Inr (x, t)"
  shows "upload_in_progress t = upload_in_progress s" "m_restart_after_load t = m_restart_after_load s"
  using upload_kept [OF other_requests_apart [OF assms(1,2)] assms(3)] by (simp_all add: upload_in_progress_def)

text \<open>C4: A stack that was stopped for an upload is started again before the upload is over. Whatever
  requests the gateway gets and whatever the node answers, the flag that asks for a restart is set
  only while a chunked upload is in progress.\<close>

theorem gateway_upload_invariant:
  assumes "client_apart env" "upload_state_ok s" "WPC_Proto_handle_request env codec fuel request size_max s = Inr (r, t)"
  shows "upload_state_ok t"
  using assms(3)
proof (cases rule: handle_request_cases)
  case 1
  with assms(2) show ?thesis by simp
next
  case (2 msg x)
  show ?thesis
  proof (cases "upload_of msg")
    case None
    with other_request_kept [OF assms(1) None 2(2)] assms(2) show ?thesis by (simp add: upload_state_ok_iff)
  next
    case (Some req)
    from this 2(2) show ?thesis
    proof (cases rule: upload_request_cases)
      case (2 u resp)
      then have "upload_state_ok u" using assms(2) by (simp add: upload_state_ok_iff)
      from upload_state_kept [OF this 2(3)] show ?thesis .
    qed (use assms(2) in \<open>simp add: upload_state_ok_iff\<close>)
  qed
qed

text \<open>C3: The gateway refines the state machine of chunked uploads: the upload in progress changes only by
  a request to upload a scratchpad, and then as one step of the machine. In particular a chunk of
  another upload changes nothing, and an upload ends only with its last chunk, a first chunk, a
  whole scratchpad or a clearing.\<close>

theorem gateway_refines_upload_machine:
  assumes "client_apart env" "WPC_Proto_handle_request env codec fuel request size_max s = Inr (r, t)"
  shows "upload_in_progress t = upload_in_progress s
    \<or> (\<exists>msg req. decode_request codec request = Some (Some msg) \<and> upload_of msg = Some req
        \<and> upload_step req (upload_in_progress s) (upload_in_progress t))"
  using assms(2)
proof (cases rule: handle_request_cases)
  case (2 msg x)
  show ?thesis
  proof (cases "upload_of msg")
    case None
    from other_request_kept [OF assms(1) None 2(2)] show ?thesis by simp
  next
    case (Some req)
    from this 2(2) show ?thesis
    proof (cases rule: upload_request_cases)
      case (2 u resp)
      from upload_steps [OF assms(1) 2(3)] 2(1) Some \<open>decode_request codec request = Some (Some msg)\<close>
      show ?thesis by auto
    qed simp
  qed
qed simp

section \<open>Concrete requests\<close>

definition unfilled_header :: response_header where
  "unfilled_header = \<lparr>rsp_req_id = 0, rsp_gw_id = [], rsp_has_sink_id = False, rsp_sink_id = [],
     rsp_res = wp_ErrorCode_OK, rsp_time_ms_epoch = 0\<rparr>"

definition unfilled_config :: sink_read_config where
  "unfilled_config = \<lparr>rc_sink_id = [88], rc_node_role = \<lparr>nr_role = 0, nr_flags = []\<rparr>, rc_node_address = 0xdeadbeef,
     rc_network_address = 0, rc_network_channel = 0, rc_has_app_config = False,
     rc_app_config = \<lparr>acd_seq = 0, acd_diag_interval_s = 0, acd_size = 0, acd_bytes = []\<rparr>, rc_are_keys_set = False,
     rc_current_ac_range = None, rc_ac_limits = (0, 0), rc_max_mtu = 0, rc_channel_limits = (0, 0), rc_hw_magic = 0,
     rc_stack_profile = 0, rc_app_config_max_size = 0, rc_firmware_version = [], rc_sink_state = 0,
     rc_stored_scratchpad = \<lparr>spi_len = 0, spi_crc = 0, spi_seq = 0\<rparr>, rc_stored_status = wp_ScratchpadStatus_SUCCESS,
     rc_stored_type = wp_ScratchpadType_BLANK, rc_processed_scratchpad = \<lparr>spi_len = 0, spi_crc = 0, spi_seq = 0\<rparr>,
     rc_firmware_area_id = 0, rc_target_and_action = \<lparr>tsa_action = 0, tsa_target_sequence = None,
       tsa_target_crc = None, tsa_param = No_param\<rparr>\<rparr>"

definition unfilled_info :: gateway_info where
  "unfilled_info = \<lparr>gi_header = unfilled_header, gi_current_time_s_epoch = 0, gi_has_gw_model = False, gi_gw_model = [],
     gi_has_gw_version = False, gi_gw_version = [], gi_has_implemented_api_version = False,
     gi_implemented_api_version = 0, gi_has_max_scratchpad_size = False, gi_max_scratchpad_size = 0,
     gi_gw_features_count = 777, gi_gw_features = []\<rparr>"

text \<open>A codec that decodes everything into one message and encodes a response by a function.\<close>

definition codec_of :: "wirepas_message \<Rightarrow> (response \<Rightarrow> u8 list option) \<Rightarrow> codec" where
  "codec_of msg encode = \<lparr>decode_request = (\<lambda>_. Some (Some msg)), encode_response = (\<lambda>resp _. encode resp),
     fresh_set_config_resp = \<lparr>scr_header = unfilled_header, scr_config = unfilled_config\<rparr>,
     fresh_gateway_info = unfilled_info\<rparr>"

definition no_request :: wirepas_message where
  "no_request = \<lparr>get_configs_req = None, set_config_req = None, send_packet_req = None,
     get_scratchpad_status_req = None, upload_scratchpad_req = None, process_scratchpad_req = None,
     get_gateway_info_req = None, set_scratchpad_target_and_action_req = None\<rparr>"

lemma upload_request_run:
  assumes "mallocs s = []" "Proto_otap_handle_upload_scratchpad env fuel req s = Inr (header, t)"
  shows "WPC_Proto_handle_request env (codec_of (no_request\<lparr>upload_scratchpad_req := Some req\<rparr>) (\<lambda>_. Some [1]))
    fuel bytes size_max s = Inr ((APP_RES_PROTO_OK, Some [1]), t)"
  using assms
  by (simp add: WPC_Proto_handle_request_def codec_of_def no_request_def call_handler_def handled_def prog_simps
      Platform_malloc_def)

text \<open>A chunk of another upload while one is in progress.\<close>

theorem gateway_upload_invariant_witness:
  "\<exists>(s :: data_service) t. upload_in_progress s = Some 9 \<and> m_restart_after_load s
     \<and> WPC_Proto_handle_request quiet_env (codec_of (no_request\<lparr>upload_scratchpad_req := Some
          \<lparr>up_req_id = 1, up_seq = 8, up_scratchpad = Some ([1, 2], 2), up_chunk_info = Some (4, 6)\<rparr>\<rparr>) (\<lambda>_. Some [1]))
          5 [] 100 s = Inr ((APP_RES_PROTO_OK, Some [1]), t)
     \<and> upload_state_ok t \<and> upload_in_progress t = Some 9"
proof -
  let ?req = "\<lparr>up_req_id = 1, up_seq = 8, up_scratchpad = Some ([1, 2], 2), up_chunk_info = Some (4, 6)\<rparr>"
  define s where "s = on_script [(stack_status_query, [0, 1, 0, 1, 1])]
    (quiet_gateway\<lparr>m_scratchpad_load_current_seq := 9, m_restart_after_load := True\<rparr>)"
  have "dialogue ((stack_status_query, [0, 1, 0, 1, 1]) # []) s" by (simp add: s_def)
  from stopped_stack_run [OF this] obtain u where u: "stop_running_stack s = Inr (False, u)" "io_epoch u = io_epoch s"
    "engine_config u = engine_config s" .
  have valid: "(9 :: u32) \<noteq> INVALID_CURRENT_SEQ" by (simp add: INVALID_CURRENT_SEQ_def)
  have ok: "upload_state_ok s" using valid by (simp add: s_def upload_state_ok_def)
  have cu: "loading 9 u" using loading_config(1) [OF u(3), of 9] by (simp add: s_def loading_def)
  have es: "io_epoch u = [77]" using u(2) by (simp add: s_def)
  from respond_run [OF es, of APP_RES_INVALID_SEQ 1] obtain resp t where
    r: "respond 1 APP_RES_INVALID_SEQ u = Inr (resp, t)" "loading 9 t"
    using cu by (auto simp: loading_def)
  have run: "Proto_otap_handle_upload_scratchpad quiet_env 5 ?req s = Inr (resp, t)"
    using u(1) cu r(1) valid
    by (simp add: Proto_otap_handle_upload_scratchpad_def perform_upload_def handle_scratchpad_chunk_def
        load_chunk_def restart_after_upload_def loading_def prog_simps)
  have "mallocs s = []" by (simp add: s_def on_script_def)
  note handled = upload_request_run [OF this run, of "[]" 100]
  from gateway_upload_invariant [OF quiet_env_apart ok handled] r(2) valid handled show ?thesis
    by (intro exI [of _ s] exI [of _ t]) (simp add: s_def upload_in_progress_def loading_def)
qed

text \<open>The scratchpad is cleared while an upload is in progress.\<close>

theorem gateway_refines_upload_machine_witness:
  "\<exists>(s :: data_service) t. upload_in_progress s = Some 9
     \<and> WPC_Proto_handle_request quiet_env (codec_of (no_request\<lparr>upload_scratchpad_req := Some
          \<lparr>up_req_id = 1, up_seq = 8, up_scratchpad = None, up_chunk_info = None\<rparr>\<rparr>) (\<lambda>_. Some [1]))
          5 [] 100 s = Inr ((APP_RES_PROTO_OK, Some [1]), t)
     \<and> upload_step \<lparr>up_req_id = 1, up_seq = 8, up_scratchpad = None, up_chunk_info = None\<rparr> (Some 9) None"
proof -
  let ?req = "\<lparr>up_req_id = 1, up_seq = 8, up_scratchpad = None, up_chunk_info = None\<rparr>"
  define s where "s = on_script [(stack_status_query, [0, 1, 0, 1, 1]), (new_request MSAP_SCRATCH_CLEAR_REQUEST 0 [], [0])]
    (quiet_gateway\<lparr>m_scratchpad_load_current_seq := 9\<rparr>)"
  have "dialogue ((stack_status_query, [0, 1, 0, 1, 1]) # [(new_request MSAP_SCRATCH_CLEAR_REQUEST 0 [], [0])]) s"
    by (simp add: s_def)
  from stopped_stack_run [OF this] obtain u where u: "stop_running_stack s = Inr (False, u)"
    "dialogue [(new_request MSAP_SCRATCH_CLEAR_REQUEST 0 [], [0])] u" "io_epoch u = io_epoch s" "engine_config u = engine_config s" .
  from clear_run [OF u(2)] obtain v where v: "WPC_clear_local_scratchpad u = Inr (APP_RES_OK, v)"
    "io_epoch v = io_epoch u" "engine_config v = engine_config u" .
  have valid: "(9 :: u32) \<noteq> INVALID_CURRENT_SEQ" by (simp add: INVALID_CURRENT_SEQ_def)
  have norestart: "\<not> m_restart_after_load v"
    using loading_config(2) [OF v(3)] loading_config(2) [OF u(4)] by (simp add: s_def)
  let ?w = "v\<lparr>m_scratchpad_load_current_seq := INVALID_CURRENT_SEQ\<rparr>"
  have es: "io_epoch ?w = [77]" using u(3) v(2) by (simp add: s_def)
  from respond_run [OF es, of APP_RES_OK 1] obtain resp t where
    r: "respond 1 APP_RES_OK ?w = Inr (resp, t)" "upload_in_progress t = None"
    by (auto simp: upload_in_progress_def)
  have run: "Proto_otap_handle_upload_scratchpad quiet_env 5 ?req s = Inr (resp, t)"
    using u(1) v(1) norestart r(1)
    by (simp add: Proto_otap_handle_upload_scratchpad_def perform_upload_def restart_after_upload_def prog_simps)
  have s: "upload_in_progress s = Some 9" using valid by (simp add: s_def upload_in_progress_def)
  have "mallocs s = []" by (simp add: s_def on_script_def)
  note handled = upload_request_run [OF this run, of "[]" 100]
  have "upload_of (no_request\<lparr>upload_scratchpad_req := Some ?req\<rparr>) = Some ?req"
    by (simp add: upload_of_def no_request_def)
  with gateway_refines_upload_machine [OF quiet_env_apart handled] s r(2) handled show ?thesis
    by (auto simp: codec_of_def)
qed

section \<open>Responses that are not filled in\<close>

text \<open>The end of the handling of a request: the response is encoded.\<close>

definition encoded_answer ::
  "codec \<Rightarrow> response \<Rightarrow> nat \<Rightarrow> app_proto_res \<times> u8 list option" where
  "encoded_answer codec resp size_max =
     (case encode_response codec resp size_max of None \<Rightarrow> (APP_RES_PROTO_CANNOT_GENERATE_RESPONSE, None)
      | Some bytes \<Rightarrow> (APP_RES_PROTO_OK, Some bytes))"

lemma answer_run:
  assumes "decode_request codec request = Some (Some msg)"
    and "call_handler env codec fuel msg s = Inr ((APP_RES_PROTO_OK, Some resp), t)"
  shows "WPC_Proto_handle_request env codec fuel request size_max s = Inr (encoded_answer codec resp size_max, t)"
  using assms by (simp add: WPC_Proto_handle_request_def encoded_answer_def prog_simps split: option.splits)

text \<open>C24: A request to configure another sink sends nothing to the node and is refused, but the response
  that is encoded for it still has the contents of the memory that was allocated for it in place of a
  configuration, which is a mandatory part of the message.\<close>

theorem foreign_sink_response_unfilled:
  assumes "decode_request codec request = Some (Some msg)" "get_configs_req msg = None"
    and "set_config_req msg = Some (req_id, cfg)" "nc_sink_id cfg \<noteq> m_sink_id s"
    and "mallocs s = []" "io_epoch s = now # later"
  shows "\<exists>resp. scr_config resp = scr_config (fresh_set_config_resp codec)
    \<and> rsp_res (scr_header resp) = wp_ErrorCode_INVALID_SINK_ID \<and> rsp_req_id (scr_header resp) = req_id
    \<and> WPC_Proto_handle_request env codec fuel request size_max s
      = Inr (encoded_answer codec (Set_config_resp resp) size_max, s\<lparr>io_epoch := later\<rparr>)"
proof -
  let ?resp = "(fresh_set_config_resp codec)\<lparr>scr_header := \<lparr>rsp_req_id = req_id, rsp_gw_id = m_gateway_id s,
    rsp_has_sink_id = (m_sink_id s \<noteq> []), rsp_sink_id = m_sink_id s, rsp_res = wp_ErrorCode_INVALID_SINK_ID,
    rsp_time_ms_epoch = now\<rparr>\<rparr>"
  have "call_handler env codec fuel msg s = Inr ((APP_RES_PROTO_OK, Some (Set_config_resp ?resp)), s\<lparr>io_epoch := later\<rparr>)"
    using assms(2-6)
    by (simp add: call_handler_def handled_def Platform_malloc_def Proto_config_handle_set_config_def
        Common_Fill_response_header_def Platform_get_timestamp_ms_epoch_def prog_simps)
  from answer_run [OF assms(1) this] show ?thesis by (intro exI [of _ ?resp]) simp
qed

text \<open>The information about the gateway is encoded with a number of features that was never written:
  it is what the allocated memory held, and a number above the size of the list makes the encoder
  fail.\<close>

theorem gateway_info_features_unset:
  assumes "decode_request codec request = Some (Some (no_request\<lparr>get_gateway_info_req := Some req_id\<rparr>))"
    and "mallocs s = []" "io_epoch s = now # later # rest"
  shows "\<exists>info. gi_gw_features_count info = gi_gw_features_count (fresh_gateway_info codec)
    \<and> gi_gw_features info = gi_gw_features (fresh_gateway_info codec)
    \<and> gi_current_time_s_epoch info = later div 1000 \<and> gi_gw_model info = m_gateway_model s
    \<and> gi_implemented_api_version info = 2 \<and> gi_max_scratchpad_size info = 1024
    \<and> WPC_Proto_handle_request env codec fuel request size_max s
      = Inr (encoded_answer codec (Get_gateway_info_resp info) size_max, s\<lparr>io_epoch := rest\<rparr>)"
proof -
  have "\<exists>info. gi_gw_features_count info = gi_gw_features_count (fresh_gateway_info codec)
    \<and> gi_gw_features info = gi_gw_features (fresh_gateway_info codec)
    \<and> gi_current_time_s_epoch info = later div 1000 \<and> gi_gw_model info = m_gateway_model s
    \<and> gi_implemented_api_version info = 2 \<and> gi_max_scratchpad_size info = 1024
    \<and> call_handler env codec fuel (no_request\<lparr>get_gateway_info_req := Some req_id\<rparr>) s
      = Inr ((APP_RES_PROTO_OK, Some (Get_gateway_info_resp info)), s\<lparr>io_epoch := rest\<rparr>)"
    using assms(2,3)
    by (simp add: call_handler_def no_request_def handled_def Platform_malloc_def
        Proto_config_handle_get_gateway_info_request_def GW_PROTO_API_VERSION_def MAX_SCRATCHPAD_CHUNK_def
        Common_Fill_response_header_def Platform_get_timestamp_ms_epoch_def prog_simps)
  then show ?thesis using answer_run [OF assms(1), of env fuel s] by metis
qed

theorem foreign_sink_response_unfilled_witness:
  "\<exists>(s :: data_service). m_sink_id s = [115]
     \<and> WPC_Proto_handle_request quiet_env
         (codec_of (no_request\<lparr>set_config_req := Some (1, \<lparr>nc_sink_id = [116], nc_node_role = None,
             nc_node_address = None, nc_network_address = None, nc_network_channel = None, nc_app_config = None,
             nc_keys = None, nc_current_ac_range = None, nc_sink_state = None\<rparr>)\<rparr>)
           (\<lambda>resp. case resp of Set_config_resp r \<Rightarrow> Some [ucast (rc_node_address (scr_config r))] | _ \<Rightarrow> None))
         0 [] 100 s = Inr ((APP_RES_PROTO_OK, Some [0xef]), s\<lparr>io_epoch := []\<rparr>)"
proof -
  let ?cfg = "\<lparr>nc_sink_id = [116], nc_node_role = None, nc_node_address = None, nc_network_address = None,
    nc_network_channel = None, nc_app_config = None, nc_keys = None, nc_current_ac_range = None, nc_sink_state = None\<rparr>"
  let ?msg = "no_request\<lparr>set_config_req := Some (1, ?cfg)\<rparr>"
  let ?codec = "codec_of ?msg (\<lambda>resp. case resp of Set_config_resp r \<Rightarrow> Some [ucast (rc_node_address (scr_config r))] | _ \<Rightarrow> None)"
  have h: "decode_request ?codec [] = Some (Some ?msg)" "get_configs_req ?msg = None"
    "set_config_req ?msg = Some (1, ?cfg)" "nc_sink_id ?cfg \<noteq> m_sink_id quiet_gateway"
    "mallocs quiet_gateway = []" "io_epoch quiet_gateway = 77 # []"
    by (simp_all add: codec_of_def no_request_def)
  from foreign_sink_response_unfilled [OF h, of quiet_env 0 100] show ?thesis
    by (intro exI [of _ quiet_gateway]) (auto simp: encoded_answer_def codec_of_def unfilled_config_def)
qed

theorem gateway_info_features_unset_witness:
  "\<exists>(s :: data_service). WPC_Proto_handle_request quiet_env
         (codec_of (no_request\<lparr>get_gateway_info_req := Some 1\<rparr>)
           (\<lambda>resp. case resp of Get_gateway_info_resp info \<Rightarrow>
               if gi_gw_features_count info > 2 then None else Some [0] | _ \<Rightarrow> None))
         0 [] 100 s = Inr ((APP_RES_PROTO_CANNOT_GENERATE_RESPONSE, None), s\<lparr>io_epoch := []\<rparr>)"
proof -
  define s where "s = quiet_gateway\<lparr>io_epoch := [77, 78]\<rparr>"
  let ?codec = "codec_of (no_request\<lparr>get_gateway_info_req := Some 1\<rparr>) (\<lambda>resp. case resp of Get_gateway_info_resp info \<Rightarrow>
    if gi_gw_features_count info > 2 then None else Some [0] | _ \<Rightarrow> None)"
  have h: "decode_request ?codec [] = Some (Some (no_request\<lparr>get_gateway_info_req := Some 1\<rparr>))"
    "mallocs s = []" "io_epoch s = 77 # 78 # []"
    by (simp_all add: codec_of_def s_def)
  from gateway_info_features_unset [OF h, of quiet_env 0 100] show ?thesis
    by (intro exI [of _ s]) (auto simp: encoded_answer_def codec_of_def unfilled_info_def)
qed

end
