(* ===== verification/Platform_Queue.thy ===== *)
theory Platform_Queue
  imports Wpc_Internal
begin

text \<open>
  The queue between the two threads of \<^verbatim>\<open>lib/platform/linux/platform.c\<close>: the thread that polls the
  node stores the received indications in a static ring buffer of 60 entries, the thread that
  dispatches them takes them out. \<^verbatim>\<open>ring\<close> holds the static variables of the queue; the removal
  of an entry is the two stores that the dispatching thread makes, so that they can be interleaved
  with the reads of the polling thread.
\<close>

section \<open>The ring buffer of indications\<close>

definition MAX_NUMBER_INDICATION :: u32 where "MAX_NUMBER_INDICATION = 30"
definition MAX_NUMBER_INDICATION_QUEUE :: u32 where
  "MAX_NUMBER_INDICATION_QUEUE = MAX_NUMBER_INDICATION * 2"

lemma queue_sizes [simp]: "MAX_NUMBER_INDICATION_QUEUE = 60" "MAX_NUMBER_INDICATION = 30"
  by (simp_all add: MAX_NUMBER_INDICATION_QUEUE_def MAX_NUMBER_INDICATION_def)

record timestamped_frame =
  tf_frame :: "u8 list"
  tf_timestamp_ms_epoch :: u64

record ring =
  m_indications_queue :: "timestamped_frame list"
  m_ind_queue_write :: u32
  m_ind_queue_read :: u32
  m_queue_empty :: bool

definition looks_full :: "ring \<Rightarrow> bool" where
  "looks_full s \<longleftrightarrow> \<not> m_queue_empty s \<and> m_ind_queue_write s = m_ind_queue_read s"

definition next_index :: "u32 \<Rightarrow> u32" where
  "next_index i = (i + 1) mod MAX_NUMBER_INDICATION_QUEUE"

definition onIndicationReceivedLocked :: "timestamped_frame \<Rightarrow> ring \<Rightarrow> ring" where
  "onIndicationReceivedLocked ind s =
     (if looks_full s then s
      else s\<lparr>m_indications_queue := (m_indications_queue s)[unat (m_ind_queue_write s) := ind],
             m_ind_queue_write := next_index (m_ind_queue_write s),
             m_queue_empty := False\<rparr>)"

definition oldest_indication :: "ring \<Rightarrow> timestamped_frame" where
  "oldest_indication s = m_indications_queue s ! unat (m_ind_queue_read s)"

definition advance_read :: "ring \<Rightarrow> ring" where
  "advance_read s = s\<lparr>m_ind_queue_read := next_index (m_ind_queue_read s)\<rparr>"

definition update_empty :: "ring \<Rightarrow> ring" where
  "update_empty s =
     (if m_ind_queue_read s = m_ind_queue_write s then s\<lparr>m_queue_empty := True\<rparr> else s)"

definition remove_oldest :: "ring \<Rightarrow> ring" where
  "remove_oldest s = update_empty (advance_read s)"

text \<open>The free space that the polling thread computes, from the readings of the two indices that
  it makes without the lock: \<^verbatim>\<open>r4\<close> in the comparison and \<^verbatim>\<open>r5\<close> in the subtraction.\<close>

definition free_buffer_room :: "u32 \<Rightarrow> u32 \<Rightarrow> u32 \<Rightarrow> u32" where
  "free_buffer_room w r4 r5 =
     (if w > r4 then MAX_NUMBER_INDICATION_QUEUE - (w - r5) else r5 - w)"

text \<open>The indices are always inside the static array, and an empty queue has equal indices.\<close>

definition ring_ok :: "ring \<Rightarrow> bool" where
  "ring_ok s \<longleftrightarrow> length (m_indications_queue s) = 60
     \<and> unat (m_ind_queue_write s) < 60 \<and> unat (m_ind_queue_read s) < 60
     \<and> (m_queue_empty s \<longrightarrow> m_ind_queue_write s = m_ind_queue_read s)"

definition queue_length :: "ring \<Rightarrow> nat" where
  "queue_length s =
     (if m_queue_empty s then 0
      else if m_ind_queue_write s = m_ind_queue_read s then 60
      else (unat (m_ind_queue_write s) + 60 - unat (m_ind_queue_read s)) mod 60)"

definition queued :: "ring \<Rightarrow> timestamped_frame list" where
  "queued s = map (\<lambda>k. m_indications_queue s ! ((unat (m_ind_queue_read s) + k) mod 60)) [0..<queue_length s]"

lemma unat_next_index: "unat i < 60 \<Longrightarrow> unat (next_index i) = (unat i + 1) mod 60"
  by (simp add: next_index_def unat_mod unat_word_ariths)

lemma next_index_less: "unat i < 60 \<Longrightarrow> unat (next_index i) < 60"
  by (simp add: unat_next_index)

lemma length_queued [simp]: "length (queued s) = queue_length s"
  by (simp add: queued_def)

lemma queue_length_le: "ring_ok s \<Longrightarrow> queue_length s \<le> 60"
proof -
  have "(n::nat) mod 60 \<le> 60" for n using mod_less_divisor [of 60 n] by linarith
  then show "ring_ok s \<Longrightarrow> queue_length s \<le> 60" by (simp add: queue_length_def)
qed

text \<open>The indices determine each other up to the length, without wrap-around.\<close>

lemma word_index_eq: "unat (i :: u32) < 60 \<Longrightarrow> unat j < 60 \<Longrightarrow> i = j \<longleftrightarrow> unat i = unat j"
  by (simp add: word_unat_eq_iff)

lemma queue_length_write:
  "ring_ok s \<Longrightarrow> unat (m_ind_queue_write s) = (unat (m_ind_queue_read s) + queue_length s) mod 60"
  by (auto simp: ring_ok_def queue_length_def mod_simps)

lemma looks_full_iff: "ring_ok s \<Longrightarrow> looks_full s \<longleftrightarrow> queue_length s = 60"
proof -
  have "(n::nat) mod 60 \<noteq> 60" for n using mod_less_divisor [of 60 n] by linarith
  then show "ring_ok s \<Longrightarrow> looks_full s \<longleftrightarrow> queue_length s = 60"
    by (auto simp: looks_full_def queue_length_def)
qed

lemma queue_empty_iff: "ring_ok s \<Longrightarrow> m_queue_empty s \<longleftrightarrow> queue_length s = 0"
proof -
  have "(n + 60 - m) mod 60 \<noteq> 0" if "n < 60" "m < 60" "n \<noteq> m" for n m :: nat
    using that by (cases "m \<le> n") (auto simp: mod_if)
  then show "ring_ok s \<Longrightarrow> m_queue_empty s \<longleftrightarrow> queue_length s = 0"
    by (auto simp: ring_ok_def queue_length_def word_unat_eq_iff)
qed

lemma push_queue_length:
  assumes "ring_ok s" "\<not> looks_full s"
  shows "queue_length (onIndicationReceivedLocked ind s) = Suc (queue_length s)"
    and "ring_ok (onIndicationReceivedLocked ind s)"
proof -
  have a: "unat (m_ind_queue_write s) < 60" "unat (m_ind_queue_read s) < 60"
    using assms(1) by (simp_all add: ring_ok_def)
  show "ring_ok (onIndicationReceivedLocked ind s)"
    using assms a by (simp add: ring_ok_def onIndicationReceivedLocked_def next_index_less)
  have "(if (w + 1) mod 60 = r then 60 else ((w + 1) mod 60 + 60 - r) mod 60)
      = Suc (if e then 0 else (w + 60 - r) mod 60)"
    if "w < 60" "r < 60" "e \<longrightarrow> w = r" "\<not> e \<longrightarrow> w \<noteq> r" for w r :: nat and e
  proof (cases "w + 1 = 60")
    case True
    then show ?thesis using that by (auto simp: mod_if)
  next
    case False
    then have "(w + 1) mod 60 = w + 1" using that by simp
    then show ?thesis using that False by (auto simp: mod_if)
  qed
  note n = this [of "unat (m_ind_queue_write s)" "unat (m_ind_queue_read s)" "m_queue_empty s"]
  show "queue_length (onIndicationReceivedLocked ind s) = Suc (queue_length s)"
    using assms a n
    by (auto simp: queue_length_def onIndicationReceivedLocked_def looks_full_def ring_ok_def
        word_unat_eq_iff unat_next_index)
qed

lemma push_queued:
  assumes "ring_ok s"
  shows "queued (onIndicationReceivedLocked ind s) = (if looks_full s then queued s else queued s @ [ind])"
proof (cases "looks_full s")
  case True
  then show ?thesis by (simp add: onIndicationReceivedLocked_def)
next
  case False
  let ?t = "onIndicationReceivedLocked ind s"
  let ?r = "unat (m_ind_queue_read s)" and ?n = "queue_length s" and ?q = "m_indications_queue s"
  have n: "queue_length ?t = Suc ?n" by (rule push_queue_length [OF assms False])
  have f: "?n < 60" using queue_length_le [OF assms] looks_full_iff [OF assms] False by linarith
  have w: "unat (m_ind_queue_write s) = (?r + ?n) mod 60" by (rule queue_length_write [OF assms])
  have sel: "m_ind_queue_read ?t = m_ind_queue_read s"
    "m_indications_queue ?t = ?q[(?r + ?n) mod 60 := ind]"
    using False by (simp_all add: onIndicationReceivedLocked_def w)
  have len: "length ?q = 60" using assms by (simp add: ring_ok_def)
  have d: "(?r + k) mod 60 \<noteq> (?r + ?n) mod 60" if "k < ?n" for k
    using that f dvd_imp_le [of 60 "?n - k"] mod_eq_dvd_iff_nat [of "?r + k" "?r + ?n" 60] by auto
  have "map (\<lambda>k. ?q[(?r + ?n) mod 60 := ind] ! ((?r + k) mod 60)) [0..<?n]
      = map (\<lambda>k. ?q ! ((?r + k) mod 60)) [0..<?n]"
    by (intro map_cong) (auto simp: nth_list_update_neq [OF d [symmetric]])
  then show ?thesis
    using False len by (simp add: queued_def n sel)
qed

lemma oldest_queued:
  assumes "ring_ok s" "queued s \<noteq> []"
  shows "oldest_indication s = hd (queued s)"
proof -
  have "0 < queue_length s" using assms(2) by (metis length_greater_0_conv length_queued)
  moreover have "unat (m_ind_queue_read s) < 60" using assms(1) by (simp add: ring_ok_def)
  ultimately show ?thesis by (simp add: queued_def oldest_indication_def upt_rec hd_map)
qed

lemma remove_queue_length:
  assumes "ring_ok s" "queued s \<noteq> []"
  shows "ring_ok (remove_oldest s)" and "queue_length (remove_oldest s) = queue_length s - 1"
proof -
  have a: "unat (m_ind_queue_write s) < 60" "unat (m_ind_queue_read s) < 60" "\<not> m_queue_empty s"
    using assms by (auto simp: ring_ok_def queued_def queue_length_def)
  show "ring_ok (remove_oldest s)"
    using assms a by (simp add: ring_ok_def remove_oldest_def update_empty_def advance_read_def next_index_less)
  have "(if (r + 1) mod 60 = w then 0 else (w + 60 - (r + 1) mod 60) mod 60)
      = (if w = r then 60 else (w + 60 - r) mod 60) - 1"
    if "w < 60" "r < 60" for w r :: nat
  proof (cases "r + 1 = 60")
    case True
    then show ?thesis using that by (auto simp: mod_if)
  next
    case False
    then have "(r + 1) mod 60 = r + 1" using that by simp
    then show ?thesis using that False by (auto simp: mod_if)
  qed
  note n = this [of "unat (m_ind_queue_write s)" "unat (m_ind_queue_read s)"]
  have "next_index (m_ind_queue_read s) = m_ind_queue_write s
      \<longleftrightarrow> (unat (m_ind_queue_read s) + 1) mod 60 = unat (m_ind_queue_write s)"
    using a by (simp add: word_unat_eq_iff unat_next_index)
  then show "queue_length (remove_oldest s) = queue_length s - 1"
    using a n word_index_eq [OF a(1,2)] unat_next_index [OF a(2)]
    by (simp add: queue_length_def remove_oldest_def update_empty_def advance_read_def eq_commute
        split del: if_split cong: if_cong) (simp split: if_splits)
qed

lemma remove_queued:
  assumes "ring_ok s" "queued s \<noteq> []"
  shows "queued (remove_oldest s) = tl (queued s)"
proof -
  let ?r = "unat (m_ind_queue_read s)" and ?n = "queue_length s"
  have a: "?r < 60" using assms(1) by (simp add: ring_ok_def)
  have p: "0 < ?n" using assms(2) by (metis length_greater_0_conv length_queued)
  have sel: "m_indications_queue (remove_oldest s) = m_indications_queue s"
    "m_ind_queue_read (remove_oldest s) = next_index (m_ind_queue_read s)"
    by (simp_all add: remove_oldest_def update_empty_def advance_read_def)
  show ?thesis
    using p by (simp add: queued_def remove_queue_length [OF assms] sel unat_next_index [OF a] list_eq_iff_nth_eq nth_tl mod_simps)
qed


section \<open>The contract of the queue\<close>

text \<open>What the two threads rely on: a bounded first-in-first-out queue whose insertion leaves a full
  queue alone.\<close>

locale bounded_queue =
  fixes ok :: "'s \<Rightarrow> bool" and items :: "'s \<Rightarrow> 'a list" and capacity :: nat
    and push :: "'a \<Rightarrow> 's \<Rightarrow> 's" and oldest :: "'s \<Rightarrow> 'a" and remove :: "'s \<Rightarrow> 's"
  assumes bounded: "ok s \<Longrightarrow> length (items s) \<le> capacity"
    and push_ok: "ok s \<Longrightarrow> ok (push x s)"
    and push_items: "ok s \<Longrightarrow> items (push x s)
        = (if length (items s) = capacity then items s else items s @ [x])"
    and oldest_hd: "ok s \<Longrightarrow> items s \<noteq> [] \<Longrightarrow> oldest s = hd (items s)"
    and remove_ok: "ok s \<Longrightarrow> items s \<noteq> [] \<Longrightarrow> ok (remove s)"
    and remove_items: "ok s \<Longrightarrow> items s \<noteq> [] \<Longrightarrow> items (remove s) = tl (items s)"
begin

text \<open>A burst of insertions keeps the first ones that fit, in order.\<close>

lemma push_all:
  "ok s \<Longrightarrow> ok (fold push xs s)
     \<and> items (fold push xs s) = items s @ take (capacity - length (items s)) xs"
proof (induction xs arbitrary: s)
  case (Cons x xs)
  from Cons.IH [OF push_ok [OF Cons.prems], of x] show ?case
    using bounded [OF Cons.prems] push_items [OF Cons.prems, of x]
    by (cases "length (items s) = capacity") (auto simp: take_Cons')
qed simp

text \<open>Removing one by one hands out the items from the front.\<close>

lemma remove_many:
  "ok s \<Longrightarrow> n \<le> length (items s) \<Longrightarrow> ok ((remove ^^ n) s) \<and> items ((remove ^^ n) s) = drop n (items s)"
proof (induction n)
  case (Suc n)
  then have "items ((remove ^^ n) s) = drop n (items s)" "ok ((remove ^^ n) s)" by simp_all
  with Suc.prems show ?case by (simp add: remove_ok remove_items drop_Suc tl_drop)
qed simp

lemma oldest_after:
  "ok s \<Longrightarrow> n < length (items s) \<Longrightarrow> oldest ((remove ^^ n) s) = items s ! n"
  using remove_many [of s n] by (simp add: oldest_hd hd_drop_conv_nth)

lemma pass_through:
  assumes "ok s" "items s = []" "length xs \<le> capacity" "n < length xs"
  shows "oldest ((remove ^^ n) (fold push xs s)) = xs ! n"
  using push_all [OF assms(1), of xs] assms by (simp add: oldest_after)

end

interpretation ring: bounded_queue ring_ok queued 60 onIndicationReceivedLocked oldest_indication remove_oldest
proof unfold_locales
  fix s :: "ring" and x
  assume ok: "ring_ok s"
  show "ring_ok (onIndicationReceivedLocked x s)"
    using push_queue_length(2) [OF ok] by (cases "looks_full s") (simp_all add: onIndicationReceivedLocked_def ok)
  show "length (queued s) \<le> 60" using queue_length_le [OF ok] by simp
  show "queued (onIndicationReceivedLocked x s) = (if length (queued s) = 60 then queued s else queued s @ [x])"
    using push_queued [OF ok] looks_full_iff [OF ok] by simp
qed (simp_all add: oldest_queued remove_queue_length remove_queued)

end
