(* ===== verification/Platform.thy ===== *)
theory Platform
  imports Platform_Queue
begin

text \<open>
  The threads of \<^verbatim>\<open>lib/platform/linux/platform.c\<close> as step relations on one state: the polling
  thread (\<^verbatim>\<open>poll_for_indication\<close>), the dispatching thread (\<^verbatim>\<open>dispatch_indication\<close>) and a
  thread that closes and opens the platform. Each access of a shared variable outside the mutex of
  the queue is a step of its own, in the order of the code; a critical section of the polling thread
  is one step. What the node delivers, what the poll returns and whether the reassembly queue is
  empty are free choices of the steps; a poll for \<^verbatim>\<open>n\<close> indications makes at most \<^verbatim>\<open>n\<close> calls
  of the callback, which \<^verbatim>\<open>poll_loop\<close> guarantees. Sleeping is a step that may take any time.
\<close>

section \<open>The threads\<close>

datatype polling_thread_state = POLLING_THREAD_RUN | POLLING_THREAD_STOP | POLLING_THREAD_STOP_REQUESTED

datatype thread = Polling | Dispatching

text \<open>Where the polling thread is: one place before each access to a shared variable. When the node has been
  silent for too long, the watchdog of the request that polls (\<^verbatim>\<open>check_if_timeout_reached_locked\<close>) closes
  the platform on this thread and ends the process; the last three places are those of this close, which does
  not join the thread it runs on.\<close>

datatype polling_pc =
    P_Start | P_Loop | P_Sleep | P_Stop_requested | P_Drain | P_Reassembly
  | P_Full_flag | P_Full_index | P_Empty_flag | P_Compare | P_Subtract u32
  | P_Limit u32 | P_Poll nat | P_Pending | P_Exited
  | P_Close_dispatch | P_Join_dispatch | P_Process_exit

text \<open>Where the dispatching thread is; it holds the mutex of the queue in \<^verbatim>\<open>D_Loop\<close>,
  \<^verbatim>\<open>D_Woken\<close>, \<^verbatim>\<open>D_Relocked\<close>, \<^verbatim>\<open>D_Advanced\<close>, and still in \<^verbatim>\<open>D_Exited\<close>.\<close>

datatype dispatch_pc =
    D_Start | D_Loop | D_Waiting | D_Woken | D_Call | D_Called | D_Relocked | D_Advanced | D_Exited

text \<open>The platform is closed by another thread, or by the dispatching thread in a callback of the
  application; \<^verbatim>\<open>closer\<close> is \<open>Some Dispatching\<close> in the second case, which the code tells apart by
  \<^verbatim>\<open>pthread_self\<close>. No code of the application runs in the polling thread; the one close on that thread is the
  one of the watchdog, whose steps are among those of the polling thread below.\<close>

datatype close_pc = C_Open | C_Join_polling | C_Joined | C_Join_dispatch | C_Closed

record platform =
  queue :: ring
  m_queue_mutex :: "thread option"
  m_polling_thread_state_request :: polling_thread_state
  m_dispatch_thread_running :: bool
  wait_before_next_polling_ms :: nat
  polling :: polling_pc
  dispatching :: dispatch_pc
  closing :: close_pc
  closer :: "thread option"

definition POLLING_INTERVAL_MS :: nat where "POLLING_INTERVAL_MS = 20"

text \<open>What a start that succeeds leaves: the mutex of the queue is fresh, both threads are created.\<close>

definition threads_started :: "platform \<Rightarrow> platform" where
  "threads_started s = s\<lparr>m_queue_mutex := None, m_dispatch_thread_running := True,
     polling := P_Start, dispatching := D_Start, closing := C_Open, closer := None\<rparr>"

definition power_on :: platform where
  "power_on = \<lparr>queue = \<lparr>m_indications_queue = replicate 60 \<lparr>tf_frame = [], tf_timestamp_ms_epoch = 0\<rparr>,
       m_ind_queue_write = 0, m_ind_queue_read = 0, m_queue_empty = True\<rparr>,
     m_queue_mutex = None, m_polling_thread_state_request = POLLING_THREAD_STOP,
     m_dispatch_thread_running = False, wait_before_next_polling_ms = 0,
     polling = P_Exited, dispatching = D_Exited, closing = C_Closed, closer = None\<rparr>"

text \<open>What a step shows to an observer: an indication stored or lost, an indication handed to the
  service that handles it, and the three index readings of a computation of the free room.\<close>

datatype event =
    Quiet
  | Pushed timestamped_frame
  | Dropped timestamped_frame
  | Dispatched timestamped_frame
  | Room u32 u32 u32

inductive poll_step :: "event \<Rightarrow> platform \<Rightarrow> platform \<Rightarrow> bool" where
  p_start: "polling s = P_Start \<Longrightarrow>
    poll_step Quiet s (s\<lparr>m_polling_thread_state_request := POLLING_THREAD_RUN,
      wait_before_next_polling_ms := 500, polling := P_Loop\<rparr>)"
| p_loop: "polling s = P_Loop \<Longrightarrow>
    poll_step Quiet s (s\<lparr>polling :=
      if m_polling_thread_state_request s = POLLING_THREAD_STOP then P_Exited else P_Sleep\<rparr>)"
| p_sleep: "polling s = P_Sleep \<Longrightarrow> poll_step Quiet s (s\<lparr>polling := P_Stop_requested\<rparr>)"
| p_stop_requested: "polling s = P_Stop_requested \<Longrightarrow>
    poll_step Quiet s (s\<lparr>polling :=
      if m_polling_thread_state_request s = POLLING_THREAD_STOP_REQUESTED then P_Drain else P_Full_flag\<rparr>)"
| p_not_drained: "polling s = P_Drain \<Longrightarrow> \<not> m_queue_empty (queue s) \<Longrightarrow>
    poll_step Quiet s (s\<lparr>wait_before_next_polling_ms := POLLING_INTERVAL_MS, polling := P_Loop\<rparr>)"
| p_drained: "polling s = P_Drain \<Longrightarrow> m_queue_empty (queue s) \<Longrightarrow>
    poll_step Quiet s (s\<lparr>polling := P_Reassembly\<rparr>)"
| p_reassembly_empty: "polling s = P_Reassembly \<Longrightarrow>
    poll_step Quiet s (s\<lparr>m_polling_thread_state_request := POLLING_THREAD_STOP, polling := P_Exited\<rparr>)"
| p_reassembly_busy: "polling s = P_Reassembly \<Longrightarrow> poll_step Quiet s (s\<lparr>polling := P_Full_flag\<rparr>)"
| p_full_flag: "polling s = P_Full_flag \<Longrightarrow>
    poll_step Quiet s (s\<lparr>polling := if m_queue_empty (queue s) then P_Empty_flag else P_Full_index\<rparr>)"
| p_queue_full: "polling s = P_Full_index \<Longrightarrow> m_ind_queue_write (queue s) = m_ind_queue_read (queue s) \<Longrightarrow>
    poll_step Quiet s (s\<lparr>wait_before_next_polling_ms := POLLING_INTERVAL_MS, polling := P_Loop\<rparr>)"
| p_queue_not_full: "polling s = P_Full_index \<Longrightarrow> m_ind_queue_write (queue s) \<noteq> m_ind_queue_read (queue s) \<Longrightarrow>
    poll_step Quiet s (s\<lparr>polling := P_Empty_flag\<rparr>)"
| p_empty_flag: "polling s = P_Empty_flag \<Longrightarrow>
    poll_step Quiet s (s\<lparr>polling :=
      if m_queue_empty (queue s) then P_Limit MAX_NUMBER_INDICATION_QUEUE else P_Compare\<rparr>)"
| p_compare: "polling s = P_Compare \<Longrightarrow>
    poll_step Quiet s (s\<lparr>polling := P_Subtract (m_ind_queue_read (queue s))\<rparr>)"
| p_subtract: "polling s = P_Subtract r \<Longrightarrow>
    poll_step (Room (m_ind_queue_write (queue s)) r (m_ind_queue_read (queue s))) s
      (s\<lparr>polling := P_Limit (free_buffer_room (m_ind_queue_write (queue s)) r (m_ind_queue_read (queue s)))\<rparr>)"
| p_limit: "polling s = P_Limit room \<Longrightarrow>
    poll_step Quiet s (s\<lparr>polling :=
      P_Poll (if m_polling_thread_state_request s = POLLING_THREAD_STOP_REQUESTED then 1
              else unat (min MAX_NUMBER_INDICATION room))\<rparr>)"
| p_indication: "polling s = P_Poll (Suc n) \<Longrightarrow> m_queue_mutex s = None \<Longrightarrow>
    poll_step (if looks_full (queue s) then Dropped ind else Pushed ind) s
      (s\<lparr>queue := onIndicationReceivedLocked ind (queue s), polling := P_Poll n\<rparr>)"
| p_polled: "polling s = P_Poll n \<Longrightarrow> poll_step Quiet s (s\<lparr>polling := P_Pending\<rparr>)"
| p_pending: "polling s = P_Pending \<Longrightarrow>
    poll_step Quiet s (s\<lparr>wait_before_next_polling_ms :=
      if get_ind_res = (1 :: int) \<and> m_polling_thread_state_request s \<noteq> POLLING_THREAD_STOP_REQUESTED
      then 1 else POLLING_INTERVAL_MS, polling := P_Loop\<rparr>)"
| p_node_silent: "polling s = P_Poll n \<Longrightarrow>
    poll_step Quiet s (s\<lparr>m_polling_thread_state_request := POLLING_THREAD_STOP_REQUESTED, polling := P_Close_dispatch\<rparr>)"
| p_stop_dispatch: "polling s = P_Close_dispatch \<Longrightarrow>
    poll_step Quiet s (s\<lparr>m_dispatch_thread_running := False, polling := P_Join_dispatch\<rparr>)"
| p_dispatch_joined: "polling s = P_Join_dispatch \<Longrightarrow> dispatching s = D_Exited \<Longrightarrow>
    poll_step Quiet s (s\<lparr>polling := P_Process_exit\<rparr>)"

inductive dispatch_step :: "event \<Rightarrow> platform \<Rightarrow> platform \<Rightarrow> bool" where
  d_lock: "dispatching s = D_Start \<Longrightarrow> m_queue_mutex s = None \<Longrightarrow>
    dispatch_step Quiet s (s\<lparr>m_queue_mutex := Some Dispatching, dispatching := D_Loop\<rparr>)"
| d_exit: "dispatching s = D_Loop \<Longrightarrow> \<not> m_dispatch_thread_running s \<Longrightarrow>
    dispatch_step Quiet s (s\<lparr>dispatching := D_Exited\<rparr>)"
| d_wait: "dispatching s = D_Loop \<Longrightarrow> m_dispatch_thread_running s \<Longrightarrow> m_queue_empty (queue s) \<Longrightarrow>
    dispatch_step Quiet s (s\<lparr>m_queue_mutex := None, dispatching := D_Waiting\<rparr>)"
| d_take: "dispatching s = D_Loop \<Longrightarrow> m_dispatch_thread_running s \<Longrightarrow> \<not> m_queue_empty (queue s) \<Longrightarrow>
    dispatch_step Quiet s (s\<lparr>m_queue_mutex := None, dispatching := D_Call\<rparr>)"
| d_wake: "dispatching s = D_Waiting \<Longrightarrow> m_queue_mutex s = None \<Longrightarrow>
    dispatch_step Quiet s (s\<lparr>m_queue_mutex := Some Dispatching, dispatching := D_Woken\<rparr>)"
| d_continue: "dispatching s = D_Woken \<Longrightarrow> m_queue_empty (queue s) \<Longrightarrow>
    dispatch_step Quiet s (s\<lparr>dispatching := D_Loop\<rparr>)"
| d_take_woken: "dispatching s = D_Woken \<Longrightarrow> \<not> m_queue_empty (queue s) \<Longrightarrow>
    dispatch_step Quiet s (s\<lparr>m_queue_mutex := None, dispatching := D_Call\<rparr>)"
| d_call: "dispatching s = D_Call \<Longrightarrow>
    dispatch_step (Dispatched (oldest_indication (queue s))) s (s\<lparr>dispatching := D_Called\<rparr>)"
| d_relock: "dispatching s = D_Called \<Longrightarrow> m_queue_mutex s = None \<Longrightarrow>
    (closer s = Some Dispatching \<longrightarrow> closing s = C_Closed) \<Longrightarrow>
    dispatch_step Quiet s (s\<lparr>m_queue_mutex := Some Dispatching, dispatching := D_Relocked\<rparr>)"
| d_advance: "dispatching s = D_Relocked \<Longrightarrow>
    dispatch_step Quiet s (s\<lparr>queue := advance_read (queue s), dispatching := D_Advanced\<rparr>)"
| d_empty: "dispatching s = D_Advanced \<Longrightarrow>
    dispatch_step Quiet s (s\<lparr>queue := update_empty (queue s), dispatching := D_Loop\<rparr>)"

inductive close_step :: "event \<Rightarrow> platform \<Rightarrow> platform \<Rightarrow> bool" where
  c_request: "closing s = C_Open \<Longrightarrow>
    close_step Quiet s (s\<lparr>m_polling_thread_state_request := POLLING_THREAD_STOP_REQUESTED,
      closing := C_Join_polling, closer := None\<rparr>)"
| c_request_in_callback: "closing s = C_Open \<Longrightarrow> dispatching s = D_Called \<Longrightarrow>
    close_step Quiet s (s\<lparr>m_polling_thread_state_request := POLLING_THREAD_STOP_REQUESTED,
      closing := C_Join_polling, closer := Some Dispatching\<rparr>)"
| c_joined: "closing s = C_Join_polling \<Longrightarrow> polling s = P_Exited \<Longrightarrow>
    close_step Quiet s (s\<lparr>closing := C_Joined\<rparr>)"
| c_stop: "closing s = C_Joined \<Longrightarrow>
    close_step Quiet s (s\<lparr>m_dispatch_thread_running := False, closing := C_Join_dispatch\<rparr>)"
| c_closed: "closing s = C_Join_dispatch \<Longrightarrow>
    closer s = Some Dispatching \<or> dispatching s = D_Exited \<Longrightarrow>
    close_step Quiet s (s\<lparr>closing := C_Closed\<rparr>)"
| c_reopen: "closing s = C_Closed \<Longrightarrow> close_step Quiet s (threads_started s)"

inductive platform_step :: "event \<Rightarrow> platform \<Rightarrow> platform \<Rightarrow> bool" where
  polling_thread: "poll_step e s t \<Longrightarrow> platform_step e s t"
| dispatching_thread: "dispatch_step e s t \<Longrightarrow> platform_step e s t"
| closing_thread: "close_step e s t \<Longrightarrow> platform_step e s t"

inductive_simps platform_step_cases: "platform_step e s t"

text \<open>An execution from a state with the events it shows.\<close>

inductive execution :: "platform \<Rightarrow> event list \<Rightarrow> platform \<Rightarrow> bool" where
  execution_Nil: "execution s [] s"
| execution_snoc: "execution s tr t \<Longrightarrow> platform_step e t u \<Longrightarrow> execution s (tr @ [e]) u"

abbreviation "platform_run \<equiv> execution (threads_started power_on)"

fun pushed :: "event list \<Rightarrow> timestamped_frame list" where
  "pushed [] = []"
| "pushed (Pushed ind # tr) = ind # pushed tr"
| "pushed (_ # tr) = pushed tr"

fun handed :: "event list \<Rightarrow> timestamped_frame list" where
  "handed [] = []"
| "handed (Dispatched ind # tr) = ind # handed tr"
| "handed (_ # tr) = handed tr"

lemma pushed_append [simp]: "pushed (tr @ tr') = pushed tr @ pushed tr'"
  by (induction tr rule: pushed.induct) simp_all

lemma handed_append [simp]: "handed (tr @ tr') = handed tr @ handed tr'"
  by (induction tr rule: handed.induct) simp_all

text \<open>Between its two stores the dispatching thread leaves a queue that looks full when the entry it
  removed was the last one; \<^verbatim>\<open>settled\<close> is the queue as it will be after the second store.\<close>

definition settled :: "platform \<Rightarrow> ring" where
  "settled s = (if dispatching s = D_Advanced then update_empty (queue s) else queue s)"

definition undispatched :: "platform \<Rightarrow> timestamped_frame list" where
  "undispatched s = (if dispatching s \<in> {D_Called, D_Relocked} then tl (queued (settled s)) else queued (settled s))"

text \<open>What the code keeps true between the variables of the three threads.\<close>

definition platform_ok :: "platform \<Rightarrow> bool" where
  "platform_ok s \<longleftrightarrow> ring_ok (queue s)
     \<and> m_queue_mutex s = (if dispatching s \<in> {D_Loop, D_Woken, D_Relocked, D_Advanced, D_Exited}
                          then Some Dispatching else None)
     \<and> (dispatching s \<in> {D_Call, D_Called, D_Relocked, D_Advanced} \<longrightarrow> \<not> m_queue_empty (queue s))
     \<and> (polling s \<in> {P_Reassembly, P_Exited} \<longrightarrow> m_queue_empty (queue s))
     \<and> (m_polling_thread_state_request s = POLLING_THREAD_STOP \<longrightarrow> polling s \<in> {P_Start, P_Exited})
     \<and> (closing s \<in> {C_Joined, C_Join_dispatch, C_Closed} \<longrightarrow> polling s = P_Exited)
     \<and> (closing s = C_Closed \<longrightarrow> dispatching s = D_Exited)
     \<and> (closer s = Some Dispatching \<longrightarrow> closing s = C_Join_polling \<and> dispatching s = D_Called)"

lemma ring_ok_update_empty: "ring_ok s \<Longrightarrow> ring_ok (update_empty s)"
  by (simp add: ring_ok_def update_empty_def)

lemma ring_ok_advance: "ring_ok s \<Longrightarrow> \<not> m_queue_empty s \<Longrightarrow> ring_ok (advance_read s)"
  by (simp add: ring_ok_def advance_read_def next_index_less)

lemma push_empty [simp]: "\<not> m_queue_empty s \<Longrightarrow> \<not> m_queue_empty (onIndicationReceivedLocked ind s)"
  by (simp add: onIndicationReceivedLocked_def)

lemma advance_read_empty [simp]: "m_queue_empty (advance_read s) = m_queue_empty s"
  by (simp add: advance_read_def)

lemma update_empty_empty [simp]:
  "m_queue_empty (update_empty s) \<longleftrightarrow> m_queue_empty s \<or> m_ind_queue_read s = m_ind_queue_write s"
  by (simp add: update_empty_def)

lemma poll_step_ok: "poll_step e s t \<Longrightarrow> platform_ok s \<Longrightarrow> platform_ok t"
  by (induction rule: poll_step.induct) (auto simp: platform_ok_def ring.push_ok split: if_splits)

lemma dispatch_step_ok: "dispatch_step e s t \<Longrightarrow> platform_ok s \<Longrightarrow> platform_ok t"
  by (induction rule: dispatch_step.induct)
    (auto simp: platform_ok_def ring_ok_update_empty ring_ok_advance)

lemma close_step_ok: "close_step e s t \<Longrightarrow> platform_ok s \<Longrightarrow> platform_ok t"
  by (induction rule: close_step.induct) (auto simp: platform_ok_def threads_started_def)

lemma platform_step_ok: "platform_step e s t \<Longrightarrow> platform_ok s \<Longrightarrow> platform_ok t"
  unfolding platform_step_cases using poll_step_ok dispatch_step_ok close_step_ok by blast

lemma platform_ok_start: "platform_ok (threads_started power_on)"
  by (simp add: platform_ok_def threads_started_def power_on_def ring_ok_def)

lemma execution_ok: "execution s tr t \<Longrightarrow> platform_ok s \<Longrightarrow> platform_ok t"
  by (induction rule: execution.induct) (auto intro: platform_step_ok)

lemma settled_ok: "platform_ok s \<Longrightarrow> ring_ok (settled s)"
  by (simp add: platform_ok_def settled_def ring_ok_update_empty)


section \<open>First in, first out\<close>

lemma queue_nonempty: "ring_ok q \<Longrightarrow> \<not> m_queue_empty q \<Longrightarrow> queued q \<noteq> []"
  by (metis length_0_conv length_queued queue_empty_iff)

lemma handing_nonempty:
  "platform_ok s \<Longrightarrow> dispatching s \<in> {D_Call, D_Called, D_Relocked} \<Longrightarrow> queued (queue s) \<noteq> []"
  using queue_nonempty [of "queue s"] by (auto simp: platform_ok_def)

text \<open>Each step hands out and stores as its event says.\<close>

lemma poll_step_fifo:
  "poll_step e s t \<Longrightarrow> platform_ok s \<Longrightarrow> undispatched t = undispatched s @ pushed [e] \<and> handed [e] = []"
proof (induction rule: poll_step.induct)
  case (p_indication s n ind)
  then have d: "dispatching s \<noteq> D_Relocked" "dispatching s \<noteq> D_Advanced" and ok: "ring_ok (queue s)"
    by (auto simp: platform_ok_def)
  have ne: "queued (queue s) \<noteq> []" if "dispatching s = D_Called"
    using that p_indication handing_nonempty by simp
  show ?case
    using d ne push_queued [OF ok, of ind] by (auto simp: undispatched_def settled_def)
qed (auto simp: undispatched_def settled_def)

lemma dispatch_step_fifo:
  "dispatch_step e s t \<Longrightarrow> platform_ok s \<Longrightarrow> undispatched s = handed [e] @ undispatched t \<and> pushed [e] = []"
proof (induction rule: dispatch_step.induct)
  case (d_call s)
  then have "ring_ok (queue s)" and "queued (queue s) \<noteq> []"
    using handing_nonempty [of s] by (auto simp: platform_ok_def)
  then show ?case
    using d_call oldest_queued by (auto simp: undispatched_def settled_def)
next
  case (d_advance s)
  then have "ring_ok (queue s)" and "queued (queue s) \<noteq> []"
    using handing_nonempty [of s] by (auto simp: platform_ok_def)
  then show ?case
    using d_advance remove_queued by (auto simp: undispatched_def settled_def remove_oldest_def)
qed (auto simp: undispatched_def settled_def platform_ok_def)

lemma close_step_fifo:
  "close_step e s t \<Longrightarrow> platform_ok s \<Longrightarrow> undispatched t = undispatched s \<and> pushed [e] = [] \<and> handed [e] = []"
  by (induction rule: close_step.induct) (auto simp: undispatched_def settled_def threads_started_def platform_ok_def)

lemma platform_step_fifo:
  "platform_step e s t \<Longrightarrow> platform_ok s \<Longrightarrow> handed [e] @ undispatched t = undispatched s @ pushed [e]"
  unfolding platform_step_cases using poll_step_fifo dispatch_step_fifo close_step_fifo by fastforce

lemma execution_fifo:
  "execution s tr t \<Longrightarrow> platform_ok s \<Longrightarrow> handed tr @ undispatched t = undispatched s @ pushed tr"
proof (induction rule: execution.induct)
  case (execution_snoc s tr t e u)
  then have "platform_ok t" by (auto intro: execution_ok)
  with execution_snoc show ?case using platform_step_fifo by fastforce
qed simp

lemma nothing_waits_at_start: "undispatched (threads_started power_on) = []"
  by (simp add: undispatched_def settled_def threads_started_def power_on_def queued_def queue_length_def)

text \<open>C14: First in, first out, with no loss and no duplication after storing. Whatever the scheduling
  of the polling thread, the dispatching thread and a closing thread, and across closing and
  opening again, the indications handed to the handlers so far, followed by those that still wait
  in the queue, are exactly the indications stored so far, in their order; in particular the slot
  being handled is not overwritten while its handler runs.\<close>

theorem dispatched_in_order:
  assumes "platform_run tr s"
  shows "pushed tr = handed tr @ undispatched s"
  using execution_fifo [OF assms platform_ok_start] nothing_waits_at_start by simp

text \<open>C16: A close that returns has lost nothing. Once the closing thread has joined the polling thread,
  the queue is empty and every stored indication has been handled.\<close>

theorem close_drains:
  assumes "platform_run tr s" "closing s \<in> {C_Joined, C_Join_dispatch, C_Closed}"
  shows "m_queue_empty (queue s) \<and> handed tr = pushed tr"
proof -
  have ok: "platform_ok s" using assms(1) platform_ok_start by (rule execution_ok)
  then have e: "m_queue_empty (queue s)" and d: "dispatching s \<notin> {D_Call, D_Called, D_Relocked, D_Advanced}"
    using assms(2) by (auto simp: platform_ok_def)
  then have "undispatched s = []"
    by (auto simp: undispatched_def settled_def queued_def queue_length_def)
  then show ?thesis
    using e execution_fifo [OF assms(1) platform_ok_start] nothing_waits_at_start by simp
qed


section \<open>The free room\<close>

text \<open>
  The polling thread reads the index of the dispatching thread twice, without the lock. The
  computation is torn when the reader wrapped around between the two readings while it was behind
  the writer: the subtraction is then negative, and as an unsigned number huge.
\<close>

fun torn :: "event \<Rightarrow> bool" where
  "torn (Room w r4 r5) \<longleftrightarrow> w \<le> r4 \<and> r5 < w"
| "torn _ \<longleftrightarrow> False"

fun dropped :: "event \<Rightarrow> bool" where
  "dropped (Dropped ind) = True"
| "dropped _ = False"

text \<open>What the polling thread knows of the settled queue at each point of its computation.\<close>

fun room_ok :: "polling_pc \<Rightarrow> ring \<Rightarrow> bool" where
  "room_ok P_Empty_flag q \<longleftrightarrow> queue_length q < 60"
| "room_ok P_Compare q \<longleftrightarrow> queue_length q < 60"
| "room_ok (P_Subtract r) q \<longleftrightarrow> queue_length q < 60
     \<and> (r < m_ind_queue_write q \<longrightarrow> m_ind_queue_read q \<le> m_ind_queue_write q
          \<and> (m_ind_queue_read q = m_ind_queue_write q \<longrightarrow> queue_length q = 0))"
| "room_ok (P_Limit room) q \<longleftrightarrow> queue_length q < 60 \<and> min 30 (unat room) + queue_length q \<le> 60"
| "room_ok (P_Poll n) q \<longleftrightarrow> n + queue_length q \<le> 60"
| "room_ok _ q \<longleftrightarrow> True"

lemma settled_indices [simp]:
  "m_ind_queue_read (settled s) = m_ind_queue_read (queue s)"
  "m_ind_queue_write (settled s) = m_ind_queue_write (queue s)"
  by (simp_all add: settled_def update_empty_def)

lemma settled_update [simp]:
  "settled (s\<lparr>polling := p\<rparr>) = settled s" "settled (s\<lparr>wait_before_next_polling_ms := m\<rparr>) = settled s"
  "settled (s\<lparr>m_polling_thread_state_request := x\<rparr>) = settled s" "settled (s\<lparr>closing := c\<rparr>) = settled s"
  "settled (s\<lparr>closer := x'\<rparr>) = settled s"
  "settled (s\<lparr>m_dispatch_thread_running := b\<rparr>) = settled s" "settled (s\<lparr>m_queue_mutex := y\<rparr>) = settled s"
  by (simp_all add: settled_def)

lemma dispatch_step_settled:
  "dispatch_step e s t \<Longrightarrow> platform_ok s \<Longrightarrow> polling t = polling s
     \<and> (settled t = settled s
        \<or> queued (settled s) \<noteq> [] \<and> settled t = remove_oldest (settled s))"
proof (induction rule: dispatch_step.induct)
  case (d_advance s)
  then show ?case using handing_nonempty [of s] by (simp add: settled_def remove_oldest_def)
qed (auto simp: settled_def)

lemma room_ok_remove:
  assumes "room_ok p q" "ring_ok q" "queued q \<noteq> []"
  shows "room_ok p (remove_oldest q)"
proof -
  note n = remove_queue_length(2) [OF assms(2,3)]
  have w: "m_ind_queue_write (remove_oldest q) = m_ind_queue_write q"
    "m_ind_queue_read (remove_oldest q) = next_index (m_ind_queue_read q)"
    by (simp_all add: remove_oldest_def update_empty_def advance_read_def)
  have ne: "queue_length q \<noteq> 0" using assms(3) by (metis length_0_conv length_queued)
  show ?thesis
  proof (cases p)
    case (P_Subtract r)
    have i: "unat (m_ind_queue_read q) < 60" "unat (m_ind_queue_write q) < 60"
      using assms(2) by (simp_all add: ring_ok_def)
    have "next_index (m_ind_queue_read q) \<le> m_ind_queue_write q
        \<and> (next_index (m_ind_queue_read q) = m_ind_queue_write q \<longrightarrow> queue_length (remove_oldest q) = 0)"
      if "r < m_ind_queue_write q"
    proof -
      have "unat (m_ind_queue_read q) < unat (m_ind_queue_write q)"
        using that assms(1) P_Subtract ne by (auto simp: word_le_nat_alt word_unat_eq_iff)
      then show ?thesis
        using i by (auto simp: word_le_nat_alt word_unat_eq_iff unat_next_index remove_oldest_def
            update_empty_def advance_read_def queue_length_def)
    qed
    then show ?thesis using assms(1) P_Subtract n w by auto
  qed (use assms(1) n in auto)
qed

lemma min_room: "unat (min (30 :: u32) room) = min 30 (unat room)"
  by (simp add: min_def word_le_nat_alt)

lemma room_computed:
  assumes "room_ok (P_Subtract r) q" "ring_ok q" "\<not> torn (Room (m_ind_queue_write q) r (m_ind_queue_read q))"
  shows "room_ok (P_Limit (free_buffer_room (m_ind_queue_write q) r (m_ind_queue_read q))) q"
proof -
  let ?w = "m_ind_queue_write q" and ?r = "m_ind_queue_read q"
  have i: "unat ?r < 60" "unat ?w < 60" "m_queue_empty q \<longrightarrow> ?w = ?r"
    using assms(2) by (simp_all add: ring_ok_def)
  show ?thesis
  proof (cases "r < ?w")
    case True
    with assms(1) have le: "?r \<le> ?w" and z: "?r = ?w \<longrightarrow> queue_length q = 0" by simp_all
    have "unat (60 - (?w - ?r)) = 60 - (unat ?w - unat ?r)"
      using le i by (simp add: unat_sub word_le_nat_alt)
    moreover have "?r \<noteq> ?w \<Longrightarrow> queue_length q = unat ?w - unat ?r"
      using le i by (auto simp: queue_length_def word_le_nat_alt word_unat_eq_iff mod_if)
    ultimately show ?thesis
      using True z assms(1) by (cases "?r = ?w") (auto simp: free_buffer_room_def min_def)
  next
    case False
    then have le: "?w \<le> ?r" using assms(3) by (auto simp: not_less)
    have "unat (?r - ?w) = unat ?r - unat ?w" using le by (rule unat_sub)
    moreover have "?r \<noteq> ?w \<Longrightarrow> queue_length q = unat ?w + 60 - unat ?r"
      using le i by (auto simp: queue_length_def word_le_nat_alt word_unat_eq_iff mod_if)
    ultimately show ?thesis
      using False assms(1) i by (cases "?r = ?w") (auto simp: free_buffer_room_def min_def word_le_nat_alt)
  qed
qed

lemma settled_length:
  assumes "platform_ok s"
  shows "m_queue_empty (queue s) \<Longrightarrow> queue_length (settled s) = 0"
    and "m_ind_queue_write (queue s) \<noteq> m_ind_queue_read (queue s) \<Longrightarrow> queue_length (settled s) < 60"
proof -
  show "m_queue_empty (queue s) \<Longrightarrow> queue_length (settled s) = 0"
    by (simp add: settled_def queue_length_def)
  have "(n::nat) mod 60 < 60" for n by simp
  then show "m_ind_queue_write (queue s) \<noteq> m_ind_queue_read (queue s) \<Longrightarrow> queue_length (settled s) < 60"
    by (simp add: queue_length_def)
qed

lemma poll_step_room:
  "poll_step e s t \<Longrightarrow> platform_ok s \<Longrightarrow> room_ok (polling s) (settled s) \<Longrightarrow> \<not> torn e \<Longrightarrow>
     room_ok (polling t) (settled t) \<and> \<not> dropped e"
proof (induction rule: poll_step.induct)
  case (p_subtract s r)
  then show ?case using room_computed [of r "settled s"] settled_ok by simp
next
  case (p_indication s n ind)
  then have d: "dispatching s \<noteq> D_Advanced" and ok: "ring_ok (queue s)"
    by (auto simp: platform_ok_def)
  then have "Suc n + queue_length (queue s) \<le> 60" using p_indication by (simp add: settled_def)
  then have "\<not> looks_full (queue s)" using looks_full_iff [OF ok] by simp
  with d show ?case
    using p_indication push_queue_length(1) [OF ok] by (simp add: settled_def)
qed (auto simp: settled_length min_room not_less split: if_splits)

lemma close_step_room:
  "close_step e s t \<Longrightarrow> platform_ok s \<Longrightarrow> room_ok (polling s) (settled s) \<Longrightarrow>
     room_ok (polling t) (settled t) \<and> \<not> dropped e"
  by (induction rule: close_step.induct) (auto simp: threads_started_def)

lemma platform_step_room:
  assumes "platform_step e s t" "platform_ok s" "room_ok (polling s) (settled s)" "\<not> torn e"
  shows "room_ok (polling t) (settled t) \<and> \<not> dropped e"
  using assms(1) unfolding platform_step_cases
proof (elim disjE)
  assume d: "dispatch_step e s t"
  then have "\<not> dropped e" by (cases rule: dispatch_step.cases) simp_all
  moreover have "room_ok (polling t) (settled t)"
    using dispatch_step_settled [OF d assms(2)] room_ok_remove [OF assms(3) settled_ok [OF assms(2)]]
      assms(3) by auto
  ultimately show ?thesis by simp
qed (use assms poll_step_room close_step_room in blast)+

lemma execution_room:
  "execution s tr t \<Longrightarrow> platform_ok s \<Longrightarrow> room_ok (polling s) (settled s) \<Longrightarrow> \<forall>e \<in> set tr. \<not> torn e \<Longrightarrow>
     room_ok (polling t) (settled t) \<and> (\<forall>e \<in> set tr. \<not> dropped e)"
proof (induction rule: execution.induct)
  case (execution_snoc s tr t e u)
  then have "platform_ok t" by (auto intro: execution_ok)
  with execution_snoc show ?case using platform_step_room [of e t u] by auto
qed simp

text \<open>C15: "Must never happen!" holds up to one race. An indication is lost for want of room only after
  the reader's index wrapped around between the two readings of one computation of the free room.\<close>

theorem no_room_only_after_torn_reading:
  assumes "platform_run tr s" "Dropped ind \<in> set tr"
  shows "\<exists>w r4 r5. Room w r4 r5 \<in> set tr \<and> w \<le> r4 \<and> r5 < w"
proof (rule ccontr)
  assume no: "\<not> ?thesis"
  have "\<not> torn e" if "e \<in> set tr" for e
    using no that by (cases e) auto
  moreover have "room_ok (polling (threads_started power_on)) (settled (threads_started power_on))"
    by (simp add: threads_started_def)
  ultimately show False
    using execution_room [OF assms(1) platform_ok_start] assms(2) by force
qed


section \<open>Scheduled executions\<close>

text \<open>Some executions, put together from rounds of one thread while the others stand still.\<close>

lemma execution_append: "execution t tr' u \<Longrightarrow> execution s tr t \<Longrightarrow> execution s (tr @ tr') u"
proof (induction rule: execution.induct)
  case (execution_snoc t tr' u e v)
  then have "execution s ((tr @ tr') @ [e]) v" by (intro execution.execution_snoc)
  then show ?case by simp
qed simp

lemma execution_trans [trans]: "execution s tr t \<Longrightarrow> execution t tr' u \<Longrightarrow> execution s (tr @ tr') u"
  by (rule execution_append)

lemma execution_step: "platform_step e s t \<Longrightarrow> t = t' \<Longrightarrow> execution s [e] t'"
  using execution_snoc [OF execution_Nil, of e s t] by simp

lemma execution_Cons: "execution s [e] t \<Longrightarrow> execution t tr u \<Longrightarrow> execution s (e # tr) u"
  using execution_append [of t tr u s "[e]"] by simp

text \<open>A running platform: nobody asked for a stop, the queue mutex is free.\<close>

definition running_at :: "nat \<Rightarrow> ring \<Rightarrow> polling_pc \<Rightarrow> dispatch_pc \<Rightarrow> platform" where
  "running_at ms q p d = \<lparr>queue = q, m_queue_mutex = None,
     m_polling_thread_state_request = POLLING_THREAD_RUN, m_dispatch_thread_running = True,
     wait_before_next_polling_ms = ms, polling = p, dispatching = d, closing = C_Open, closer = None\<rparr>"

lemmas by_polling = execution_step [OF polling_thread]
lemmas by_dispatching = execution_step [OF dispatching_thread]

lemma to_full_test:
  "execution (running_at ms q P_Loop d) [Quiet, Quiet, Quiet] (running_at ms q P_Full_flag d)"
proof -
  have "execution (running_at ms q P_Loop d) [Quiet] (running_at ms q P_Sleep d)"
    by (rule by_polling [OF p_loop]) (simp_all add: running_at_def)
  also have "execution (running_at ms q P_Sleep d) [Quiet] (running_at ms q P_Stop_requested d)"
    by (rule by_polling [OF p_sleep]) (simp_all add: running_at_def)
  also have "execution (running_at ms q P_Stop_requested d) [Quiet] (running_at ms q P_Full_flag d)"
    by (rule by_polling [OF p_stop_requested]) (simp_all add: running_at_def)
  finally show ?thesis by simp
qed

lemma to_subtraction:
  assumes "\<not> m_queue_empty q" "m_ind_queue_write q \<noteq> m_ind_queue_read q"
  shows "execution (running_at ms q P_Full_flag d) [Quiet, Quiet, Quiet, Quiet]
    (running_at ms q (P_Subtract (m_ind_queue_read q)) d)"
proof -
  have "execution (running_at ms q P_Full_flag d) [Quiet] (running_at ms q P_Full_index d)"
    by (rule by_polling [OF p_full_flag]) (simp_all add: running_at_def assms)
  also have "execution (running_at ms q P_Full_index d) [Quiet] (running_at ms q P_Empty_flag d)"
    by (rule by_polling [OF p_queue_not_full]) (simp_all add: running_at_def assms)
  also have "execution (running_at ms q P_Empty_flag d) [Quiet] (running_at ms q P_Compare d)"
    by (rule by_polling [OF p_empty_flag]) (simp_all add: running_at_def assms)
  also have "execution (running_at ms q P_Compare d) [Quiet] (running_at ms q (P_Subtract (m_ind_queue_read q)) d)"
    by (rule by_polling [OF p_compare]) (simp_all add: running_at_def)
  finally show ?thesis by simp
qed

lemma to_poll:
  "execution (running_at ms q (P_Limit room) d) [Quiet] (running_at ms q (P_Poll (min 30 (unat room))) d)"
  by (rule by_polling [OF p_limit]) (simp_all add: running_at_def min_room)

lemma subtraction:
  "execution (running_at ms q (P_Subtract r) d) [Room (m_ind_queue_write q) r (m_ind_queue_read q)]
    (running_at ms q (P_Limit (free_buffer_room (m_ind_queue_write q) r (m_ind_queue_read q))) d)"
  using execution_step [OF polling_thread [OF p_subtract [of "running_at ms q (P_Subtract r) d" r]]]
  by (simp add: running_at_def)

lemma room_when_empty:
  assumes "m_queue_empty q"
  shows "execution (running_at ms q P_Full_flag d) [Quiet, Quiet, Quiet] (running_at ms q (P_Poll 30) d)"
proof -
  have "execution (running_at ms q P_Full_flag d) [Quiet] (running_at ms q P_Empty_flag d)"
    by (rule by_polling [OF p_full_flag]) (simp_all add: running_at_def assms)
  also have "execution (running_at ms q P_Empty_flag d) [Quiet] (running_at ms q (P_Limit 60) d)"
    by (rule by_polling [OF p_empty_flag]) (simp_all add: running_at_def assms)
  also note to_poll [of ms q 60 d]
  finally show ?thesis by simp
qed

lemma back_to_loop:
  "execution (running_at ms q (P_Poll n) d) [Quiet, Quiet] (running_at 1 q P_Loop d)"
proof -
  have "execution (running_at ms q (P_Poll n) d) [Quiet] (running_at ms q P_Pending d)"
    by (rule by_polling [OF p_polled]) (simp_all add: running_at_def)
  also have "execution (running_at ms q P_Pending d) [Quiet] (running_at 1 q P_Loop d)"
    by (rule by_polling [OF p_pending [where get_ind_res = 1]]) (simp_all add: running_at_def)
  finally show ?thesis by simp
qed

lemma store_all:
  assumes "ring_ok q" "queue_length q + length xs \<le> 60" "length xs \<le> n"
  shows "execution (running_at ms q (P_Poll n) d) (map Pushed xs)
    (running_at ms (fold onIndicationReceivedLocked xs q) (P_Poll (n - length xs)) d)"
  using assms
proof (induction xs arbitrary: q n)
  case Nil
  then show ?case by (simp add: execution_Nil)
next
  case (Cons x xs)
  then obtain m where n: "n = Suc m" by (cases n) simp_all
  have f: "\<not> looks_full q" using Cons.prems looks_full_iff by auto
  have "execution (running_at ms q (P_Poll n) d) [Pushed x]
      (running_at ms (onIndicationReceivedLocked x q) (P_Poll m) d)"
    using execution_step [OF polling_thread [OF p_indication [of "running_at ms q (P_Poll n) d" m x]]] f n
    by (simp add: running_at_def)
  moreover have "execution (running_at ms (onIndicationReceivedLocked x q) (P_Poll m) d) (map Pushed xs)
      (running_at ms (fold onIndicationReceivedLocked xs (onIndicationReceivedLocked x q)) (P_Poll (m - length xs)) d)"
    using Cons.prems n push_queue_length [OF Cons.prems(1) f] by (intro Cons.IH) auto
  ultimately show ?case by (simp add: n execution_Cons)
qed

lemma dispatch_one:
  assumes "ring_ok q" "1 < queue_length q"
  shows "execution (running_at ms q p D_Call) [Dispatched (oldest_indication q), Quiet, Quiet, Quiet, Quiet]
    (running_at ms (remove_oldest q) p D_Call)"
proof -
  have "queued q \<noteq> []" using assms(2) by (metis length_queued list.size(3) not_less_zero)
  then have ne: "\<not> m_queue_empty (remove_oldest q)"
    using assms remove_queue_length [OF assms(1)] by (simp add: queue_empty_iff)
  let ?s = "running_at ms q p D_Called"
  have "execution (running_at ms q p D_Call) [Dispatched (oldest_indication q)] ?s"
    using execution_step [OF dispatching_thread [OF d_call [of "running_at ms q p D_Call"]]]
    by (simp add: running_at_def)
  also have "execution ?s [Quiet] (?s\<lparr>m_queue_mutex := Some Dispatching, dispatching := D_Relocked\<rparr>)"
    by (rule by_dispatching [OF d_relock]) (simp_all add: running_at_def)
  also have "execution (?s\<lparr>m_queue_mutex := Some Dispatching, dispatching := D_Relocked\<rparr>) [Quiet]
      (?s\<lparr>m_queue_mutex := Some Dispatching, queue := advance_read q, dispatching := D_Advanced\<rparr>)"
    by (rule by_dispatching [OF d_advance]) (simp_all add: running_at_def)
  also have "execution (?s\<lparr>m_queue_mutex := Some Dispatching, queue := advance_read q, dispatching := D_Advanced\<rparr>)
      [Quiet] (?s\<lparr>m_queue_mutex := Some Dispatching, queue := remove_oldest q, dispatching := D_Loop\<rparr>)"
    by (rule by_dispatching [OF d_empty]) (simp_all add: running_at_def remove_oldest_def)
  also have "execution (?s\<lparr>m_queue_mutex := Some Dispatching, queue := remove_oldest q, dispatching := D_Loop\<rparr>)
      [Quiet] (running_at ms (remove_oldest q) p D_Call)"
    by (rule by_dispatching [OF d_take]) (simp_all add: running_at_def ne)
  finally show ?thesis by simp
qed

lemma queued_Nil: "queued q = [] \<longleftrightarrow> queue_length q = 0"
  using length_queued [of q] by (metis length_0_conv)

lemma remove_oldest_fields [simp]:
  "m_ind_queue_write (remove_oldest q) = m_ind_queue_write q"
  "m_ind_queue_read (remove_oldest q) = next_index (m_ind_queue_read q)"
  by (simp_all add: remove_oldest_def update_empty_def advance_read_def)

lemma shape_remove:
  assumes "ring_ok q" "n < queue_length q"
  shows "ring_ok ((remove_oldest ^^ n) q) \<and> queue_length ((remove_oldest ^^ n) q) = queue_length q - n
     \<and> unat (m_ind_queue_read ((remove_oldest ^^ n) q)) = (unat (m_ind_queue_read q) + n) mod 60
     \<and> m_ind_queue_write ((remove_oldest ^^ n) q) = m_ind_queue_write q"
  using assms(2)
proof (induction n)
  case 0
  then show ?case using assms(1) by (simp add: ring_ok_def)
next
  case (Suc n)
  let ?q = "(remove_oldest ^^ n) q"
  have ih: "ring_ok ?q" "queue_length ?q = queue_length q - n"
    "unat (m_ind_queue_read ?q) = (unat (m_ind_queue_read q) + n) mod 60"
    "m_ind_queue_write ?q = m_ind_queue_write q" using Suc by simp_all
  have ne: "queued ?q \<noteq> []" using ih(2) Suc.prems by (simp add: queued_Nil)
  have "unat (m_ind_queue_read ?q) < 60" using ih(1) by (simp add: ring_ok_def)
  then show ?case
    using remove_queue_length [OF ih(1) ne] ih by (simp add: unat_next_index mod_simps)
qed

lemma fold_push_read: "m_ind_queue_read (fold onIndicationReceivedLocked xs q) = m_ind_queue_read q"
  by (induction xs arbitrary: q) (simp_all add: onIndicationReceivedLocked_def)

lemma shape_push:
  assumes "ring_ok q" "queue_length q + length xs \<le> 60"
  shows "ring_ok (fold onIndicationReceivedLocked xs q)
     \<and> queue_length (fold onIndicationReceivedLocked xs q) = queue_length q + length xs"
proof -
  have "queued (fold onIndicationReceivedLocked xs q) = queued q @ xs"
    using ring.push_all [OF assms(1), of xs] assms(2) by simp
  then show ?thesis
    using ring.push_all [OF assms(1), of xs] by (metis length_append length_queued)
qed

text \<open>The shape of a queue: the index of its oldest entry and its length.\<close>

definition shape :: "nat \<Rightarrow> nat \<Rightarrow> ring \<Rightarrow> bool" where
  "shape r n q \<longleftrightarrow> ring_ok q \<and> unat (m_ind_queue_read q) = r \<and> queue_length q = n"

definition leads :: "platform \<Rightarrow> platform \<Rightarrow> bool" where
  "leads s t \<longleftrightarrow> (\<exists>tr. execution s tr t)"

lemma leads_trans [trans]: "leads s t \<Longrightarrow> leads t u \<Longrightarrow> leads s u"
  unfolding leads_def by (blast intro: execution_trans)

lemma leadsI: "execution s tr t \<Longrightarrow> leads s t"
  unfolding leads_def by blast

lemma dispatch_round:
  assumes "shape r n q" "k < n"
  shows "\<exists>q'. shape ((r + k) mod 60) (n - k) q' \<and> leads (running_at ms q p D_Call) (running_at ms q' p D_Call)"
proof -
  have "leads (running_at ms q p D_Call) (running_at ms ((remove_oldest ^^ j) q) p D_Call)" if "j \<le> k" for j
    using that
  proof (induction j)
    case 0
    then show ?case by (auto intro: leadsI execution_Nil)
  next
    case (Suc j)
    have "leads (running_at ms ((remove_oldest ^^ j) q) p D_Call) (running_at ms ((remove_oldest ^^ Suc j) q) p D_Call)"
      using shape_remove [of q j] assms Suc.prems by (auto simp: shape_def intro!: leadsI dispatch_one)
    with Suc show ?case by (auto intro: leads_trans)
  qed
  then show ?thesis
    using shape_remove [of q k] assms
    by (intro exI [of _ "(remove_oldest ^^ k) q"]) (auto simp: shape_def)
qed

text \<open>A round of the polling thread that nothing interrupts stores as many indications as it asks for.\<close>

lemma room_at_rest:
  assumes "shape r n q" "n < 60" "m_ind_queue_write q \<noteq> m_ind_queue_read q"
  shows "min 30 (60 - n) \<le> unat (free_buffer_room (m_ind_queue_write q) (m_ind_queue_read q) (m_ind_queue_read q))"
proof -
  let ?w = "m_ind_queue_write q" and ?r = "m_ind_queue_read q"
  have i: "unat ?r < 60" "unat ?w < 60" using assms(1) by (simp_all add: shape_def ring_ok_def)
  have n: "n = (unat ?w + 60 - unat ?r) mod 60"
    using assms by (auto simp: shape_def queue_length_def ring_ok_def)
  show ?thesis
  proof (cases "?r < ?w")
    case True
    then have "unat (60 - (?w - ?r)) = 60 - (unat ?w - unat ?r)"
      using i by (simp add: unat_sub word_le_nat_alt word_less_nat_alt)
    moreover have e: "unat ?w + 60 - unat ?r = (unat ?w - unat ?r) + 60"
      using True by (simp add: word_less_nat_alt)
    have "n = unat ?w - unat ?r" unfolding n e using i by simp
    ultimately show ?thesis using True i by (simp add: free_buffer_room_def)
  next
    case False
    then have "unat (?r - ?w) = unat ?r - unat ?w" by (intro unat_sub) (simp add: not_less)
    moreover have "unat ?w < unat ?r"
      using False assms(3) by (auto simp: word_less_nat_alt word_unat_eq_iff)
    then have "n = unat ?w + 60 - unat ?r" using i n by simp
    ultimately show ?thesis using False i by (simp add: free_buffer_room_def)
  qed
qed

lemma poll_round:
  assumes "shape r n q" "length xs \<le> min 30 (60 - n)" "n < 60"
  shows "\<exists>q'. shape r (n + length (xs :: timestamped_frame list)) q' \<and> leads (running_at ms q P_Loop d) (running_at 1 q' P_Loop d)"
proof -
  let ?q = "fold onIndicationReceivedLocked xs q"
  have ok: "ring_ok q" using assms(1) by (simp add: shape_def)
  have fits: "queue_length q + length xs \<le> 60" using assms by (auto simp: shape_def)
  have "\<exists>k. length xs \<le> k \<and> leads (running_at ms q P_Full_flag d) (running_at ms q (P_Poll k) d)"
  proof (cases "m_queue_empty q")
    case True
    then show ?thesis using room_when_empty [of q ms d] assms(2) by (intro exI [of _ 30]) (auto intro: leadsI)
  next
    case False
    then have d: "m_ind_queue_write q \<noteq> m_ind_queue_read q"
      using assms looks_full_iff [OF ok] by (auto simp: shape_def looks_full_def)
    let ?k = "min 30 (unat (free_buffer_room (m_ind_queue_write q) (m_ind_queue_read q) (m_ind_queue_read q)))"
    note to_subtraction [OF False d] also note subtraction also note to_poll
    finally have "leads (running_at ms q P_Full_flag d) (running_at ms q (P_Poll ?k) d)"
      by (rule leadsI)
    moreover have "length xs \<le> ?k" using room_at_rest [OF assms(1,3) d] assms(2) by linarith
    ultimately show ?thesis by blast
  qed
  then obtain k where k: "length xs \<le> k"
    and to: "leads (running_at ms q P_Full_flag d) (running_at ms q (P_Poll k) d)" by blast
  note leadsI [OF to_full_test [of ms q d]] also note to
  also have "leads (running_at ms q (P_Poll k) d) (running_at ms ?q (P_Poll (k - length xs)) d)"
    using store_all [OF ok fits k, of ms d] by (rule leadsI)
  also note leadsI [OF back_to_loop]
  finally show ?thesis
    using shape_push [OF ok, of xs] assms
    by (intro exI [of _ ?q]) (auto simp: shape_def fold_push_read)
qed


lemma dispatching_starts:
  assumes "ring_ok q" "\<not> m_queue_empty q"
  shows "execution (running_at ms q p D_Waiting) [Quiet, Quiet] (running_at ms q p D_Call)"
proof -
  let ?s = "running_at ms q p D_Waiting"
  have "execution ?s [Quiet] (?s\<lparr>m_queue_mutex := Some Dispatching, dispatching := D_Woken\<rparr>)"
    by (rule by_dispatching [OF d_wake]) (simp_all add: running_at_def)
  also have "execution (?s\<lparr>m_queue_mutex := Some Dispatching, dispatching := D_Woken\<rparr>) [Quiet]
      (running_at ms q p D_Call)"
    by (rule by_dispatching [OF d_take_woken]) (simp_all add: running_at_def assms)
  finally show ?thesis by simp
qed

lemma both_started:
  "execution (threads_started power_on) [Quiet, Quiet, Quiet] (running_at 500 (queue power_on) P_Loop D_Waiting)"
proof -
  let ?s = "threads_started power_on"
  let ?t = "?s\<lparr>m_polling_thread_state_request := POLLING_THREAD_RUN,
      wait_before_next_polling_ms := 500, polling := P_Loop\<rparr>"
  have "execution ?s [Quiet] ?t"
    by (rule by_polling [OF p_start]) (simp_all add: threads_started_def)
  also have "execution ?t [Quiet] (?t\<lparr>m_queue_mutex := Some Dispatching, dispatching := D_Loop\<rparr>)"
    by (rule by_dispatching [OF d_lock]) (simp_all add: threads_started_def)
  also have "execution (?t\<lparr>m_queue_mutex := Some Dispatching, dispatching := D_Loop\<rparr>) [Quiet]
      (running_at 500 (queue power_on) P_Loop D_Waiting)"
    by (rule by_dispatching [OF d_wait]) (simp_all add: threads_started_def power_on_def running_at_def)
  finally show ?thesis by simp
qed

text \<open>The race. The queue is filled, the reader reaches the last slot with 51 entries behind the
  writer; it moves on to slot 0 between the two readings. The node is then asked for 30 indications
  although only 10 fit.\<close>

lemma torn_room: "free_buffer_room 50 59 0 = -50"
  by (simp add: free_buffer_room_def)

lemma race:
  "\<exists>tr s. platform_run tr s \<and> Dropped ind \<in> set tr"
proof -
  have q0: "shape 0 0 (queue power_on)"
    by (simp add: shape_def power_on_def ring_ok_def queue_length_def)
  let ?b = "\<lambda>n. replicate n ind"
  obtain q1 where q1: "shape 0 30 q1" and
    l1: "leads (running_at 500 (queue power_on) P_Loop D_Waiting) (running_at 1 q1 P_Loop D_Waiting)"
    using poll_round [OF q0, of "?b 30" 500 D_Waiting] by auto
  have l2: "leads (running_at 1 q1 P_Loop D_Waiting) (running_at 1 q1 P_Loop D_Call)"
    using q1 by (intro leadsI [OF dispatching_starts]) (auto simp: shape_def queue_empty_iff)
  obtain q2 where q2: "shape 0 60 q2" and
    l3: "leads (running_at 1 q1 P_Loop D_Call) (running_at 1 q2 P_Loop D_Call)"
    using poll_round [OF q1, of "?b 30" 1 D_Call] by auto
  obtain q3 where q3: "shape 50 10 q3" and
    l4: "leads (running_at 1 q2 P_Loop D_Call) (running_at 1 q3 P_Loop D_Call)"
    using dispatch_round [OF q2, of 50 1 P_Loop] by auto
  obtain q4 where q4: "shape 50 40 q4" and
    l5: "leads (running_at 1 q3 P_Loop D_Call) (running_at 1 q4 P_Loop D_Call)"
    using poll_round [OF q3, of "?b 30" 1 D_Call] by auto
  obtain q5 where q5: "shape 50 60 q5" and
    l6: "leads (running_at 1 q4 P_Loop D_Call) (running_at 1 q5 P_Loop D_Call)"
    using poll_round [OF q4, of "?b 20" 1 D_Call] by auto
  obtain q6 where q6: "shape 59 51 q6" and
    l7: "leads (running_at 1 q5 P_Loop D_Call) (running_at 1 q6 P_Loop D_Call)"
    using dispatch_round [OF q5, of 9 1 P_Loop] by auto
  have ok6: "ring_ok q6" "queue_length q6 = 51" and r6: "m_ind_queue_read q6 = 59"
    using q6 by (auto simp: shape_def word_unat_eq_iff)
  have w6: "m_ind_queue_write q6 = 50"
    using queue_length_write [OF ok6(1)] ok6(2) r6 by (simp add: word_unat_eq_iff)
  let ?q = "remove_oldest q6"
  have q7: "ring_ok ?q" "queue_length ?q = 50" "m_ind_queue_read ?q = 0" "m_ind_queue_write ?q = 50"
    using shape_remove [OF ok6(1), of 1] ok6 r6 w6 by (simp_all add: next_index_def)
  have l8: "leads (running_at 1 q6 P_Loop D_Call) (running_at 1 q6 (P_Subtract 59) D_Call)"
    using leads_trans [OF leadsI [OF to_full_test] leadsI [OF to_subtraction [of q6]]] r6 w6 ok6
    by (simp add: queue_empty_iff)
  have l9: "leads (running_at 1 q6 (P_Subtract 59) D_Call) (running_at 1 ?q (P_Subtract 59) D_Call)"
    using dispatch_one [OF ok6(1)] ok6 by (auto intro: leadsI)
  have l10: "leads (running_at 1 ?q (P_Subtract 59) D_Call) (running_at 1 ?q (P_Poll 30) D_Call)"
    using leads_trans [OF leadsI [OF subtraction [of 1 ?q 59 D_Call]] leadsI [OF to_poll]]
    unfolding q7 torn_room by simp
  let ?q' = "fold onIndicationReceivedLocked (?b 10) ?q"
  have l11: "leads (running_at 1 ?q (P_Poll 30) D_Call) (running_at 1 ?q' (P_Poll 20) D_Call)"
    using store_all [of ?q "?b 10" 30 1 D_Call] q7 by (auto intro: leadsI)
  note leadsI [OF both_started] also note l1 also note l2 also note l3 also note l4 also note l5 also note l6
  also note l7 also note l8 also note l9 also note l10 also note l11
  finally obtain tr where tr: "platform_run tr (running_at 1 ?q' (P_Poll 20) D_Call)"
    by (auto simp: leads_def)
  have "looks_full ?q'"
    using shape_push [OF q7(1), of "?b 10"] q7 by (simp add: looks_full_iff)
  then have "poll_step (Dropped ind) (running_at 1 ?q' (P_Poll 20) D_Call)
      ((running_at 1 ?q' (P_Poll 20) D_Call)\<lparr>queue := onIndicationReceivedLocked ind ?q', polling := P_Poll 19\<rparr>)"
    using p_indication [of "running_at 1 ?q' (P_Poll 20) D_Call" 19 ind] by (simp add: running_at_def)
  then show ?thesis
    using execution_snoc [OF tr polling_thread] by fastforce
qed


theorem no_room_only_after_torn_reading_witness:
  "\<exists>tr s ind w r4 r5. platform_run tr s \<and> Dropped ind \<in> set tr
     \<and> Room w r4 r5 \<in> set tr \<and> w \<le> r4 \<and> r5 < w"
proof -
  obtain tr s where "platform_run tr s" "Dropped \<lparr>tf_frame = [3], tf_timestamp_ms_epoch = 1\<rparr> \<in> set tr"
    using race by blast
  then show ?thesis using no_room_only_after_torn_reading by blast
qed

section \<open>Closing\<close>

text \<open>A start followed by a close that comes before the polling thread has run its first instruction.\<close>

definition on_watchdog :: "platform \<Rightarrow> bool" where
  "on_watchdog s \<longleftrightarrow> polling s \<in> {P_Close_dispatch, P_Join_dispatch, P_Process_exit}"

definition waits_forever :: "platform \<Rightarrow> bool" where
  "waits_forever s \<longleftrightarrow> closing s = C_Join_polling
     \<and> (polling s = P_Start \<and> m_polling_thread_state_request s = POLLING_THREAD_STOP_REQUESTED \<or> on_watchdog s
        \<or> m_polling_thread_state_request s = POLLING_THREAD_RUN \<and> polling s \<notin> {P_Start, P_Drain, P_Reassembly, P_Exited})"

lemma waits_forever_step: "platform_step e s t \<Longrightarrow> waits_forever s \<Longrightarrow> waits_forever t"
  unfolding platform_step_cases
  by (elim disjE; erule poll_step.cases dispatch_step.cases close_step.cases) (auto simp: waits_forever_def on_watchdog_def)

lemma waits_forever_execution: "execution s tr t \<Longrightarrow> waits_forever s \<Longrightarrow> waits_forever t"
  by (induction rule: execution.induct) (auto intro: waits_forever_step)

lemma close_in_callback_step:
  "platform_step e s t \<Longrightarrow> platform_ok s \<Longrightarrow> closer s = Some Dispatching
    \<Longrightarrow> closer t = Some Dispatching \<and> handed [e] = []"
  unfolding platform_step_cases
  by (elim disjE; erule poll_step.cases dispatch_step.cases close_step.cases) (auto simp: platform_ok_def)

lemma close_in_callback_execution:
  "execution s tr t \<Longrightarrow> platform_ok s \<Longrightarrow> closer s = Some Dispatching
    \<Longrightarrow> closer t = Some Dispatching \<and> handed tr = []"
  by (induction rule: execution.induct) (auto dest: close_in_callback_step intro: execution_ok)

text \<open>A close that comes before the first store of the polling thread.\<close>

definition early_close_pending :: "platform \<Rightarrow> bool" where
  "early_close_pending s \<longleftrightarrow> (polling s = P_Start \<longrightarrow>
     closing s = C_Open \<or> closing s = C_Join_polling \<and> m_polling_thread_state_request s = POLLING_THREAD_STOP_REQUESTED)"

lemma early_close_pending_step: "platform_step e s t \<Longrightarrow> early_close_pending s \<Longrightarrow> early_close_pending t"
  unfolding platform_step_cases
  by (elim disjE; erule poll_step.cases dispatch_step.cases close_step.cases)
    (auto simp: early_close_pending_def threads_started_def)

lemma early_close_pending_execution: "execution s tr t \<Longrightarrow> early_close_pending s \<Longrightarrow> early_close_pending t"
  by (induction rule: execution.induct) (auto intro: early_close_pending_step)

inductive_cases first_poll_stepE: "poll_step e s t"

lemma first_store: "poll_step e s t \<Longrightarrow> polling s = P_Start \<Longrightarrow> m_polling_thread_state_request t = POLLING_THREAD_RUN"
  by (erule first_poll_stepE) auto

text \<open>C21: A stop request can be lost. The polling thread starts by storing "run" into the variable that
  carries the request. So every close that has stored its request before this store waits for ever: in every
  reachable state in which the polling thread is still at its start and a close waits in its first
  join, the request is there and the next step of the polling thread overwrites it; and in every continuation
  the close is still in that join, the polling thread has not left its loop, and the request reads "run"
  from the store on, unless the watchdog ends the process.\<close>

theorem early_close_never_returns:
  assumes "platform_run tr s" "polling s = P_Start" "closing s = C_Join_polling" "execution s later t"
  shows "m_polling_thread_state_request s = POLLING_THREAD_STOP_REQUESTED
     \<and> (\<forall>e u. poll_step e s u \<longrightarrow> m_polling_thread_state_request u = POLLING_THREAD_RUN)
     \<and> closing t = C_Join_polling \<and> polling t \<noteq> P_Exited
     \<and> (polling t \<noteq> P_Start \<and> \<not> on_watchdog t \<longrightarrow> m_polling_thread_state_request t = POLLING_THREAD_RUN)"
proof -
  have "early_close_pending s"
    using early_close_pending_execution [OF assms(1)]
    by (simp add: early_close_pending_def threads_started_def)
  then have r: "m_polling_thread_state_request s = POLLING_THREAD_STOP_REQUESTED"
    using assms(2,3) by (simp add: early_close_pending_def)
  with assms(2,3) have "waits_forever s" by (simp add: waits_forever_def)
  from waits_forever_execution [OF assms(4) this] r first_store [of _ s] assms(2)
  show ?thesis by (auto simp: waits_forever_def on_watchdog_def)
qed

text \<open>A close right after the start, and the first store of the polling thread.\<close>

theorem early_close_never_returns_witness:
  "\<exists>s t. platform_run [Quiet] s \<and> m_polling_thread_state_request s = POLLING_THREAD_STOP_REQUESTED
     \<and> execution s [Quiet] t \<and> polling t = P_Loop \<and> closing t = C_Join_polling
     \<and> m_polling_thread_state_request t = POLLING_THREAD_RUN"
proof -
  let ?i = "threads_started power_on"
  let ?c = "?i\<lparr>m_polling_thread_state_request := POLLING_THREAD_STOP_REQUESTED, closing := C_Join_polling\<rparr>"
  let ?s = "?c\<lparr>m_polling_thread_state_request := POLLING_THREAD_RUN, wait_before_next_polling_ms := 500,
      polling := P_Loop\<rparr>"
  have run: "platform_run [Quiet] ?c"
    by (rule execution_step [OF closing_thread [OF c_request]]) (simp_all add: threads_started_def)
  have later: "execution ?c [Quiet] ?s"
    by (rule by_polling [OF p_start]) (simp_all add: threads_started_def)
  have at: "polling ?c = P_Start" "closing ?c = C_Join_polling" by (simp_all add: threads_started_def)
  from early_close_never_returns [OF run at later]
  have "m_polling_thread_state_request ?c = POLLING_THREAD_STOP_REQUESTED" "closing ?s = C_Join_polling" by blast+
  moreover have "polling ?s = P_Loop" "m_polling_thread_state_request ?s = POLLING_THREAD_RUN" by simp_all
  ultimately show ?thesis using run later by blast
qed

text \<open>C38: A callback of the application cannot close the platform. The dispatching thread removes an
  indication from the queue only after its handler has returned, and the polling thread leaves only
  when the queue is empty; so a close that a callback requests waits for ever, and nothing is handed
  out any more.\<close>

theorem close_in_callback_never_returns:
  assumes "platform_run tr s" "closer s = Some Dispatching" "execution s later t"
  shows "closing t = C_Join_polling \<and> dispatching t = D_Called \<and> polling t \<noteq> P_Exited
    \<and> \<not> m_queue_empty (queue t) \<and> handed later = []"
proof -
  have "platform_ok s" using execution_ok [OF assms(1) platform_ok_start] .
  with assms(2,3) have "platform_ok t" "closer t = Some Dispatching" "handed later = []"
    using close_in_callback_execution [OF assms(3)] by (auto intro: execution_ok)
  then show ?thesis by (auto simp: platform_ok_def)
qed

text \<open>The dispatching thread ends without releasing the mutex of the queue: when the close has
  joined both threads and goes on to destroy the mutex, the mutex is locked.\<close>

theorem mutex_destroyed_while_held:
  assumes "platform_run tr s" "closing s = C_Closed"
  shows "m_queue_mutex s = Some Dispatching"
  using execution_ok [OF assms(1) platform_ok_start] assms(2) by (simp add: platform_ok_def)

text \<open>A close of a platform that has received one indication.\<close>

lemma dispatch_last:
  assumes "ring_ok q" "queue_length q = 1"
  shows "execution (running_at ms q p D_Call) [Dispatched (oldest_indication q), Quiet, Quiet, Quiet, Quiet]
    (running_at ms (remove_oldest q) p D_Waiting)"
proof -
  have "queued q \<noteq> []" using assms(2) by (simp add: queued_Nil)
  then have e: "m_queue_empty (remove_oldest q)"
    using assms remove_queue_length [OF assms(1)] by (simp add: queue_empty_iff)
  let ?s = "running_at ms q p D_Called"
  let ?h = "?s\<lparr>m_queue_mutex := Some Dispatching\<rparr>"
  have "execution (running_at ms q p D_Call) [Dispatched (oldest_indication q)] ?s"
    using execution_step [OF dispatching_thread [OF d_call [of "running_at ms q p D_Call"]]]
    by (simp add: running_at_def)
  also have "execution ?s [Quiet] (?h\<lparr>dispatching := D_Relocked\<rparr>)"
    by (rule by_dispatching [OF d_relock]) (simp_all add: running_at_def)
  also have "execution (?h\<lparr>dispatching := D_Relocked\<rparr>) [Quiet]
      (?h\<lparr>queue := advance_read q, dispatching := D_Advanced\<rparr>)"
    by (rule by_dispatching [OF d_advance]) (simp_all add: running_at_def)
  also have "execution (?h\<lparr>queue := advance_read q, dispatching := D_Advanced\<rparr>)
      [Quiet] (?h\<lparr>queue := remove_oldest q, dispatching := D_Loop\<rparr>)"
    by (rule by_dispatching [OF d_empty]) (simp_all add: running_at_def remove_oldest_def)
  also have "execution (?h\<lparr>queue := remove_oldest q, dispatching := D_Loop\<rparr>)
      [Quiet] (running_at ms (remove_oldest q) p D_Waiting)"
    by (rule by_dispatching [OF d_wait]) (simp_all add: running_at_def e)
  finally show ?thesis by simp
qed

lemma close_at_rest:
  assumes "m_queue_empty q"
  shows "\<exists>s. execution (running_at ms q P_Loop D_Waiting) (replicate 12 Quiet) s \<and> closing s = C_Closed"
proof -
  let ?r = "\<lambda>x p c. (running_at ms q p D_Waiting)\<lparr>m_polling_thread_state_request := x, closing := c\<rparr>"
  let ?S = POLLING_THREAD_STOP_REQUESTED and ?J = C_Join_polling
  let ?d = "\<lambda>c m d. (?r POLLING_THREAD_STOP P_Exited c)\<lparr>m_dispatch_thread_running := False,
      m_queue_mutex := m, dispatching := d\<rparr>"
  have "execution (running_at ms q P_Loop D_Waiting) [Quiet] (?r ?S P_Loop ?J)"
    by (rule execution_step [OF closing_thread [OF c_request]]) (simp_all add: running_at_def)
  also have "execution (?r ?S P_Loop ?J) [Quiet] (?r ?S P_Sleep ?J)"
    by (rule by_polling [OF p_loop]) (simp_all add: running_at_def)
  also have "execution (?r ?S P_Sleep ?J) [Quiet] (?r ?S P_Stop_requested ?J)"
    by (rule by_polling [OF p_sleep]) (simp_all add: running_at_def)
  also have "execution (?r ?S P_Stop_requested ?J) [Quiet] (?r ?S P_Drain ?J)"
    by (rule by_polling [OF p_stop_requested]) (simp_all add: running_at_def)
  also have "execution (?r ?S P_Drain ?J) [Quiet] (?r ?S P_Reassembly ?J)"
    by (rule by_polling [OF p_drained]) (simp_all add: running_at_def assms)
  also have "execution (?r ?S P_Reassembly ?J) [Quiet] (?r POLLING_THREAD_STOP P_Exited ?J)"
    by (rule by_polling [OF p_reassembly_empty]) (simp_all add: running_at_def)
  also have "execution (?r POLLING_THREAD_STOP P_Exited ?J) [Quiet] (?r POLLING_THREAD_STOP P_Exited C_Joined)"
    by (rule execution_step [OF closing_thread [OF c_joined]]) (simp_all add: running_at_def)
  also have "execution (?r POLLING_THREAD_STOP P_Exited C_Joined) [Quiet] (?d C_Join_dispatch None D_Waiting)"
    by (rule execution_step [OF closing_thread [OF c_stop]]) (simp_all add: running_at_def)
  also have "execution (?d C_Join_dispatch None D_Waiting) [Quiet] (?d C_Join_dispatch (Some Dispatching) D_Woken)"
    by (rule by_dispatching [OF d_wake]) (simp_all add: running_at_def)
  also have "execution (?d C_Join_dispatch (Some Dispatching) D_Woken) [Quiet] (?d C_Join_dispatch (Some Dispatching) D_Loop)"
    by (rule by_dispatching [OF d_continue]) (simp_all add: running_at_def assms)
  also have "execution (?d C_Join_dispatch (Some Dispatching) D_Loop) [Quiet] (?d C_Join_dispatch (Some Dispatching) D_Exited)"
    by (rule by_dispatching [OF d_exit]) (simp_all add: running_at_def)
  also have "execution (?d C_Join_dispatch (Some Dispatching) D_Exited) [Quiet] (?d C_Closed (Some Dispatching) D_Exited)"
    by (rule execution_step [OF closing_thread [OF c_closed]]) (simp_all add: running_at_def)
  finally show ?thesis
    by (intro exI [of _ "?d C_Closed (Some Dispatching) D_Exited"]) (simp add: eval_nat_numeral)
qed

lemma pushed_replicate_Quiet [simp]: "pushed (replicate n Quiet) = []"
  by (induction n) simp_all

lemma one_indication_run:
  obtains tr q where "platform_run tr (running_at 1 q P_Loop D_Call)" "ring_ok q" "queue_length q = 1" "pushed tr = [ind]"
proof -
  let ?a = "queue power_on"
  let ?q = "onIndicationReceivedLocked ind ?a"
  have e: "m_queue_empty ?a" and ok: "ring_ok ?a" and l: "queue_length ?a = 0"
    by (simp_all add: power_on_def ring_ok_def queue_length_def)
  have q: "ring_ok ?q" "queue_length ?q = 1"
    using push_queue_length [of ?a ind] ok l looks_full_iff [OF ok] by simp_all
  note both_started
  also note to_full_test also note room_when_empty [OF e]
  also have "execution (running_at 500 ?a (P_Poll 30) D_Waiting) [Pushed ind] (running_at 500 ?q (P_Poll 29) D_Waiting)"
    using store_all [OF ok, of "[ind]" 30 500 D_Waiting] l by simp
  also note back_to_loop also note dispatching_starts [OF q(1)]
  finally have "\<not> m_queue_empty ?q \<Longrightarrow> \<exists>tr. platform_run tr (running_at 1 ?q P_Loop D_Call) \<and> pushed tr = [ind]"
    by fastforce
  moreover have "\<not> m_queue_empty ?q" using q by (simp add: queue_empty_iff)
  ultimately show ?thesis using q that by blast
qed

lemma close_run:
  "\<exists>tr s. platform_run tr s \<and> closing s = C_Closed \<and> pushed tr = [ind]"
proof -
  obtain tr q where run: "platform_run tr (running_at 1 q P_Loop D_Call)" "pushed tr = [ind]"
    and q: "ring_ok q" "queue_length q = 1" by (rule one_indication_run)
  have e: "m_queue_empty (remove_oldest q)"
    using shape_remove [of q 0] remove_queue_length [OF q(1)] q by (simp add: queue_empty_iff queued_Nil)
  obtain s where s: "execution (running_at 1 (remove_oldest q) P_Loop D_Waiting) (replicate 12 Quiet) s"
    "closing s = C_Closed" using close_at_rest [OF e] by blast
  then show ?thesis
    using execution_trans [OF execution_trans [OF run(1) dispatch_last [OF q]] s(1)] run(2)
    by (intro exI [of _ "(tr @ [Dispatched (oldest_indication q), Quiet, Quiet, Quiet, Quiet]) @ replicate 12 Quiet"]
        exI [of _ s]) simp
qed

text \<open>A callback that closes the platform while it handles the only indication.\<close>

theorem close_in_callback_never_returns_witness:
  "\<exists>tr s. platform_run tr s \<and> closer s = Some Dispatching \<and> closing s = C_Join_polling \<and> polling s \<noteq> P_Exited"
proof -
  obtain tr q where run: "platform_run tr (running_at 1 q P_Loop D_Call)"
    by (rule one_indication_run [of "\<lparr>tf_frame = [3], tf_timestamp_ms_epoch = 1\<rparr>"])
  let ?d = "running_at 1 q P_Loop D_Called"
  let ?c = "?d\<lparr>m_polling_thread_state_request := POLLING_THREAD_STOP_REQUESTED, closing := C_Join_polling,
      closer := Some Dispatching\<rparr>"
  have "platform_step (Dispatched (oldest_indication q)) (running_at 1 q P_Loop D_Call) ?d"
    using dispatching_thread [OF d_call [of "running_at 1 q P_Loop D_Call"]] by (simp add: running_at_def)
  with run have "platform_run (tr @ [Dispatched (oldest_indication q)]) ?d" by (rule execution_snoc)
  moreover have "platform_step Quiet ?d ?c"
    by (rule closing_thread [OF c_request_in_callback]) (simp_all add: running_at_def)
  ultimately have "platform_run ((tr @ [Dispatched (oldest_indication q)]) @ [Quiet]) ?c" by (rule execution_snoc)
  then show ?thesis using close_in_callback_never_returns [OF _ _ execution_Nil] by fastforce
qed

theorem dispatched_in_order_witness:
  "\<exists>tr s. platform_run tr s \<and> pushed tr = [\<lparr>tf_frame = [3], tf_timestamp_ms_epoch = 1\<rparr>]
     \<and> pushed tr = handed tr @ undispatched s"
  using close_run dispatched_in_order by blast

theorem close_drains_witness:
  "\<exists>tr s. platform_run tr s \<and> m_queue_empty (queue s)
     \<and> handed tr = [\<lparr>tf_frame = [3], tf_timestamp_ms_epoch = 1\<rparr>]"
proof -
  obtain tr s where "platform_run tr s" "closing s = C_Closed"
    "pushed tr = [\<lparr>tf_frame = [3], tf_timestamp_ms_epoch = 1\<rparr>]" using close_run by blast
  with close_drains [of tr s] show ?thesis by auto
qed

theorem mutex_destroyed_while_held_witness:
  "\<exists>tr s. platform_run tr s \<and> closing s = C_Closed \<and> m_queue_mutex s = Some Dispatching"
  using close_run mutex_destroyed_while_held by blast

section \<open>The poll and the queue\<close>

text \<open>A callback that keeps a log of its calls.\<close>

definition logging :: "u8 list \<Rightarrow> u64 \<Rightarrow> timestamped_frame list \<Rightarrow> timestamped_frame list" where
  "logging f ts log = log @ [\<lparr>tf_frame = f, tf_timestamp_ms_epoch = ts\<rparr>]"

lemma epoch_keeps_config: "keeps (\<lambda>s. engine_config s = c) Platform_get_timestamp_ms_epoch"
  by (rule keepsI) (auto simp: Platform_get_timestamp_ms_epoch_def engine_config_def split: list.splits)

lemma response_keeps_config: "keeps (\<lambda>s. engine_config s = c) (send_response_to_stack prim fid more_ind)"
  unfolding send_response_to_stack_def by (rule config.keeps_send_buffer)

lemma handle_indication_calls:
  assumes "handle_indication last_one (delivering logging) s = Inr (r, t)"
  shows "\<exists>new. wpc_int.more t = wpc_int.more s @ new \<and> length new \<le> 1"
proof -
  have get: "engine_config u = engine_config s" if "Slip_get_buffer n ms s = Inr (x, u)" for n ms x u
    using keepsD [OF config.keeps_get_buffer _ that] by blast
  have rest: "engine_config w = engine_config u"
    if "Platform_get_timestamp_ms_epoch u = Inr (n, v)" "send_response_to_stack prim fid m v = Inr (k, w)"
    for u v w n k prim fid m
    using keepsD [OF epoch_keeps_config _ that(1)] keepsD [OF response_keeps_config _ that(2)] by blast
  show ?thesis
    using assms unfolding handle_indication_def
    by (auto simp: delivering_def logging_def Let_def split: if_splits
        dest!: get [THEN engine_config_more] rest [THEN engine_config_more])
qed


lemma poll_loop_calls:
  "poll_loop n remaining (delivering logging) s = Inr (r, t) \<Longrightarrow>
     \<exists>new. wpc_int.more t = wpc_int.more s @ new \<and> length new \<le> n"
proof (induction n arbitrary: remaining s)
  case (Suc n)
  show ?case
  proof (cases "remaining = 0")
    case False
    with Suc.prems obtain k u where u: "handle_indication (n = 0) (delivering logging) s = Inr (k, u)"
      and v: "(if k < 0 then ret k else poll_loop n k (delivering logging)) u = Inr (r, t)" by auto
    obtain new where new: "wpc_int.more u = wpc_int.more s @ new" "length new \<le> 1"
      using handle_indication_calls [OF u] by blast
    show ?thesis
    proof (cases "k < 0")
      case True
      with v new show ?thesis by auto
    next
      case False
      with v Suc.IH [of k u] obtain new' where "wpc_int.more t = wpc_int.more u @ new'" "length new' \<le> n"
        by auto
      with new show ?thesis by (intro exI [of _ "new @ new'"]) auto
    qed
  qed (use Suc.prems in simp)
qed simp

text \<open>A poll for a number of indications makes at most that many calls of the callback, whatever the
  node sends: the number that the polling thread derives from the free room bounds what it stores.\<close>

theorem poll_calls_at_most:
  assumes "get_indication max_ind (delivering logging) s = Inr (r, t)"
  shows "\<exists>new. wpc_int.more t = wpc_int.more s @ new \<and> length new \<le> unat max_ind"
proof -
  have locked: "wpc_int.more u = wpc_int.more s" if "Platform_lock_request s = Inr (x, u)" for x u
    using that by (auto simp: Platform_lock_request_def split: if_splits)
  have request: "wpc_int.more v = wpc_int.more u" if "send_request_locked f n u = Inr (x, v)" for f n x u v
    using keepsD [OF config.keeps_request_locked _ that] engine_config_more by blast
  show ?thesis
    using assms unfolding get_indication_def get_indication_locked_def
    by (auto simp: Platform_unlock_request_def split: if_splits
        dest!: locked request poll_loop_calls)
qed


text \<open>A node that announces two indications.\<close>

definition two_indications :: "u8 list list" where
  "two_indications = [[3, 9, 2, 1, 5], [3, 10, 1, 0]]"

definition announcing :: "'q \<Rightarrow> 'q wpc_int_scheme" where
  "announcing q = wpc_int.extend (quiet_engine\<lparr>
      io_rx := map (Pair 1) (wire_frame [0x84, 0, 1, 1]) @ concat (map (\<lambda>f. map (Pair 1) (wire_frame f)) two_indications) @ [],
      io_wr := int (length (wire_frame [0x04, 0, 0]))
        # map (\<lambda>r. int (length (wire_frame r))) (poll_answers 3 two_indications) @ [],
      io_clock := [5], io_epoch := [6, 7]\<rparr>) q"

lemma announcing_more [simp]: "wpc_int.more (announcing q) = q" "io_epoch (announcing q) = [6, 7]"
  by (simp_all add: announcing_def wpc_int.extend_def)

lemma announced:
  "poll_batch (unat (3 :: u32)) two_indications" "(3 :: u32) \<noteq> 0"
  by (simp_all add: two_indications_def poll_batch_def answerable_def)

lemma announcing_fields:
  "m_disabled_poll_request (announcing q) = False" "req_frame_id (announcing q) = 0"
  "io_rx (announcing q) = map (Pair 1) (wire_frame [0x84, 0, 1, 1])
     @ concat (map (\<lambda>f. map (Pair 1) (wire_frame f)) two_indications) @ []"
  "io_wr (announcing q) = int (length (wire_frame [0x04, 0, 0]))
     # map (\<lambda>r. int (length (wire_frame r))) (poll_answers 3 two_indications) @ []"
  "io_clock (announcing q) = 5 # []"
  unfolding announcing_def wpc_int.extend_def
  by (simp_all only: quiet_engine_def wpc_int.simps io.simps)

lemma three_indications: "unat (3 :: u32) = 3"
  by simp

lemma announcing_state:
  "\<not> m_disabled_poll_request (announcing q)"
  "io_rx (announcing q) = map (Pair 1) (wire_frame [0x84, req_frame_id (announcing q), 1, 1])
     @ concat (map (\<lambda>f. map (Pair 1) (wire_frame f)) two_indications) @ []"
  "io_wr (announcing q) = int (length (wire_frame [0x04, req_frame_id (announcing q), 0]))
     # map (\<lambda>r. int (length (wire_frame r))) (poll_answers (unat (3 :: u32)) two_indications) @ []"
  "io_clock (announcing q) = 5 # []"
  by (simp_all only: announcing_fields three_indications not_False_eq_True)

lemma announcing_epochs: "length two_indications \<le> length (io_epoch (announcing q))"
  by (simp add: two_indications_def)

lemmas announcing_batch = announced announcing_state announcing_epochs

theorem poll_calls_at_most_witness:
  "\<exists>(t :: timestamped_frame list wpc_int_scheme) r new. get_indication 3 (delivering logging) (announcing []) = Inr (r, t)
     \<and> wpc_int.more t = [] @ new \<and> length new \<le> 3"
proof -
  obtain t where "get_indication 3 (delivering logging) (announcing ([] :: timestamped_frame list))
      = Inr (if last two_indications ! 3 > 0 then 1 else 0, t)"
    using poll_batch_run [OF announcing_batch, of logging "[] :: timestamped_frame list"] by (elim exE conjE) (rule that)
  from this poll_calls_at_most [OF this] show ?thesis by auto
qed

definition queueing :: "u8 list \<Rightarrow> u64 \<Rightarrow> ring \<Rightarrow> ring" where
  "queueing f ts = onIndicationReceivedLocked \<lparr>tf_frame = f, tf_timestamp_ms_epoch = ts\<rparr>"

definition stamped :: "u8 list \<times> u64 \<Rightarrow> timestamped_frame" where
  "stamped p = \<lparr>tf_frame = fst p, tf_timestamp_ms_epoch = snd p\<rparr>"

lemma fold_queueing: "fold (\<lambda>(f, ts). queueing f ts) ps q = fold onIndicationReceivedLocked (map stamped ps) q"
  by (induction ps arbitrary: q) (auto simp: queueing_def stamped_def)

text \<open>The poll and the queue together. When the node answers a poll with a batch of indications and the
  queue has room for the number asked for, the batch is appended to the queue, in order, each
  indication with the time of its reception, and nothing is lost; the queue stays well-formed.\<close>

theorem polled_indications_queued:
  fixes s :: "ring wpc_int_scheme"
  assumes "poll_batch (unat max_ind) inds" "max_ind \<noteq> 0" "\<not> m_disabled_poll_request s"
    and "io_rx s = map (Pair 1) (wire_frame [0x84, req_frame_id s, 1, 1])
           @ concat (map (\<lambda>f. map (Pair 1) (wire_frame f)) inds) @ rx"
    and "io_wr s = int (length (wire_frame [0x04, req_frame_id s, 0]))
           # map (\<lambda>r. int (length (wire_frame r))) (poll_answers (unat max_ind) inds) @ wr"
    and "io_clock s = now # cs" "length inds \<le> length (io_epoch s)"
    and ok: "ring_ok (wpc_int.more s)" "unat max_ind + queue_length (wpc_int.more s) \<le> 60"
  shows "\<exists>t. get_indication max_ind (delivering queueing) s = Inr (if last inds ! 3 > 0 then 1 else 0, t)
     \<and> queued (wpc_int.more t) = queued (wpc_int.more s) @ map stamped (zip inds (io_epoch s))
     \<and> ring_ok (wpc_int.more t)"
proof -
  have fit: "length inds \<le> 60 - queue_length (wpc_int.more s)"
    using assms(1) ok(2) by (auto simp: poll_batch_def)
  obtain t where "get_indication max_ind (delivering queueing) s = Inr (if last inds ! 3 > 0 then 1 else 0, t)"
    "wpc_int.more t = fold (\<lambda>(f, ts). queueing f ts) (zip inds (io_epoch s)) (wpc_int.more s)"
    using poll_batch_run [OF assms(1-7)] by blast
  then show ?thesis
    using ring.push_all [OF ok(1), of "map stamped (zip inds (io_epoch s))"] fit
    by (simp add: fold_queueing)
qed

theorem polled_indications_queued_witness:
  "\<exists>t. get_indication 3 (delivering queueing) (announcing (queue power_on)) = Inr (0, t)
     \<and> map tf_timestamp_ms_epoch (queued (wpc_int.more t)) = [6, 7]"
proof -
  have "ring_ok (queue power_on)" "queued (queue power_on) = []" "queue_length (queue power_on) = 0"
    by (simp_all add: power_on_def ring_ok_def queued_def queue_length_def)
  with polled_indications_queued [OF announcing_batch, of "queue power_on"] show ?thesis
    by (fastforce simp: two_indications_def stamped_def)
qed

end
