(* ===== verification/Serial.thy ===== *)
theory Serial
  imports Mesh_Prelude
begin

text \<open>
  The serial line of Linux, \<^verbatim>\<open>lib/platform/linux/serial.c\<close> and \<^verbatim>\<open>serial_termios2.c\<close>: opening the port with
  its settings, the local buffer of received bytes with its timeout, writing and the reopening of a
  line that failed. The results of the system calls are scripts of the state; the file descriptor is
  the flag \<^verbatim>\<open>fd_open\<close>. The settings that the driver holds are part of the state, with the flag
  values that Linux defines for them.
\<close>

section \<open>State\<close>

text \<open>The settings of the driver: \<^verbatim>\<open>struct termios\<close> and the two speeds of \<^verbatim>\<open>struct termios2\<close>. Of
  \<^verbatim>\<open>struct serial_struct\<close> only the flags are told apart.\<close>

record termios =
  c_iflag :: u32
  c_oflag :: u32
  c_cflag :: u32
  c_lflag :: u32
  c_cc :: "u8 list"
  c_ispeed :: u32
  c_ospeed :: u32

record serial_struct =
  ss_flags :: u32
  ss_rest :: "u8 list"

text \<open>A call \<^verbatim>\<open>read\<close> gives a chunk of bytes, an empty one after 100 ms without any, or fails
  (\<^const>\<open>None\<close>). \<^verbatim>\<open>stack_serial\<close> is what the uninitialised local variable \<^verbatim>\<open>serial_s\<close> holds.\<close>

record serial =
  fd_open :: bool
  m_port_name :: "u8 list"
  m_bitrate :: u64
  m_buffer :: "u8 list"
  m_elem :: u8
  m_read :: u8
  driver_tty :: termios
  driver_serial :: serial_struct
  stack_serial :: serial_struct
  sys_ok :: "bool list"
  sys_reads :: "u8 list option list"
  sys_writes :: "int list"
  written :: "u8 list list"

definition BUFFER_SIZE :: nat where "BUFFER_SIZE = 128"
definition PORT_NAME_SIZE :: nat where "PORT_NAME_SIZE = 256"

definition system_call :: "('z serial_scheme, bool) prog" where
  "system_call s = (case sys_ok s of [] \<Rightarrow> Inl Blocked | ok # rest \<Rightarrow> Inr (ok, s\<lparr>sys_ok := rest\<rparr>))"

subsection \<open>Flags of Linux\<close>

definition IGNBRK :: u32 where "IGNBRK = 0x1"
definition ICRNL :: u32 where "ICRNL = 0x100"
definition IXON :: u32 where "IXON = 0x400"
definition IXANY :: u32 where "IXANY = 0x800"
definition IXOFF :: u32 where "IXOFF = 0x1000"
definition B9600 :: u32 where "B9600 = 0xD"
definition CSIZE :: u32 where "CSIZE = 0x30"
definition CS8 :: u32 where "CS8 = 0x30"
definition CSTOPB :: u32 where "CSTOPB = 0x40"
definition CREAD :: u32 where "CREAD = 0x80"
definition PARENB :: u32 where "PARENB = 0x100"
definition PARODD :: u32 where "PARODD = 0x200"
definition CLOCAL :: u32 where "CLOCAL = 0x800"
definition BOTHER :: u32 where "BOTHER = 0x1000"
definition CBAUD :: u32 where "CBAUD = 0x100F"
definition CRTSCTS :: u32 where "CRTSCTS = 0x80000000"
definition VTIME :: nat where "VTIME = 5"
definition VMIN :: nat where "VMIN = 6"
definition ASYNC_LOW_LATENCY :: u32 where "ASYNC_LOW_LATENCY = 0x2000"

section \<open>Opening and closing\<close>

text \<open>\<^verbatim>\<open>cfsetospeed\<close> and \<^verbatim>\<open>cfsetispeed\<close> of the C library store the code of the speed in the control flags
  and the speed.\<close>

definition cfsetospeed :: "u32 \<Rightarrow> termios \<Rightarrow> termios" where
  "cfsetospeed speed tty = tty\<lparr>c_cflag := (c_cflag tty AND NOT CBAUD) OR speed, c_ospeed := speed\<rparr>"

definition cfsetispeed :: "u32 \<Rightarrow> termios \<Rightarrow> termios" where
  "cfsetispeed speed tty = tty\<lparr>c_cflag := (c_cflag tty AND NOT CBAUD) OR speed, c_ispeed := speed\<rparr>"

text \<open>The changes to the settings, in the order of the code.\<close>

definition raw_settings :: "u32 \<Rightarrow> termios \<Rightarrow> termios" where
  "raw_settings parity tty =
     (let tty = cfsetospeed B9600 tty;
          tty = cfsetispeed B9600 tty;
          tty = tty\<lparr>c_cflag := (c_cflag tty AND NOT CSIZE) OR CS8\<rparr>;
          tty = tty\<lparr>c_iflag := c_iflag tty AND NOT IGNBRK\<rparr>;
          tty = tty\<lparr>c_iflag := c_iflag tty AND NOT ICRNL\<rparr>;
          tty = tty\<lparr>c_lflag := 0\<rparr>;
          tty = tty\<lparr>c_oflag := 0\<rparr>;
          tty = tty\<lparr>c_cc := (c_cc tty)[VMIN := 0]\<rparr>;
          tty = tty\<lparr>c_cc := (c_cc tty)[VTIME := 1]\<rparr>;
          tty = tty\<lparr>c_iflag := c_iflag tty AND NOT (IXON OR IXOFF OR IXANY)\<rparr>;
          tty = tty\<lparr>c_cflag := c_cflag tty OR (CLOCAL OR CREAD)\<rparr>;
          tty = tty\<lparr>c_cflag := c_cflag tty AND NOT (PARENB OR PARODD)\<rparr>;
          tty = tty\<lparr>c_cflag := c_cflag tty OR parity\<rparr>;
          tty = tty\<lparr>c_cflag := c_cflag tty AND NOT CSTOPB\<rparr>
      in tty\<lparr>c_cflag := c_cflag tty AND NOT CRTSCTS\<rparr>)"

definition bitrate_settings :: "u64 \<Rightarrow> termios \<Rightarrow> termios" where
  "bitrate_settings bitrate tty2 =
     (let tty2 = tty2\<lparr>c_cflag := c_cflag tty2 AND NOT CBAUD\<rparr>;
          tty2 = tty2\<lparr>c_cflag := c_cflag tty2 OR BOTHER\<rparr>
      in tty2\<lparr>c_ispeed := ucast bitrate, c_ospeed := ucast bitrate\<rparr>)"

definition Serial_set_termios2_bitrate :: "u64 \<Rightarrow> ('z serial_scheme, int) prog" where
  "Serial_set_termios2_bitrate bitrate =
     andthen system_call (\<lambda>ok.
     if \<not> ok then ret (-1)
     else
       andthen (gets driver_tty) (\<lambda>tty2.
       andthen system_call (\<lambda>ok.
       if \<not> ok then ret (-1)
       else andthen (modify (\<lambda>s. s\<lparr>driver_tty := bitrate_settings bitrate tty2\<rparr>)) (\<lambda>_. ret 0))))"

text \<open>The results of the two calls for low latency are ignored: when the first one fails, the second one
  passes the uninitialised variable to the driver.\<close>

definition set_low_latency :: "('z serial_scheme, unit) prog" where
  "set_low_latency =
     andthen system_call (\<lambda>got.
     andthen (gets (\<lambda>s. if got then driver_serial s else stack_serial s)) (\<lambda>serial_s.
     andthen system_call (\<lambda>ok.
     if ok then modify (\<lambda>s. s\<lparr>driver_serial := serial_s\<lparr>ss_flags := ss_flags serial_s OR ASYNC_LOW_LATENCY\<rparr>\<rparr>)
     else ret ())))"

definition set_interface_attribs :: "u64 \<Rightarrow> u32 \<Rightarrow> ('z serial_scheme, int) prog" where
  "set_interface_attribs bitrate parity =
     andthen system_call (\<lambda>ok.
     if \<not> ok then ret (-1)
     else
       andthen (gets driver_tty) (\<lambda>tty.
       andthen system_call (\<lambda>ok.
       if \<not> ok then ret (-1)
       else
         andthen (modify (\<lambda>s. s\<lparr>driver_tty := raw_settings parity tty\<rparr>)) (\<lambda>_.
         andthen (Serial_set_termios2_bitrate bitrate) (\<lambda>res.
         if res \<noteq> 0 then ret (-1)
         else andthen set_low_latency (\<lambda>_. ret 0))))))"

definition int_open :: "('z serial_scheme, int) prog" where
  "int_open =
     andthen system_call (\<lambda>ok.
     andthen (modify (\<lambda>s. s\<lparr>fd_open := ok\<rparr>)) (\<lambda>_.
     if \<not> ok then ret (-1)
     else
       andthen (gets m_bitrate) (\<lambda>bitrate.
       andthen (set_interface_attribs bitrate 0) (\<lambda>res.
       if res < 0 then
         andthen system_call (\<lambda>_.
         andthen (modify (\<lambda>s. s\<lparr>fd_open := False\<rparr>)) (\<lambda>_. ret (-1)))
       else ret 0))))"

text \<open>The name is copied with its terminating zero into an array of 256 bytes.\<close>

definition Serial_open :: "u8 list \<Rightarrow> u64 \<Rightarrow> ('z serial_scheme, int) prog" where
  "Serial_open port_name bitrate =
     andthen (require (length port_name < PORT_NAME_SIZE) Undefined) (\<lambda>_.
     andthen (modify (\<lambda>s. s\<lparr>m_port_name := port_name, m_bitrate := bitrate\<rparr>)) (\<lambda>_. int_open))"

definition Serial_close :: "('z serial_scheme, int) prog" where
  "Serial_close =
     andthen (gets fd_open) (\<lambda>is_open.
     if \<not> is_open then ret (-1)
     else
       andthen system_call (\<lambda>ok.
       if \<not> ok then ret (-1)
       else andthen (modify (\<lambda>s. s\<lparr>fd_open := False\<rparr>)) (\<lambda>_. ret 0)))"

section \<open>Reading\<close>

definition next_buffered :: "('z serial_scheme, u8) prog" where
  "next_buffered =
     andthen (gets (\<lambda>s. (m_buffer s, m_read s))) (\<lambda>(buffer, i).
     andthen (lift_sum (peek buffer (int (unat i)))) (\<lambda>c.
     andthen (modify (\<lambda>s. s\<lparr>m_read := m_read s + 1, m_elem := m_elem s - 1\<rparr>)) (\<lambda>_. ret c)))"

text \<open>A call of \<^verbatim>\<open>read\<close> on the buffer: the bytes are stored at its start.\<close>

definition read_call :: "('z serial_scheme, int) prog" where
  "read_call s =
     (case sys_reads s of
        [] \<Rightarrow> Inl Blocked
      | None # later \<Rightarrow> Inr (-1, s\<lparr>sys_reads := later\<rparr>)
      | Some chunk # later \<Rightarrow>
          Inr (int (length chunk), s\<lparr>sys_reads := later, m_buffer := overlay chunk (m_buffer s)\<rparr>))"

definition read_attempts :: "u32 \<Rightarrow> u16" where
  "read_attempts timeout_ms = ucast ((timeout_ms + 99) div 100 - 1)"

text \<open>The loop that refills the buffer: one attempt, and then as many as are left. The result is the
  return value of the function and the byte it stores.\<close>

primrec refill :: "nat \<Rightarrow> ('z serial_scheme, int \<times> u8 option) prog" where
  "refill 0 =
     andthen read_call (\<lambda>read_bytes.
     if read_bytes > 0 then
       andthen (modify (\<lambda>s. s\<lparr>m_elem := word_of_int read_bytes, m_read := 0\<rparr>)) (\<lambda>_.
       andthen next_buffered (\<lambda>c. ret (1, Some c)))
     else ret (0, None))"
| "refill (Suc attempts) =
     andthen read_call (\<lambda>read_bytes.
     if read_bytes > 0 then
       andthen (modify (\<lambda>s. s\<lparr>m_elem := word_of_int read_bytes, m_read := 0\<rparr>)) (\<lambda>_.
       andthen next_buffered (\<lambda>c. ret (1, Some c)))
     else refill attempts)"

definition get_single_char :: "u32 \<Rightarrow> ('z serial_scheme, int \<times> u8 option) prog" where
  "get_single_char timeout_ms =
     andthen (gets m_elem) (\<lambda>elem.
     if elem > 0 then andthen next_buffered (\<lambda>c. ret (1, Some c))
     else refill (unat (read_attempts timeout_ms)))"

definition Serial_read :: "u32 \<Rightarrow> ('z serial_scheme, int \<times> u8 option) prog" where
  "Serial_read timeout_ms =
     andthen (gets fd_open) (\<lambda>is_open. if \<not> is_open then ret (-1, None) else get_single_char timeout_ms)"

section \<open>Writing\<close>

definition write_call :: "u8 list \<Rightarrow> ('z serial_scheme, int) prog" where
  "write_call bytes s =
     (case sys_writes s of [] \<Rightarrow> Inl Blocked
      | r # later \<Rightarrow> Inr (r, s\<lparr>sys_writes := later, written := written s @ [bytes]\<rparr>))"

definition Serial_write :: "u8 list \<Rightarrow> ('z serial_scheme, int) prog" where
  "Serial_write buffer =
     andthen (gets fd_open) (\<lambda>is_open.
     andthen (if is_open then ret 0 else int_open) (\<lambda>opened.
     if opened < 0 then ret 0
     else
       andthen (write_call buffer) (\<lambda>r.
       if r < 0 then andthen Serial_close (\<lambda>_. ret 0) else ret r)))"

section \<open>The settings of an open port\<close>

text \<open>Clearing and setting flags one after the other is one clearing and one setting.\<close>

lemma flag_steps:
  fixes x :: u32
  shows "((x AND NOT a) OR b) AND NOT c = (x AND NOT (a OR c)) OR (b AND NOT c)"
    and "((x AND NOT a) OR b) OR c = (x AND NOT a) OR (b OR c)"
    and "(x AND NOT a) AND NOT c = x AND NOT (a OR c)"
  by (auto intro!: bit_word_eqI simp: bit_simps)

lemmas control_flags = CBAUD_def CSIZE_def PARENB_def PARODD_def CSTOPB_def CRTSCTS_def BOTHER_def CS8_def
  CLOCAL_def CREAD_def B9600_def

lemmas input_flags = IGNBRK_def ICRNL_def IXON_def IXOFF_def IXANY_def

lemma settings_of_open_port:
  "bitrate_settings bitrate (raw_settings 0 tty) = tty\<lparr>
     c_iflag := c_iflag tty AND NOT (IGNBRK OR ICRNL OR IXON OR IXOFF OR IXANY), c_oflag := 0,
     c_cflag := (c_cflag tty AND NOT (CBAUD OR CSIZE OR PARENB OR PARODD OR CSTOPB OR CRTSCTS))
       OR (BOTHER OR CS8 OR CLOCAL OR CREAD),
     c_lflag := 0, c_cc := (c_cc tty)[VMIN := 0, VTIME := 1], c_ispeed := ucast bitrate, c_ospeed := ucast bitrate\<rparr>"
proof -
  let ?M = "((((((CBAUD OR CBAUD) OR CSIZE) OR (PARENB OR PARODD)) OR CSTOPB) OR CRTSCTS) OR CBAUD)"
  have m: "?M = CBAUD OR CSIZE OR PARENB OR PARODD OR CSTOPB OR CRTSCTS" by (simp add: control_flags)
  have c: "((((((((((x AND NOT CBAUD) OR B9600) AND NOT CBAUD) OR B9600) AND NOT CSIZE) OR CS8) OR (CLOCAL OR CREAD))
        AND NOT (PARENB OR PARODD)) AND NOT CSTOPB) AND NOT CRTSCTS) AND NOT CBAUD OR BOTHER
      = (x AND NOT (CBAUD OR CSIZE OR PARENB OR PARODD OR CSTOPB OR CRTSCTS)) OR (BOTHER OR CS8 OR CLOCAL OR CREAD)" for x
    unfolding flag_steps m by (simp add: control_flags)
  have i: "((x AND NOT IGNBRK) AND NOT ICRNL) AND NOT (IXON OR IXOFF OR IXANY)
      = x AND NOT (IGNBRK OR ICRNL OR IXON OR IXOFF OR IXANY)" for x
    by (simp add: ac_simps)
  show ?thesis
    using c [of "c_cflag tty"] i [of "c_iflag tty"]
    by (simp add: bitrate_settings_def raw_settings_def cfsetospeed_def cfsetispeed_def Let_def)
qed

definition open_settings :: "u64 \<Rightarrow> termios \<Rightarrow> termios" where
  "open_settings bitrate tty = tty\<lparr>
     c_iflag := c_iflag tty AND NOT (IGNBRK OR ICRNL OR IXON OR IXOFF OR IXANY), c_oflag := 0,
     c_cflag := (c_cflag tty AND NOT (CBAUD OR CSIZE OR PARENB OR PARODD OR CSTOPB OR CRTSCTS))
       OR (BOTHER OR CS8 OR CLOCAL OR CREAD),
     c_lflag := 0, c_cc := (c_cc tty)[VMIN := 0, VTIME := 1], c_ispeed := ucast bitrate, c_ospeed := ucast bitrate\<rparr>"

lemma system_callE:
  assumes "andthen system_call f s = Inr (x, t)"
  obtains ok rest where "sys_ok s = ok # rest" "f ok (s\<lparr>sys_ok := rest\<rparr>) = Inr (x, t)"
  using assms by (auto simp: system_call_def split: list.splits)

definition low_latency :: "bool \<Rightarrow> bool \<Rightarrow> serial_struct \<Rightarrow> serial_struct \<Rightarrow> serial_struct" where
  "low_latency got ok driver stack =
     (let base = if got then driver else stack
      in if ok then base\<lparr>ss_flags := ss_flags base OR ASYNC_LOW_LATENCY\<rparr> else driver)"

lemma set_low_latency_run:
  assumes "set_low_latency s = Inr (u, t)"
  obtains got ok rest where "sys_ok s = got # ok # rest" "t = s\<lparr>sys_ok := rest, driver_serial := low_latency got ok (driver_serial s) (stack_serial s)\<rparr>"
proof -
  from assms obtain got mid where got: "sys_ok s = got # mid"
    "andthen (gets (\<lambda>s. if got then driver_serial s else stack_serial s)) (\<lambda>serial_s. andthen system_call (\<lambda>ok.
       if ok then modify (\<lambda>s. s\<lparr>driver_serial := serial_s\<lparr>ss_flags := ss_flags serial_s OR ASYNC_LOW_LATENCY\<rparr>\<rparr>)
       else ret ())) (s\<lparr>sys_ok := mid\<rparr>) = Inr (u, t)"
    unfolding set_low_latency_def by (rule system_callE)
  then obtain ok rest where "mid = ok # rest" by (cases mid) (auto simp: system_call_def prog_simps)
  with got that show ?thesis
    by (cases got; cases ok) (auto simp: system_call_def prog_simps low_latency_def Let_def)
qed

lemma set_bitrate_run:
  assumes "Serial_set_termios2_bitrate bitrate s = Inr (r, t)"
  obtains (failed) rest where "r = -1" "t = s\<lparr>sys_ok := rest\<rparr>"
  | (complete) rest where "r = 0" "sys_ok s = True # True # rest"
      "t = s\<lparr>sys_ok := rest, driver_tty := bitrate_settings bitrate (driver_tty s)\<rparr>"
proof -
  obtain ok mid where s: "sys_ok s = ok # mid"
    using assms unfolding Serial_set_termios2_bitrate_def by (rule system_callE)
  show ?thesis
  proof (cases ok)
    case False
    with s assms show ?thesis
      by (intro failed [of mid]) (auto simp: Serial_set_termios2_bitrate_def system_call_def prog_simps)
  next
    case True
    with s assms obtain ok' rest where "mid = ok' # rest"
      by (cases mid) (auto simp: Serial_set_termios2_bitrate_def system_call_def prog_simps)
    with s True assms that show ?thesis
      by (cases ok') (auto simp: Serial_set_termios2_bitrate_def system_call_def prog_simps)
  qed
qed

lemma set_interface_run:
  assumes "set_interface_attribs bitrate 0 s = Inr (r, t)"
  obtains (failed) rest tty where "r = -1" "t = s\<lparr>sys_ok := rest, driver_tty := tty\<rparr>"
  | (complete) got ok rest where "r = 0" "sys_ok s = replicate 4 True @ got # ok # rest"
      "t = s\<lparr>sys_ok := rest, driver_tty := open_settings bitrate (driver_tty s), driver_serial := low_latency got ok (driver_serial s) (stack_serial s)\<rparr>"
proof -
  obtain ok mid where s: "sys_ok s = ok # mid"
    using assms unfolding set_interface_attribs_def by (rule system_callE)
  show ?thesis
  proof (cases ok)
    case False
    with s assms show ?thesis
      by (intro failed [where rest = mid and tty = "driver_tty s"]) (auto simp: set_interface_attribs_def system_call_def prog_simps)
  next
    case True
    with s assms obtain ok' rest where mid: "mid = ok' # rest"
      by (cases mid) (auto simp: set_interface_attribs_def system_call_def prog_simps)
    show ?thesis
    proof (cases ok')
      case False
      with s mid True assms show ?thesis
        by (intro failed [where rest = rest and tty = "driver_tty s"]) (auto simp: set_interface_attribs_def system_call_def prog_simps)
    next
      case True': True
      let ?u = "s\<lparr>sys_ok := rest, driver_tty := raw_settings 0 (driver_tty s)\<rparr>"
      have run: "set_interface_attribs bitrate 0 s = andthen (Serial_set_termios2_bitrate bitrate) (\<lambda>res.
          if res \<noteq> 0 then ret (-1) else andthen set_low_latency (\<lambda>_. ret 0)) ?u"
        using s mid True True' by (simp add: set_interface_attribs_def system_call_def andthen_def gets_def modify_def)
      obtain k v where v: "Serial_set_termios2_bitrate bitrate ?u = Inr (k, v)"
        "(if k \<noteq> 0 then ret (-1) else andthen set_low_latency (\<lambda>_. ret 0)) v = Inr (r, t)"
        using assms unfolding run by (rule andthen_InrE)
      from v(1) show ?thesis
      proof (cases rule: set_bitrate_run)
        case (failed later)
        with v(2) show ?thesis by (intro that(1) [where rest = later and tty = "raw_settings 0 (driver_tty s)"]) simp_all
      next
        case (complete later)
        with v(2) have r: "r = 0" "set_low_latency v = Inr ((), t)" by auto
        from r(2) obtain got ok'' end_ok where
          "sys_ok v = got # ok'' # end_ok" "t = v\<lparr>sys_ok := end_ok, driver_serial := low_latency got ok'' (driver_serial v) (stack_serial v)\<rparr>"
          by (rule set_low_latency_run)
        with r(1) complete s mid True True' show ?thesis
          by (intro that(2) [of got ok'' end_ok])
             (simp_all add: settings_of_open_port open_settings_def numeral_eq_Suc)
      qed
    qed
  qed
qed

lemma int_open_run:
  assumes "int_open s = Inr (r, t)"
  shows "r = (if fd_open t then 0 else -1)
    \<and> (fd_open t \<longrightarrow> driver_tty t = open_settings (m_bitrate s) (driver_tty s)
        \<and> (\<exists>got ok. sys_ok s = replicate 5 True @ got # ok # sys_ok t \<and> driver_serial t = low_latency got ok (driver_serial s) (stack_serial s)))
    \<and> m_buffer t = m_buffer s \<and> m_elem t = m_elem s \<and> m_read t = m_read s
    \<and> m_port_name t = m_port_name s \<and> m_bitrate t = m_bitrate s \<and> (\<not> fd_open t \<longrightarrow> driver_serial t = driver_serial s)"
proof -
  obtain ok mid where s: "sys_ok s = ok # mid" using assms unfolding int_open_def by (rule system_callE)
  show ?thesis
  proof (cases ok)
    case False
    with s assms show ?thesis by (auto simp: int_open_def system_call_def prog_simps)
  next
    case True
    let ?u = "s\<lparr>sys_ok := mid, fd_open := True\<rparr>"
    have run: "int_open s = andthen (set_interface_attribs (m_bitrate s) 0) (\<lambda>res.
       if res < 0 then
         andthen system_call (\<lambda>_. andthen (modify (\<lambda>s. s\<lparr>fd_open := False\<rparr>)) (\<lambda>_. ret (-1)))
       else ret 0) ?u"
      using s True by (simp add: int_open_def system_call_def andthen_def gets_def modify_def)
    obtain k v where v: "set_interface_attribs (m_bitrate s) 0 ?u = Inr (k, v)"
      "(if k < 0 then andthen system_call (\<lambda>_. andthen (modify (\<lambda>s. s\<lparr>fd_open := False\<rparr>)) (\<lambda>_. ret (-1)))
        else ret 0) v = Inr (r, t)"
      using assms unfolding run by (rule andthen_InrE)
    from v(1) show ?thesis
    proof (cases rule: set_interface_run)
      case (failed rest tty)
      with v(2) obtain later where "r = -1" "t = v\<lparr>sys_ok := later, fd_open := False\<rparr>"
        by (cases "sys_ok v") (auto simp: system_call_def prog_simps)
      with failed show ?thesis by simp
    next
      case (complete got ok' later)
      with v(2) have "r = 0" "t = v" by auto
      with complete s True show ?thesis by (auto simp: numeral_eq_Suc)
    qed
  qed
qed

text \<open>The five calls on which opening depends; the two for low latency may fail, and so may the close after a
  failure.\<close>

lemma seven_calls:
  assumes "7 \<le> length xs"
  obtains a b c d e f g rest where "xs = a # b # c # d # e # f # g # rest"
  using assms by (auto simp: numeral_eq_Suc Suc_le_length_iff)

lemma int_open_returns:
  assumes "7 \<le> length (sys_ok s)"
  shows "\<exists>r t. int_open s = Inr (r, t)"
proof -
  obtain a b c d e f g rest where "sys_ok s = a # b # c # d # e # f # g # rest" using assms by (rule seven_calls)
  then show ?thesis
    by (cases a; cases b; cases c; cases d; cases e; cases g)
      (simp_all add: int_open_def set_interface_attribs_def Serial_set_termios2_bitrate_def set_low_latency_def
        system_call_def prog_simps)
qed

lemma int_open_succeeds:
  assumes "int_open s = Inr (r, t)" "take 5 (sys_ok s) = replicate 5 True"
  shows "r = 0"
proof -
  have "sys_ok s = replicate 5 True @ drop 5 (sys_ok s)" using assms(2) by (metis append_take_drop_id)
  then obtain rest where ok: "sys_ok s = True # True # True # True # True # rest" by (simp add: numeral_eq_Suc)
  have "\<forall>r t. set_low_latency u = Inr (r, t) \<longrightarrow> fd_open t = fd_open u" for u :: "'a serial_scheme"
    by (auto elim!: set_low_latency_run)
  with ok assms(1) show ?thesis
    by (auto simp: int_open_def set_interface_attribs_def Serial_set_termios2_bitrate_def system_call_def
        andthen_def gets_def modify_def ret_def split: sum.splits)
qed

text \<open>C37: With a name that fits, opening the port returns. It succeeds exactly when the five system calls that it
  requires do: opening the device, reading and writing its settings, and reading and writing them again for the
  bitrate; what the two calls for low latency return does not matter. It leaves the port open exactly when it succeeds, and
  then with raw input, 8 data bits, no parity, one stop bit, no flow control, reads that return after
  100 ms, and the bitrate asked for in both directions; all other flags keep their values. The serial
  flags are an exception: when the driver refuses to report them, it is given the contents of an
  uninitialised variable; a failure to open leaves them as they were. The local buffer is left alone, so
  bytes of an earlier connection are read first.\<close>

theorem port_settings:
  "(length port_name < PORT_NAME_SIZE \<and> 7 \<le> length (sys_ok s) \<longrightarrow> (\<exists>r t. Serial_open port_name bitrate s = Inr (r, t)))
   \<and> (Serial_open port_name bitrate s = Inr (r, t) \<longrightarrow>
        r = (if fd_open t then 0 else -1) \<and> (r = 0 \<longleftrightarrow> take 5 (sys_ok s) = replicate 5 True)
      \<and> m_port_name t = port_name \<and> m_bitrate t = bitrate
      \<and> (fd_open t \<longrightarrow> driver_tty t = open_settings bitrate (driver_tty s)
          \<and> (\<exists>got ok. sys_ok s = replicate 5 True @ got # ok # sys_ok t \<and> driver_serial t = low_latency got ok (driver_serial s) (stack_serial s)))
      \<and> m_buffer t = m_buffer s \<and> m_elem t = m_elem s \<and> m_read t = m_read s \<and> (\<not> fd_open t \<longrightarrow> driver_serial t = driver_serial s))"
proof (intro conjI [where P = "_ \<longrightarrow> _"] impI)
  let ?s = "s\<lparr>m_port_name := port_name, m_bitrate := bitrate\<rparr>"
  have start: "Serial_open port_name bitrate s = int_open ?s" if "length port_name < PORT_NAME_SIZE"
    using that by (simp add: Serial_open_def prog_simps)
  show "\<exists>r t. Serial_open port_name bitrate s = Inr (r, t)" if "length port_name < PORT_NAME_SIZE \<and> 7 \<le> length (sys_ok s)"
    using that start int_open_returns [of ?s] by simp
  assume run: "Serial_open port_name bitrate s = Inr (r, t)"
  then have "length port_name < PORT_NAME_SIZE" by (cases "length port_name < PORT_NAME_SIZE") (simp_all add: Serial_open_def prog_simps)
  with run start have r: "int_open ?s = Inr (r, t)" by simp
  have iff: "r = 0 \<longleftrightarrow> take 5 (sys_ok s) = replicate 5 True"
    using int_open_run [OF r] int_open_succeeds [OF r] by (auto split: if_splits)
  show "r = (if fd_open t then 0 else -1) \<and> (r = 0 \<longleftrightarrow> take 5 (sys_ok s) = replicate 5 True)
      \<and> m_port_name t = port_name \<and> m_bitrate t = bitrate
      \<and> (fd_open t \<longrightarrow> driver_tty t = open_settings bitrate (driver_tty s)
          \<and> (\<exists>got ok. sys_ok s = replicate 5 True @ got # ok # sys_ok t \<and> driver_serial t = low_latency got ok (driver_serial s) (stack_serial s)))
      \<and> m_buffer t = m_buffer s \<and> m_elem t = m_elem s \<and> m_read t = m_read s \<and> (\<not> fd_open t \<longrightarrow> driver_serial t = driver_serial s)"
    using int_open_run [OF r] iff by simp
qed

section \<open>The stream of received bytes\<close>

text \<open>What the line still has to deliver: the bytes in the buffer, then those of the coming calls.\<close>

definition line_ok :: "'z serial_scheme \<Rightarrow> bool" where
  "line_ok s \<longleftrightarrow> length (m_buffer s) = BUFFER_SIZE \<and> unat (m_read s) + unat (m_elem s) \<le> BUFFER_SIZE
     \<and> (\<forall>chunk. Some chunk \<in> set (sys_reads s) \<longrightarrow> length chunk \<le> BUFFER_SIZE)"

definition chunk_of :: "u8 list option \<Rightarrow> u8 list" where
  "chunk_of r = (case r of None \<Rightarrow> [] | Some chunk \<Rightarrow> chunk)"

definition stream :: "'z serial_scheme \<Rightarrow> u8 list" where
  "stream s = take (unat (m_elem s)) (drop (unat (m_read s)) (m_buffer s))
     @ concat (map chunk_of (sys_reads s))"

lemma next_buffered_run:
  assumes "line_ok s" "0 < m_elem s"
  obtains c t where "next_buffered s = Inr (c, t)" "line_ok t" "stream s = c # stream t"
    "sys_reads t = sys_reads s" "fd_open t = fd_open s"
proof -
  let ?i = "unat (m_read s)" and ?n = "unat (m_elem s)"
  define t where "t = s\<lparr>m_read := m_read s + 1, m_elem := m_elem s - 1\<rparr>"
  have n: "0 < ?n" using assms(2) by (simp add: word_less_nat_alt)
  have i: "?i < length (m_buffer s)" "?i + 1 < 256" using assms(1) n by (auto simp: line_ok_def BUFFER_SIZE_def)
  have dec: "unat (m_elem s - 1) = ?n - 1" using assms(2) by (intro unat_minus_one) auto
  have inc: "unat (m_read s + 1) = ?i + 1" using i(2) by (simp add: unat_word_ariths)
  have "take ?n (drop ?i (m_buffer s)) = m_buffer s ! ?i # take (?n - 1) (drop (?i + 1) (m_buffer s))"
    using n i(1) by (simp add: take_Cons' flip: Cons_nth_drop_Suc)
  then have "stream s = m_buffer s ! ?i # stream t" by (simp add: stream_def t_def dec inc)
  moreover have "line_ok t" using assms(1) n by (simp add: line_ok_def t_def dec inc)
  moreover have "peek (m_buffer s) (int ?i) = Inr (m_buffer s ! ?i)"
    unfolding peek_def using i(1) by (simp only: of_nat_0_le_iff of_nat_less_iff nat_int if_True simp_thms)
  then have "next_buffered s = Inr (m_buffer s ! ?i, t)"
    by (simp add: next_buffered_def prog_simps t_def)
  ultimately show ?thesis using that by (simp add: t_def)
qed

lemma stream_empty: "m_elem s = 0 \<Longrightarrow> stream s = concat (map chunk_of (sys_reads s))"
  by (simp add: stream_def)

lemma read_call_run:
  assumes "line_ok s" "m_elem s = 0" "read_call s = Inr (n, t)"
  obtains (silent) r where "sys_reads s = r # sys_reads t" "chunk_of r = []" "line_ok t" "m_elem t = 0"
      "fd_open t = fd_open s" "\<not> n > 0"
  | (chunk) "n > 0" "line_ok (t\<lparr>m_elem := word_of_int n, m_read := 0\<rparr>)" "0 < (word_of_int n :: u8)"
      "stream (t\<lparr>m_elem := word_of_int n, m_read := 0\<rparr>) = stream s" "fd_open t = fd_open s"
proof -
  obtain r later where reads: "sys_reads s = r # later"
    using assms(3) by (cases "sys_reads s") (auto simp: read_call_def)
  show ?thesis
  proof (cases "chunk_of r")
    case Nil
    then have "t = s\<lparr>sys_reads := later\<rparr> \<and> \<not> n > 0"
      using assms(3) reads by (cases r) (auto simp: read_call_def chunk_of_def overlay_def)
    with Nil reads assms(1,2) show ?thesis by (intro silent [of r]) (auto simp: line_ok_def)
  next
    case (Cons b bs)
    let ?chunk = "b # bs"
    have r: "r = Some ?chunk" using Cons by (cases r) (simp_all add: chunk_of_def)
    have len: "length ?chunk \<le> 128" using assms(1) reads r by (auto simp: line_ok_def BUFFER_SIZE_def)
    have t: "n = int (length ?chunk)" "t = s\<lparr>sys_reads := later, m_buffer := overlay ?chunk (m_buffer s)\<rparr>"
      using assms(3) reads r by (auto simp: read_call_def)
    have "unat (word_of_int n :: u8) = length ?chunk"
      unfolding t(1) of_int_of_nat_eq using len by (intro unat_of_nat_u8) simp
    then show ?thesis
      using assms(1,2) reads r len
      by (intro chunk) (auto simp: t line_ok_def BUFFER_SIZE_def overlay_def stream_def chunk_of_def word_less_nat_alt)
  qed
qed

lemma received_run:
  assumes "line_ok s" "m_elem s = 0" "read_call s = Inr (n, u)" "n > 0"
    and "andthen (modify (\<lambda>s. s\<lparr>m_elem := word_of_int n, m_read := 0\<rparr>)) (\<lambda>_.
       andthen next_buffered (\<lambda>c. ret (1, Some c))) u = Inr ((r, c), t)"
  shows "line_ok t \<and> fd_open t = fd_open s \<and> (\<exists>b. c = Some b \<and> r = 1 \<and> stream s = b # stream t)"
  using assms(1-3)
proof (cases rule: read_call_run)
  case chunk
  let ?u = "u\<lparr>m_elem := word_of_int n, m_read := 0\<rparr>"
  have "0 < m_elem ?u" using chunk(3) by simp
  from next_buffered_run [OF chunk(2) this] obtain b v where
    "next_buffered ?u = Inr (b, v)" "line_ok v" "stream ?u = b # stream v" "fd_open v = fd_open ?u" .
  with assms(5) chunk(4,5) show ?thesis by (auto simp: prog_simps)
qed (use assms(4) in simp)

lemma refill_run:
  assumes "line_ok s" "m_elem s = 0" "refill n s = Inr ((r, c), t)"
  shows "line_ok t \<and> fd_open t = fd_open s
    \<and> (case c of
         Some b \<Rightarrow> r = 1 \<and> stream s = b # stream t
       | None \<Rightarrow> r = 0 \<and> stream s = stream t \<and> m_elem t = 0
           \<and> (\<exists>silent. length silent = Suc n \<and> concat (map chunk_of silent) = []
               \<and> sys_reads s = silent @ sys_reads t))"
  using assms
proof (induction n arbitrary: s)
  case 0
  obtain n u where u: "read_call s = Inr (n, u)" using 0(3) by auto
  show ?case
  proof (cases "n > 0")
    case True
    then show ?thesis using received_run [OF 0(1,2) u True] 0(3) u by (auto simp: andthen_def)
  next
    case False
    from 0(1,2) u show ?thesis
    proof (cases rule: read_call_run)
      case (silent x)
      then have "r = 0" "c = None" "t = u" using False 0(3) u by (auto simp: andthen_def ret_def)
      moreover have "stream s = stream u" using silent 0(2) by (simp add: stream_empty)
      ultimately show ?thesis using silent by (auto intro!: exI [of _ "[x]"])
    qed (use False in simp)
  qed
next
  case (Suc m)
  obtain n u where u: "read_call s = Inr (n, u)" using Suc.prems(3) by auto
  show ?case
  proof (cases "n > 0")
    case True
    then show ?thesis using received_run [OF Suc.prems(1,2) u True] Suc.prems(3) u by (auto simp: andthen_def)
  next
    case False
    from Suc.prems(1,2) u show ?thesis
    proof (cases rule: read_call_run)
      case (silent x)
      have "refill m u = Inr ((r, c), t)" using False Suc.prems(3) u by (simp add: andthen_def)
      note rest = Suc.IH [OF silent(3,4) this]
      have "stream s = stream u" using silent Suc.prems(2) by (simp add: stream_empty)
      show ?thesis
      proof (cases c)
        case None
        with rest obtain xs where "length xs = Suc m" "concat (map chunk_of xs) = []" "sys_reads u = xs @ sys_reads t"
          by auto
        with None rest silent \<open>stream s = stream u\<close> show ?thesis by (auto intro!: exI [of _ "x # xs"])
      qed (use rest silent \<open>stream s = stream u\<close> in auto)
    qed (use False in simp)
  qed
qed

text \<open>Calls of \<^const>\<open>Serial_read\<close> with their timeouts; the results are the bytes, \<^const>\<open>None\<close> for a timeout.\<close>

primrec serial_reads :: "u32 list \<Rightarrow> ('z serial_scheme, u8 option list) prog" where
  "serial_reads [] = ret []"
| "serial_reads (timeout # timeouts) =
     andthen (Serial_read timeout) (\<lambda>(r, c). andthen (serial_reads timeouts) (\<lambda>cs. ret (c # cs)))"

lemma serial_read_run:
  assumes "line_ok s" "fd_open s" "Serial_read timeout s = Inr ((r, c), t)"
  shows "line_ok t" "fd_open t"
    and "case c of Some b \<Rightarrow> r = 1 \<and> stream s = b # stream t
       | None \<Rightarrow> r = 0 \<and> stream s = stream t
           \<and> (\<exists>silent. length silent = Suc (unat (read_attempts timeout)) \<and> concat (map chunk_of silent) = []
               \<and> sys_reads s = silent @ sys_reads t)"
proof -
  have "line_ok t \<and> fd_open t \<and> (case c of Some b \<Rightarrow> r = 1 \<and> stream s = b # stream t
       | None \<Rightarrow> r = 0 \<and> stream s = stream t
           \<and> (\<exists>silent. length silent = Suc (unat (read_attempts timeout)) \<and> concat (map chunk_of silent) = []
               \<and> sys_reads s = silent @ sys_reads t))"
  proof (cases "0 < m_elem s")
    case True
    from next_buffered_run [OF assms(1) True] obtain b u where
      "next_buffered s = Inr (b, u)" "line_ok u" "stream s = b # stream u" "fd_open u = fd_open s" .
    with True assms(2,3) show ?thesis by (auto simp: Serial_read_def get_single_char_def prog_simps)
  next
    case False
    then have "refill (unat (read_attempts timeout)) s = Inr ((r, c), t)" "m_elem s = 0"
      using assms(2,3) by (auto simp: Serial_read_def get_single_char_def prog_simps word_gt_0)
    from refill_run [OF assms(1) this(2,1)] assms(2) show ?thesis by (auto split: option.splits)
  qed
  then show "line_ok t" "fd_open t" "case c of Some b \<Rightarrow> r = 1 \<and> stream s = b # stream t
       | None \<Rightarrow> r = 0 \<and> stream s = stream t
           \<and> (\<exists>silent. length silent = Suc (unat (read_attempts timeout)) \<and> concat (map chunk_of silent) = []
               \<and> sys_reads s = silent @ sys_reads t)"
    by simp_all
qed

lemma read_attempts_exact:
  assumes "0 < timeout" "timeout \<le> 6553600"
  shows "Suc (unat (read_attempts timeout)) = (unat timeout + 99) div 100"
proof -
  let ?q = "(timeout + 99) div 100"
  have t: "0 < unat timeout" "unat timeout \<le> 6553600" using assms by (simp_all add: word_less_nat_alt word_le_nat_alt)
  have "unat (timeout + 99) = unat timeout + 99" using t by (simp add: unat_word_ariths)
  then have q: "unat ?q = (unat timeout + 99) div 100" by (simp add: unat_div)
  have b: "0 < unat ?q" "unat ?q \<le> 65536" using t by (simp_all add: q div_greater_zero_iff)
  then have "unat (?q - 1) = unat ?q - 1" by (intro unat_minus_one) auto
  moreover have "unat (ucast (?q - 1) :: u16) = unat (?q - 1)"
    using b calculation by (simp add: unsigned_ucast_eq take_bit_nat_eq_self)
  ultimately show ?thesis using b q by (simp add: read_attempts_def)
qed

text \<open>C13: The local buffer neither loses nor repeats nor reorders bytes: whatever the sizes of the chunks
  that the system hands out, its failures and the timeouts, the bytes returned by a sequence of reads
  followed by those still to come are exactly the stream of the line.\<close>

theorem serial_reads_stream:
  assumes "line_ok s" "fd_open s" "serial_reads timeouts s = Inr (cs, t)"
  shows "stream s = List.map_filter (\<lambda>c. c) cs @ stream t \<and> line_ok t"
  using assms
proof (induction timeouts arbitrary: s cs)
  case (Cons timeout timeouts)
  obtain r c u ds where run: "Serial_read timeout s = Inr ((r, c), u)" "serial_reads timeouts u = Inr (ds, t)" "cs = c # ds"
    using Cons.prems(3) by auto
  note read = serial_read_run [OF Cons.prems(1,2) run(1)]
  from Cons.IH [OF read(1,2) run(2)] read(3) show ?case
    by (auto simp: run(3) List.map_filter_def split: option.splits)
qed (simp add: List.map_filter_def)

text \<open>A read reports a timeout only after the line was silent for the time asked for: one attempt of
  100 ms for each 100 ms begun, up to 6553600 ms. A timeout of 0 is taken for 65536 attempts.\<close>

theorem serial_read_timeout:
  assumes "line_ok s" "fd_open s" "Serial_read timeout s = Inr ((r, None), t)" "timeout \<le> 6553600"
  shows "\<exists>silent. concat (map chunk_of silent) = [] \<and> sys_reads s = silent @ sys_reads t
    \<and> length silent = (if timeout = 0 then 65536 else (unat timeout + 99) div 100)"
proof -
  have "read_attempts 0 = - 1" by (rule bit_word_eqI) (simp add: read_attempts_def bit_simps)
  then have "Suc (unat (read_attempts 0)) = 65536"
    by (simp add: unsigned_minus_1_eq_mask mask_eq_exp_minus_1)
  then show ?thesis
    using serial_read_run(3) [OF assms(1-3)] read_attempts_exact [of timeout] assms(4)
    by (cases "timeout = 0") (auto simp: word_gt_0)
qed

text \<open>A line with two chunks, a silence between them, and a failed call.\<close>

definition some_tty :: termios where
  "some_tty = \<lparr>c_iflag = 0x501, c_oflag = 5, c_cflag = 0x80000d7d, c_lflag = 0x8a3b, c_cc = replicate 32 3,
     c_ispeed = 13, c_ospeed = 13\<rparr>"

definition open_line :: "u8 list option list \<Rightarrow> serial" where
  "open_line reads = \<lparr>fd_open = True, m_port_name = [47, 116], m_bitrate = 115200, m_buffer = replicate 128 0,
     m_elem = 0, m_read = 0, driver_tty = some_tty, driver_serial = \<lparr>ss_flags = 0, ss_rest = []\<rparr>,
     stack_serial = \<lparr>ss_flags = 0xdeadbeef, ss_rest = [9]\<rparr>, sys_ok = [], sys_reads = reads, sys_writes = [], written = []\<rparr>"

theorem serial_reads_stream_witness:
  "\<exists>t. serial_reads [100, 100, 200, 100] (open_line [Some [1, 2], Some [], None, Some [3, 4]])
      = Inr ([Some 1, Some 2, None, Some 3], t)
    \<and> stream (open_line [Some [1, 2], Some [], None, Some [3, 4]]) = [1, 2, 3] @ stream t \<and> stream t = [4]"
proof -
  let ?s = "open_line [Some [1, 2], Some [], None, Some [3, 4]]"
  have ok: "line_ok ?s" "fd_open ?s" by (auto simp: line_ok_def open_line_def BUFFER_SIZE_def)
  have a: "read_attempts 100 = 0" "read_attempts 200 = 1" by (simp_all add: read_attempts_def)
  obtain t where run: "serial_reads [100, 100, 200, 100] ?s = Inr ([Some 1, Some 2, None, Some 3], t)"
    by (simp add: Serial_read_def get_single_char_def a next_buffered_def read_call_def prog_simps
        open_line_def peek_def overlay_def numeral_eq_Suc)
  have "stream ?s = [1, 2, 3, 4]" by (simp add: stream_def open_line_def chunk_of_def)
  with serial_reads_stream [OF ok run] run show ?thesis by (auto simp: List.map_filter_def)
qed

theorem serial_read_timeout_witness:
  "\<exists>t. Serial_read 250 (open_line [Some [], None, Some [], Some [9]]) = Inr ((0, None), t)
    \<and> sys_reads t = [Some [9]]"
proof -
  let ?s = "open_line [Some [], None, Some [], Some [9]]"
  have ok: "line_ok ?s" "fd_open ?s" by (auto simp: line_ok_def open_line_def BUFFER_SIZE_def)
  have a: "unat (read_attempts 250) = Suc (Suc 0)" by (simp add: read_attempts_def)
  obtain t where run: "Serial_read 250 ?s = Inr ((0, None), t)"
    by (simp add: Serial_read_def get_single_char_def a read_call_def prog_simps open_line_def overlay_def)
  have "(250 :: u32) \<le> 6553600" by simp
  from serial_read_timeout [OF ok run this] obtain silent where
    "sys_reads ?s = silent @ sys_reads t" "length silent = 3" by auto
  then have "sys_reads t = drop 3 (sys_reads ?s)" by simp
  then show ?thesis using run by (simp add: open_line_def)
qed

text \<open>A driver that does not report its serial flags.\<close>

theorem port_settings_witness:
  "\<exists>t. Serial_open [47, 116] 125000 ((open_line [])\<lparr>sys_ok := [True, True, True, True, True, False, True]\<rparr>) = Inr (0, t)
    \<and> c_cflag (driver_tty t) = 0x1cb0 \<and> c_iflag (driver_tty t) = 0 \<and> c_ospeed (driver_tty t) = 125000
    \<and> driver_serial t = \<lparr>ss_flags = 0xdeadbeef, ss_rest = [9]\<rparr>"
proof -
  let ?s = "(open_line [])\<lparr>sys_ok := [True, True, True, True, True, False, True]\<rparr>"
  have "length [47 :: u8, 116] < PORT_NAME_SIZE \<and> 7 \<le> length (sys_ok ?s)" by (simp add: PORT_NAME_SIZE_def)
  then obtain r t where run: "Serial_open [47, 116] 125000 ?s = Inr (r, t)" using port_settings by blast
  note facts = mp [OF conjunct2 [OF port_settings] run]
  have "take 5 (sys_ok ?s) = replicate 5 True" by (simp add: numeral_eq_Suc)
  with facts have r: "r = 0" "fd_open t" by (auto split: if_splits)
  with facts obtain got ok where got: "sys_ok ?s = replicate 5 True @ got # ok # sys_ok t"
    "driver_serial t = low_latency got ok (driver_serial ?s) (stack_serial ?s)"
    and tty: "driver_tty t = open_settings 125000 (driver_tty ?s)" by blast
  have "\<not> got" "ok" using got(1) by (simp_all add: numeral_eq_Suc)
  with got(2) have "driver_serial t = \<lparr>ss_flags = 0xdeadbeef, ss_rest = [9]\<rparr>"
    by (simp add: low_latency_def open_line_def ASYNC_LOW_LATENCY_def)
  with run r(1) show ?thesis
    by (simp add: tty open_settings_def open_line_def some_tty_def control_flags input_flags)
qed

end
