(* ===== verification/Slip_Serial.thy ===== *)
theory Slip_Serial
  imports Slip Serial
begin

text \<open>
  SLIP on the serial line: \<^verbatim>\<open>Slip_init\<close> gives \<^verbatim>\<open>slip.c\<close> the functions \<^verbatim>\<open>Serial_write\<close> and
  \<^verbatim>\<open>Serial_read\<close> of \<^verbatim>\<open>serial.c\<close>, which it calls through pointers. The other theories replace these two by
  scripts of results; here the loop runs on the serial line itself. The lemmas show that the two
  agree as long as the port is open, that a frame arrives whole through any division into chunks
  and pauses, and what the loop does on a port that a failed write has closed.
\<close>

section \<open>The functions of SLIP over their two pointers\<close>

type_synonym 's read_f = "u32 \<Rightarrow> ('s, int \<times> u8 option) prog"
type_synonym 's write_f = "u8 list \<Rightarrow> ('s, int) prog"

definition Slip_init :: "'s write_f option \<Rightarrow> 's read_f option \<Rightarrow> int \<times> ('s write_f \<times> 's read_f) option" where
  "Slip_init write read =
     (case (write, read) of
        (Some w, Some r) \<Rightarrow> (0, Some (w, r))
      | _ \<Rightarrow> (WPC_INT_WRONG_PARAM_ERROR, None))"

definition Slip_send_buffer_via :: "'s write_f \<Rightarrow> u8 list \<Rightarrow> ('s, int) prog" where
  "Slip_send_buffer_via write buffer =
     andthen (lift_sum (encode_for_sending buffer)) (\<lambda>encoded.
     andthen (write encoded) (\<lambda>written_size.
     if written_size \<noteq> int (length encoded) then ret WPC_INT_GEN_ERROR else ret 0))"

text \<open>The loop of \<^verbatim>\<open>Slip_get_buffer\<close> with a budget of readings. The byte is read only when the result is 1.\<close>

primrec receive_via ::
  "nat \<Rightarrow> 's read_f \<Rightarrow> u16 \<Rightarrow> nat \<Rightarrow> bool \<Rightarrow> u8 list \<Rightarrow> ('s, int option \<times> u8 list) prog" where
  "receive_via 0 read timeout_ms cap started raw = halt OutOfFuel"
| "receive_via (Suc fuel) read timeout_ms cap started raw =
     andthen (read (ucast timeout_ms)) (\<lambda>(res, byte).
     if res = 0 then ret (Some WPC_INT_TIMEOUT_ERROR, raw)
     else if res < 0 \<or> res > 1 then receive_via fuel read timeout_ms cap started raw
     else
       andthen (lift_sum (case byte of None \<Rightarrow> Inl Indeterminate | Some c \<Rightarrow> Inr c)) (\<lambda>c.
       if c = END_SLIP_OCTET then
         if started then
           if length raw < 4 then receive_via fuel read timeout_ms cap started []
           else ret (None, raw)
         else receive_via fuel read timeout_ms cap True raw
       else if started then
         andthen (require (length raw < cap) Undefined) (\<lambda>_.
         if length raw + 1 > cap then ret (Some WPC_INT_GEN_ERROR, raw @ [c])
         else receive_via fuel read timeout_ms cap started (raw @ [c]))
       else receive_via fuel read timeout_ms cap started raw))"

definition Slip_get_buffer_via :: "nat \<Rightarrow> 's read_f \<Rightarrow> nat \<Rightarrow> u16 \<Rightarrow> ('s, int \<times> u8 list option) prog" where
  "Slip_get_buffer_via fuel read len timeout_ms =
     andthen (receive_via fuel read timeout_ms (MAX_SIZE_ENCODED_BUFFER len) False []) (\<lambda>(err, raw).
     case err of Some e \<Rightarrow> ret (e, None)
     | None \<Rightarrow>
       andthen (lift_sum (Slip_decode raw)) (\<lambda>(decoded_size, decoded).
       ret (decoded_size,
            if decoded_size > 0 \<and> decoded_size \<le> int len
            then Some (take (nat decoded_size) decoded) else None)))"

section \<open>A reader and its results\<close>

text \<open>Successive readings that each bring one byte.\<close>

inductive brings :: "'s read_f \<Rightarrow> u16 \<Rightarrow> 's \<Rightarrow> u8 list \<Rightarrow> 's \<Rightarrow> bool" for read timeout_ms where
  brings_Nil: "brings read timeout_ms s [] s"
| brings_Cons: "read (ucast timeout_ms) s = Inr ((1, Some c), t) \<Longrightarrow> brings read timeout_ms t cs u
    \<Longrightarrow> brings read timeout_ms s (c # cs) u"

inductive_cases brings_ConsE [elim!]: "brings read timeout_ms s (c # cs) u"

text \<open>The loop over the reader does what the loop over the results does.\<close>

lemma receive_via_brings:
  assumes "slip_receive_loop cap started raw (map (Pair 1) cs) = Inr (result, [])"
    and "brings read timeout_ms s cs t" "length cs \<le> fuel"
  shows "receive_via fuel read timeout_ms cap started raw s = Inr (result, t)"
  using assms
proof (induction cs arbitrary: fuel s started raw)
  case (Cons c cs)
  obtain u where u: "read (ucast timeout_ms) s = Inr ((1, Some c), u)" "brings read timeout_ms u cs t"
    using Cons.prems(2) by blast
  obtain f where f: "fuel = Suc f" "length cs \<le> f" using Cons.prems(3) by (cases fuel) auto
  have last: "u = t" if "cs = []" using u(2) that by (auto elim: brings.cases)
  show ?case
    using Cons.prems(1) Cons.IH [OF _ u(2) f(2)] last
    by (auto simp: f u(1) andthen_def ret_def lift_sum_def split: if_splits)
qed simp

section \<open>The reader of the serial line\<close>

text \<open>A line is prompt when among any \<^verbatim>\<open>n + 1\<close> calls of \<^verbatim>\<open>read\<close> in a row one brings bytes.\<close>

definition prompt :: "nat \<Rightarrow> u8 list option list \<Rightarrow> bool" where
  "prompt n reads \<longleftrightarrow> (\<forall>i < length reads - n. \<exists>j < Suc n. chunk_of (reads ! (i + j)) \<noteq> [])"

lemma prompt_suffix:
  assumes "prompt n (xs @ ys)"
  shows "prompt n ys"
  unfolding prompt_def
proof (intro allI impI)
  fix i
  assume "i < length ys - n"
  then have "length xs + i < length (xs @ ys) - n" by simp
  with assms obtain j where "j < Suc n" "chunk_of ((xs @ ys) ! (length xs + i + j)) \<noteq> []"
    unfolding prompt_def by blast
  then show "\<exists>j < Suc n. chunk_of (ys ! (i + j)) \<noteq> []" by (auto simp: nth_append)
qed

lemma prompt_not_silent:
  assumes "prompt n (silent @ ys)" "length silent = Suc n" "concat (map chunk_of silent) = []"
  shows False
proof -
  have "\<exists>j < Suc n. chunk_of ((silent @ ys) ! j) \<noteq> []"
    using assms(1) [unfolded prompt_def, rule_format, of 0] assms(2) by simp
  with assms(2,3) show False by (auto simp: nth_append)
qed

lemma system_reads_suffix: "keeps (\<lambda>s. \<exists>pre. reads = pre @ sys_reads s) (Serial_read timeout)"
proof -
  have next_byte: "keeps (\<lambda>s. \<exists>pre. reads = pre @ sys_reads s) next_buffered"
    unfolding next_buffered_def by (intro keeps_intros) auto
  have "keeps (\<lambda>s. \<exists>pre. reads = pre @ sys_reads s) read_call"
    by (rule keepsI) (auto simp: read_call_def split: list.splits option.splits)
  then have "keeps (\<lambda>s. \<exists>pre. reads = pre @ sys_reads s) (refill n)" for n
    by (induction n) (auto intro!: keeps_intros next_byte)
  then show ?thesis
    unfolding Serial_read_def get_single_char_def by (auto intro!: keeps_intros next_byte)
qed

lemma next_buffered_returns: "line_ok s \<Longrightarrow> 0 < m_elem s \<Longrightarrow> \<exists>b t. next_buffered s = Inr (b, t)"
  by (erule next_buffered_run) auto

lemma refill_returns:
  assumes "line_ok s" "m_elem s = 0" "stream s \<noteq> []"
  shows "\<exists>p t. refill n s = Inr (p, t)"
  using assms
proof (induction n arbitrary: s)
  case 0
  then obtain x xs where "sys_reads s = x # xs" by (cases "sys_reads s") (auto simp: stream_empty)
  then obtain k u where u: "read_call s = Inr (k, u)" by (cases x) (auto simp: read_call_def)
  from 0(1,2) u show ?case
  proof (cases rule: read_call_run)
    case silent
    with u show ?thesis by (auto simp: andthen_def ret_def)
  next
    case chunk
    from next_buffered_returns [OF chunk(2)] chunk(3) obtain b v where
      "next_buffered (u\<lparr>m_elem := word_of_int k, m_read := 0\<rparr>) = Inr (b, v)" by auto
    with u chunk(1) show ?thesis by (auto simp: andthen_def modify_def ret_def)
  qed
next
  case (Suc n)
  then obtain x xs where "sys_reads s = x # xs" by (cases "sys_reads s") (auto simp: stream_empty)
  then obtain k u where u: "read_call s = Inr (k, u)" by (cases x) (auto simp: read_call_def)
  from Suc.prems(1,2) u show ?case
  proof (cases rule: read_call_run)
    case (silent r)
    then have "stream u = stream s" using Suc.prems(2) by (simp add: stream_empty)
    with Suc.IH [OF silent(3,4)] Suc.prems(3) obtain p v where "refill n u = Inr (p, v)" by auto
    with u silent(6) show ?thesis by (auto simp: andthen_def)
  next
    case chunk
    from next_buffered_returns [OF chunk(2)] chunk(3) obtain b v where
      "next_buffered (u\<lparr>m_elem := word_of_int k, m_read := 0\<rparr>) = Inr (b, v)" by auto
    with u chunk(1) show ?thesis by (auto simp: andthen_def modify_def ret_def)
  qed
qed

lemma prompt_read:
  assumes "line_ok s" "fd_open s" "stream s = c # cs" "prompt (unat (read_attempts timeout)) (sys_reads s)"
  obtains t where "Serial_read timeout s = Inr ((1, Some c), t)" "line_ok t" "fd_open t" "stream t = cs"
    "prompt (unat (read_attempts timeout)) (sys_reads t)"
proof -
  have "\<exists>p t. Serial_read timeout s = Inr (p, t)"
  proof (cases "0 < m_elem s")
    case True
    from next_buffered_returns [OF assms(1) this] obtain b t where "next_buffered s = Inr (b, t)" by blast
    with True assms(2) show ?thesis by (simp add: Serial_read_def get_single_char_def prog_simps)
  next
    case False
    then have empty: "m_elem s = 0" by (simp add: word_gt_0)
    obtain p t where "refill (unat (read_attempts timeout)) s = Inr (p, t)"
      using refill_returns [OF assms(1) empty] assms(3) by (metis list.distinct(1))
    with empty assms(2) show ?thesis by (simp add: Serial_read_def get_single_char_def prog_simps)
  qed
  then obtain r b t where run: "Serial_read timeout s = Inr ((r, b), t)" by auto
  note read = serial_read_run [OF assms(1,2) run]
  obtain pre where pre: "sys_reads s = pre @ sys_reads t"
    using keepsD [OF system_reads_suffix [where reads = "sys_reads s"] _ run] by auto
  have "b \<noteq> None"
  proof
    assume "b = None"
    with read(3) obtain silent where "length silent = Suc (unat (read_attempts timeout))"
      "concat (map chunk_of silent) = []" "sys_reads s = silent @ sys_reads t" by auto
    with assms(4) show False using prompt_not_silent by metis
  qed
  with read assms(3) have "r = 1" "b = Some c" "stream t = cs" by auto
  with run read(1,2) that show ?thesis using prompt_suffix assms(4) pre by metis
qed

lemma serial_brings:
  assumes "line_ok s" "fd_open s" "stream s = cs @ rest" "prompt (unat (read_attempts (ucast timeout))) (sys_reads s)"
  shows "\<exists>t. brings Serial_read timeout s cs t \<and> line_ok t \<and> fd_open t \<and> stream t = rest"
  using assms
proof (induction cs arbitrary: s)
  case Nil
  then show ?case using brings_Nil by fastforce
next
  case (Cons c cs)
  have "stream s = c # (cs @ rest)" using Cons.prems(3) by simp
  from prompt_read [OF Cons.prems(1,2) this Cons.prems(4)] obtain t where
    t: "Serial_read (ucast timeout) s = Inr ((1, Some c), t)" "line_ok t" "fd_open t" "stream t = cs @ rest"
    "prompt (unat (read_attempts (ucast timeout))) (sys_reads t)" .
  from Cons.IH [OF t(2-5)] t(1) show ?case by (blast intro: brings_Cons)
qed

section \<open>Messages on the serial line\<close>

text \<open>C28: A message crosses the serial line unchanged. It is written with one call; and when its bytes
  arrive after any noise without END octets, in chunks of any sizes, with failed calls and pauses
  shorter than the timeout between them, \<^verbatim>\<open>Slip_get_buffer\<close> on \<^verbatim>\<open>Serial_read\<close> returns exactly the message
  after at most one reading for each byte, and leaves the bytes behind it for the next call.\<close>

theorem message_over_serial:
  assumes "2 \<le> length bs" "length bs \<le> 253" "length bs \<le> len"
    and "length (escape bs) < 256" "length (slip_frame bs) \<le> 2 * length bs + 2" "END_SLIP_OCTET \<notin> set noise"
    and "fd_open s" "sys_writes s = int (length (wire_frame bs)) # wr"
    and "line_ok r" "fd_open r" "stream r = (noise @ wire_frame bs) @ rest"
    and "prompt (unat (read_attempts (ucast timeout))) (sys_reads r)" "length (noise @ wire_frame bs) \<le> fuel"
  shows "Slip_send_buffer_via Serial_write bs s
      = Inr (0, s\<lparr>sys_writes := wr, written := written s @ [wire_frame bs]\<rparr>)
    \<and> (\<exists>t. Slip_get_buffer_via fuel Serial_read len timeout r = Inr ((int (length bs), Some bs), t)
        \<and> stream t = rest \<and> line_ok t \<and> fd_open t)"
proof -
  have "encode_for_sending bs = Inr (wire_frame bs)" using assms(1-5) by (intro encode_for_sending_correct)
  then have "Slip_send_buffer_via Serial_write bs s
      = Inr (0, s\<lparr>sys_writes := wr, written := written s @ [wire_frame bs]\<rparr>)"
    using assms(7,8) by (simp add: Slip_send_buffer_via_def Serial_write_def write_call_def prog_simps)
  moreover obtain t where t: "brings Serial_read timeout r (noise @ wire_frame bs) t" "line_ok t" "fd_open t" "stream t = rest"
    using serial_brings [OF assms(9-12)] by blast
  have "slip_receive_loop (MAX_SIZE_ENCODED_BUFFER len) False [] (map (Pair 1) (noise @ wire_frame bs) @ [])
      = Inr ((None, slip_frame bs), [])"
    using assms(1-6) by (intro receive_wire_frame) (simp_all add: MAX_SIZE_ENCODED_BUFFER_def)
  then have "receive_via fuel Serial_read timeout (MAX_SIZE_ENCODED_BUFFER len) False [] r = Inr ((None, slip_frame bs), t)"
    using receive_via_brings [OF _ t(1) assms(13)] by simp
  moreover obtain buf where "Slip_decode (slip_frame bs) = Inr (int (length bs), buf)" "take (length bs) buf = bs"
    using Slip_decode_correct [of bs] assms(2) by auto
  moreover have "0 < int (length bs)" using assms(1) by (cases bs) auto
  ultimately show ?thesis using t(2-4) assms(3) by (simp add: Slip_get_buffer_via_def prog_simps)
qed

text \<open>C39: A write that fails closes the port. The next reading does not reopen it and is no timeout: the
  receive loop takes the result -1 for a reading to repeat, and never returns. The poll for indications
  ignores the result of its response and then receives, so it hangs when the node is unplugged.\<close>

theorem receive_spins_after_failed_write:
  assumes "fd_open s" "encode_for_sending bs = Inr encoded" "encoded \<noteq> []"
    and "sys_writes s = w # writes" "w < 0" "sys_ok s = True # oks"
  shows "\<exists>t. Slip_send_buffer_via Serial_write bs s = Inr (WPC_INT_GEN_ERROR, t) \<and> \<not> fd_open t
    \<and> (\<forall>fuel len timeout. Slip_get_buffer_via fuel Serial_read len timeout t = Inl OutOfFuel)"
proof -
  let ?t = "s\<lparr>sys_writes := writes, written := written s @ [encoded], sys_ok := oks, fd_open := False\<rparr>"
  have "Slip_send_buffer_via Serial_write bs s = Inr (WPC_INT_GEN_ERROR, ?t)"
    using assms by (simp add: Slip_send_buffer_via_def Serial_write_def Serial_close_def system_call_def write_call_def prog_simps)
  moreover have "receive_via fuel Serial_read timeout cap started raw ?t = Inl OutOfFuel" for fuel timeout cap started raw
    by (induction fuel) (simp_all add: Serial_read_def prog_simps)
  then have "Slip_get_buffer_via fuel Serial_read len timeout ?t = Inl OutOfFuel" for fuel len timeout
    by (simp add: Slip_get_buffer_via_def andthen_stop)
  ultimately show ?thesis by (intro exI [of _ ?t]) simp
qed

section \<open>Examples\<close>

text \<open>A poll confirm, with noise before it, in three chunks with a failed call and a pause.\<close>

definition confirm_bytes_example :: "u8 list" where
  "confirm_bytes_example = [0x84, 0xC0, 1, 0]"

lemma confirm_wire:
  "length (slip_frame confirm_bytes_example) \<le> 10" "length (escape confirm_bytes_example) < 256"
  by (simp_all add: confirm_bytes_example_def slip_frame_def escape1.simps crc16_def crc_step_def
      crc_ccitt_lut_def uint16_encode_le_def)

theorem message_over_serial_witness:
  "\<exists>t. Slip_get_buffer_via 300 Serial_read 206 500
      (open_line [Some [0, 7], None, Some (take 5 (wire_frame confirm_bytes_example)), Some [],
        Some (drop 5 (wire_frame confirm_bytes_example))]) = Inr ((4, Some confirm_bytes_example), t)"
proof -
  let ?bs = "confirm_bytes_example" and ?w = "wire_frame confirm_bytes_example"
  let ?r = "open_line [Some [0, 7], None, Some (take 5 ?w), Some [], Some (drop 5 ?w)]"
  let ?s = "(open_line [])\<lparr>sys_writes := [int (length ?w)]\<rparr>"
  have n: "length ?bs = 4" by (simp add: confirm_bytes_example_def)
  have w: "length ?w \<le> 14" using confirm_wire(1) by (simp add: wire_frame_def)
  have "line_ok ?r" "fd_open ?r" using w by (auto simp: line_ok_def open_line_def BUFFER_SIZE_def)
  moreover have "stream ?r = ([0, 7] @ ?w) @ []" by (simp add: stream_def open_line_def chunk_of_def)
  moreover have "unat (read_attempts (ucast (500 :: u16))) = 4" by (simp add: read_attempts_def)
  then have "prompt (unat (read_attempts (ucast (500 :: u16)))) (sys_reads ?r)"
    by (auto simp: prompt_def open_line_def chunk_of_def intro: exI [of _ 0])
  moreover have "END_SLIP_OCTET \<notin> set [0, 7]" by simp
  moreover have "fd_open ?s" "sys_writes ?s = int (length ?w) # []" by (simp_all add: open_line_def)
  ultimately show ?thesis
    using message_over_serial [of ?bs 206 "[0, 7]" ?s "[]" ?r "[]" 500 300] n w confirm_wire by auto
qed

theorem receive_spins_after_failed_write_witness:
  "\<exists>t. Slip_send_buffer_via Serial_write confirm_bytes_example ((open_line [])\<lparr>sys_writes := [-1], sys_ok := [True]\<rparr>)
      = Inr (WPC_INT_GEN_ERROR, t) \<and> \<not> fd_open t \<and> Slip_get_buffer_via 1000000 Serial_read 206 500 t = Inl OutOfFuel"
proof -
  have "encode_for_sending confirm_bytes_example = Inr (wire_frame confirm_bytes_example)"
    using confirm_wire by (intro encode_for_sending_correct) (simp_all add: confirm_bytes_example_def)
  moreover have "wire_frame confirm_bytes_example \<noteq> []" by (simp add: wire_frame_def)
  ultimately show ?thesis
    using receive_spins_after_failed_write [of "(open_line [])\<lparr>sys_writes := [-1], sys_ok := [True]\<rparr>"
        confirm_bytes_example "wire_frame confirm_bytes_example" "-1" "[]" "[]"]
    by (auto simp: open_line_def)
qed

end
