(* ===== verification/Logger.thy ===== *)
theory Logger
  imports Mesh_Prelude
begin

text \<open>
  The logger, \<^verbatim>\<open>lib/platform/linux/logger.c\<close> and \<^verbatim>\<open>lib/api/logger.h\<close>: the table of logging modules with
  their levels, the pointer to its level that each source file caches, and the lines that are printed.
  A C string is the list of its bytes, an array of characters a list that a zero may end early. The
  local time comes from a script. The message is what \<^verbatim>\<open>vprintf\<close> makes of the format and its arguments.

  The lemmas show that the table with its cached pointers refines a map from names to levels: what
  each file prints depends on the calls that set levels as the header documents.
\<close>

section \<open>State\<close>

definition MAX_LOG_MODULE_NAME_LENGTH :: nat where "MAX_LOG_MODULE_NAME_LENGTH = 32"
definition MAX_LOG_MODULE_COUNT :: nat where "MAX_LOG_MODULE_COUNT = 50"

definition DEBUG_LOG_LEVEL :: int where "DEBUG_LOG_LEVEL = 3"
definition INFO_LOG_LEVEL :: int where "INFO_LOG_LEVEL = 2"
definition WARNING_LOG_LEVEL :: int where "WARNING_LOG_LEVEL = 1"
definition ERROR_LOG_LEVEL :: int where "ERROR_LOG_LEVEL = 0"
definition NO_LOG_LEVEL :: int where "NO_LOG_LEVEL = -1"

definition ascii :: "string \<Rightarrow> u8 list" where
  "ascii = map of_char"

record LoggingModule =
  is_initialized :: bool
  mod_level :: int
  mod_name :: "u8 list"

text \<open>What \<^verbatim>\<open>Platform_get_logging_module_level\<close> returns: the address of the level of an entry of the
  table, or of the fallback module.\<close>

datatype level_pointer = Module_level nat | Fallback_level

text \<open>A source file that includes \<^verbatim>\<open>logger.h\<close>, with its two macros.\<close>

record log_unit =
  unit_file :: nat
  LOG_MODULE_NAME :: "u8 list"
  MAX_LOG_LEVEL :: int

record local_time =
  tm_year :: int
  tm_mon :: int
  tm_mday :: int
  tm_hour :: int
  tm_min :: int
  tm_sec :: int
  tv_nsec :: nat

record logger =
  m_logging_modules :: "LoggingModule list"
  m_fallback_level :: int
  m_global_log_level :: int
  m_is_global_log_level_set :: bool
  m_logging_modules_locked :: bool
  unit_level :: "log_unit \<Rightarrow> level_pointer option"
  local_times :: "local_time list"
  printed :: "u8 list"

definition initial_logger :: "local_time list \<Rightarrow> logger" where
  "initial_logger readings = \<lparr>
     m_logging_modules = replicate MAX_LOG_MODULE_COUNT
       \<lparr>is_initialized = False, mod_level = 0, mod_name = replicate MAX_LOG_MODULE_NAME_LENGTH 0\<rparr>,
     m_fallback_level = NO_LOG_LEVEL, m_global_log_level = NO_LOG_LEVEL, m_is_global_log_level_set = False,
     m_logging_modules_locked = False, unit_level = (\<lambda>_. None), local_times = readings, printed = []\<rparr>"

section \<open>Strings of the standard library\<close>

definition c_string :: "u8 list \<Rightarrow> u8 list" where
  "c_string = takeWhile (\<lambda>b. b \<noteq> 0)"

definition strnlen :: "u8 list \<Rightarrow> nat \<Rightarrow> nat" where
  "strnlen str n = length (c_string (take n str))"

definition strncmp_equal :: "u8 list \<Rightarrow> u8 list \<Rightarrow> nat \<Rightarrow> bool" where
  "strncmp_equal str str' n \<longleftrightarrow> c_string (take n str) = c_string (take n str')"

definition strncpy :: "u8 list \<Rightarrow> nat \<Rightarrow> u8 list" where
  "strncpy src n = take n (c_string src @ replicate n 0)"

section \<open>The table of modules\<close>

definition lock_modules :: "(logger, unit) prog" where
  "lock_modules =
     andthen (gets m_logging_modules_locked) (\<lambda>locked.
     andthen (require (\<not> locked) Blocked) (\<lambda>_. modify (\<lambda>s. s\<lparr>m_logging_modules_locked := True\<rparr>)))"

definition unlock_modules :: "(logger, unit) prog" where
  "unlock_modules = modify (\<lambda>s. s\<lparr>m_logging_modules_locked := False\<rparr>)"

definition is_logging_module_name_length_valid :: "u8 list \<Rightarrow> bool" where
  "is_logging_module_name_length_valid name \<longleftrightarrow>
     strnlen name MAX_LOG_MODULE_NAME_LENGTH \<noteq> MAX_LOG_MODULE_NAME_LENGTH"

text \<open>The loops over the table end at the first entry that fits.\<close>

primrec first_index :: "('a \<Rightarrow> bool) \<Rightarrow> 'a list \<Rightarrow> nat option" where
  "first_index P [] = None"
| "first_index P (x # xs) = (if P x then Some 0 else map_option Suc (first_index P xs))"

definition get_logging_module :: "u8 list \<Rightarrow> (logger, nat option) prog" where
  "get_logging_module name =
     (if \<not> is_logging_module_name_length_valid name then ret None
      else gets (\<lambda>s. first_index (\<lambda>m. is_initialized m
             \<and> strncmp_equal (mod_name m) name MAX_LOG_MODULE_NAME_LENGTH) (m_logging_modules s)))"

definition register_logging_module :: "u8 list \<Rightarrow> int \<Rightarrow> (logger, nat option) prog" where
  "register_logging_module name default_level =
     (if \<not> is_logging_module_name_length_valid name then ret None
      else
        andthen (gets (\<lambda>s. first_index (\<lambda>m. \<not> is_initialized m) (m_logging_modules s))) (\<lambda>i.
        case i of
          None \<Rightarrow> ret None
        | Some i \<Rightarrow>
            andthen (modify (\<lambda>s. s\<lparr>m_logging_modules := (m_logging_modules s)[i :=
              \<lparr>is_initialized = True, mod_level = default_level,
               mod_name = strncpy name MAX_LOG_MODULE_NAME_LENGTH\<rparr>]\<rparr>)) (\<lambda>_. ret (Some i))))"

definition set_level_of :: "nat \<Rightarrow> int \<Rightarrow> logger \<Rightarrow> logger" where
  "set_level_of i level s = s\<lparr>m_logging_modules := (m_logging_modules s)[i :=
     (m_logging_modules s ! i)\<lparr>mod_level := level\<rparr>]\<rparr>"

definition Platform_set_log_level :: "int \<Rightarrow> (logger, int) prog" where
  "Platform_set_log_level level =
     andthen lock_modules (\<lambda>_.
     andthen (modify (\<lambda>s. s\<lparr>m_global_log_level := level, m_is_global_log_level_set := True\<rparr>)) (\<lambda>_.
     andthen (modify (\<lambda>s. s\<lparr>m_logging_modules :=
       map (\<lambda>m. if is_initialized m then m\<lparr>mod_level := level\<rparr> else m) (m_logging_modules s)\<rparr>)) (\<lambda>_.
     andthen unlock_modules (\<lambda>_. ret 0))))"

definition Platform_set_module_log_level :: "u8 list \<Rightarrow> int \<Rightarrow> (logger, int) prog" where
  "Platform_set_module_log_level name level =
     andthen lock_modules (\<lambda>_.
     andthen (get_logging_module name) (\<lambda>module.
     andthen (if module = None then register_logging_module name level else ret module) (\<lambda>module.
     case module of
       None \<Rightarrow> andthen unlock_modules (\<lambda>_. ret (-1))
     | Some i \<Rightarrow> andthen (modify (set_level_of i level)) (\<lambda>_. andthen unlock_modules (\<lambda>_. ret 0)))))"

definition Platform_get_logging_module_level :: "u8 list \<Rightarrow> int \<Rightarrow> (logger, level_pointer) prog" where
  "Platform_get_logging_module_level name default_level =
     andthen lock_modules (\<lambda>_.
     andthen (get_logging_module name) (\<lambda>module.
     andthen (if module = None then
         andthen (gets (\<lambda>s. if m_is_global_log_level_set s then m_global_log_level s else default_level))
           (register_logging_module name)
       else ret module) (\<lambda>module.
     andthen unlock_modules (\<lambda>_.
     ret (case module of None \<Rightarrow> Fallback_level | Some i \<Rightarrow> Module_level i)))))"

section \<open>Printing\<close>

text \<open>Conversions of \<^verbatim>\<open>printf\<close>: decimal with leading zeros up to a width, and two hexadecimal digits.\<close>

fun digits :: "nat \<Rightarrow> u8 list" where
  "digits n = (if n < 10 then [of_nat (48 + n)] else digits (n div 10) @ [of_nat (48 + n mod 10)])"

declare digits.simps [simp del]

definition zero_padded :: "nat \<Rightarrow> int \<Rightarrow> u8 list" where
  "zero_padded width i =
     (let sign = (if i < 0 then ascii ''-'' else []); number = digits (nat \<bar>i\<bar>)
      in sign @ replicate (width - length sign - length number) 48 @ number)"

definition hex_digit :: "u8 \<Rightarrow> u8" where
  "hex_digit d = (if d < 10 then 48 + d else 87 + d)"

definition two_hex_digits :: "u8 \<Rightarrow> u8 list" where
  "two_hex_digits b = [hex_digit (b div 16), hex_digit (b mod 16)]"

definition printf :: "u8 list \<Rightarrow> (logger, unit) prog" where
  "printf text = modify (\<lambda>s. s\<lparr>printed := printed s @ text\<rparr>)"

definition timestamp_text :: "local_time \<Rightarrow> u8 list" where
  "timestamp_text t =
     zero_padded 4 (tm_year t + 1900) @ ascii ''-'' @ zero_padded 2 (tm_mon t + 1) @ ascii ''-''
       @ zero_padded 2 (tm_mday t) @ ascii '' '' @ zero_padded 2 (tm_hour t) @ ascii '':''
       @ zero_padded 2 (tm_min t) @ ascii '':'' @ zero_padded 2 (tm_sec t) @ ascii '',''
       @ zero_padded 3 (int (unat (of_nat (tv_nsec t div 1000000) :: u16)))"

text \<open>The text and its terminating zero go into an array of 50 characters.\<close>

definition get_timestamp :: "(logger, u8 list) prog" where
  "get_timestamp s =
     (case local_times s of
        [] \<Rightarrow> Inl Blocked
      | t # later \<Rightarrow> andthen (require (length (timestamp_text t) < 50) Undefined)
          (\<lambda>_. ret (timestamp_text t)) (s\<lparr>local_times := later\<rparr>))"

text \<open>For another letter the address of the parameter itself is taken for a string, which no zero
  ends.\<close>

definition full_level :: "u8 \<Rightarrow> stop + u8 list" where
  "full_level level =
     (if [level] = ascii ''D'' then Inr (ascii ''DEBUG'')
      else if [level] = ascii ''I'' then Inr (ascii ''INFO'')
      else if [level] = ascii ''W'' then Inr (ascii ''WARNING'')
      else if [level] = ascii ''E'' then Inr (ascii ''ERROR'')
      else if level = 0 then Inr [] else Inl Undefined)"

definition print_prefix :: "u8 \<Rightarrow> u8 list \<Rightarrow> (logger, unit) prog" where
  "print_prefix level module =
     andthen get_timestamp (\<lambda>timestamp.
     andthen (lift_sum (full_level level)) (\<lambda>full.
     printf (timestamp @ ascii '' | ['' @ full @ ascii ''] '' @ c_string module @ ascii '':'')))"

definition Platform_LOG :: "u8 \<Rightarrow> u8 list \<Rightarrow> u8 list \<Rightarrow> (logger, unit) prog" where
  "Platform_LOG level module message = andthen (print_prefix level module) (\<lambda>_. printf message)"

primrec print_bytes :: "u8 list \<Rightarrow> nat \<Rightarrow> nat \<Rightarrow> (logger, unit) prog" where
  "print_bytes buffer i 0 = ret ()"
| "print_bytes buffer i (Suc n) =
     andthen (lift_sum (peek buffer (int i))) (\<lambda>b.
     andthen (printf (two_hex_digits b @ ascii '' '')) (\<lambda>_.
     andthen (if i mod 16 = 15 then printf [10] else ret ()) (\<lambda>_. print_bytes buffer (Suc i) n)))"

definition Platform_print_buffer :: "u8 list \<Rightarrow> int \<Rightarrow> (logger, unit) prog" where
  "Platform_print_buffer buffer count = andthen (print_bytes buffer 0 (nat count)) (\<lambda>_. printf [10])"

section \<open>The functions that each file gets from the header\<close>

definition level_at :: "level_pointer \<Rightarrow> (logger, int) prog" where
  "level_at p =
     (case p of
        Module_level i \<Rightarrow> andthen (gets m_logging_modules) (\<lambda>ms.
          andthen (require (i < length ms) Undefined) (\<lambda>_. ret (mod_level (ms ! i))))
      | Fallback_level \<Rightarrow> gets m_fallback_level)"

definition get_module_log_level :: "log_unit \<Rightarrow> (logger, int) prog" where
  "get_module_log_level u =
     andthen (gets (\<lambda>s. unit_level s u)) (\<lambda>p.
     andthen (case p of
         None \<Rightarrow>
           andthen (Platform_get_logging_module_level (LOG_MODULE_NAME u) (MAX_LOG_LEVEL u)) (\<lambda>p.
           andthen (modify (\<lambda>s. s\<lparr>unit_level := (unit_level s)(u := Some p)\<rparr>)) (\<lambda>_. ret p))
       | Some p \<Rightarrow> ret p) level_at)"

definition log_function :: "u8 \<Rightarrow> int \<Rightarrow> log_unit \<Rightarrow> u8 list \<Rightarrow> (logger, unit) prog" where
  "log_function prefix log_level u message =
     andthen (get_module_log_level u) (\<lambda>level.
     if level \<ge> log_level then Platform_LOG prefix (LOG_MODULE_NAME u) message else ret ())"

definition LOGD :: "log_unit \<Rightarrow> u8 list \<Rightarrow> (logger, unit) prog" where
  "LOGD = log_function 68 DEBUG_LOG_LEVEL"

definition LOGI :: "log_unit \<Rightarrow> u8 list \<Rightarrow> (logger, unit) prog" where
  "LOGI = log_function 73 INFO_LOG_LEVEL"

definition LOGW :: "log_unit \<Rightarrow> u8 list \<Rightarrow> (logger, unit) prog" where
  "LOGW = log_function 87 WARNING_LOG_LEVEL"

definition LOGE :: "log_unit \<Rightarrow> u8 list \<Rightarrow> (logger, unit) prog" where
  "LOGE = log_function 69 ERROR_LOG_LEVEL"

section \<open>The levels of the modules\<close>

text \<open>What the table promises: a level for each registered name, at most 50 of them, and the level set for
  all modules, which those registered later start with.\<close>

record levels =
  level_of :: "u8 list \<Rightarrow> int option"
  level_for_all :: "int option"

definition registrable :: "u8 list \<Rightarrow> levels \<Rightarrow> bool" where
  "registrable n L \<longleftrightarrow> length n < 32 \<and> (n \<in> dom (level_of L) \<or> card (dom (level_of L)) < 50)"

definition set_all :: "int \<Rightarrow> levels \<Rightarrow> levels" where
  "set_all l L = \<lparr>level_of = map_option (\<lambda>_. l) \<circ> level_of L, level_for_all = Some l\<rparr>"

definition set_one :: "u8 list \<Rightarrow> int \<Rightarrow> levels \<Rightarrow> levels" where
  "set_one n l L = (if registrable n L then L\<lparr>level_of := (level_of L)(n \<mapsto> l)\<rparr> else L)"

definition level_used :: "u8 list \<Rightarrow> int \<Rightarrow> levels \<Rightarrow> int" where
  "level_used n fallback L =
     (case level_of L n of
        Some l \<Rightarrow> l
      | None \<Rightarrow> if registrable n L then (case level_for_all L of Some l \<Rightarrow> l | None \<Rightarrow> fallback) else NO_LOG_LEVEL)"

definition entries :: "LoggingModule list \<Rightarrow> (u8 list \<times> int) list" where
  "entries ms = map (\<lambda>m. (c_string (mod_name m), mod_level m)) (filter is_initialized ms)"

definition levels_of :: "logger \<Rightarrow> levels" where
  "levels_of s = \<lparr>level_of = map_of (entries (m_logging_modules s)),
     level_for_all = (if m_is_global_log_level_set s then Some (m_global_log_level s) else None)\<rparr>"

definition pointer_ok :: "LoggingModule list \<Rightarrow> u8 list \<Rightarrow> level_pointer \<Rightarrow> bool" where
  "pointer_ok ms n p \<longleftrightarrow>
     (case p of
        Module_level i \<Rightarrow> i < length ms \<and> is_initialized (ms ! i) \<and> c_string (mod_name (ms ! i)) = n
      | Fallback_level \<Rightarrow> 32 \<le> length n \<or> n \<notin> fst ` set (entries ms) \<and> (\<forall>m \<in> set ms. is_initialized m))"

definition table_ok :: "LoggingModule list \<Rightarrow> bool" where
  "table_ok ms \<longleftrightarrow> length ms = 50 \<and> distinct (map fst (entries ms))
     \<and> (\<forall>m \<in> set ms. is_initialized m \<longrightarrow> length (c_string (mod_name m)) < 32)"

definition logger_ok :: "logger \<Rightarrow> bool" where
  "logger_ok s \<longleftrightarrow> table_ok (m_logging_modules s) \<and> m_fallback_level s = NO_LOG_LEVEL
     \<and> \<not> m_logging_modules_locked s
     \<and> (\<forall>u p. unit_level s u = Some p \<longrightarrow> pointer_ok (m_logging_modules s) (c_string (LOG_MODULE_NAME u)) p)"

lemma c_string_take: "c_string (take n str) = take n (c_string str)"
  by (induction str arbitrary: n) (auto simp: c_string_def take_Cons' split: nat.splits)

lemma c_string_no_zero: "b \<in> set (c_string str) \<Longrightarrow> b \<noteq> 0"
  using set_takeWhileD [of b "\<lambda>b. b \<noteq> 0" str] by (simp add: c_string_def)

lemma c_string_idem [simp]: "c_string (c_string str) = c_string str"
  using c_string_no_zero by (auto simp: c_string_def)

lemma c_string_zeros [simp]: "c_string (c_string str @ replicate n 0) = c_string str"
proof -
  have "c_string (c_string str @ zs) = c_string str @ c_string zs" for zs
    using c_string_no_zero [of _ str] by (simp add: c_string_def)
  then show ?thesis by (cases n) (simp_all add: c_string_def)
qed

lemma valid_name: "is_logging_module_name_length_valid name \<longleftrightarrow> length (c_string name) < 32"
  by (auto simp: is_logging_module_name_length_valid_def strnlen_def c_string_take MAX_LOG_MODULE_NAME_LENGTH_def)

lemma same_name:
  "length (c_string xs) < 32 \<Longrightarrow> length (c_string ys) < 32
    \<Longrightarrow> strncmp_equal xs ys MAX_LOG_MODULE_NAME_LENGTH \<longleftrightarrow> c_string xs = c_string ys"
  by (simp add: strncmp_equal_def c_string_take MAX_LOG_MODULE_NAME_LENGTH_def)

lemma stored_name:
  assumes "length (c_string name) < 32"
  shows "c_string (strncpy name 32) = c_string name" "length (strncpy name 32) = 32"
proof -
  have "strncpy name 32 = c_string name @ replicate (32 - length (c_string name)) 0"
    using assms by (simp add: strncpy_def min_def)
  then show "c_string (strncpy name 32) = c_string name" by simp
  show "length (strncpy name 32) = 32" by (simp add: strncpy_def)
qed

lemma first_index_SomeE:
  assumes "first_index P xs = Some i"
  obtains ys y zs where "xs = ys @ y # zs" "length ys = i" "P y" "\<forall>x \<in> set ys. \<not> P x"
proof -
  have "\<exists>ys y zs. xs = ys @ y # zs \<and> length ys = i \<and> P y \<and> (\<forall>x \<in> set ys. \<not> P x)"
    using assms
  proof (induction xs arbitrary: i)
    case (Cons x xs)
    show ?case
    proof (cases "P x")
      case True
      with Cons.prems show ?thesis by (intro exI [of _ "[]"]) simp
    next
      case False
      with Cons.prems obtain j where "first_index P xs = Some j" "i = Suc j" by auto
      with Cons.IH obtain ys y zs where "xs = ys @ y # zs" "length ys = j" "P y" "\<forall>x \<in> set ys. \<not> P x"
        by blast
      with False \<open>i = Suc j\<close> show ?thesis by (intro exI [of _ "x # ys"]) simp
    qed
  qed simp
  with that show ?thesis by blast
qed

lemma first_index_None: "first_index P xs = None \<longleftrightarrow> (\<forall>x \<in> set xs. \<not> P x)"
  by (induction xs) auto

lemma entries_simps [simp]:
  "entries [] = []"
  "entries (m # ms) = (if is_initialized m then (c_string (mod_name m), mod_level m) # entries ms else entries ms)"
  "entries (ms @ ms') = entries ms @ entries ms'"
  by (simp_all add: entries_def)

lemma entries_names: "fst ` set (entries ms) = (c_string \<circ> mod_name) ` {m \<in> set ms. is_initialized m}"
  by (force simp: entries_def)

lemma all_names: "\<forall>m \<in> set ms. is_initialized m \<Longrightarrow> fst ` set (entries ms) = c_string ` set (map mod_name ms)"
  by (auto simp: entries_names)

lemma entries_set_all:
  "entries (map (\<lambda>m. if is_initialized m then m\<lparr>mod_level := l\<rparr> else m) ms) = map (\<lambda>(n, _). (n, l)) (entries ms)"
  by (induction ms) auto

lemma registered_card:
  assumes "distinct (map fst (entries ms))"
  shows "card (dom (map_of (entries ms))) = length (filter is_initialized ms)"
proof -
  have "card (dom (map_of (entries ms))) = length (map fst (entries ms))"
    using assms by (simp only: dom_map_of_conv_image_fst distinct_card flip: set_map)
  then show ?thesis by (simp add: entries_def)
qed

lemma room_iff: "length (filter P xs) < length xs \<longleftrightarrow> (\<exists>x \<in> set xs. \<not> P x)"
  by (metis filter_True length_filter_less less_irrefl)

lemma map_of_insert:
  assumes "k \<notin> fst ` set xs"
  shows "map_of (xs @ (k, v) # ys) = (map_of (xs @ ys))(k \<mapsto> v)"
  using assms by (simp add: dom_map_of_conv_image_fst map_add_upd_left)

definition extends :: "LoggingModule list \<Rightarrow> LoggingModule list \<Rightarrow> bool" where
  "extends ms ms' \<longleftrightarrow> length ms' = length ms
     \<and> (\<forall>i < length ms. is_initialized (ms ! i) \<longrightarrow> is_initialized (ms' ! i) \<and> mod_name (ms' ! i) = mod_name (ms ! i))"

lemma extends_refl [simp]: "extends ms ms"
  by (simp add: extends_def)

lemma pointer_ok_extends:
  assumes "extends ms ms'" "pointer_ok ms n p"
  shows "pointer_ok ms' n p"
proof (cases p)
  case (Module_level i)
  with assms show ?thesis by (simp add: pointer_ok_def extends_def)
next
  case Fallback_level
  show ?thesis
  proof (cases "32 \<le> length n")
    case False
    with assms(2) Fallback_level have all: "\<forall>m \<in> set ms. is_initialized m" "n \<notin> fst ` set (entries ms)"
      by (simp_all add: pointer_ok_def)
    then have same: "\<forall>i < length ms. is_initialized (ms' ! i) \<and> mod_name (ms' ! i) = mod_name (ms ! i)"
      using assms(1) by (simp add: extends_def)
    then have "map mod_name ms' = map mod_name ms" "\<forall>m \<in> set ms'. is_initialized m"
      using assms(1) by (auto simp: extends_def in_set_conv_nth intro!: nth_equalityI)
    with all have "n \<notin> fst ` set (entries ms')" "\<forall>m \<in> set ms'. is_initialized m"
      by (simp_all add: all_names)
    with Fallback_level show ?thesis by (simp add: pointer_ok_def)
  qed (simp add: pointer_ok_def Fallback_level)
qed

lemma level_through_pointer:
  assumes "table_ok ms" "pointer_ok ms n (Module_level i)"
  shows "map_of (entries ms) n = Some (mod_level (ms ! i))"
  using assms by (intro map_of_is_SomeI) (auto simp: table_ok_def pointer_ok_def entries_def)

lemma set_level_run:
  fixes l :: int
  assumes "table_ok ms" "pointer_ok ms n (Module_level i)"
  defines "ms' \<equiv> ms[i := (ms ! i)\<lparr>mod_level := l\<rparr>]"
  shows "table_ok ms'" "extends ms ms'" "map_of (entries ms') = (map_of (entries ms))(n \<mapsto> l)"
proof -
  let ?m = "ms ! i" and ?xs = "take i ms" and ?ys = "drop (Suc i) ms"
  have i: "i < length ms" "is_initialized ?m" "n = c_string (mod_name ?m)"
    using assms(2) by (auto simp: pointer_ok_def)
  have ms: "ms = ?xs @ ?m # ?ys" using i(1) by (rule id_take_nth_drop)
  have ms': "ms' = ?xs @ ?m\<lparr>mod_level := l\<rparr> # ?ys" using i(1) by (simp add: ms'_def upd_conv_take_nth_drop)
  have e: "entries ms = entries ?xs @ (n, mod_level ?m) # entries ?ys" by (subst ms) (simp add: i)
  have e': "entries ms' = entries ?xs @ (n, l) # entries ?ys" by (subst ms') (simp add: i)
  have d: "distinct (map fst (entries ms))" using assms(1) by (simp add: table_ok_def)
  then have d': "distinct (map fst (entries ms'))" by (simp add: e e')
  have n: "n \<notin> fst ` set (entries ?xs)" using d by (simp add: e)
  show "map_of (entries ms') = (map_of (entries ms))(n \<mapsto> l)" unfolding e e' map_of_insert [OF n] by simp
  show "extends ms ms'" using i(1) by (auto simp: extends_def ms'_def nth_list_update)
  show "table_ok ms'"
    using assms(1) d' i by (auto simp: table_ok_def ms'_def dest!: set_update_subset_insert [THEN subsetD])
qed

lemma register_module_run:
  fixes l :: int
  assumes "table_ok ms" "i < length ms" "\<not> is_initialized (ms ! i)"
    and n: "n = c_string name" "n \<notin> fst ` set (entries ms)" "length n < 32"
  defines "ms' \<equiv> ms[i := \<lparr>is_initialized = True, mod_level = l, mod_name = strncpy name 32\<rparr>]"
  shows "table_ok ms'" "extends ms ms'" "map_of (entries ms') = (map_of (entries ms))(n \<mapsto> l)"
    "pointer_ok ms' n (Module_level i)"
proof -
  let ?xs = "take i ms" and ?ys = "drop (Suc i) ms" and ?new = "\<lparr>is_initialized = True, mod_level = l, mod_name = strncpy name 32\<rparr>"
  have name: "c_string (strncpy name 32) = n" using n(1,3) stored_name by simp
  have ms: "ms = ?xs @ ms ! i # ?ys" using assms(2) by (rule id_take_nth_drop)
  have ms': "ms' = ?xs @ ?new # ?ys" using assms(2) by (simp add: ms'_def upd_conv_take_nth_drop)
  have e: "entries ms = entries ?xs @ entries ?ys" by (subst ms) (simp add: assms(3))
  have e': "entries ms' = entries ?xs @ (n, l) # entries ?ys" by (subst ms') (simp add: name)
  have d: "distinct (map fst (entries ms))" using assms(1) by (simp add: table_ok_def)
  have m: "n \<notin> fst ` set (entries ?xs)" "n \<notin> fst ` set (entries ?ys)" using n(2) by (auto simp: e)
  with d have d': "distinct (map fst (entries ms'))" by (auto simp: e e')
  show "map_of (entries ms') = (map_of (entries ms))(n \<mapsto> l)" unfolding e e' map_of_insert [OF m(1)] ..
  show "extends ms ms'" using assms(2,3) by (auto simp: extends_def ms'_def nth_list_update)
  show "table_ok ms'"
    using assms(1) d' name n(3) by (auto simp: table_ok_def ms'_def dest!: set_update_subset_insert [THEN subsetD])
  show "pointer_ok ms' n (Module_level i)" using assms(2) name by (simp add: pointer_ok_def ms'_def)
qed

section \<open>The operations\<close>

abbreviation with_modules :: "LoggingModule list \<Rightarrow> logger \<Rightarrow> logger" where
  "with_modules ms s \<equiv> s\<lparr>m_logging_modules := ms\<rparr>"

lemma get_logging_module_run:
  assumes "table_ok (m_logging_modules s)"
  shows "\<exists>r. get_logging_module name s = Inr (r, s)
    \<and> (case r of None \<Rightarrow> c_string name \<notin> fst ` set (entries (m_logging_modules s))
        | Some i \<Rightarrow> pointer_ok (m_logging_modules s) (c_string name) (Module_level i))"
proof (cases "is_logging_module_name_length_valid name")
  case False
  then show ?thesis using assms by (auto simp: get_logging_module_def prog_simps valid_name table_ok_def entries_names)
next
  case True
  let ?P = "\<lambda>m. is_initialized m \<and> strncmp_equal (mod_name m) name MAX_LOG_MODULE_NAME_LENGTH"
  have P: "?P m \<longleftrightarrow> is_initialized m \<and> c_string (mod_name m) = c_string name" if "m \<in> set (m_logging_modules s)" for m
    using True assms that same_name [of "mod_name m" name] by (auto simp: valid_name table_ok_def)
  show ?thesis
  proof (cases "first_index ?P (m_logging_modules s)")
    case None
    then have none: "\<forall>m \<in> set (m_logging_modules s). \<not> ?P m" by (simp only: first_index_None simp_thms)
    have "c_string name \<notin> fst ` set (entries (m_logging_modules s))"
    proof
      assume "c_string name \<in> fst ` set (entries (m_logging_modules s))"
      then obtain m where "m \<in> set (m_logging_modules s)" "is_initialized m" "c_string (mod_name m) = c_string name"
        by (auto simp: entries_names)
      with none P show False by blast
    qed
    with None True show ?thesis by (simp add: get_logging_module_def prog_simps)
  next
    case (Some i)
    then obtain ys y zs where ys: "m_logging_modules s = ys @ y # zs" "length ys = i" "?P y"
      by (rule first_index_SomeE) blast
    have "pointer_ok (m_logging_modules s) (c_string name) (Module_level i)"
      using ys P [of y] by (auto simp: pointer_ok_def)
    with Some True show ?thesis by (simp add: get_logging_module_def prog_simps)
  qed
qed

lemma levels_of_simps [simp]:
  "level_of (levels_of s) = map_of (entries (m_logging_modules s))"
  "level_for_all (levels_of s) = (if m_is_global_log_level_set s then Some (m_global_log_level s) else None)"
  by (simp_all add: levels_of_def)

lemma levels_of_frame [simp]:
  "levels_of (s\<lparr>m_logging_modules_locked := locked\<rparr>) = levels_of s"
  "levels_of (s\<lparr>unit_level := pointers\<rparr>) = levels_of s"
  "levels_of (s\<lparr>local_times := readings\<rparr>) = levels_of s"
  "levels_of (s\<lparr>printed := text\<rparr>) = levels_of s"
  by (simp_all add: levels_of_def)

lemma names_short: "table_ok ms \<Longrightarrow> n \<in> fst ` set (entries ms) \<Longrightarrow> length n < 32"
  by (auto simp: table_ok_def entries_names)

lemma registrable_iff:
  assumes "table_ok (m_logging_modules s)"
  shows "registrable n (levels_of s) \<longleftrightarrow> length n < 32
    \<and> (n \<in> fst ` set (entries (m_logging_modules s)) \<or> (\<exists>m \<in> set (m_logging_modules s). \<not> is_initialized m))"
proof -
  have "length (m_logging_modules s) = 50" "distinct (map fst (entries (m_logging_modules s)))"
    using assms by (simp_all add: table_ok_def)
  then show ?thesis
    using room_iff [of is_initialized "m_logging_modules s"]
    by (simp add: registrable_def levels_of_def registered_card domIff map_of_eq_None_iff)
qed

definition find_or_register :: "u8 list \<Rightarrow> (logger, int) prog \<Rightarrow> (logger, nat option) prog" where
  "find_or_register name level =
     andthen (get_logging_module name) (\<lambda>module.
     if module = None then andthen level (register_logging_module name) else ret module)"

text \<open>Both functions that take the name of a module find its entry or enter it.\<close>

lemma find_or_register_run:
  assumes "table_ok (m_logging_modules s)" "level s = Inr (l, s)" "n = c_string name"
  obtains (unregistered) "find_or_register name level s = Inr (None, s)" "\<not> registrable n (levels_of s)"
      "pointer_ok (m_logging_modules s) n Fallback_level"
  | (found) i ms where "find_or_register name level s = Inr (Some i, with_modules ms s)" "registrable n (levels_of s)"
      "table_ok ms" "extends (m_logging_modules s) ms" "pointer_ok ms n (Module_level i)"
      "map_of (entries ms) = (level_of (levels_of s))(n \<mapsto> case level_of (levels_of s) n of None \<Rightarrow> l | Some k \<Rightarrow> k)"
proof -
  let ?ms = "m_logging_modules s"
  from get_logging_module_run [OF assms(1), of name] obtain r where
    r: "get_logging_module name s = Inr (r, s)" "case r of None \<Rightarrow> n \<notin> fst ` set (entries ?ms) | Some i \<Rightarrow> pointer_ok ?ms n (Module_level i)"
    unfolding assms(3) by blast
  have names: "n \<in> fst ` set (entries ?ms) \<Longrightarrow> length n < 32" using names_short [OF assms(1)] by simp
  show ?thesis
  proof (cases r)
    case (Some i)
    with r have i: "pointer_ok ?ms n (Module_level i)" by simp
    from level_through_pointer [OF assms(1) i] have l: "map_of (entries ?ms) n = Some (mod_level (?ms ! i))" .
    then have "n \<in> fst ` set (entries ?ms)" by (metis dom_map_of_conv_image_fst domI)
    with names have "registrable n (levels_of s)" using registrable_iff [OF assms(1)] by simp
    with Some r(1) i l assms(1) show ?thesis
      by (intro found [of i ?ms]) (auto simp: find_or_register_def andthen_def fun_upd_idem)
  next
    case None
    with r have n: "n \<notin> fst ` set (entries ?ms)" by simp
    have run: "find_or_register name level s = register_logging_module name l s"
      using None r(1) assms(2) by (simp add: find_or_register_def andthen_def)
    show ?thesis
    proof (cases "length n < 32 \<and> (\<exists>m \<in> set ?ms. \<not> is_initialized m)")
      case False
      then have "first_index (\<lambda>m. \<not> is_initialized m) ?ms = None \<or> \<not> length n < 32"
        by (auto simp: first_index_None)
      then have "register_logging_module name l s = Inr (None, s)"
        by (auto simp: register_logging_module_def valid_name assms(3) prog_simps)
      with False n run show ?thesis
        by (intro unregistered) (auto simp: registrable_iff [OF assms(1)] pointer_ok_def)
    next
      case True
      then obtain i where i: "first_index (\<lambda>m. \<not> is_initialized m) ?ms = Some i"
        by (metis first_index_None not_Some_eq)
      from first_index_SomeE [OF this] have free: "i < length ?ms" "\<not> is_initialized (?ms ! i)"
        by (metis length_append length_Cons less_add_Suc1 add_Suc_right, metis nth_append_length)
      note new = register_module_run [OF assms(1) free assms(3) n, of l]
      have none: "map_of (entries ?ms) n = None" using n by (simp add: map_of_eq_None_iff)
      show ?thesis
        using True i run new none
        by (intro found [of i "?ms[i := \<lparr>is_initialized = True, mod_level = l, mod_name = strncpy name 32\<rparr>]"])
           (simp_all add: register_logging_module_def valid_name registrable_iff [OF assms(1)] flip: assms(3),
            simp_all add: prog_simps MAX_LOG_MODULE_NAME_LENGTH_def)
    qed
  qed
qed

lemma logger_okI:
  assumes "logger_ok s" "table_ok (m_logging_modules t)" "extends (m_logging_modules s) (m_logging_modules t)"
    and "m_fallback_level t = m_fallback_level s" "\<not> m_logging_modules_locked t"
    and "\<And>u p. unit_level t u = Some p \<Longrightarrow> unit_level s u = Some p \<or> pointer_ok (m_logging_modules t) (c_string (LOG_MODULE_NAME u)) p"
  shows "logger_ok t"
  using assms pointer_ok_extends unfolding logger_ok_def by metis

lemma Platform_set_log_level_run:
  fixes l :: int
  assumes "logger_ok s"
  defines "ms \<equiv> map (\<lambda>m. if is_initialized m then m\<lparr>mod_level := l\<rparr> else m) (m_logging_modules s)"
  defines "t \<equiv> s\<lparr>m_global_log_level := l, m_is_global_log_level_set := True, m_logging_modules := ms\<rparr>"
  shows "Platform_set_log_level l s = Inr (0, t)" "logger_ok t" "levels_of t = set_all l (levels_of s)"
proof -
  have unlocked: "\<not> m_logging_modules_locked s" using assms(1) by (simp add: logger_ok_def)
  then show "Platform_set_log_level l s = Inr (0, t)"
    by (simp add: Platform_set_log_level_def lock_modules_def unlock_modules_def prog_simps t_def ms_def)
  have e: "entries ms = map (\<lambda>(n, _). (n, l)) (entries (m_logging_modules s))"
    by (simp add: ms_def entries_set_all)
  then show "levels_of t = set_all l (levels_of s)"
    by (simp add: levels_of_def set_all_def t_def map_of_map)
  have "map fst (entries ms) = map fst (entries (m_logging_modules s))" unfolding e by (induction "entries (m_logging_modules s)") auto
  then have "table_ok ms" using assms(1) by (auto simp: logger_ok_def table_ok_def ms_def)
  then show "logger_ok t"
    using assms(1) unlocked by (intro logger_okI [OF assms(1)]) (auto simp: t_def ms_def extends_def)
qed

lemma Platform_set_module_log_level_run:
  assumes "logger_ok s" "n = c_string name"
  obtains ms where "Platform_set_module_log_level name l s
      = Inr (if registrable n (levels_of s) then 0 else -1, with_modules ms s)"
    "logger_ok (with_modules ms s)" "levels_of (with_modules ms s) = set_one n l (levels_of s)"
proof -
  let ?s = "s\<lparr>m_logging_modules_locked := True\<rparr>"
  have ok: "table_ok (m_logging_modules ?s)" "\<not> m_logging_modules_locked s" using assms(1) by (simp_all add: logger_ok_def)
  have eq: "Platform_set_module_log_level name l s = andthen (find_or_register name (ret l)) (\<lambda>module. case module of
      None \<Rightarrow> andthen unlock_modules (\<lambda>_. ret (-1))
    | Some i \<Rightarrow> andthen (modify (set_level_of i l)) (\<lambda>_. andthen unlock_modules (\<lambda>_. ret 0))) ?s"
    using ok(2) by (simp add: Platform_set_module_log_level_def find_or_register_def andthen_assoc
        lock_modules_def prog_simps cong: if_cong)
  have "ret l ?s = Inr (l, ?s)" by simp
  from ok(1) this assms(2) show ?thesis
  proof (cases rule: find_or_register_run [where level = "ret l"])
    case unregistered
    then have "set_one n l (levels_of s) = levels_of s" by (simp add: set_one_def)
    with unregistered ok assms(1) show ?thesis
      by (intro that [of "m_logging_modules s"]) (simp_all add: eq andthen_def unlock_modules_def modify_def ret_def)
  next
    case (found i ms)
    let ?ms = "ms[i := (ms ! i)\<lparr>mod_level := l\<rparr>]"
    note set = set_level_run [OF found(3,5), of l]
    have "extends (m_logging_modules s) ?ms" using found(4) set(2) by (simp add: extends_def)
    then have "logger_ok (with_modules ?ms s)"
      using ok(2) set(1) by (intro logger_okI [OF assms(1)]) (simp_all add: assms(1))
    moreover have "levels_of (with_modules ?ms s) = set_one n l (levels_of s)"
      by (rule levels.equality) (use found(2,6) set(3) in \<open>simp_all add: set_one_def\<close>)
    moreover have "Platform_set_module_log_level name l s = Inr (0, with_modules ?ms s)"
      using found(1) ok(2) by (simp add: eq andthen_def unlock_modules_def modify_def ret_def set_level_of_def)
    ultimately show ?thesis using found(2) by (intro that [of ?ms]) simp_all
  qed
qed

lemma Platform_get_logging_module_level_run:
  assumes "logger_ok s" "n = c_string name"
  obtains p ms where "Platform_get_logging_module_level name l s = Inr (p, with_modules ms s)"
    "logger_ok (with_modules ms s)" "pointer_ok ms n p"
    "levels_of (with_modules ms s) = set_one n (level_used n l (levels_of s)) (levels_of s)"
    "p = Fallback_level \<longleftrightarrow> \<not> registrable n (levels_of s)"
proof -
  let ?s = "s\<lparr>m_logging_modules_locked := True\<rparr>"
  let ?level = "gets (\<lambda>s. if m_is_global_log_level_set s then m_global_log_level s else l)"
  let ?l = "if m_is_global_log_level_set s then m_global_log_level s else l"
  have ok: "table_ok (m_logging_modules ?s)" "\<not> m_logging_modules_locked s" using assms(1) by (simp_all add: logger_ok_def)
  have eq: "Platform_get_logging_module_level name l s = andthen (find_or_register name ?level) (\<lambda>module.
      andthen unlock_modules (\<lambda>_. ret (case module of None \<Rightarrow> Fallback_level | Some i \<Rightarrow> Module_level i))) ?s"
    using ok(2) by (simp add: Platform_get_logging_module_level_def find_or_register_def andthen_assoc
        lock_modules_def prog_simps)
  have "?level ?s = Inr (?l, ?s)" by (simp add: gets_def)
  from ok(1) this assms(2) show ?thesis
  proof (cases rule: find_or_register_run)
    case unregistered
    then have "set_one n k (levels_of s) = levels_of s" for k by (simp add: set_one_def)
    with unregistered ok assms(1) show ?thesis
      by (intro that [of Fallback_level "m_logging_modules s"]) (simp_all add: eq andthen_def unlock_modules_def modify_def ret_def)
  next
    case (found i ms)
    have "logger_ok (with_modules ms s)"
      using found(3,4) ok(2) by (intro logger_okI [OF assms(1)]) simp_all
    moreover have "levels_of (with_modules ms s) = set_one n (level_used n l (levels_of s)) (levels_of s)"
      by (rule levels.equality) (use found(2,6) in \<open>auto simp: set_one_def level_used_def split: option.splits\<close>)
    moreover have "Platform_get_logging_module_level name l s = Inr (Module_level i, with_modules ms s)"
      using found(1) ok(2) by (simp add: eq andthen_def unlock_modules_def modify_def ret_def)
    ultimately show ?thesis using found(2,5) by (intro that [of "Module_level i" ms]) simp_all
  qed
qed

section \<open>What is printed\<close>

text \<open>The calls that a program makes of the logger, and what the levels make of them.\<close>

datatype severity = Debug | Info | Warning | Error

datatype log_call =
    Set_log_level int
  | Set_module_log_level "u8 list" int
  | Log severity log_unit "u8 list"

definition log_at :: "severity \<Rightarrow> log_unit \<Rightarrow> u8 list \<Rightarrow> (logger, unit) prog" where
  "log_at v = (case v of Debug \<Rightarrow> LOGD | Info \<Rightarrow> LOGI | Warning \<Rightarrow> LOGW | Error \<Rightarrow> LOGE)"

primrec run_log_call :: "log_call \<Rightarrow> (logger, int) prog" where
  "run_log_call (Set_log_level l) = Platform_set_log_level l"
| "run_log_call (Set_module_log_level name l) = Platform_set_module_log_level name l"
| "run_log_call (Log v u message) = andthen (log_at v u message) (\<lambda>_. ret 0)"

primrec run_log_calls :: "log_call list \<Rightarrow> (logger, int list) prog" where
  "run_log_calls [] = ret []"
| "run_log_calls (c # cs) = andthen (run_log_call c) (\<lambda>r. andthen (run_log_calls cs) (\<lambda>rs. ret (r # rs)))"

definition level_for :: "log_unit \<Rightarrow> levels \<Rightarrow> int" where
  "level_for u = level_used (c_string (LOG_MODULE_NAME u)) (MAX_LOG_LEVEL u)"

primrec severity_level :: "severity \<Rightarrow> int" where
  "severity_level Debug = 3" | "severity_level Info = 2" | "severity_level Warning = 1" | "severity_level Error = 0"

primrec severity_text :: "severity \<Rightarrow> string" where
  "severity_text Debug = ''DEBUG''" | "severity_text Info = ''INFO''"
| "severity_text Warning = ''WARNING''" | "severity_text Error = ''ERROR''"

primrec levels_after :: "log_call \<Rightarrow> levels \<Rightarrow> levels" where
  "levels_after (Set_log_level l) L = set_all l L"
| "levels_after (Set_module_log_level name l) L = set_one (c_string name) l L"
| "levels_after (Log v u message) L = set_one (c_string (LOG_MODULE_NAME u)) (level_for u L) L"

primrec call_result :: "log_call \<Rightarrow> levels \<Rightarrow> int" where
  "call_result (Set_log_level l) L = 0"
| "call_result (Set_module_log_level name l) L = (if registrable (c_string name) L then 0 else -1)"
| "call_result (Log v u message) L = 0"

fun shown :: "log_call \<Rightarrow> levels \<Rightarrow> bool" where
  "shown (Log v u message) L \<longleftrightarrow> severity_level v \<le> level_for u L"
| "shown c L \<longleftrightarrow> False"

fun log_line :: "log_call \<Rightarrow> local_time \<Rightarrow> u8 list" where
  "log_line (Log v u message) now = timestamp_text now @ ascii '' | ['' @ ascii (severity_text v) @ ascii ''] ''
     @ c_string (LOG_MODULE_NAME u) @ ascii '':'' @ message"
| "log_line c now = []"

primrec log_output :: "log_call list \<Rightarrow> levels \<Rightarrow> local_time list \<Rightarrow> u8 list" where
  "log_output [] L clock = []"
| "log_output (c # cs) L clock =
     (if shown c L then log_line c (hd clock) @ log_output cs (levels_after c L) (tl clock)
      else log_output cs (levels_after c L) clock)"

primrec all_levels_after :: "log_call list \<Rightarrow> levels \<Rightarrow> levels" where
  "all_levels_after [] L = L"
| "all_levels_after (c # cs) L = all_levels_after cs (levels_after c L)"

primrec call_results :: "log_call list \<Rightarrow> levels \<Rightarrow> int list" where
  "call_results [] L = []"
| "call_results (c # cs) L = call_result c L # call_results cs (levels_after c L)"

lemma get_module_log_level_run:
  assumes "logger_ok s"
  obtains ms p where "get_module_log_level u s
      = Inr (level_for u (levels_of s), (with_modules ms s)\<lparr>unit_level := (unit_level s)(u := Some p)\<rparr>)"
    "logger_ok ((with_modules ms s)\<lparr>unit_level := (unit_level s)(u := Some p)\<rparr>)"
    "levels_of (with_modules ms s) = set_one (c_string (LOG_MODULE_NAME u)) (level_for u (levels_of s)) (levels_of s)"
proof (cases "unit_level s u")
  case None
  let ?n = "c_string (LOG_MODULE_NAME u)"
  from Platform_get_logging_module_level_run [OF assms refl] obtain p ms where
    run: "Platform_get_logging_module_level (LOG_MODULE_NAME u) (MAX_LOG_LEVEL u) s = Inr (p, with_modules ms s)"
    and ok: "logger_ok (with_modules ms s)" "pointer_ok ms ?n p"
    and L: "levels_of (with_modules ms s) = set_one ?n (level_for u (levels_of s)) (levels_of s)"
    and p: "p = Fallback_level \<longleftrightarrow> \<not> registrable ?n (levels_of s)"
    unfolding level_for_def by metis
  let ?t = "(with_modules ms s)\<lparr>unit_level := (unit_level s)(u := Some p)\<rparr>"
  have t: "logger_ok ?t" using ok by (intro logger_okI [OF ok(1)]) (auto simp: logger_ok_def split: if_splits)
  have "level_at p ?t = Inr (level_for u (levels_of s), ?t)"
  proof (cases p)
    case (Module_level i)
    have "map_of (entries ms) ?n = Some (level_for u (levels_of s))"
      using arg_cong [OF L, of level_of] p Module_level by (simp add: set_one_def)
    moreover have "map_of (entries ms) ?n = Some (mod_level (ms ! i))"
      using ok Module_level by (intro level_through_pointer) (simp_all add: logger_ok_def)
    ultimately show ?thesis using ok(2) Module_level by (simp add: level_at_def prog_simps pointer_ok_def)
  next
    case Fallback_level
    moreover have "level_of (levels_of s) ?n = None"
      using p Fallback_level assms names_short [of "m_logging_modules s"]
      by (auto simp: registrable_iff logger_ok_def map_of_eq_None_iff)
    ultimately show ?thesis using p assms by (simp add: level_at_def gets_def level_for_def level_used_def logger_ok_def)
  qed
  then show ?thesis
    using None run t L by (intro that) (simp_all add: get_module_log_level_def andthen_def gets_def modify_def ret_def)
next
  case (Some p)
  let ?n = "c_string (LOG_MODULE_NAME u)" and ?ms = "m_logging_modules s"
  have ok: "pointer_ok ?ms ?n p" "table_ok ?ms" using Some assms by (auto simp: logger_ok_def)
  show ?thesis
  proof (cases p)
    case (Module_level i)
    have "map_of (entries ?ms) ?n = Some (mod_level (?ms ! i))" using ok Module_level by (intro level_through_pointer) simp_all
    then have l: "level_for u (levels_of s) = mod_level (?ms ! i)"
      "set_one ?n (mod_level (?ms ! i)) (levels_of s) = levels_of s"
      by (simp_all add: level_for_def level_used_def set_one_def fun_upd_idem)
    with Some Module_level ok(1) assms show ?thesis
      by (intro that [of p ?ms]) (simp_all add: get_module_log_level_def level_at_def prog_simps pointer_ok_def fun_upd_idem)
  next
    case Fallback_level
    then have no: "\<not> registrable ?n (levels_of s)" "map_of (entries ?ms) ?n = None"
      using ok by (auto simp: registrable_iff pointer_ok_def map_of_eq_None_iff table_ok_def entries_names)
    then have "level_for u (levels_of s) = NO_LOG_LEVEL" "set_one ?n k (levels_of s) = levels_of s" for k
      by (simp_all add: level_for_def level_used_def set_one_def)
    with Some Fallback_level assms show ?thesis
      by (intro that [of p ?ms]) (simp_all add: get_module_log_level_def level_at_def prog_simps logger_ok_def fun_upd_idem)
  qed
qed

lemma full_level_texts [simp]:
  "full_level 68 = Inr (ascii ''DEBUG'')" "full_level 73 = Inr (ascii ''INFO'')"
  "full_level 87 = Inr (ascii ''WARNING'')" "full_level 69 = Inr (ascii ''ERROR'')"
  by (simp_all add: full_level_def ascii_def)

lemma run_log_call_run:
  assumes "logger_ok s" "\<forall>now \<in> set (local_times s). length (timestamp_text now) < 50"
    and "shown c (levels_of s) \<Longrightarrow> local_times s \<noteq> []"
  shows "\<exists>t. run_log_call c s = Inr (call_result c (levels_of s), t) \<and> logger_ok t
    \<and> levels_of t = levels_after c (levels_of s)
    \<and> printed t = printed s @ (if shown c (levels_of s) then log_line c (hd (local_times s)) else [])
    \<and> local_times t = (if shown c (levels_of s) then tl (local_times s) else local_times s)"
proof (cases c)
  case (Set_log_level l)
  with Platform_set_log_level_run [OF assms(1), of l] show ?thesis by simp
next
  case (Set_module_log_level name l)
  from Platform_set_module_log_level_run [OF assms(1) refl, of name l] obtain ms where
    "Platform_set_module_log_level name l s
      = Inr (if registrable (c_string name) (levels_of s) then 0 else -1, with_modules ms s)"
    "logger_ok (with_modules ms s)" "levels_of (with_modules ms s) = set_one (c_string name) l (levels_of s)" .
  with Set_module_log_level show ?thesis by (intro exI [of _ "with_modules ms s"]) simp
next
  case (Log v u message)
  let ?n = "c_string (LOG_MODULE_NAME u)" and ?L = "levels_of s"
  from get_module_log_level_run [OF assms(1)] obtain ms p where
    run: "get_module_log_level u s = Inr (level_for u ?L, (with_modules ms s)\<lparr>unit_level := (unit_level s)(u := Some p)\<rparr>)"
    and ok: "logger_ok ((with_modules ms s)\<lparr>unit_level := (unit_level s)(u := Some p)\<rparr>)"
    and L: "levels_of (with_modules ms s) = set_one ?n (level_for u ?L) ?L" by blast
  let ?t = "(with_modules ms s)\<lparr>unit_level := (unit_level s)(u := Some p)\<rparr>"
  let ?u = "?t\<lparr>local_times := tl (local_times s), printed := printed s @ log_line c (hd (local_times s))\<rparr>"
  have levels: "levels_of ?t = set_one ?n (level_for u ?L) ?L" "levels_of ?u = set_one ?n (level_for u ?L) ?L"
    using L by simp_all
  show ?thesis
  proof (cases "shown c ?L")
    case False
    then have "log_at v u message s = Inr ((), ?t)" using Log run
      by (cases v) (simp_all add: log_at_def LOGD_def LOGI_def LOGW_def LOGE_def log_function_def DEBUG_LOG_LEVEL_def
        INFO_LOG_LEVEL_def WARNING_LOG_LEVEL_def ERROR_LOG_LEVEL_def prog_simps)
    with False Log ok levels show ?thesis by (simp add: andthen_def ret_def)
  next
    case True
    then obtain now later where clock: "local_times s = now # later" "length (timestamp_text now) < 50"
      using assms(2,3) by (cases "local_times s") auto
    then have "log_at v u message s = Inr ((), ?u)" using Log run True
      by (cases v) (simp_all add: log_at_def LOGD_def LOGI_def LOGW_def LOGE_def log_function_def DEBUG_LOG_LEVEL_def
        INFO_LOG_LEVEL_def WARNING_LOG_LEVEL_def ERROR_LOG_LEVEL_def Platform_LOG_def print_prefix_def get_timestamp_def
        printf_def prog_simps)
    moreover have "logger_ok ?u" using ok by (simp add: logger_ok_def)
    ultimately show ?thesis using True Log levels by (simp add: andthen_def ret_def)
  qed
qed

text \<open>The time stamp has the 23 characters that the comment in the code counts on.\<close>

definition calendar_ok :: "local_time \<Rightarrow> bool" where
  "calendar_ok t \<longleftrightarrow> tm_year t \<in> {-1900..8099} \<and> tm_mon t \<in> {0..11} \<and> tm_mday t \<in> {1..31}
     \<and> tm_hour t \<in> {0..23} \<and> tm_min t \<in> {0..59} \<and> tm_sec t \<in> {0..60} \<and> tv_nsec t < 1000000000"

lemma length_digits: "n < 10 ^ Suc w \<Longrightarrow> length (digits n) \<le> Suc w"
proof (induction n arbitrary: w rule: digits.induct)
  case (1 n)
  show ?case
  proof (cases "n < 10")
    case False
    then obtain v where v: "w = Suc v" using 1(2) by (cases w) auto
    with 1(2) have "n div 10 < 10 ^ Suc v" by (simp add: div_less_iff_less_mult)
    from 1(1) [OF False this] False v show ?thesis by (simp add: digits.simps [of n])
  qed (simp add: digits.simps)
qed

lemma length_zero_padded: "0 \<le> i \<Longrightarrow> i < 10 ^ Suc w \<Longrightarrow> length (zero_padded (Suc w) i) = Suc w"
  using length_digits [of "nat i" w] by (simp add: zero_padded_def ascii_def nat_less_iff Let_def)

lemma timestamp_length: "calendar_ok t \<Longrightarrow> length (timestamp_text t) = 23"
proof -
  assume ok: "calendar_ok t"
  then have ms: "tv_nsec t div 1000000 < 1000"
    by (simp add: calendar_ok_def div_less_iff_less_mult)
  have "length (zero_padded 4 (tm_year t + 1900)) = 4"
    using ok length_zero_padded [of "tm_year t + 1900" 3] by (simp add: calendar_ok_def)
  moreover have "length (zero_padded 2 i) = 2" if "i \<in> {0..99}" for i
    using that length_zero_padded [of i 1] by (simp add: numeral_2_eq_2)
  then have "length (zero_padded 2 (tm_mon t + 1)) = 2" "length (zero_padded 2 (tm_mday t)) = 2"
    "length (zero_padded 2 (tm_hour t)) = 2" "length (zero_padded 2 (tm_min t)) = 2" "length (zero_padded 2 (tm_sec t)) = 2"
    using ok by (auto simp: calendar_ok_def)
  moreover have "length (zero_padded 3 (int (unat (of_nat (tv_nsec t div 1000000) :: u16)))) = 3"
    using ms length_zero_padded [of "int (tv_nsec t div 1000000)" 2] by (simp add: unat_of_nat_u16)
  ultimately show ?thesis by (simp add: timestamp_text_def ascii_def)
qed

lemma run_log_calls_run:
  assumes "logger_ok s" "length cs \<le> length (local_times s)"
    and "\<forall>now \<in> set (local_times s). calendar_ok now"
  shows "\<exists>t. run_log_calls cs s = Inr (call_results cs (levels_of s), t) \<and> logger_ok t
    \<and> levels_of t = all_levels_after cs (levels_of s)
    \<and> printed t = printed s @ log_output cs (levels_of s) (local_times s)"
  using assms
proof (induction cs arbitrary: s)
  case (Cons c cs)
  have "local_times s \<noteq> []" using Cons.prems(2) by auto
  moreover have "\<forall>now \<in> set (local_times s). length (timestamp_text now) < 50"
    using Cons.prems(3) by (simp add: timestamp_length)
  ultimately obtain t where
    t: "run_log_call c s = Inr (call_result c (levels_of s), t)" "logger_ok t"
      "levels_of t = levels_after c (levels_of s)"
      "printed t = printed s @ (if shown c (levels_of s) then log_line c (hd (local_times s)) else [])"
      "local_times t = (if shown c (levels_of s) then tl (local_times s) else local_times s)"
    using run_log_call_run [OF Cons.prems(1), of c] by blast
  have "set (local_times t) \<subseteq> set (local_times s)" unfolding t(5) by (cases "local_times s") auto
  moreover have "length cs \<le> length (local_times t)" using Cons.prems(2) by (cases "local_times s") (auto simp: t(5))
  ultimately obtain u where "run_log_calls cs t = Inr (call_results cs (levels_of t), u)" "logger_ok u"
      "levels_of u = all_levels_after cs (levels_of t)" "printed u = printed t @ log_output cs (levels_of t) (local_times t)"
    using Cons.IH [OF t(2)] Cons.prems(3) by blast
  with t show ?case by (auto simp: andthen_def ret_def)
qed (simp add: ret_def)

text \<open>C29: The table of modules with the pointers that the files cache refines a map from names to levels.
  For every sequence of calls the results, the levels afterwards and the lines printed are those of the
  map: a level set for all modules reaches every module registered before or later, a level set for
  one module reaches all files that share its name, and a file whose name does not fit or finds no
  room prints nothing. No call blocks, and the table stays well-formed.\<close>

theorem logger_refines_levels:
  assumes "logger_ok s" "length cs \<le> length (local_times s)"
    and "\<forall>now \<in> set (local_times s). calendar_ok now"
  shows "\<exists>t. run_log_calls cs s = Inr (call_results cs (levels_of s), t) \<and> logger_ok t
    \<and> levels_of t = all_levels_after cs (levels_of s)
    \<and> printed t = printed s @ log_output cs (levels_of s) (local_times s)"
  by (rule run_log_calls_run [OF assms])

text \<open>Two files that share the name of a module share its level, whatever their own maximal level: the
  one that logs first decides for both. If it asks for debug messages, the other prints them too; in the
  other order neither does.\<close>

theorem shared_name_first_level:
  assumes "logger_ok s" "c_string (LOG_MODULE_NAME u) = n" "c_string (LOG_MODULE_NAME v) = n"
    and "level_of (levels_of s) n = None" "registrable n (levels_of s)" "level_for_all (levels_of s) = None"
    and "MAX_LOG_LEVEL u = 3" "MAX_LOG_LEVEL v < 3"
    and "local_times s = now # now' # later" "\<forall>now \<in> set (local_times s). calendar_ok now"
  shows "(\<exists>t. run_log_calls [Log Debug u m, Log Debug v m'] s = Inr ([0, 0], t)
      \<and> printed t = printed s @ log_line (Log Debug u m) now @ log_line (Log Debug v m') now')
    \<and> (\<exists>t. run_log_calls [Log Debug v m', Log Debug u m] s = Inr ([0, 0], t) \<and> printed t = printed s)"
proof (rule conjI)
  let ?L = "levels_of s"
  have u: "level_for u ?L = 3" "level_for v ?L = MAX_LOG_LEVEL v"
    using assms by (simp_all add: level_for_def level_used_def del: levels_of_simps)
  have after: "level_for v (set_one n 3 ?L) = 3" "level_for u (set_one n (MAX_LOG_LEVEL v) ?L) = MAX_LOG_LEVEL v"
    using assms by (simp_all add: level_for_def level_used_def set_one_def del: levels_of_simps)
  show "\<exists>t. run_log_calls [Log Debug u m, Log Debug v m'] s = Inr ([0, 0], t)
      \<and> printed t = printed s @ log_line (Log Debug u m) now @ log_line (Log Debug v m') now'"
    using run_log_calls_run [OF assms(1) _ assms(10), of "[Log Debug u m, Log Debug v m']"] u after assms(2,3,9)
    by (auto simp del: log_line.simps run_log_calls.simps)
  show "\<exists>t. run_log_calls [Log Debug v m', Log Debug u m] s = Inr ([0, 0], t) \<and> printed t = printed s"
    using run_log_calls_run [OF assms(1) _ assms(10), of "[Log Debug v m', Log Debug u m]"] u after assms(2,3,8,9)
    by (auto simp del: log_line.simps run_log_calls.simps)
qed

section \<open>Examples\<close>

text \<open>The two files that share the name \<^verbatim>\<open>SERIAL\<close>.\<close>

definition serial_c :: log_unit where
  "serial_c = \<lparr>unit_file = 0, LOG_MODULE_NAME = ascii ''SERIAL'', MAX_LOG_LEVEL = INFO_LOG_LEVEL\<rparr>"

definition serial_termios2_c :: log_unit where
  "serial_termios2_c = \<lparr>unit_file = 1, LOG_MODULE_NAME = ascii ''SERIAL'', MAX_LOG_LEVEL = DEBUG_LOG_LEVEL\<rparr>"

definition noon :: local_time where
  "noon = \<lparr>tm_year = 126, tm_mon = 0, tm_mday = 31, tm_hour = 12, tm_min = 0, tm_sec = 0, tv_nsec = 7000000\<rparr>"

lemma initial_logger_ok [simp]: "logger_ok (initial_logger readings)"
  by (simp add: logger_ok_def initial_logger_def table_ok_def entries_def MAX_LOG_MODULE_COUNT_def)

lemma initial_levels [simp]: "levels_of (initial_logger readings) = \<lparr>level_of = Map.empty, level_for_all = None\<rparr>"
  by (simp add: levels_of_def initial_logger_def entries_def)

lemma noon_ok [simp]: "calendar_ok noon"
  by (simp add: calendar_ok_def noon_def)

lemma serial_name [simp]: "c_string (LOG_MODULE_NAME serial_c) = ascii ''SERIAL''"
  "c_string (LOG_MODULE_NAME serial_termios2_c) = ascii ''SERIAL''" "c_string (ascii ''SERIAL'') = ascii ''SERIAL''"
  by (simp_all add: serial_c_def serial_termios2_c_def ascii_def c_string_def)

theorem logger_refines_levels_witness:
  "\<exists>t. run_log_calls [Log Info serial_c [1], Set_module_log_level (ascii ''SERIAL'') 0, Log Info serial_c [2]]
      (initial_logger [noon, noon, noon]) = Inr ([0, 0, 0], t)
    \<and> printed t = timestamp_text noon @ ascii '' | [INFO] SERIAL:'' @ [1]"
proof -
  let ?cs = "[Log Info serial_c [1], Set_module_log_level (ascii ''SERIAL'') 0, Log Info serial_c [2]]"
  let ?s = "initial_logger [noon, noon, noon]"
  have times: "local_times ?s = [noon, noon, noon]" "printed ?s = []" by (simp_all add: initial_logger_def)
  have n: "length (ascii ''SERIAL'') = 6" by (simp add: ascii_def)
  have l: "MAX_LOG_LEVEL serial_c = 2" by (simp add: serial_c_def INFO_LOG_LEVEL_def)
  have results: "call_results ?cs (levels_of ?s) = [0, 0, 0]" by (simp add: registrable_def set_one_def n)
  have lines: "log_output ?cs (levels_of ?s) (local_times ?s)
      = timestamp_text noon @ ascii '' | [INFO] SERIAL:'' @ [1]"
    by (simp add: times registrable_def set_one_def level_for_def level_used_def n l) (simp add: ascii_def)
  have "length ?cs \<le> length (local_times ?s)" "\<forall>now \<in> set (local_times ?s). calendar_ok now" by (simp_all add: times)
  from logger_refines_levels [OF initial_logger_ok this] show ?thesis
    unfolding results lines times(2) append_Nil by blast
qed

theorem shared_name_first_level_witness:
  "\<exists>t. run_log_calls [Log Debug serial_termios2_c [1], Log Debug serial_c [2]] (initial_logger [noon, noon]) = Inr ([0, 0], t)
    \<and> printed t = log_line (Log Debug serial_termios2_c [1]) noon @ log_line (Log Debug serial_c [2]) noon"
proof -
  let ?s = "initial_logger [noon, noon]"
  have times: "local_times ?s = [noon, noon]" "printed ?s = []" by (simp_all add: initial_logger_def)
  have "length (ascii ''SERIAL'') = 6" by (simp add: ascii_def)
  then have "registrable (ascii ''SERIAL'') (levels_of ?s)" by (simp add: registrable_def)
  moreover have "MAX_LOG_LEVEL serial_termios2_c = 3" "MAX_LOG_LEVEL serial_c < 3"
    by (simp_all add: serial_c_def serial_termios2_c_def INFO_LOG_LEVEL_def DEBUG_LOG_LEVEL_def)
  ultimately show ?thesis
    using shared_name_first_level [of ?s serial_termios2_c "ascii ''SERIAL''" serial_c noon noon "[]" "[1]" "[2]"]
    by (simp add: times del: log_line.simps run_log_calls.simps)
qed

end
