(* ===== verification/Startup.thy ===== *)
theory Startup
  imports Wpc_Api Platform Slip_Serial
begin

text \<open>
  The start of the library, across its components: \<^verbatim>\<open>WPC_initialize\<close> (\<^verbatim>\<open>wpc.c\<close>) opens the serial line
  (\<^verbatim>\<open>serial.c\<close>), creates the mutexes and threads with \<^verbatim>\<open>Platform_init\<close> (\<^verbatim>\<open>platform.c\<close>), initialises the data
  service and asks the node for its MTU. The other theories take the functions of the line and of the
  platform as arguments; here they run on one state. The lemmas show that the start takes effect
  completely or not at all, whichever system call fails.
\<close>

section \<open>State\<close>

text \<open>The static variables of the host: those of the stack, the serial line, the two mutexes and the
  threads. The results of the calls that create mutexes and threads are a script.\<close>

record host = wpc +
  port :: serial
  sending_mutex_exists :: bool
  queue_mutex_exists :: bool
  threads :: platform
  pthread_results :: "bool list"

definition on_port :: "(serial, 'a) prog \<Rightarrow> ('z host_scheme, 'a) prog" where
  "on_port m s = (case m (port s) of Inl e \<Rightarrow> Inl e | Inr (x, p) \<Rightarrow> Inr (x, s\<lparr>port := p\<rparr>))"

definition pthread_call :: "('z host_scheme, bool) prog" where
  "pthread_call s = (case pthread_results s of [] \<Rightarrow> Inl Blocked
     | ok # rest \<Rightarrow> Inr (ok, s\<lparr>pthread_results := rest\<rparr>))"

section \<open>The start of the platform\<close>

text \<open>The labels of the error path undo, in turn, what has been done so far. When the second thread
  cannot be created, the first one is sent \<^verbatim>\<open>SIGKILL\<close>, which ends the whole process. The two threads
  run from their creation on; here they start together, once both exist.\<close>

definition error2 :: "('z host_scheme, bool) prog" where
  "error2 = andthen (modify (\<lambda>s. s\<lparr>sending_mutex_exists := False\<rparr>)) (\<lambda>_. ret False)"

definition error3 :: "('z host_scheme, bool) prog" where
  "error3 = andthen (modify (\<lambda>s. s\<lparr>queue_mutex_exists := False\<rparr>)) (\<lambda>_. error2)"

definition Platform_init :: "bool \<Rightarrow> bool \<Rightarrow> ('z host_scheme, bool) prog" where
  "Platform_init get_indication_given dispatch_indication_given =
     (if \<not> get_indication_given \<or> \<not> dispatch_indication_given then ret False
      else
        andthen pthread_call (\<lambda>ok.
        if \<not> ok then ret False
        else
          andthen (modify (\<lambda>s. s\<lparr>sending_mutex_exists := True, m_locked := False\<rparr>)) (\<lambda>_.
          andthen pthread_call (\<lambda>ok.
          if \<not> ok then error2
          else
            andthen (modify (\<lambda>s. s\<lparr>queue_mutex_exists := True\<rparr>)) (\<lambda>_.
            andthen pthread_call (\<lambda>ok.
            if \<not> ok then error3
            else
              andthen pthread_call (\<lambda>ok.
              if \<not> ok then halt Exited
              else andthen (modify (\<lambda>s. s\<lparr>threads := threads_started (threads s)\<rparr>)) (\<lambda>_. ret True))))))))"

text \<open>\<^verbatim>\<open>WPC_initialize\<close> with the functions of this platform. The pointers that \<^verbatim>\<open>Slip_init\<close> stores are never stored
  again; the engine has the line behind them as a script.\<close>

definition start_slip :: "('z host_scheme, int) prog" where
  "start_slip = ret (fst (Slip_init (Some Serial_write :: serial write_f option) (Some Serial_read)))"

definition initialize_host :: "u8 list \<Rightarrow> u64 \<Rightarrow> ('z host_scheme, app_res) prog" where
  "initialize_host port_name bitrate =
     WPC_initialize (on_port (Serial_open port_name bitrate)) start_slip (Platform_init True True)
       (on_port (andthen Serial_close (\<lambda>_. ret ())))"

section \<open>All or nothing\<close>

lemma on_port_run:
  "on_port m s = Inr (x, t) \<longleftrightarrow> (\<exists>p. m (port s) = Inr (x, p) \<and> t = s\<lparr>port := p\<rparr>)"
  by (auto simp: on_port_def split: sum.splits)

lemma pthread_call_run:
  "pthread_call s = Inr (ok, t) \<longleftrightarrow> (\<exists>rest. pthread_results s = ok # rest \<and> t = s\<lparr>pthread_results := rest\<rparr>)"
  by (auto simp: pthread_call_def split: list.splits)

lemma Platform_init_run:
  assumes "Platform_init g d s = Inr (ok, t)" "\<not> sending_mutex_exists s" "\<not> queue_mutex_exists s"
  shows "if ok then g \<and> d \<and> (\<exists>rest. pthread_results s = replicate 4 True @ rest
      \<and> t = s\<lparr>pthread_results := rest, m_locked := False, sending_mutex_exists := True, queue_mutex_exists := True,
        threads := threads_started (threads s)\<rparr>)
    else \<not> sending_mutex_exists t \<and> \<not> queue_mutex_exists t \<and> threads t = threads s \<and> port t = port s
      \<and> io_tx t = io_tx s"
  using assms
  by (auto simp: Platform_init_def error3_def error2_def pthread_call_run eval_nat_numeral split: if_splits)

lemma Serial_open_run:
  assumes "Serial_open name bitrate s = Inr (r, t)"
  shows "r = (if fd_open t then 0 else -1)"
  using assms int_open_run [of _ r t] by (auto simp: Serial_open_def)

lemma Serial_close_run:
  assumes "Serial_close s = Inr (r, t)"
  shows "\<not> fd_open t \<or> (\<exists>rest. sys_ok s = False # sys_ok t)"
  using assms by (auto simp: Serial_close_def system_call_def split: if_splits list.splits)

text \<open>What asking for the MTU leaves alone.\<close>

interpretation upper: request_invariant "\<lambda>s. wpc_int.more s = c" for c
  by unfold_locales simp_all

lemma keeps_set_mtu:
  assumes "\<And>req. keeps I (WPC_Int_send_request req)" "\<And>s v. I s \<Longrightarrow> I (s\<lparr>m_mtu := v\<rparr>)"
  shows "keeps I WPC_Int_set_mtu"
  unfolding WPC_Int_set_mtu_def WPC_get_mtu_def csap_attribute_read_request_def attribute_read_request_def Let_def
  by (intro keeps_intros assms)

lemma set_mtu_upper:
  assumes "WPC_Int_set_mtu s = Inr (u, t)"
  shows "wpc_int.more t = wpc_int.more s"
proof -
  have "keeps (\<lambda>s. wpc_int.more s = c) WPC_Int_set_mtu" for c
    by (intro keeps_set_mtu upper.keeps_request) simp
  from keepsD [OF this refl assms] show ?thesis .
qed

lemma set_mtu_sends:
  assumes "WPC_Int_set_mtu s = Inr (u, t)"
  shows "\<exists>later. io_tx t = io_tx s @ later"
proof -
  have "keeps (\<lambda>s. \<exists>later. io_tx s = log @ later) WPC_Int_set_mtu" for log
    by (intro keeps_set_mtu sent_log.keeps_request) simp
  from keepsD [OF this _ assms, of "io_tx s"] show ?thesis by simp
qed

lemma opened_run:
  assumes "Serial_open name bitrate p = Inr (0, q)"
  shows "fd_open q" "\<exists>got ok. sys_ok p = replicate 5 True @ got # ok # sys_ok q"
  using assms int_open_run [of _ 0 q] by (fastforce simp: Serial_open_def split: if_splits)+

lemma initialize_run:
  assumes "initialize_host name bitrate s = Inr (res, t)"
  obtains (not_opened) p where "Serial_open name bitrate (port s) = Inr (-1, p)" "\<not> fd_open p"
      "res = APP_RES_INTERNAL_ERROR" "t = s\<lparr>port := p\<rparr>"
  | (not_started) p u q r where "Serial_open name bitrate (port s) = Inr (0, p)"
      "Platform_init True True (s\<lparr>port := p\<rparr>) = Inr (False, u)" "Serial_close (port u) = Inr (r, q)"
      "res = APP_RES_INTERNAL_ERROR" "t = u\<lparr>port := q\<rparr>"
  | (running) p u v w now where "Serial_open name bitrate (port s) = Inr (0, p)"
      "Platform_init True True (s\<lparr>port := p\<rparr>) = Inr (True, u)" "dsap_init u = Inr ((), v)"
      "Platform_get_timestamp_ms_monotonic v = Inr (now, w)"
      "WPC_Int_set_mtu (w\<lparr>m_last_successful_answer_ts := now\<rparr>) = Inr ((), t)" "res = APP_RES_OK"
proof -
  let ?start = "\<lambda>started.
      if \<not> started then andthen (on_port (andthen Serial_close (\<lambda>_. ret ()))) (\<lambda>_. ret WPC_INT_GEN_ERROR)
       else andthen dsap_init (\<lambda>_. andthen Platform_get_timestamp_ms_monotonic (\<lambda>now.
         andthen (modify (\<lambda>s. s\<lparr>m_last_successful_answer_ts := now\<rparr>)) (\<lambda>_. ret 0)))"
  from assms obtain k m where k: "WPC_Int_initialize (on_port (Serial_open name bitrate)) start_slip (Platform_init True True)
      (on_port (andthen Serial_close (\<lambda>_. ret ()))) dsap_init s = Inr (k, m)"
    and rest: "andthen (if k = 0 then WPC_Int_set_mtu else ret ()) (\<lambda>_.
      ret (if k = 0 then APP_RES_OK else APP_RES_INTERNAL_ERROR)) m = Inr (res, t)"
    unfolding initialize_host_def WPC_initialize_def by (rule andthen_InrE)
  from k obtain opened p where opened: "Serial_open name bitrate (port s) = Inr (opened, p)"
    and k: "(if opened < 0 then ret WPC_INT_GEN_ERROR else andthen (Platform_init True True) ?start) (s\<lparr>port := p\<rparr>) = Inr (k, m)"
    unfolding WPC_Int_initialize_def start_slip_def andthen_ret by (auto simp: on_port_run simp del: andthen_ret andthen_halt elim!: andthen_InrE)
  show ?thesis
  proof (cases "fd_open p")
    case False
    with Serial_open_run [OF opened] k rest show ?thesis
      by (intro not_opened [of p]) (auto simp: opened WPC_INT_GEN_ERROR_def)
  next
    case True
    with Serial_open_run [OF opened] opened k have opened: "Serial_open name bitrate (port s) = Inr (0, p)"
      and "andthen (Platform_init True True) ?start (s\<lparr>port := p\<rparr>) = Inr (k, m)"
      by simp_all
    then obtain started u where started: "Platform_init True True (s\<lparr>port := p\<rparr>) = Inr (started, u)"
      and k: "?start started u = Inr (k, m)"
      by (elim andthen_InrE)
    show ?thesis
    proof (cases started)
      case False
      with k rest obtain r q where "Serial_close (port u) = Inr (r, q)" "t = u\<lparr>port := q\<rparr>" "res = APP_RES_INTERNAL_ERROR"
        by (auto simp: on_port_run WPC_INT_GEN_ERROR_def)
      with opened started False show ?thesis by (intro not_started [of p u r q]) simp_all
    next
      case True
      with k rest obtain v now w where "dsap_init u = Inr ((), v)" "Platform_get_timestamp_ms_monotonic v = Inr (now, w)"
        "WPC_Int_set_mtu (w\<lparr>m_last_successful_answer_ts := now\<rparr>) = Inr ((), t)" "res = APP_RES_OK"
        by auto
      with opened started True show ?thesis by (intro running [of p u v now w]) simp_all
    qed
  qed
qed

text \<open>C36: The library starts completely or not at all. When \<^verbatim>\<open>WPC_initialize\<close> succeeds, the port is open,
  both mutexes exist, the two threads run and no callback or notification of an earlier run is left.
  Otherwise it reports an internal error, no mutex and no thread is left behind, nothing has been
  sent to the node, and the port is closed, unless the system refuses to close it.\<close>

theorem startup_all_or_nothing:
  assumes "initialize_host name bitrate s = Inr (res, t)" "\<not> sending_mutex_exists s" "\<not> queue_mutex_exists s"
  shows "(res = APP_RES_OK \<and> fd_open (port t) \<and> sending_mutex_exists t \<and> queue_mutex_exists t
      \<and> threads t = threads_started (threads s) \<and> pending (indication_sent_cb_table t) = {#} \<and> m_data_cb t = None)
    \<or> (res = APP_RES_INTERNAL_ERROR \<and> \<not> sending_mutex_exists t \<and> \<not> queue_mutex_exists t
      \<and> threads t = threads s \<and> io_tx t = io_tx s
      \<and> (fd_open (port t) \<longrightarrow> (\<exists>calls. sys_ok (port s) = calls @ False # sys_ok (port t))))"
  using assms(1)
proof (cases rule: initialize_run)
  case (not_opened p)
  with assms(2,3) show ?thesis by simp
next
  case (not_started p u q r)
  have u: "\<not> sending_mutex_exists u" "\<not> queue_mutex_exists u" "threads u = threads s" "port u = p" "io_tx u = io_tx s"
    using Platform_init_run [OF not_started(2)] assms(2,3) by simp_all
  have "fd_open q \<Longrightarrow> sys_ok p = False # sys_ok q" using Serial_close_run [OF not_started(3)] u(4) by simp
  then have "fd_open q \<Longrightarrow> \<exists>calls. sys_ok (port s) = calls @ False # sys_ok q"
    using opened_run(2) [OF not_started(1)] by (metis append.assoc append_Cons append_Nil)
  with not_started u show ?thesis by simp
next
  case (running p u v w now)
  have u: "sending_mutex_exists u" "queue_mutex_exists u" "threads u = threads_started (threads s)" "port u = p"
    using Platform_init_run [OF running(2)] assms(2,3) by auto
  have "wpc_int.more w = wpc_int.more v" using running(4)
    by (auto simp: Platform_get_timestamp_ms_monotonic_def split: list.splits)
  then have "wpc_int.more t = wpc_int.more v" using set_mtu_upper [OF running(5)] by simp
  then have t: "port t = port v" "sending_mutex_exists t = sending_mutex_exists v" "queue_mutex_exists t = queue_mutex_exists v"
    "threads t = threads v" "indication_sent_cb_table t = indication_sent_cb_table v" "m_data_cb t = m_data_cb v"
    by (cases t; cases v; simp)+
  have "port v = p" "sending_mutex_exists v" "queue_mutex_exists v" "threads v = threads_started (threads s)"
    "pending (indication_sent_cb_table v) = {#}" "m_data_cb v = None"
    using running(3) u by (auto simp: dsap_init_def pending_def)
  with t running(6) opened_run(1) [OF running(1)] show ?thesis by simp
qed

text \<open>The one failure that is not reported: when the dispatching thread cannot be created, the signal meant
  for the polling thread ends the process.\<close>

theorem dispatch_thread_failure_exits:
  assumes "Serial_open name bitrate (port s) = Inr (0, p)" "pthread_results s = True # True # True # False # rest"
  shows "initialize_host name bitrate s = Inl Exited"
proof -
  have "on_port (Serial_open name bitrate) s = Inr (0, s\<lparr>port := p\<rparr>)" using assms(1) by (simp add: on_port_run)
  moreover have "Platform_init True True (s\<lparr>port := p\<rparr>) = Inl Exited"
    using assms(2) by (simp add: Platform_init_def pthread_call_def prog_simps)
  ultimately show ?thesis
    by (simp add: initialize_host_def WPC_initialize_def WPC_Int_initialize_def start_slip_def andthen_def ret_def)
qed

section \<open>Examples\<close>

text \<open>A host before its start, with the results of the coming system calls.\<close>

definition powered_off :: "bool list \<Rightarrow> bool list \<Rightarrow> host" where
  "powered_off port_calls pthread_calls =
     wpc.extend (dsap.extend quiet_dsap \<lparr>m_timeout_after_stop_task_s = 60\<rparr>)
       \<lparr>port = (open_line [])\<lparr>fd_open := False, sys_ok := port_calls\<rparr>, sending_mutex_exists = False,
        queue_mutex_exists = False, threads = power_on, pthread_results = pthread_calls\<rparr>"

lemma opens:
  "\<exists>p. Serial_open [47, 116] 115200 ((open_line [])\<lparr>fd_open := False, sys_ok := replicate 7 True @ calls\<rparr>) = Inr (0, p)
     \<and> fd_open p \<and> sys_ok p = calls"
  by (simp add: Serial_open_def int_open_def set_interface_attribs_def Serial_set_termios2_bitrate_def
      set_low_latency_def system_call_def PORT_NAME_SIZE_def open_line_def eval_nat_numeral prog_simps)

lemma powered_off_fields:
  "port (powered_off a b) = (open_line [])\<lparr>fd_open := False, sys_ok := a\<rparr>" "pthread_results (powered_off a b) = b"
  "\<not> sending_mutex_exists (powered_off a b)" "\<not> queue_mutex_exists (powered_off a b)"
  by (simp_all add: powered_off_def quiet_dsap_def wpc.defs dsap.defs)

text \<open>The polling thread cannot be created: everything is undone.\<close>

theorem startup_all_or_nothing_witness:
  "\<exists>t. initialize_host [47, 116] 115200 (powered_off (replicate 8 True) [True, True, False])
      = Inr (APP_RES_INTERNAL_ERROR, t) \<and> \<not> fd_open (port t) \<and> \<not> sending_mutex_exists t"
proof -
  let ?s = "powered_off (replicate 7 True @ [True]) [True, True, False]"
  obtain p where p: "Serial_open [47, 116] 115200 (port ?s) = Inr (0, p)" "fd_open p" "sys_ok p = [True]"
    using opens [of "[True]"] unfolding powered_off_fields by blast
  have "on_port (Serial_open [47, 116] 115200) ?s = Inr (0, ?s\<lparr>port := p\<rparr>)" using p(1) by (simp add: on_port_run)
  then obtain t where t: "initialize_host [47, 116] 115200 ?s = Inr (APP_RES_INTERNAL_ERROR, t)" "\<not> fd_open (port t)"
    using p(2,3)
    by (simp add: initialize_host_def WPC_initialize_def WPC_Int_initialize_def start_slip_def Platform_init_def pthread_call_def
        powered_off_fields error3_def error2_def on_port_def Serial_close_def system_call_def WPC_INT_GEN_ERROR_def prog_simps)
  have n: "replicate 8 True = replicate 7 True @ [True]" by (simp add: eval_nat_numeral)
  from startup_all_or_nothing [OF t(1) powered_off_fields(3,4)] t show ?thesis unfolding n by auto
qed

theorem dispatch_thread_failure_exits_witness:
  "initialize_host [47, 116] 115200 (powered_off (replicate 7 True) [True, True, True, False]) = Inl Exited"
proof -
  obtain p where "Serial_open [47, 116] 115200 (port (powered_off (replicate 7 True) [True, True, True, False])) = Inr (0, p)"
    using opens [of "[]"] unfolding powered_off_fields by auto
  then show ?thesis by (rule dispatch_thread_failure_exits) (simp add: powered_off_fields)
qed

end
