(* ===== verification/Payloads.thy ===== *)
theory Payloads
  imports Wpc_Api
begin

text \<open>
  The packed structures of the payloads, as \<^verbatim>\<open>dsap.h\<close>, \<^verbatim>\<open>msap.h\<close>, \<^verbatim>\<open>attribute.h\<close>, \<^verbatim>\<open>csap.h\<close> and
  \<^verbatim>\<open>wpc_types.h\<close> declare them, in a small language of C types with their sizes, their values and the
  reading of a value from memory. The functions that build and read frames work on bytes and offsets;
  the theorems here show that these are the offsets and widths of the fields they are meant for: a
  payload as long as its structure holds a typed value, and the code uses the fields of that value.
\<close>

section \<open>Types and values\<close>

text \<open>Integers of 8, 16 and 32 bits, a bit field of the given width in the lowest bits of a 16-bit
  unit, arrays of bytes and of structures, and packed structures, which have no padding.\<close>

datatype ctype = U8 | U16 | U32 | Bits16 nat | Bytes nat | Array nat ctype | Struct "(string \<times> ctype) list"

datatype cval = V8 u8 | V16 u16 | V32 u32 | VBytes "u8 list" | VArray "cval list" | VStruct "(string \<times> cval) list"

fun sizeof :: "ctype \<Rightarrow> nat" and sizeof_fields :: "(string \<times> ctype) list \<Rightarrow> nat" where
  "sizeof U8 = 1"
| "sizeof U16 = 2"
| "sizeof U32 = 4"
| "sizeof (Bits16 k) = 2"
| "sizeof (Bytes n) = n"
| "sizeof (Array n t) = n * sizeof t"
| "sizeof (Struct fs) = sizeof_fields fs"
| "sizeof_fields [] = 0"
| "sizeof_fields ((n, t) # fs) = sizeof t + sizeof_fields fs"

fun typed :: "ctype \<Rightarrow> cval \<Rightarrow> bool"
  and typed_fields :: "(string \<times> ctype) list \<Rightarrow> (string \<times> cval) list \<Rightarrow> bool" where
  "typed U8 (V8 w) = True"
| "typed U16 (V16 w) = True"
| "typed U32 (V32 w) = True"
| "typed (Bits16 k) (V16 w) = (w AND NOT (mask k) = 0)"
| "typed (Bytes n) (VBytes bs) = (length bs = n)"
| "typed (Array n t) (VArray vs) = (length vs = n \<and> (\<forall>v \<in> set vs. typed t v))"
| "typed (Struct fs) (VStruct vs) = typed_fields fs vs"
| "typed _ _ = False"
| "typed_fields [] [] = True"
| "typed_fields ((n, t) # fs) ((m, v) # vs) = (n = m \<and> typed t v \<and> typed_fields fs vs)"
| "typed_fields _ _ = False"

section \<open>Reading a value\<close>

primrec all_right :: "('e + 'a) list \<Rightarrow> 'e + 'a list" where
  "all_right [] = Inr []"
| "all_right (x # xs) = (case x of Inl e \<Rightarrow> Inl e
     | Inr a \<Rightarrow> (case all_right xs of Inl e \<Rightarrow> Inl e | Inr as \<Rightarrow> Inr (a # as)))"

fun unpack :: "ctype \<Rightarrow> u8 list \<Rightarrow> stop + cval"
  and unpack_fields :: "(string \<times> ctype) list \<Rightarrow> u8 list \<Rightarrow> stop + (string \<times> cval) list" where
  "unpack U8 bs = map_sum id V8 (byte_at bs 0)"
| "unpack U16 bs = map_sum id V16 (obj_u16 bs 0)"
| "unpack U32 bs = map_sum id V32 (obj_u32 bs 0)"
| "unpack (Bits16 k) bs = map_sum id (\<lambda>w. V16 (w AND mask k)) (obj_u16 bs 0)"
| "unpack (Bytes n) bs = map_sum id VBytes (bytes_at bs 0 n)"
| "unpack (Array n t) bs = map_sum id VArray (all_right (map (\<lambda>i. unpack t (drop (i * sizeof t) bs)) [0..<n]))"
| "unpack (Struct fs) bs = map_sum id VStruct (unpack_fields fs bs)"
| "unpack_fields [] bs = Inr []"
| "unpack_fields ((n, t) # fs) bs =
     (case unpack t bs of Inl e \<Rightarrow> Inl e
      | Inr v \<Rightarrow>
        (case unpack_fields fs (drop (sizeof t) bs) of Inl e \<Rightarrow> Inl e | Inr vs \<Rightarrow> Inr ((n, v) # vs)))"

text \<open>The payload of a frame as a value, and the fields of a value.\<close>

definition contents_as :: "ctype \<Rightarrow> u8 list \<Rightarrow> stop + cval" where
  "contents_as t frame = unpack t (drop 3 frame)"

fun offset :: "(string \<times> ctype) list \<Rightarrow> string \<Rightarrow> nat" where
  "offset [] n = 0"
| "offset ((m, t) # fs) n = (if m = n then 0 else sizeof t + offset fs n)"

definition field :: "cval \<Rightarrow> string \<Rightarrow> cval option" where
  "field v n = (case v of VStruct vs \<Rightarrow> map_of vs n | _ \<Rightarrow> None)"

definition u8_field :: "cval \<Rightarrow> string \<Rightarrow> u8" where
  "u8_field v n = (case field v n of Some (V8 w) \<Rightarrow> w | _ \<Rightarrow> 0)"

definition u16_field :: "cval \<Rightarrow> string \<Rightarrow> u16" where
  "u16_field v n = (case field v n of Some (V16 w) \<Rightarrow> w | _ \<Rightarrow> 0)"

definition u32_field :: "cval \<Rightarrow> string \<Rightarrow> u32" where
  "u32_field v n = (case field v n of Some (V32 w) \<Rightarrow> w | _ \<Rightarrow> 0)"

definition bytes_field :: "cval \<Rightarrow> string \<Rightarrow> u8 list" where
  "bytes_field v n = (case field v n of Some (VBytes bs) \<Rightarrow> bs | _ \<Rightarrow> [])"

section \<open>The structures\<close>

definition dsap_data_tx_req_pl_t :: ctype where
  "dsap_data_tx_req_pl_t = Struct
    [(''pdu_id'', U16), (''src_endpoint'', U8), (''dest_add'', U32), (''dest_endpoint'', U8),
     (''qos'', U8), (''tx_options'', U8), (''apdu_length'', U8), (''apdu'', Bytes MAX_APDU_DSAP_SIZE)]"

definition dsap_data_tx_tt_req_pl_t :: ctype where
  "dsap_data_tx_tt_req_pl_t = Struct
    [(''pdu_id'', U16), (''src_endpoint'', U8), (''dest_add'', U32), (''dest_endpoint'', U8),
     (''qos'', U8), (''tx_options'', U8), (''buffering_delay'', U32), (''apdu_length'', U8),
     (''apdu'', Bytes MAX_APDU_DSAP_SIZE)]"

definition dsap_data_tx_frag_req_pl_t :: ctype where
  "dsap_data_tx_frag_req_pl_t = Struct
    [(''pdu_id'', U16), (''src_endpoint'', U8), (''dest_add'', U32), (''dest_endpoint'', U8),
     (''qos'', U8), (''tx_options'', U8), (''buffering_delay'', U32), (''full_packet_id'', Bits16 12),
     (''fragment_offset_flag'', U16), (''apdu_length'', U8), (''apdu'', Bytes MAX_APDU_DSAP_SIZE)]"

definition dsap_data_tx_ind_pl_t :: ctype where
  "dsap_data_tx_ind_pl_t = Struct
    [(''indication_status'', U8), (''pdu_id'', U16), (''src_endpoint'', U8), (''dest_add'', U32),
     (''dest_endpoint'', U8), (''buffering_delay'', U32), (''result'', U8)]"

definition dsap_data_rx_ind_pl_t :: ctype where
  "dsap_data_rx_ind_pl_t = Struct
    [(''indication_status'', U8), (''src_add'', U32), (''src_endpoint'', U8), (''dest_add'', U32),
     (''dest_endpoint'', U8), (''qos_hop_count'', U8), (''travel_time'', U32), (''apdu_length'', U8),
     (''apdu'', Bytes MAX_APDU_DSAP_SIZE)]"

definition dsap_data_rx_frag_ind_pl_t :: ctype where
  "dsap_data_rx_frag_ind_pl_t = Struct
    [(''indication_status'', U8), (''src_add'', U32), (''src_endpoint'', U8), (''dest_add'', U32),
     (''dest_endpoint'', U8), (''qos_hop_count'', U8), (''travel_time'', U32),
     (''full_packet_id'', Bits16 12), (''fragment_offset_flag'', U16), (''apdu_length'', U8),
     (''apdu'', Bytes MAX_APDU_DSAP_SIZE)]"

definition dsap_data_tx_conf_pl_t :: ctype where
  "dsap_data_tx_conf_pl_t = Struct
    [(''pdu_id'', U16), (''result'', U8), (''capacity'', U8)]"

definition msap_stack_start_req_pl_t :: ctype where
  "msap_stack_start_req_pl_t = Struct
    [(''start_option'', U8)]"

definition msap_app_config_data_write_req_pl_t :: ctype where
  "msap_app_config_data_write_req_pl_t = Struct
    [(''sequence_number'', U8), (''diag_data_interval'', U16),
     (''app_config_data'', Bytes MAXIMUM_APP_CONFIG_SIZE)]"

definition msap_attribute_write_req_pl_t :: ctype where
  "msap_attribute_write_req_pl_t = Struct
    [(''attribute_id'', U16), (''attribute_length'', U8), (''attribute_value'', Bytes 16)]"

definition msap_attribute_read_req_pl_t :: ctype where
  "msap_attribute_read_req_pl_t = Struct
    [(''attribute_id'', U16)]"

definition msap_image_start_req_pl_t :: ctype where
  "msap_image_start_req_pl_t = Struct
    [(''scratchpad_length'', U32), (''scratchpad_sequence_number'', U8)]"

definition msap_image_block_req_pl_t :: ctype where
  "msap_image_block_req_pl_t = Struct
    [(''start_add'', U32), (''number_of_bytes'', U8), (''bytes'', Bytes MAXIMUM_SCRATCHPAD_BLOCK_SIZE)]"

definition msap_scratchpad_target_write_req_pl_t :: ctype where
  "msap_scratchpad_target_write_req_pl_t = Struct
    [(''target_sequence'', U8), (''target_crc'', U16), (''action'', U8), (''param'', U8)]"

definition msap_image_block_read_req_pl_t :: ctype where
  "msap_image_block_read_req_pl_t = Struct
    [(''start_add'', U32), (''number_of_bytes'', U8)]"

definition neighbor_info_t :: ctype where
  "neighbor_info_t = Struct
    [(''add'', U32), (''link_rel'', U8), (''norm_rssi'', U8), (''cost'', U8), (''channel'', U8),
     (''nbor_type'', U8), (''tx_power'', U8), (''rx_power'', U8), (''last_update'', U16)]"

definition msap_get_nbors_conf_pl_t :: ctype where
  "msap_get_nbors_conf_pl_t = Struct
    [(''number_of_neighbors'', U8), (''nbors'', Array MAXIMUM_NUMBER_OF_NEIGHBOR neighbor_info_t)]"

definition msap_scan_nbors_ind_pl_t :: ctype where
  "msap_scan_nbors_ind_pl_t = Struct
    [(''indication_status'', U8), (''scan_ready'', U8)]"

definition msap_sink_cost_write_req_pl_t :: ctype where
  "msap_sink_cost_write_req_pl_t = Struct
    [(''cost'', U8)]"

definition msap_sink_cost_read_conf_pl_t :: ctype where
  "msap_sink_cost_read_conf_pl_t = Struct
    [(''result'', U8), (''cost'', U8)]"

definition msap_stack_state_ind_pl_t :: ctype where
  "msap_stack_state_ind_pl_t = Struct
    [(''indication_status'', U8), (''status'', U8)]"

definition msap_app_config_data_rx_ind_pl_t :: ctype where
  "msap_app_config_data_rx_ind_pl_t = Struct
    [(''indication_status'', U8), (''sequence_number'', U8), (''diag_data_interval'', U16),
     (''app_config_data'', Bytes MAXIMUM_APP_CONFIG_SIZE)]"

definition msap_app_config_data_read_conf_pl_t :: ctype where
  "msap_app_config_data_read_conf_pl_t = Struct
    [(''result'', U8), (''sequence_number'', U8), (''diag_data_interval'', U16),
     (''app_config_data'', Bytes MAXIMUM_APP_CONFIG_SIZE)]"

definition msap_attribute_read_conf_pl_t :: ctype where
  "msap_attribute_read_conf_pl_t = Struct
    [(''result'', U8), (''attribute_id'', U16), (''attribute_length'', U8),
     (''attribute_value'', Bytes 16)]"

definition msap_scratchpad_status_conf_pl_t :: ctype where
  "msap_scratchpad_status_conf_pl_t = Struct
    [(''scrat_len'', U32), (''scrat_crc'', U16), (''scrat_seq_number'', U8), (''scrat_type'', U8),
     (''scrat_status'', U8), (''processed_scrat_len'', U32), (''processed_scrat_crc'', U16),
     (''processed_scrat_seq_number'', U8), (''firmware_memory_area_id'', U32),
     (''firmware_major_ver'', U8), (''firmware_minor_ver'', U8), (''firmware_maint_ver'', U8),
     (''firmware_dev_ver'', U8)]"

definition msap_scratchpad_target_read_conf_pl_t :: ctype where
  "msap_scratchpad_target_read_conf_pl_t = Struct
    [(''result'', U8), (''target_sequence'', U8), (''target_crc'', U16), (''action'', U8),
     (''param'', U8)]"

definition msap_image_block_read_conf_pl_t :: ctype where
  "msap_image_block_read_conf_pl_t = Struct
    [(''result'', U8), (''bytes'', Bytes MAXIMUM_SCRATCHPAD_BLOCK_SIZE)]"

definition msap_config_data_item_set_req_pl_t :: ctype where
  "msap_config_data_item_set_req_pl_t = Struct
    [(''endpoint'', U16), (''payload_length'', U8), (''payload'', Bytes MAXIMUM_CDC_ITEM_PAYLOAD_SIZE)]"

definition msap_config_data_item_get_req_pl_t :: ctype where
  "msap_config_data_item_get_req_pl_t = Struct
    [(''endpoint'', U16)]"

definition msap_config_data_item_get_conf_pl_t :: ctype where
  "msap_config_data_item_get_conf_pl_t = Struct
    [(''result'', U8), (''payload_length'', U8), (''payload'', Bytes MAXIMUM_CDC_ITEM_PAYLOAD_SIZE)]"

definition msap_config_data_item_list_items_req_pl_t :: ctype where
  "msap_config_data_item_list_items_req_pl_t = Struct
    [(''command'', U8)]"

definition msap_config_data_item_list_items_conf_pl_t :: ctype where
  "msap_config_data_item_list_items_conf_pl_t = Struct
    [(''result'', U8), (''amount_endpoints'', U8),
     (''endpoints_list'', Bytes MAXIMUM_CDC_ITEM_LIST_BYTE_COUNT)]"

definition msap_config_data_item_rx_ind_pl_t :: ctype where
  "msap_config_data_item_rx_ind_pl_t = Struct
    [(''indication_status'', U8), (''endpoint'', U16), (''payload_length'', U8),
     (''payload'', Bytes MAXIMUM_CDC_ITEM_PAYLOAD_SIZE)]"

definition attribute_write_req_pl_t :: ctype where
  "attribute_write_req_pl_t = Struct
    [(''attribute_id'', U16), (''attribute_length'', U8), (''attribute_value'', Bytes MAX_ATTRIBUTE_SIZE)]"

definition attribute_read_req_pl_t :: ctype where
  "attribute_read_req_pl_t = Struct
    [(''attribute_id'', U16)]"

definition attribute_read_conf_pl_t :: ctype where
  "attribute_read_conf_pl_t = Struct
    [(''result'', U8), (''attribute_id'', U16), (''attribute_length'', U8),
     (''attribute_value'', Bytes MAX_ATTRIBUTE_SIZE)]"

definition csap_factory_reset_req_pl_t :: ctype where
  "csap_factory_reset_req_pl_t = Struct
    [(''reset_key'', U32)]"

definition generic_ind_pl_t :: ctype where
  "generic_ind_pl_t = Struct
    [(''indication_status'', U8)]"

definition sap_generic_conf_pl_t :: ctype where
  "sap_generic_conf_pl_t = Struct
    [(''result'', U8)]"

definition sap_resp_pl_t :: ctype where
  "sap_resp_pl_t = Struct
    [(''result'', U8)]"

definition payload_union :: "(string \<times> ctype) list" where
  "payload_union =
    [(''dsap_data_tx_request_payload'', dsap_data_tx_req_pl_t),
     (''dsap_data_tx_tt_request_payload'', dsap_data_tx_tt_req_pl_t),
     (''dsap_data_tx_frag_request_payload'', dsap_data_tx_frag_req_pl_t),
     (''msap_stack_start_request_payload'', msap_stack_start_req_pl_t),
     (''msap_app_config_data_write_request_payload'', msap_app_config_data_write_req_pl_t),
     (''sap_attribute_write_request_payload'', msap_attribute_write_req_pl_t),
     (''msap_attribute_read_request_payload'', msap_attribute_read_req_pl_t),
     (''msap_image_start_request_payload'', msap_image_start_req_pl_t),
     (''msap_image_block_request_payload'', msap_image_block_req_pl_t),
     (''msap_sink_cost_write_request_payload'', msap_sink_cost_write_req_pl_t),
     (''attribute_write_request_payload'', attribute_write_req_pl_t),
     (''attribute_read_request_payload'', attribute_read_req_pl_t),
     (''csap_factory_reset_request_payload'', csap_factory_reset_req_pl_t),
     (''msap_scratchpad_target_write_request_payload'', msap_scratchpad_target_write_req_pl_t),
     (''msap_image_block_read_request_payload'', msap_image_block_read_req_pl_t),
     (''msap_config_data_item_set_request_payload'', msap_config_data_item_set_req_pl_t),
     (''msap_config_data_item_get_request_payload'', msap_config_data_item_get_req_pl_t),
     (''msap_config_data_item_list_items_request_payload'', msap_config_data_item_list_items_req_pl_t),
     (''dsap_data_tx_indication_payload'', dsap_data_tx_ind_pl_t),
     (''dsap_data_rx_indication_payload'', dsap_data_rx_ind_pl_t),
     (''dsap_data_rx_frag_indication_payload'', dsap_data_rx_frag_ind_pl_t),
     (''msap_stack_state_indication_payload'', msap_stack_state_ind_pl_t),
     (''msap_app_config_data_rx_indication_payload'', msap_app_config_data_rx_ind_pl_t),
     (''msap_scan_nbors_indication_payload'', msap_scan_nbors_ind_pl_t),
     (''generic_indication_payload'', generic_ind_pl_t),
     (''msap_config_data_item_rx_indication_payload'', msap_config_data_item_rx_ind_pl_t),
     (''sap_generic_confirm_payload'', sap_generic_conf_pl_t),
     (''dsap_data_tx_confirm_payload'', dsap_data_tx_conf_pl_t),
     (''msap_app_config_data_read_confirm_payload'', msap_app_config_data_read_conf_pl_t),
     (''msap_attribute_read_confirm_payload'', msap_attribute_read_conf_pl_t),
     (''msap_sink_cost_read_confirm_payload'', msap_sink_cost_read_conf_pl_t),
     (''msap_get_nbors_confirm_payload'', msap_get_nbors_conf_pl_t),
     (''msap_scratchpad_status_confirm_payload'', msap_scratchpad_status_conf_pl_t),
     (''attribute_read_confirm_payload'', attribute_read_conf_pl_t),
     (''msap_scratchpad_target_read_confirm_payload'', msap_scratchpad_target_read_conf_pl_t),
     (''msap_image_block_read_confirm_payload'', msap_image_block_read_conf_pl_t),
     (''msap_config_data_item_get_confirm_payload'', msap_config_data_item_get_conf_pl_t),
     (''msap_config_data_item_list_items_confirm_payload'', msap_config_data_item_list_items_conf_pl_t),
     (''sap_response_payload'', sap_resp_pl_t)]"

section \<open>Memory of the right size holds a typed value\<close>

lemma all_right_total:
  "\<forall>x \<in> set xs. \<exists>a. x = Inr a \<and> P a
    \<Longrightarrow> \<exists>as. all_right xs = Inr as \<and> length as = length xs \<and> (\<forall>a \<in> set as. P a)"
  by (induction xs) (auto split: sum.splits)

lemma obj_u16_total: "2 \<le> length bs \<Longrightarrow> \<exists>w. obj_u16 bs 0 = Inr w"
  by (cases bs rule: uint16_decode_le.cases) (auto simp: obj_u16_def bytes_at_def host_simps)

lemma obj_u32_total: "4 \<le> length bs \<Longrightarrow> \<exists>w. obj_u32 bs 0 = Inr w"
  by (cases bs rule: uint32_decode_le.cases) (auto simp: obj_u32_def bytes_at_def host_simps numeral_eq_Suc)

lemma unpack_typed:
  "sizeof t \<le> length bs \<Longrightarrow> \<exists>v. unpack t bs = Inr v \<and> typed t v"
  "sizeof_fields fs \<le> length bs \<Longrightarrow> \<exists>vs. unpack_fields fs bs = Inr vs \<and> typed_fields fs vs"
proof (induction t bs and fs bs rule: unpack_unpack_fields.induct)
  case (6 n t bs)
  have "sizeof t \<le> length (drop (i * sizeof t) bs)" if "i \<in> set [0..<n]" for i
  proof -
    have "i * sizeof t + sizeof t \<le> n * sizeof t" using that mult_le_mono1 [of "Suc i" n "sizeof t"] by simp
    with 6(2) show ?thesis by simp
  qed
  with 6(1) have "\<forall>x \<in> set (map (\<lambda>i. unpack t (drop (i * sizeof t) bs)) [0..<n]). \<exists>v. x = Inr v \<and> typed t v" by auto
  from all_right_total [OF this] show ?case by auto
next
  case (9 n t fs bs)
  from 9(3) have "sizeof t \<le> length bs" by simp
  with 9(1) obtain v where v: "unpack t bs = Inr v" "typed t v" by blast
  moreover have "sizeof_fields fs \<le> length (drop (sizeof t) bs)" using 9(3) by simp
  with 9(2) [OF v(1)] obtain vs where "unpack_fields fs (drop (sizeof t) bs) = Inr vs" "typed_fields fs vs" by blast
  ultimately show ?case by simp
next
  case (2 bs)
  with obj_u16_total [of bs] show ?case by auto
next
  case (3 bs)
  with obj_u32_total [of bs] show ?case by auto
next
  case (4 k bs)
  then obtain w where "obj_u16 bs 0 = Inr w" using obj_u16_total [of bs] by auto
  moreover have "(w AND mask k) AND NOT (mask k) = 0" by (rule bit_word_eqI) (simp add: bit_simps)
  ultimately show ?case by simp
qed (auto simp: byte_at_def bytes_at_def)

lemma contents_typed: "3 + sizeof t \<le> length frame \<Longrightarrow> \<exists>v. contents_as t frame = Inr v \<and> typed t v"
  by (simp add: contents_as_def unpack_typed(1))

section \<open>Reading at the offset of a field\<close>

lemma unpack_field:
  "unpack_fields fs bs = Inr vs \<Longrightarrow> map_of fs n = Some t
    \<Longrightarrow> \<exists>v. map_of vs n = Some v \<and> unpack t (drop (offset fs n) bs) = Inr v"
proof (induction fs arbitrary: bs vs)
  case (Cons f fs)
  then obtain v ws where "unpack (snd f) bs = Inr v" "unpack_fields fs (drop (sizeof (snd f)) bs) = Inr ws"
    "vs = (fst f, v) # ws" by (cases f) (auto split: sum.splits)
  with Cons show ?case by (cases f) (fastforce simp: add.commute)
qed simp

lemma value_field:
  assumes "unpack (Struct fs) bs = Inr v" "map_of fs n = Some t" "offset fs n = i"
  shows "\<exists>w. field v n = Some w \<and> unpack t (drop i bs) = Inr w"
proof -
  from assms(1) obtain vs where vs: "unpack_fields fs bs = Inr vs" "v = VStruct vs"
    by (cases "unpack_fields fs bs") auto
  with unpack_field [OF vs(1) assms(2)] assms(3) show ?thesis by (simp add: field_def)
qed

lemma byte_at_drop: "byte_at (drop i bs) j = byte_at bs (i + j)"
  by (auto simp: byte_at_def)

lemma bytes_at_drop: "0 < n \<Longrightarrow> bytes_at (drop i bs) j n = bytes_at bs (i + j) n"
  by (auto simp: bytes_at_def add.commute)

lemma obj_drop: "obj_u16 (drop i bs) j = obj_u16 bs (i + j)" "obj_u32 (drop i bs) j = obj_u32 bs (i + j)"
  by (simp_all add: obj_u16_def obj_u32_def bytes_at_drop)

lemma att_obj: "att_u16 = obj_u16" "att_u32 = obj_u32"
  by (simp_all add: fun_eq_iff att_u16_def att_u32_def obj_u16_def obj_u32_def host_simps split: sum.split)

lemma u8_value:
  assumes "unpack (Struct fs) bs = Inr v" "map_of fs n = Some U8" "offset fs n = i"
  shows "byte_at bs i = Inr (u8_field v n)"
  using value_field [OF assms] by (cases "byte_at bs i") (auto simp: u8_field_def byte_at_drop)

lemma u16_value:
  assumes "unpack (Struct fs) bs = Inr v" "map_of fs n = Some U16" "offset fs n = i"
  shows "obj_u16 bs i = Inr (u16_field v n)"
  using value_field [OF assms] by (cases "obj_u16 bs i") (auto simp: u16_field_def obj_drop)

lemma u32_value:
  assumes "unpack (Struct fs) bs = Inr v" "map_of fs n = Some U32" "offset fs n = i"
  shows "obj_u32 bs i = Inr (u32_field v n)"
  using value_field [OF assms] by (cases "obj_u32 bs i") (auto simp: u32_field_def obj_drop)

text \<open>The same for the payload of a frame.\<close>

lemma read_u8_field:
  assumes "contents_as (Struct fs) frame = Inr v" "map_of fs n = Some U8" "offset fs n = i"
  shows "pl_u8 frame i = Inr (u8_field v n)"
  using u8_value [OF assms [unfolded contents_as_def]] by (simp add: pl_u8_def byte_at_drop)

lemma read_u16_field:
  assumes "contents_as (Struct fs) frame = Inr v" "map_of fs n = Some U16" "offset fs n = i"
  shows "pl_u16 frame i = Inr (u16_field v n)"
  using u16_value [OF assms [unfolded contents_as_def]] by (simp add: pl_u16_def obj_drop)

lemma read_u32_field:
  assumes "contents_as (Struct fs) frame = Inr v" "map_of fs n = Some U32" "offset fs n = i"
  shows "pl_u32 frame i = Inr (u32_field v n)"
  using u32_value [OF assms [unfolded contents_as_def]] by (simp add: pl_u32_def obj_drop)

lemma read_bit_field:
  assumes "contents_as (Struct fs) frame = Inr v" "map_of fs n = Some (Bits16 k)" "offset fs n = i"
  shows "\<exists>w. pl_u16 frame i = Inr w \<and> w AND mask k = u16_field v n"
  using value_field [OF assms [unfolded contents_as_def]]
  by (cases "pl_u16 frame i") (auto simp: pl_u16_def u16_field_def obj_drop add.commute)

lemma read_bytes_field:
  assumes "contents_as (Struct fs) frame = Inr v" "map_of fs n = Some (Bytes k)" "offset fs n = i"
  shows "bytes_field v n = pl_copy frame i k" "length (bytes_field v n) = k"
proof -
  from value_field [OF assms [unfolded contents_as_def]] obtain bs where
    bs: "field v n = Some (VBytes bs)" "k \<le> length (drop (3 + i) frame)" "bs = take k (drop (3 + i) frame)"
    by (auto simp: bytes_at_def add.commute split: if_splits)
  then show "bytes_field v n = pl_copy frame i k" by (simp add: bytes_field_def pl_copy_def)
  with bs(2) show "length (bytes_field v n) = k" by (simp add: pl_copy_def)
qed

lemma pl_copy_min: "pl_copy frame i (min m k) = take m (pl_copy frame i k)"
  by (simp add: pl_copy_def)

lemma bytes_at_pl_copy:
  "length (pl_copy frame i k) = k \<Longrightarrow> m \<le> k \<Longrightarrow> 0 < k
    \<Longrightarrow> bytes_at frame (3 + i) m = Inr (take m (pl_copy frame i k))"
  by (auto simp: pl_copy_def bytes_at_def min_def split: if_splits)

text \<open>A frame whose payload, read as a value of type \<^verbatim>\<open>t\<close>, has a property.\<close>

definition carries :: "ctype \<Rightarrow> u8 list \<Rightarrow> (cval \<Rightarrow> bool) \<Rightarrow> bool" where
  "carries t frame P \<longleftrightarrow> (\<exists>v. contents_as t frame = Inr v \<and> typed t v \<and> P v)"

lemma carriesI:
  "3 + sizeof t \<le> length frame \<Longrightarrow> (\<And>v. contents_as t frame = Inr v \<Longrightarrow> P v) \<Longrightarrow> carries t frame P"
  unfolding carries_def using contents_typed by blast

section \<open>Data indications\<close>

definition rx_header_of :: "cval \<Rightarrow> rx_header" where
  "rx_header_of v = \<lparr>rh_src_add = u32_field v ''src_add'', rh_src_ep = u8_field v ''src_endpoint'',
     rh_dest_add = u32_field v ''dest_add'', rh_dest_ep = u8_field v ''dest_endpoint'',
     rh_qos_hop_count = u8_field v ''qos_hop_count'', rh_travel_time = u32_field v ''travel_time''\<rparr>"

definition rx_fragment_of :: "cval \<Rightarrow> reassembly_fragment" where
  "rx_fragment_of v = \<lparr>fr_src_add = u32_field v ''src_add'', fr_packet_id = u16_field v ''full_packet_id'',
     fr_bytes = take (unat (u8_field v ''apdu_length'')) (bytes_field v ''apdu''),
     fr_offset = unat (u16_field v ''fragment_offset_flag'' AND DSAP_FRAG_LENGTH_MASK),
     fr_last = (u16_field v ''fragment_offset_flag'' AND DSAP_FRAG_LAST_FLAG_MASK = DSAP_FRAG_LAST_FLAG_MASK)\<rparr>"

lemma tx_indication_typed:
  assumes "contents_as dsap_data_tx_ind_pl_t frame = Inr v"
  shows "dsap_data_tx_indication_handler app frame =
     andthen (get_indication_cb (u16_field v ''pdu_id'')) (\<lambda>cb.
     case cb of None \<Rightarrow> ret ()
     | Some c \<Rightarrow> app (Data_sent c (u16_field v ''pdu_id'') (internal_time_to_ms (u32_field v ''buffering_delay''))
         (u8_field v ''result'')))"
proof -
  note v = assms [unfolded dsap_data_tx_ind_pl_t_def]
  have "pl_u16 frame 1 = Inr (u16_field v ''pdu_id'')" by (rule read_u16_field [OF v]) simp_all
  moreover have "pl_u32 frame 9 = Inr (u32_field v ''buffering_delay'')" by (rule read_u32_field [OF v]) simp_all
  moreover have "pl_u8 frame 13 = Inr (u8_field v ''result'')" by (rule read_u8_field [OF v]) simp_all
  ultimately show ?thesis by (simp add: dsap_data_tx_indication_handler_def lift_sum_right)
qed

lemma rx_header_typed:
  assumes "contents_as dsap_data_rx_ind_pl_t frame = Inr v \<or> contents_as dsap_data_rx_frag_ind_pl_t frame = Inr v"
  shows "read_rx_header frame = Inr (rx_header_of v)"
proof -
  obtain fs where v: "contents_as (Struct fs) frame = Inr v" and
    fs: "map_of fs ''src_add'' = Some U32" "map_of fs ''src_endpoint'' = Some U8" "map_of fs ''dest_add'' = Some U32"
      "map_of fs ''dest_endpoint'' = Some U8" "map_of fs ''qos_hop_count'' = Some U8" "map_of fs ''travel_time'' = Some U32"
      "offset fs ''src_add'' = 1" "offset fs ''src_endpoint'' = 5" "offset fs ''dest_add'' = 6"
      "offset fs ''dest_endpoint'' = 10" "offset fs ''qos_hop_count'' = 11" "offset fs ''travel_time'' = 12"
    using assms [unfolded dsap_data_rx_ind_pl_t_def dsap_data_rx_frag_ind_pl_t_def] that by (elim disjE) simp_all
  show ?thesis
    by (simp add: read_rx_header_def rx_header_of_def read_u32_field [OF v fs(1)] read_u8_field [OF v fs(2)]
        read_u32_field [OF v fs(3)] read_u8_field [OF v fs(4)] read_u8_field [OF v fs(5)] read_u32_field [OF v fs(6)] fs)
qed

lemma rx_fragment_typed:
  assumes "contents_as dsap_data_rx_frag_ind_pl_t frame = Inr v"
  shows "read_rx_fragment frame =
    (if unat (u8_field v ''apdu_length'') \<le> MAX_APDU_DSAP_SIZE then Inr (rx_fragment_of v) else Inl Undefined)"
proof -
  note v = assms [unfolded dsap_data_rx_frag_ind_pl_t_def]
  have "pl_u32 frame 1 = Inr (u32_field v ''src_add'')" by (rule read_u32_field [OF v]) simp_all
  moreover obtain w where "pl_u16 frame 16 = Inr w" "w AND mask 12 = u16_field v ''full_packet_id''"
    using read_bit_field [OF v, of "''full_packet_id''" 12 16] by auto
  moreover have "pl_u16 frame 18 = Inr (u16_field v ''fragment_offset_flag'')" by (rule read_u16_field [OF v]) simp_all
  moreover have "pl_u8 frame 20 = Inr (u8_field v ''apdu_length'')" by (rule read_u8_field [OF v]) simp_all
  moreover have "bytes_at frame 24 n = Inr (take n (bytes_field v ''apdu''))" if "n \<le> MAX_APDU_DSAP_SIZE" for n
    using bytes_at_pl_copy [of frame 21 MAX_APDU_DSAP_SIZE n] read_bytes_field [OF v, of "''apdu''" MAX_APDU_DSAP_SIZE 21] that
    by (simp add: MAX_APDU_DSAP_SIZE_def)
  moreover have "(mask 12 :: u16) = 0xfff" by (simp add: mask_eq_exp_minus_1)
  ultimately show ?thesis by (auto simp: read_rx_fragment_def rx_fragment_of_def)
qed

lemma rx_indication_typed:
  assumes "contents_as dsap_data_rx_ind_pl_t frame = Inr v"
  shows "dsap_data_rx_indication_handler app frame timestamp = call_if_set m_data_cb (\<lambda>c.
    app (data_call c (take (unat (u8_field v ''apdu_length'')) (bytes_field v ''apdu''))
      (unat (u8_field v ''apdu_length'')) (rx_header_of v) timestamp))"
proof -
  note v = assms [unfolded dsap_data_rx_ind_pl_t_def]
  have "pl_u8 frame 16 = Inr (u8_field v ''apdu_length'')" by (rule read_u8_field [OF v]) simp_all
  moreover have "bytes_field v ''apdu'' = pl_copy frame 17 MAX_APDU_DSAP_SIZE" by (rule read_bytes_field [OF v]) simp_all
  ultimately show ?thesis
    using rx_header_typed [OF disjI1 [OF assms]] by (simp add: pl_copy_min dsap_data_rx_indication_handler_def lift_sum_right)
qed

section \<open>Indications of the management service\<close>

lemma stack_state_typed:
  assumes "contents_as msap_stack_state_ind_pl_t frame = Inr v"
  shows "msap_stack_state_indication_handler app frame =
    andthen (call_if_set m_stack_status_cb (\<lambda>c. app (Stack_status c (u8_field v ''status'')))) (\<lambda>_. WPC_Int_set_mtu)"
proof -
  have "pl_u8 frame 1 = Inr (u8_field v ''status'')"
    by (rule read_u8_field [OF assms [unfolded msap_stack_state_ind_pl_t_def]]) simp_all
  then show ?thesis by (simp add: msap_stack_state_indication_handler_def lift_sum_right)
qed

lemma app_config_typed:
  assumes "contents_as msap_app_config_data_rx_ind_pl_t frame = Inr v"
  shows "msap_app_config_data_rx_indication_handler app frame = call_if_set m_app_conf_cb (\<lambda>c.
    app (App_config c (u8_field v ''sequence_number'') (u16_field v ''diag_data_interval'') (bytes_field v ''app_config_data'')))"
proof -
  note v = assms [unfolded msap_app_config_data_rx_ind_pl_t_def]
  have "pl_u8 frame 1 = Inr (u8_field v ''sequence_number'')" by (rule read_u8_field [OF v]) simp_all
  moreover have "pl_u16 frame 2 = Inr (u16_field v ''diag_data_interval'')" by (rule read_u16_field [OF v]) simp_all
  moreover have "bytes_field v ''app_config_data'' = pl_copy frame 4 MAXIMUM_APP_CONFIG_SIZE"
    by (rule read_bytes_field [OF v]) simp_all
  ultimately show ?thesis by (simp add: msap_app_config_data_rx_indication_handler_def lift_sum_right)
qed

lemma scan_nbors_typed:
  assumes "contents_as msap_scan_nbors_ind_pl_t frame = Inr v"
  shows "msap_scan_nbors_indication_handler app frame =
    call_if_set m_scan_neighbor_cb (\<lambda>c. app (Scan_done c (u8_field v ''scan_ready'')))"
proof -
  have "pl_u8 frame 1 = Inr (u8_field v ''scan_ready'')"
    by (rule read_u8_field [OF assms [unfolded msap_scan_nbors_ind_pl_t_def]]) simp_all
  then show ?thesis by (simp add: msap_scan_nbors_indication_handler_def lift_sum_right)
qed

lemma config_item_typed:
  assumes "contents_as msap_config_data_item_rx_ind_pl_t frame = Inr v"
  shows "msap_config_data_item_rx_indication_handler app frame = call_if_set m_config_data_item_cb (\<lambda>c.
    app (Config_item c (u16_field v ''endpoint'') (bytes_field v ''payload'') (u8_field v ''payload_length'')))"
proof -
  note v = assms [unfolded msap_config_data_item_rx_ind_pl_t_def]
  have "pl_u16 frame 1 = Inr (u16_field v ''endpoint'')" by (rule read_u16_field [OF v]) simp_all
  moreover have "pl_u8 frame 3 = Inr (u8_field v ''payload_length'')" by (rule read_u8_field [OF v]) simp_all
  moreover have "bytes_field v ''payload'' = pl_copy frame 4 MAXIMUM_CDC_ITEM_PAYLOAD_SIZE"
    by (rule read_bytes_field [OF v]) simp_all
  ultimately show ?thesis by (simp add: msap_config_data_item_rx_indication_handler_def lift_sum_right)
qed

section \<open>Confirms\<close>

text \<open>Each function that reads a confirm, on the value that the confirm holds. Confirms shorter than their
  structure, which refusals are, are covered by the definitions.\<close>

lemma result_typed:
  assumes "contents_as (Struct ((''result'', U8) # fs)) frame = Inr v"
  shows "generic_confirm frame = Inr (int (unat (u8_field v ''result'')))"
  using read_u8_field [OF assms, of "''result''" 0] by (simp add: generic_confirm_def)

lemma uint_zero [simp]: "uint (w :: u8) = 0 \<longleftrightarrow> w = 0"
  by (fact uint_0_iff)

lemma app_config_confirm_typed:
  assumes "contents_as msap_app_config_data_read_conf_pl_t frame = Inr v"
  shows "app_config_read_confirm size_p frame = Inr (int (unat (u8_field v ''result'')),
    if u8_field v ''result'' = 0 then Some (u8_field v ''sequence_number'', u16_field v ''diag_data_interval'',
      take (unat size_p) (bytes_field v ''app_config_data'')) else None)"
proof -
  note v = assms [unfolded msap_app_config_data_read_conf_pl_t_def]
  have "pl_u8 frame 1 = Inr (u8_field v ''sequence_number'')" by (rule read_u8_field [OF v]) simp_all
  moreover have "pl_u16 frame 2 = Inr (u16_field v ''diag_data_interval'')" by (rule read_u16_field [OF v]) simp_all
  moreover have "bytes_field v ''app_config_data'' = pl_copy frame 4 MAXIMUM_APP_CONFIG_SIZE"
    by (rule read_bytes_field [OF v]) simp_all
  moreover have "(if n > m then m else n) = min n m" for n m :: nat by simp
  ultimately show ?thesis
    by (simp add: app_config_read_confirm_def result_typed [OF v] Let_def pl_copy_min)
qed

lemma sink_cost_confirm_typed:
  assumes "contents_as msap_sink_cost_read_conf_pl_t frame = Inr v"
  shows "sink_cost_confirm frame = Inr (int (unat (u8_field v ''result'')),
    if u8_field v ''result'' = 0 then Some (u8_field v ''cost'') else None)"
proof -
  note v = assms [unfolded msap_sink_cost_read_conf_pl_t_def]
  have "pl_u8 frame 1 = Inr (u8_field v ''cost'')" by (rule read_u8_field [OF v]) simp_all
  then show ?thesis by (simp add: sink_cost_confirm_def result_typed [OF v])
qed

lemma target_confirm_typed:
  assumes "contents_as msap_scratchpad_target_read_conf_pl_t frame = Inr v"
  shows "target_read_confirm frame = Inr (int (unat (u8_field v ''result'')),
    if u8_field v ''result'' = 0 then Some (u8_field v ''target_sequence'', u16_field v ''target_crc'',
      u8_field v ''action'', u8_field v ''param'') else None)"
proof -
  note v = assms [unfolded msap_scratchpad_target_read_conf_pl_t_def]
  have "pl_u8 frame 1 = Inr (u8_field v ''target_sequence'')" by (rule read_u8_field [OF v]) simp_all
  moreover have "pl_u16 frame 2 = Inr (u16_field v ''target_crc'')" by (rule read_u16_field [OF v]) simp_all
  moreover have "pl_u8 frame 4 = Inr (u8_field v ''action'')" by (rule read_u8_field [OF v]) simp_all
  moreover have "pl_u8 frame 5 = Inr (u8_field v ''param'')" by (rule read_u8_field [OF v]) simp_all
  ultimately show ?thesis by (simp add: target_read_confirm_def result_typed [OF v])
qed

lemma block_read_confirm_typed:
  assumes "contents_as msap_image_block_read_conf_pl_t frame = Inr v" "unat n \<le> MAXIMUM_SCRATCHPAD_BLOCK_SIZE"
  shows "block_read_confirm n frame = Inr (int (unat (u8_field v ''result'')),
    if u8_field v ''result'' = 0 then take (unat n) (bytes_field v ''bytes'') else [])"
proof -
  note v = assms(1) [unfolded msap_image_block_read_conf_pl_t_def]
  have "bytes_field v ''bytes'' = pl_copy frame 1 MAXIMUM_SCRATCHPAD_BLOCK_SIZE"
    by (rule read_bytes_field [OF v]) simp_all
  with assms(2) show ?thesis
    by (simp add: block_read_confirm_def result_typed [OF v] min_def flip: pl_copy_min)
qed

lemma item_confirm_typed:
  assumes "contents_as msap_config_data_item_get_conf_pl_t frame = Inr v" "u8_field v ''result'' = 0"
    and "unat (u8_field v ''payload_length'') \<le> payload_capacity"
    and "unat (u8_field v ''payload_length'') \<le> MAXIMUM_CDC_ITEM_PAYLOAD_SIZE"
  shows "item_get_confirm payload_capacity frame = Inr (0,
    Some (take (unat (u8_field v ''payload_length'')) (bytes_field v ''payload''), u8_field v ''payload_length''))"
proof -
  note v = assms(1) [unfolded msap_config_data_item_get_conf_pl_t_def]
  have "pl_u8 frame 1 = Inr (u8_field v ''payload_length'')" by (rule read_u8_field [OF v]) simp_all
  moreover have "bytes_field v ''payload'' = pl_copy frame 2 MAXIMUM_CDC_ITEM_PAYLOAD_SIZE"
    by (rule read_bytes_field [OF v]) simp_all
  ultimately show ?thesis
    using assms(2-) by (simp add: item_get_confirm_def result_typed [OF v] min_def flip: pl_copy_min)
qed

lemma attribute_confirm_typed:
  assumes "contents_as attribute_read_conf_pl_t frame = Inr v" "unat n \<le> MAX_ATTRIBUTE_SIZE"
  shows "attribute_read_confirm n frame = Inr
    (if u8_field v ''result'' \<noteq> 0 then (int (unat (u8_field v ''result'')), [])
     else if n \<noteq> u8_field v ''attribute_length'' then (-1, [])
     else (0, take (unat n) (bytes_field v ''attribute_value'')))"
proof -
  note v = assms(1) [unfolded attribute_read_conf_pl_t_def]
  have "pl_u8 frame 0 = Inr (u8_field v ''result'')" by (rule read_u8_field [OF v]) simp_all
  moreover have "pl_u8 frame 3 = Inr (u8_field v ''attribute_length'')" by (rule read_u8_field [OF v]) simp_all
  moreover have "bytes_field v ''attribute_value'' = pl_copy frame 4 MAX_ATTRIBUTE_SIZE"
    by (rule read_bytes_field [OF v]) simp_all
  ultimately show ?thesis
    using assms(2) by (auto simp: attribute_read_confirm_def min_def simp flip: pl_copy_min)
qed

text \<open>Structures that are copied whole.\<close>

lemma whole_structures:
  "SIZEOF_NBORS_CONF = sizeof msap_get_nbors_conf_pl_t"
  "SIZEOF_SCRATCHPAD_STATUS_CONF = sizeof msap_scratchpad_status_conf_pl_t"
  "SIZEOF_LIST_ITEMS_CONF = sizeof msap_config_data_item_list_items_conf_pl_t"
  by (simp_all add: msap_constants msap_get_nbors_conf_pl_t_def neighbor_info_t_def
      msap_scratchpad_status_conf_pl_t_def msap_config_data_item_list_items_conf_pl_t_def)

lemma scratchpad_status_typed:
  assumes "unpack msap_scratchpad_status_conf_pl_t st = Inr v"
  shows "convert_internal_to_app_scratchpad_status st = Inr \<lparr>scrat_len = u32_field v ''scrat_len'',
    scrat_crc = u16_field v ''scrat_crc'', scrat_seq_number = u8_field v ''scrat_seq_number'',
    scrat_type = u8_field v ''scrat_type'', scrat_status = u8_field v ''scrat_status'',
    processed_scrat_len = u32_field v ''processed_scrat_len'', processed_scrat_crc = u16_field v ''processed_scrat_crc'',
    processed_scrat_seq_number = u8_field v ''processed_scrat_seq_number'',
    firmware_memory_area_id = u32_field v ''firmware_memory_area_id'',
    firmware_major_ver = u8_field v ''firmware_major_ver'', firmware_minor_ver = u8_field v ''firmware_minor_ver'',
    firmware_maint_ver = u8_field v ''firmware_maint_ver'', firmware_dev_ver = u8_field v ''firmware_dev_ver''\<rparr>"
proof -
  note v = assms [unfolded msap_scratchpad_status_conf_pl_t_def]
  have "obj_u32 st 0 = Inr (u32_field v ''scrat_len'')" "obj_u32 st 9 = Inr (u32_field v ''processed_scrat_len'')"
    "obj_u32 st 16 = Inr (u32_field v ''firmware_memory_area_id'')"
    by (rule u32_value [OF v]; simp)+
  moreover have "obj_u16 st 4 = Inr (u16_field v ''scrat_crc'')" "obj_u16 st 13 = Inr (u16_field v ''processed_scrat_crc'')"
    by (rule u16_value [OF v]; simp)+
  moreover have "byte_at st 6 = Inr (u8_field v ''scrat_seq_number'')" "byte_at st 7 = Inr (u8_field v ''scrat_type'')"
    "byte_at st 8 = Inr (u8_field v ''scrat_status'')" "byte_at st 15 = Inr (u8_field v ''processed_scrat_seq_number'')"
    "byte_at st 20 = Inr (u8_field v ''firmware_major_ver'')" "byte_at st 21 = Inr (u8_field v ''firmware_minor_ver'')"
    "byte_at st 22 = Inr (u8_field v ''firmware_maint_ver'')" "byte_at st 23 = Inr (u8_field v ''firmware_dev_ver'')"
    by (rule u8_value [OF v]; simp)+
  ultimately show ?thesis by (simp add: convert_internal_to_app_scratchpad_status_def att_obj)
qed

text \<open>The neighbours form an array of structures.\<close>

definition elements :: "cval \<Rightarrow> string \<Rightarrow> cval list" where
  "elements v n = (case field v n of Some (VArray vs) \<Rightarrow> vs | _ \<Rightarrow> [])"

definition neighbor_of :: "cval \<Rightarrow> app_nbor_info" where
  "neighbor_of v = \<lparr>nb_add = u32_field v ''add'', nb_link_rel = u8_field v ''link_rel'',
     nb_norm_rssi = u8_field v ''norm_rssi'', nb_cost = u8_field v ''cost'', nb_channel = u8_field v ''channel'',
     nb_nbor_type = u8_field v ''nbor_type'', nb_tx_power = u8_field v ''tx_power'', nb_rx_power = u8_field v ''rx_power'',
     nb_last_update = u16_field v ''last_update''\<rparr>"

lemma all_right_nth: "all_right xs = Inr as \<Longrightarrow> length as = length xs \<and> (\<forall>i < length xs. xs ! i = Inr (as ! i))"
proof (induction xs arbitrary: as)
  case (Cons x xs)
  then obtain a bs where "x = Inr a" "all_right xs = Inr bs" "as = a # bs" by (auto split: sum.splits)
  with Cons.IH [of bs] show ?case by (auto simp: less_Suc_eq_0_disj)
qed simp

lemma array_elements:
  assumes "unpack (Struct fs) bs = Inr v" "map_of fs n = Some (Array k t)" "offset fs n = i"
  shows "length (elements v n) = k \<and> (\<forall>j < k. unpack t (drop (i + j * sizeof t) bs) = Inr (elements v n ! j))"
proof -
  from value_field [OF assms] obtain vs where vs: "field v n = Some (VArray vs)"
    "all_right (map (\<lambda>j. unpack t (drop (j * sizeof t) (drop i bs))) [0..<k]) = Inr vs"
    by (cases "all_right (map (\<lambda>j. unpack t (drop (j * sizeof t) (drop i bs))) [0..<k])") auto
  from all_right_nth [OF vs(2)] vs(1) show ?thesis by (simp add: elements_def add.commute)
qed

lemma neighbor_typed:
  assumes "unpack neighbor_info_t (drop (1 + 13 * i) internal) = Inr v"
  shows "read_neighbor internal i = Inr (neighbor_of v)"
proof -
  note v = assms [unfolded neighbor_info_t_def]
  let ?st = "drop (1 + 13 * i) internal"
  have "obj_u32 ?st 0 = Inr (u32_field v ''add'')" "obj_u16 ?st 11 = Inr (u16_field v ''last_update'')"
    by (rule u32_value [OF v] u16_value [OF v]; simp)+
  moreover have "byte_at ?st 4 = Inr (u8_field v ''link_rel'')" "byte_at ?st 5 = Inr (u8_field v ''norm_rssi'')"
    "byte_at ?st 6 = Inr (u8_field v ''cost'')" "byte_at ?st 7 = Inr (u8_field v ''channel'')"
    "byte_at ?st 8 = Inr (u8_field v ''nbor_type'')" "byte_at ?st 9 = Inr (u8_field v ''tx_power'')"
    "byte_at ?st 10 = Inr (u8_field v ''rx_power'')"
    by (rule u8_value [OF v]; simp)+
  ultimately show ?thesis
    unfolding byte_at_drop obj_drop by (simp add: read_neighbor_def neighbor_of_def att_obj Let_def)
qed

lemma neighbors_loop_typed:
  assumes "unpack msap_get_nbors_conf_pl_t internal = Inr v" "i + k \<le> MAXIMUM_NUMBER_OF_NEIGHBOR"
  shows "convert_neighbors_loop k i internal = Inr (map neighbor_of (take k (drop i (elements v ''nbors''))))"
  using assms(2)
proof (induction k arbitrary: i)
  case (Suc k)
  have a: "length (elements v ''nbors'') = MAXIMUM_NUMBER_OF_NEIGHBOR"
    "unpack neighbor_info_t (drop (1 + 13 * i) internal) = Inr (elements v ''nbors'' ! i)"
    using array_elements [OF assms(1) [unfolded msap_get_nbors_conf_pl_t_def], of "''nbors''"
        MAXIMUM_NUMBER_OF_NEIGHBOR neighbor_info_t 1]
      Suc.prems by (simp_all add: neighbor_info_t_def mult.commute)
  from Suc a(1) have "drop i (elements v ''nbors'') = elements v ''nbors'' ! i # drop (Suc i) (elements v ''nbors'')"
    by (simp add: Cons_nth_drop_Suc)
  with Suc neighbor_typed [OF a(2)] show ?case by simp
qed simp

lemma neighbors_typed:
  assumes "unpack msap_get_nbors_conf_pl_t internal = Inr v"
    and "unat (u8_field v ''number_of_neighbors'') \<le> MAXIMUM_NUMBER_OF_NEIGHBOR"
  shows "convert_internal_to_app_neighbors_status internal =
    Inr (map neighbor_of (take (unat (u8_field v ''number_of_neighbors'')) (elements v ''nbors'')))"
proof -
  have "byte_at internal 0 = Inr (u8_field v ''number_of_neighbors'')"
    by (rule u8_value [OF assms(1) [unfolded msap_get_nbors_conf_pl_t_def]]) simp_all
  with neighbors_loop_typed [OF assms(1), of 0] assms(2) show ?thesis
    by (simp add: convert_internal_to_app_neighbors_status_def)
qed

section \<open>The frame\<close>

lemmas packed_structures =
  dsap_data_tx_req_pl_t_def
  dsap_data_tx_tt_req_pl_t_def
  dsap_data_tx_frag_req_pl_t_def
  dsap_data_tx_ind_pl_t_def
  dsap_data_rx_ind_pl_t_def
  dsap_data_rx_frag_ind_pl_t_def
  dsap_data_tx_conf_pl_t_def
  msap_stack_start_req_pl_t_def
  msap_app_config_data_write_req_pl_t_def
  msap_attribute_write_req_pl_t_def
  msap_attribute_read_req_pl_t_def
  msap_image_start_req_pl_t_def
  msap_image_block_req_pl_t_def
  msap_scratchpad_target_write_req_pl_t_def
  msap_image_block_read_req_pl_t_def
  neighbor_info_t_def
  msap_get_nbors_conf_pl_t_def
  msap_scan_nbors_ind_pl_t_def
  msap_sink_cost_write_req_pl_t_def
  msap_sink_cost_read_conf_pl_t_def
  msap_stack_state_ind_pl_t_def
  msap_app_config_data_rx_ind_pl_t_def
  msap_app_config_data_read_conf_pl_t_def
  msap_attribute_read_conf_pl_t_def
  msap_scratchpad_status_conf_pl_t_def
  msap_scratchpad_target_read_conf_pl_t_def
  msap_image_block_read_conf_pl_t_def
  msap_config_data_item_set_req_pl_t_def
  msap_config_data_item_get_req_pl_t_def
  msap_config_data_item_get_conf_pl_t_def
  msap_config_data_item_list_items_req_pl_t_def
  msap_config_data_item_list_items_conf_pl_t_def
  msap_config_data_item_rx_ind_pl_t_def
  attribute_write_req_pl_t_def
  attribute_read_req_pl_t_def
  attribute_read_conf_pl_t_def
  csap_factory_reset_req_pl_t_def
  generic_ind_pl_t_def
  sap_generic_conf_pl_t_def
  sap_resp_pl_t_def
text \<open>The static assertion of \<^verbatim>\<open>wpc_types.h\<close>: every member of the union fits the length field, and the
  largest member gives the size of a frame.\<close>

lemma union_sizes:
  "\<forall>(n, t) \<in> set payload_union. sizeof t \<le> 255"
  "SIZEOF_FRAME = 3 + fold max (map (sizeof \<circ> snd) payload_union) 0"
  by (simp_all add: payload_union_def packed_structures msap_constants MAX_ATTRIBUTE_SIZE_def MAX_APDU_DSAP_SIZE_def)

section \<open>What is sent\<close>

lemma written_fields:
  assumes "contents_as (Struct fs) frame = Inr v"
  shows "map_of fs n = Some U8 \<Longrightarrow> pl_u8 frame (offset fs n) = Inr a \<Longrightarrow> u8_field v n = a"
    "map_of fs n = Some U16 \<Longrightarrow> pl_u16 frame (offset fs n) = Inr b \<Longrightarrow> u16_field v n = b"
    "map_of fs n = Some (Bits16 k) \<Longrightarrow> pl_u16 frame (offset fs n) = Inr b \<Longrightarrow> u16_field v n = b AND mask k"
    "map_of fs n = Some U32 \<Longrightarrow> pl_u32 frame (offset fs n) = Inr c \<Longrightarrow> u32_field v n = c"
    "map_of fs n = Some (Bytes k) \<Longrightarrow> take m (pl_copy frame (offset fs n) k) = bs \<Longrightarrow> take m (bytes_field v n) = bs"
  using read_u8_field [OF assms, of n] read_u16_field [OF assms, of n] read_u32_field [OF assms, of n]
    read_bit_field [OF assms, of n] read_bytes_field(1) [OF assms, of n]
  by fastforce+

text \<open>What the fields shared by both requests to send have to be.\<close>

definition sends :: "tx_args \<Rightarrow> u8 \<Rightarrow> u8 list \<Rightarrow> cval \<Rightarrow> bool" where
  "sends a tx_options bytes v \<longleftrightarrow>
     u16_field v ''pdu_id'' = ta_pdu_id a \<and> u8_field v ''src_endpoint'' = ta_src_ep a
   \<and> u32_field v ''dest_add'' = ta_dest_add a \<and> u8_field v ''dest_endpoint'' = ta_dest_ep a
   \<and> u8_field v ''qos'' = ta_qos a \<and> u8_field v ''tx_options'' = tx_options
   \<and> u32_field v ''buffering_delay'' = ta_buffering_delay a
   \<and> unat (u8_field v ''apdu_length'') = length bytes \<and> take (length bytes) (bytes_field v ''apdu'') = bytes"

lemmas reading = frame_bytes_def new_request_def host_simps uint16_encode_le_bytes uint32_encode_le_bytes
  pl_u8_def pl_u16_def pl_u32_def pl_copy_def byte_at_def obj_u16_def obj_u32_def bytes_at_def join_u16 join_u32

lemma take_stored: "n \<le> k \<Longrightarrow> take (min k n) xs @ take (min (n - min k n) m) ys = take n xs"
  by (simp add: min_def)

lemma tt_request_typed:
  assumes "fill_tx_tt_request a buffer len tx_options = Inr f"
    and "3 + sizeof dsap_data_tx_tt_req_pl_t \<le> length (frame_bytes f @ rest)"
  shows "carries dsap_data_tx_tt_req_pl_t (frame_bytes f @ rest) (sends a tx_options (take len buffer))"
  using assms(2)
proof (rule carriesI)
  fix v assume "contents_as dsap_data_tx_tt_req_pl_t (frame_bytes f @ rest) = Inr v"
  note w = written_fields [OF this [unfolded dsap_data_tx_tt_req_pl_t_def]]
  from assms(1) have f: "f = new_request DSAP_DATA_TX_TT_REQUEST (of_nat (15 + len))
      (host_store16 (ta_pdu_id a) @ [ta_src_ep a] @ host_store32 (ta_dest_add a)
        @ [ta_dest_ep a, ta_qos a, tx_options] @ host_store32 (ta_buffering_delay a) @ [of_nat len] @ take len buffer)"
    and len: "len \<le> length buffer" "len \<le> 180"
    by (auto simp: fill_tx_tt_request_def MAX_APDU_DSAP_SIZE_def split: if_splits)
  from len have n: "length (take len buffer) = len" "unat (of_nat len :: u8) = len" by (simp_all add: unat_of_nat_u8)
  have l: "u8_field v ''apdu_length'' = of_nat len" by (rule w(1)) (simp_all add: f reading)
  have d: "take len (bytes_field v ''apdu'') = take len buffer"
    by (rule w(5) [where k = MAX_APDU_DSAP_SIZE]) (use len in \<open>simp_all add: f reading MAX_APDU_DSAP_SIZE_def take_stored\<close>)
  show "sends a tx_options (take len buffer) v"
    unfolding sends_def n by (intro conjI; (rule w(1) w(2) w(4))?) (simp_all add: f reading n l d)
qed

lemma frag_request_typed:
  assumes "fill_tx_frag_request a buffer len tx_options packet_id frag_offset last_frag = Inr f"
    and "3 + sizeof dsap_data_tx_frag_req_pl_t \<le> length (frame_bytes f @ rest)"
  shows "carries dsap_data_tx_frag_req_pl_t (frame_bytes f @ rest) (\<lambda>v.
      sends a (if last_frag then tx_options else tx_options AND 0xFE) (take len buffer) v
    \<and> u16_field v ''full_packet_id'' = packet_id AND mask 12
    \<and> u16_field v ''fragment_offset_flag''
      = (frag_offset AND DSAP_FRAG_LENGTH_MASK) OR (if last_frag then DSAP_FRAG_LAST_FLAG_MASK else 0))"
  using assms(2)
proof (rule carriesI)
  fix v assume "contents_as dsap_data_tx_frag_req_pl_t (frame_bytes f @ rest) = Inr v"
  note w = written_fields [OF this [unfolded dsap_data_tx_frag_req_pl_t_def]]
  let ?options = "if last_frag then tx_options else tx_options AND 0xFE"
  let ?flag = "(frag_offset AND DSAP_FRAG_LENGTH_MASK) OR (if last_frag then DSAP_FRAG_LAST_FLAG_MASK else 0)"
  obtain pid fl where pid: "pid = packet_id AND 0xfff" and fl: "fl = ?flag" by simp
  from assms(1) have f: "f = new_request DSAP_DATA_TX_FRAG_REQUEST (of_nat (19 + len))
      (host_store16 (ta_pdu_id a) @ [ta_src_ep a] @ host_store32 (ta_dest_add a)
        @ [ta_dest_ep a, ta_qos a, ?options] @ host_store32 (ta_buffering_delay a)
        @ host_store16 pid @ host_store16 fl @ [of_nat len] @ take len buffer)"
    and len: "len \<le> length buffer" "len \<le> 180"
    by (auto simp: pid fl fill_tx_frag_request_def Let_def MAX_APDU_DSAP_SIZE_def split: if_splits)
  from len have n: "length (take len buffer) = len" "unat (of_nat len :: u8) = len" by (simp_all add: unat_of_nat_u8)
  have l: "u8_field v ''apdu_length'' = of_nat len" by (rule w(1)) (simp_all add: f reading)
  have d: "take len (bytes_field v ''apdu'') = take len buffer"
    by (rule w(5) [where k = MAX_APDU_DSAP_SIZE]) (use len in \<open>simp_all add: f reading MAX_APDU_DSAP_SIZE_def take_stored\<close>)
  have "sends a ?options (take len buffer) v"
    unfolding sends_def n by (intro conjI; (rule w(1) w(2) w(4))?) (simp_all add: f reading n l d)
  moreover have "u16_field v ''full_packet_id'' = pid AND mask 12"
    by (rule w(3)) (simp_all add: f reading)
  moreover have "u16_field v ''fragment_offset_flag'' = fl" by (rule w(2)) (simp_all add: f reading)
  moreover have "(mask 12 :: u16) = 0xfff" by (simp add: mask_eq_exp_minus_1)
  ultimately show "sends a ?options (take len buffer) v \<and> u16_field v ''full_packet_id'' = packet_id AND mask 12
    \<and> u16_field v ''fragment_offset_flag'' = ?flag" by (simp add: pid fl and.assoc)
qed

text \<open>Requests of the other services: what the operation sends, as a value of its structure.\<close>

lemma scratchpad_block_typed:
  assumes "unat number_of_bytes \<le> MAXIMUM_SCRATCHPAD_BLOCK_SIZE" "unat number_of_bytes \<le> length bytes"
  obtains f where "msap_scratchpad_block_request start_address number_of_bytes bytes
      = andthen (WPC_Int_send_request_timeout f SCRATCHPAD_BLOCK_TIMEOUT_MS) confirm_result"
    and "\<And>rest. 3 + sizeof msap_image_block_req_pl_t \<le> length (frame_bytes f @ rest) \<Longrightarrow>
      carries msap_image_block_req_pl_t (frame_bytes f @ rest) (\<lambda>v. u32_field v ''start_add'' = start_address
        \<and> u8_field v ''number_of_bytes'' = number_of_bytes
        \<and> take (unat number_of_bytes) (bytes_field v ''bytes'') = take (unat number_of_bytes) bytes)"
proof
  let ?f = "new_request MSAP_SCRATCH_BLOCK_REQUEST (5 + number_of_bytes)
    (host_store32 start_address @ number_of_bytes # take (unat number_of_bytes) bytes)"
  show "msap_scratchpad_block_request start_address number_of_bytes bytes
      = andthen (WPC_Int_send_request_timeout ?f SCRATCHPAD_BLOCK_TIMEOUT_MS) confirm_result"
    using assms by (simp add: msap_scratchpad_block_request_def require_def andthen_def fun_eq_iff)
  fix rest assume "3 + sizeof msap_image_block_req_pl_t \<le> length (frame_bytes ?f @ rest)"
  then show "carries msap_image_block_req_pl_t (frame_bytes ?f @ rest) (\<lambda>v. u32_field v ''start_add'' = start_address
        \<and> u8_field v ''number_of_bytes'' = number_of_bytes
        \<and> take (unat number_of_bytes) (bytes_field v ''bytes'') = take (unat number_of_bytes) bytes)"
  proof (rule carriesI)
    fix v assume "contents_as msap_image_block_req_pl_t (frame_bytes ?f @ rest) = Inr v"
    note w = written_fields [OF this [unfolded msap_image_block_req_pl_t_def]]
    show "u32_field v ''start_add'' = start_address \<and> u8_field v ''number_of_bytes'' = number_of_bytes
        \<and> take (unat number_of_bytes) (bytes_field v ''bytes'') = take (unat number_of_bytes) bytes"
      by (intro conjI; rule w(1) w(4) w(5) [where k = MAXIMUM_SCRATCHPAD_BLOCK_SIZE]) (use assms in \<open>simp_all add: reading take_stored\<close>)
  qed
qed

lemma app_config_write_typed:
  assumes "unat size_p \<le> length config_p" "unat size_p \<le> MAXIMUM_APP_CONFIG_SIZE"
  obtains f where "msap_app_config_data_write_request seq interval config_p size_p
      = andthen (WPC_Int_send_request f) confirm_result"
    and "carries msap_app_config_data_write_req_pl_t (frame_bytes f) (\<lambda>v. u8_field v ''sequence_number'' = seq
        \<and> u16_field v ''diag_data_interval'' = interval
        \<and> bytes_field v ''app_config_data'' = overlay (take (unat size_p) config_p) (replicate MAXIMUM_APP_CONFIG_SIZE 0))"
proof
  let ?data = "overlay (take (unat size_p) config_p) (replicate MAXIMUM_APP_CONFIG_SIZE 0)"
  let ?f = "new_request MSAP_APP_CONFIG_DATA_WRITE_REQUEST (of_nat (3 + MAXIMUM_APP_CONFIG_SIZE))
    (seq # host_store16 interval @ ?data)"
  have n: "length ?data = MAXIMUM_APP_CONFIG_SIZE" using assms by (simp add: overlay_def)
  show "msap_app_config_data_write_request seq interval config_p size_p = andthen (WPC_Int_send_request ?f) confirm_result"
    using assms by (simp add: msap_app_config_data_write_request_def require_def andthen_def fun_eq_iff)
  show "carries msap_app_config_data_write_req_pl_t (frame_bytes ?f) (\<lambda>v. u8_field v ''sequence_number'' = seq
        \<and> u16_field v ''diag_data_interval'' = interval \<and> bytes_field v ''app_config_data'' = ?data)"
  proof (rule carriesI)
    show "3 + sizeof msap_app_config_data_write_req_pl_t \<le> length (frame_bytes ?f)"
      using n by (simp add: msap_app_config_data_write_req_pl_t_def host_simps)
    fix v assume c: "contents_as msap_app_config_data_write_req_pl_t (frame_bytes ?f) = Inr v"
    note w = written_fields [OF c [unfolded msap_app_config_data_write_req_pl_t_def]]
    have "u8_field v ''sequence_number'' = seq" by (rule w(1)) (simp_all add: reading)
    moreover have "u16_field v ''diag_data_interval'' = interval" by (rule w(2)) (simp_all add: reading)
    moreover have "bytes_field v ''app_config_data'' = pl_copy (frame_bytes ?f) 3 MAXIMUM_APP_CONFIG_SIZE"
      by (rule read_bytes_field [OF c [unfolded msap_app_config_data_write_req_pl_t_def]]) simp_all
    ultimately show "u8_field v ''sequence_number'' = seq \<and> u16_field v ''diag_data_interval'' = interval
        \<and> bytes_field v ''app_config_data'' = ?data" using n by (simp add: reading)
  qed
qed

section \<open>The types hold\<close>

text \<open>C33: An indication as long as the structure that its header declares holds a typed value of that structure,
  and the handlers do with the bytes of the frame what they should do with the fields of that value:
  notifications, packets, fragments, states of the stack, configurations, scans and data items.\<close>

theorem indications_typed:
  "(3 + sizeof dsap_data_tx_ind_pl_t \<le> length frame \<longrightarrow> carries dsap_data_tx_ind_pl_t frame (\<lambda>v.
      dsap_data_tx_indication_handler app frame = andthen (get_indication_cb (u16_field v ''pdu_id''))
       (\<lambda>cb. case cb of None \<Rightarrow> ret ()
        | Some c \<Rightarrow> app (Data_sent c (u16_field v ''pdu_id'') (internal_time_to_ms (u32_field v ''buffering_delay''))
            (u8_field v ''result'')))))
   \<and> (3 + sizeof dsap_data_rx_ind_pl_t \<le> length frame \<longrightarrow> carries dsap_data_rx_ind_pl_t frame (\<lambda>v.
      dsap_data_rx_indication_handler app frame timestamp = call_if_set m_data_cb (\<lambda>c.
        app (data_call c (take (unat (u8_field v ''apdu_length'')) (bytes_field v ''apdu''))
          (unat (u8_field v ''apdu_length'')) (rx_header_of v) timestamp))))
   \<and> (3 + sizeof dsap_data_rx_frag_ind_pl_t \<le> length frame \<longrightarrow> carries dsap_data_rx_frag_ind_pl_t frame (\<lambda>v.
      read_rx_header frame = Inr (rx_header_of v) \<and> read_rx_fragment frame =
        (if unat (u8_field v ''apdu_length'') \<le> MAX_APDU_DSAP_SIZE then Inr (rx_fragment_of v) else Inl Undefined)))
   \<and> (3 + sizeof msap_stack_state_ind_pl_t \<le> length frame \<longrightarrow> carries msap_stack_state_ind_pl_t frame (\<lambda>v.
      msap_stack_state_indication_handler app' frame =
        andthen (call_if_set m_stack_status_cb (\<lambda>c. app' (Stack_status c (u8_field v ''status'')))) (\<lambda>_. WPC_Int_set_mtu)))
   \<and> (3 + sizeof msap_app_config_data_rx_ind_pl_t \<le> length frame \<longrightarrow> carries msap_app_config_data_rx_ind_pl_t frame (\<lambda>v.
      msap_app_config_data_rx_indication_handler app' frame = call_if_set m_app_conf_cb (\<lambda>c. app' (App_config c
        (u8_field v ''sequence_number'') (u16_field v ''diag_data_interval'') (bytes_field v ''app_config_data'')))))
   \<and> (3 + sizeof msap_scan_nbors_ind_pl_t \<le> length frame \<longrightarrow> carries msap_scan_nbors_ind_pl_t frame (\<lambda>v.
      msap_scan_nbors_indication_handler app' frame =
        call_if_set m_scan_neighbor_cb (\<lambda>c. app' (Scan_done c (u8_field v ''scan_ready'')))))
   \<and> (3 + sizeof msap_config_data_item_rx_ind_pl_t \<le> length frame \<longrightarrow> carries msap_config_data_item_rx_ind_pl_t frame (\<lambda>v.
      msap_config_data_item_rx_indication_handler app' frame = call_if_set m_config_data_item_cb (\<lambda>c. app' (Config_item c
        (u16_field v ''endpoint'') (bytes_field v ''payload'') (u8_field v ''payload_length'')))))"
  by (intro conjI impI; erule carriesI)
    (simp_all add: tx_indication_typed rx_indication_typed rx_header_typed rx_fragment_typed
      stack_state_typed app_config_typed scan_nbors_typed config_item_typed)

text \<open>C34: The frames of packets and of their fragments hold typed values of the structures for requests, whatever the
  rest of the frame object holds: the arguments of the call, the bytes to send with their length, and
  for a fragment its identifier, its offset and the flag of the last one.\<close>

theorem data_requests_typed:
  assumes "fill_tx_tt_request a buffer len tx_options = Inr f"
    and "fill_tx_frag_request a buffer len tx_options packet_id frag_offset last_frag = Inr g"
    and "3 + sizeof dsap_data_tx_tt_req_pl_t \<le> length (frame_bytes f @ rest)"
    and "3 + sizeof dsap_data_tx_frag_req_pl_t \<le> length (frame_bytes g @ rest)"
  shows "carries dsap_data_tx_tt_req_pl_t (frame_bytes f @ rest) (sends a tx_options (take len buffer))
    \<and> carries dsap_data_tx_frag_req_pl_t (frame_bytes g @ rest) (\<lambda>v.
      sends a (if last_frag then tx_options else tx_options AND 0xFE) (take len buffer) v
    \<and> u16_field v ''full_packet_id'' = packet_id AND mask 12
    \<and> u16_field v ''fragment_offset_flag''
      = (frag_offset AND DSAP_FRAG_LENGTH_MASK) OR (if last_frag then DSAP_FRAG_LAST_FLAG_MASK else 0))"
  using tt_request_typed [OF assms(1,3)] frag_request_typed [OF assms(2,4)] by blast

theorem indications_typed_witness:
  "carries dsap_data_rx_frag_ind_pl_t (replicate 204 1) (\<lambda>v.
     read_rx_header (replicate 204 1) = Inr (rx_header_of v) \<and> read_rx_fragment (replicate 204 1) =
       (if unat (u8_field v ''apdu_length'') \<le> MAX_APDU_DSAP_SIZE then Inr (rx_fragment_of v) else Inl Undefined))"
proof -
  have "3 + sizeof dsap_data_rx_frag_ind_pl_t \<le> length (replicate 204 (1 :: u8))"
    by (simp add: dsap_data_rx_frag_ind_pl_t_def MAX_APDU_DSAP_SIZE_def)
  with indications_typed [of "replicate 204 1" "\<lambda>_. halt Exited" 0 "\<lambda>_. halt Exited"] show ?thesis by blast
qed

definition three_bytes :: "tx_args" where
  "three_bytes = \<lparr>ta_pdu_id = 0x1234, ta_dest_add = 0xA0B0C0D0, ta_qos = 1, ta_src_ep = 10, ta_dest_ep = 20,
     ta_buffering_delay = 128\<rparr>"

theorem data_requests_typed_witness:
  "\<exists>f g. fill_tx_tt_request three_bytes [1, 2, 3] 3 5 = Inr f
    \<and> fill_tx_frag_request three_bytes [1, 2, 3] 3 5 0x1ABC 102 True = Inr g
    \<and> carries dsap_data_tx_tt_req_pl_t (frame_bytes f @ replicate 190 0) (sends three_bytes 5 [1, 2, 3])
    \<and> carries dsap_data_tx_frag_req_pl_t (frame_bytes g @ replicate 190 0) (\<lambda>v. sends three_bytes 5 [1, 2, 3] v
      \<and> u16_field v ''full_packet_id'' = 0xABC \<and> u16_field v ''fragment_offset_flag'' = 0x8066)"
proof -
  obtain f g where f: "fill_tx_tt_request three_bytes [1, 2, 3] 3 5 = Inr f"
    and g: "fill_tx_frag_request three_bytes [1, 2, 3] 3 5 0x1ABC 102 True = Inr g"
    by (simp add: fill_tx_tt_request_def fill_tx_frag_request_def MAX_APDU_DSAP_SIZE_def Let_def)
  have "3 + sizeof dsap_data_tx_tt_req_pl_t \<le> length (frame_bytes f @ replicate 190 0)"
    "3 + sizeof dsap_data_tx_frag_req_pl_t \<le> length (frame_bytes g @ replicate 190 0)"
    using f g by (auto simp: fill_tx_tt_request_def fill_tx_frag_request_def MAX_APDU_DSAP_SIZE_def Let_def
        dsap_data_tx_tt_req_pl_t_def dsap_data_tx_frag_req_pl_t_def host_simps)
  from data_requests_typed [OF f g this] show ?thesis using f g
    by (simp add: mask_eq_exp_minus_1 DSAP_FRAG_LENGTH_MASK_def DSAP_FRAG_LAST_FLAG_MASK_def)
qed

end
