(* ===== verification/Dsap_Endpoints.thy ===== *)
theory Dsap_Endpoints
  imports Wpc_Api
begin

text \<open>
  The data service of \<^verbatim>\<open>lib/wpc/dsap.c\<close> when it is built with \<^verbatim>\<open>REGISTER_DATA_PER_ENDPOINT\<close>: one callback
  for each destination endpoint in place of the one of the default build. Only the code between the
  directives differs; its functions have the suffix \<^verbatim>\<open>_ep\<close> here. The variable \<^const>\<open>m_data_cb\<close> does not exist
  in this build, and no function of this theory touches it. The endpoint is an octet and the table has
  an entry for each octet, so that it is a function.
\<close>

section \<open>State\<close>

record dsap_ep = dsap +
  data_cb_table :: "u8 \<Rightarrow> callback option"

definition MAX_NUMBER_EP :: nat where "MAX_NUMBER_EP = 256"

section \<open>Operations\<close>

definition dsap_register_for_data_ep :: "u8 \<Rightarrow> callback option \<Rightarrow> ('z dsap_ep_scheme, bool) prog" where
  "dsap_register_for_data_ep dst_ep cb =
     andthen Platform_lock_request (\<lambda>_.
     andthen (gets data_cb_table) (\<lambda>table.
     andthen (if unat dst_ep < MAX_NUMBER_EP \<and> table dst_ep = None
              then andthen (modify (\<lambda>s. s\<lparr>data_cb_table := (data_cb_table s)(dst_ep := cb)\<rparr>)) (\<lambda>_. ret True)
              else ret False) (\<lambda>res.
     andthen Platform_unlock_request (\<lambda>_. ret res))))"

definition dsap_unregister_for_data_ep :: "u8 \<Rightarrow> ('z dsap_ep_scheme, bool) prog" where
  "dsap_unregister_for_data_ep dst_ep =
     andthen Platform_lock_request (\<lambda>_.
     andthen (gets data_cb_table) (\<lambda>table.
     andthen (if unat dst_ep < MAX_NUMBER_EP \<and> table dst_ep \<noteq> None
              then andthen (modify (\<lambda>s. s\<lparr>data_cb_table := (data_cb_table s)(dst_ep := None)\<rparr>)) (\<lambda>_. ret True)
              else ret False) (\<lambda>res.
     andthen Platform_unlock_request (\<lambda>_. ret res))))"

definition WPC_register_for_data_ep :: "u8 \<Rightarrow> callback option \<Rightarrow> ('z dsap_ep_scheme, app_res) prog" where
  "WPC_register_for_data_ep dst_ep cb = registered (dsap_register_for_data_ep dst_ep cb) APP_RES_INVALID_VALUE"

definition WPC_unregister_for_data_ep :: "u8 \<Rightarrow> ('z dsap_ep_scheme, app_res) prog" where
  "WPC_unregister_for_data_ep dst_ep = registered (dsap_unregister_for_data_ep dst_ep) APP_RES_INVALID_VALUE"

definition dsap_data_rx_frag_indication_handler_ep ::
  "(app_call \<Rightarrow> ('z dsap_ep_scheme, unit) prog) \<Rightarrow> u8 list \<Rightarrow> u64 \<Rightarrow> ('z dsap_ep_scheme, unit) prog" where
  "dsap_data_rx_frag_indication_handler_ep app frame timestamp =
     andthen (lift_sum (read_rx_header frame)) (\<lambda>h.
     andthen (lift_sum (read_rx_fragment frame)) (\<lambda>frag.
     andthen (reassembly_add_fragment frag) (\<lambda>(added, full_size).
     if added \<and> full_size \<noteq> 0 then
       andthen (gets reassembly_buffer) (\<lambda>buffer.
       andthen (reassembly_get_full_message (fr_src_add frag) (fr_packet_id frag) buffer MAX_FULL_PACKET_SIZE)
         (\<lambda>(_, buffer', full_size').
       andthen (modify (\<lambda>s. s\<lparr>reassembly_buffer := buffer'\<rparr>)) (\<lambda>_.
       andthen (gets (\<lambda>s. data_cb_table s (rh_dest_ep h))) (\<lambda>cb.
       case cb of None \<Rightarrow> ret ()
       | Some c \<Rightarrow>
         andthen (app (data_call c (take full_size' buffer') full_size' h timestamp)) (\<lambda>_.
         reassembly_garbage_collect)))))
     else reassembly_garbage_collect)))"

definition dsap_data_rx_indication_handler_ep ::
  "(app_call \<Rightarrow> ('z dsap_ep_scheme, unit) prog) \<Rightarrow> u8 list \<Rightarrow> u64 \<Rightarrow> ('z dsap_ep_scheme, unit) prog" where
  "dsap_data_rx_indication_handler_ep app frame timestamp =
     andthen (lift_sum (read_rx_header frame)) (\<lambda>h.
     andthen (lift_sum (pl_u8 frame 16)) (\<lambda>apdu_length.
     call_if_set (\<lambda>s. data_cb_table s (rh_dest_ep h)) (\<lambda>c.
     app (data_call c (pl_copy frame 17 (min (unat apdu_length) MAX_APDU_DSAP_SIZE)) (unat apdu_length) h timestamp))))"

definition dsap_init_ep :: "('z dsap_ep_scheme, unit) prog" where
  "dsap_init_ep = modify (\<lambda>s. s\<lparr>data_cb_table := (\<lambda>_. None), indication_sent_cb_table :=
     replicate MAX_SENT_PACKET_WITH_INDICATION \<lparr>pi_cb = None, pi_pdu_id = 0, pi_busy = False\<rparr>\<rparr>)"

section \<open>Registration\<close>

text \<open>Each entry of the table is a slot for one callback, with the operations of the other callbacks.\<close>

interpretation endpoint_slot: callback_slot "\<lambda>s. data_cb_table s ep"
    "\<lambda>c s. s\<lparr>data_cb_table := (data_cb_table s)(ep := c)\<rparr>" for ep
  by unfold_locales simp_all

lemma every_endpoint: "unat (ep :: u8) < MAX_NUMBER_EP"
  by (simp add: MAX_NUMBER_EP_def unat_u8_less)

lemma register_slot:
  "dsap_register_for_data_ep ep cb
    = register_cb (\<lambda>s. data_cb_table s ep) (\<lambda>c s. s\<lparr>data_cb_table := (data_cb_table s)(ep := c)\<rparr>) cb"
  by (simp add: fun_eq_iff dsap_register_for_data_ep_def register_cb_def every_endpoint prog_simps Platform_lock_request_def)

lemma unregister_endpoint_run:
  "dsap_unregister_for_data_ep ep s
    = Inr (data_cb_table s ep \<noteq> None, s\<lparr>data_cb_table := (data_cb_table s)(ep := None), m_locked := False\<rparr>)"
  by (auto simp: dsap_unregister_for_data_ep_def every_endpoint prog_simps Platform_lock_request_def
      Platform_unlock_request_def fun_upd_idem)

section \<open>Receptions\<close>

text \<open>Nothing but the two handlers looks at the variable of the default build.\<close>

abbreviation with_data_cb :: "callback option \<Rightarrow> 'z dsap_scheme \<Rightarrow> 'z dsap_scheme" where
  "with_data_cb c s \<equiv> s\<lparr>m_data_cb := c\<rparr>"

lemma parts_commute [commutes_intros]:
  "commutes (with_data_cb c) Platform_malloc"
  "commutes (with_data_cb c) Platform_get_timestamp_ms_monotonic"
  "commutes (with_data_cb c) (put_packet k p)"
  by (auto simp: commutes_def Platform_malloc_def Platform_get_timestamp_ms_monotonic_def put_packet_def modify_def
      split: list.splits intro!: dsap.equality)

lemma add_fragment_commutes [commutes_intros]: "commutes (with_data_cb c) (reassembly_add_fragment f)"
  unfolding reassembly_add_fragment_def Let_def get_packet_from_hash_def create_packet_in_hash_def
    add_fragment_to_full_packet_def is_packet_full_def
  by (intro commutes_intros) (auto intro!: dsap.equality)

lemma get_full_commutes [commutes_intros]: "commutes (with_data_cb c) (reassembly_get_full_message a b buffer n)"
  unfolding reassembly_get_full_message_def get_packet_from_hash_def reassemble_full_packet_def
  by (intro commutes_intros) (auto intro!: dsap.equality)

lemma collect_commutes [commutes_intros]: "commutes (with_data_cb c) (collect_packets kps)"
  by (induction kps) (auto intro!: commutes_intros dsap.equality simp: Let_def)

lemma garbage_collect_commutes [commutes_intros]: "commutes (with_data_cb c) reassembly_garbage_collect"
  unfolding reassembly_garbage_collect_def by (intro commutes_intros) (auto intro!: dsap.equality)

text \<open>The handlers for a callback that is known in advance: the one that the variable holds, or the table.\<close>

definition rx_frag_handler_with ::
  "(rx_header \<Rightarrow> callback option) \<Rightarrow> (app_call \<Rightarrow> ('z dsap_scheme, unit) prog) \<Rightarrow> u8 list \<Rightarrow> u64
     \<Rightarrow> ('z dsap_scheme, unit) prog" where
  "rx_frag_handler_with cb app frame timestamp =
     andthen (lift_sum (read_rx_header frame)) (\<lambda>h.
     andthen (lift_sum (read_rx_fragment frame)) (\<lambda>frag.
     andthen (reassembly_add_fragment frag) (\<lambda>(added, full_size).
     if added \<and> full_size \<noteq> 0 then
       andthen (gets reassembly_buffer) (\<lambda>buffer.
       andthen (reassembly_get_full_message (fr_src_add frag) (fr_packet_id frag) buffer MAX_FULL_PACKET_SIZE)
         (\<lambda>(_, buffer', full_size').
       andthen (modify (\<lambda>s. s\<lparr>reassembly_buffer := buffer'\<rparr>)) (\<lambda>_.
       case cb h of None \<Rightarrow> ret ()
       | Some c \<Rightarrow>
         andthen (app (data_call c (take full_size' buffer') full_size' h timestamp)) (\<lambda>_.
         reassembly_garbage_collect))))
     else reassembly_garbage_collect)))"

definition rx_handler_with ::
  "(rx_header \<Rightarrow> callback option) \<Rightarrow> (app_call \<Rightarrow> ('z dsap_scheme, unit) prog) \<Rightarrow> u8 list \<Rightarrow> u64
     \<Rightarrow> ('z dsap_scheme, unit) prog" where
  "rx_handler_with cb app frame timestamp =
     andthen (lift_sum (read_rx_header frame)) (\<lambda>h.
     andthen (lift_sum (pl_u8 frame 16)) (\<lambda>apdu_length.
     case cb h of None \<Rightarrow> ret ()
     | Some c \<Rightarrow>
       app (data_call c (pl_copy frame 17 (min (unat apdu_length) MAX_APDU_DSAP_SIZE)) (unat apdu_length) h timestamp)))"

lemma handlers_with_commute:
  assumes "\<And>call. commutes (with_data_cb c) (app call)"
  shows "commutes (with_data_cb c) (rx_frag_handler_with cb app frame ts)"
    "commutes (with_data_cb c) (rx_handler_with cb app frame ts)"
  unfolding rx_frag_handler_with_def rx_handler_with_def
  by (intro commutes_intros assms; auto intro!: dsap.equality)+

text \<open>Neither the variable nor the table changes before the callback is looked up.\<close>

lemma lookups_kept [keeps_intros]:
  "keeps (\<lambda>s. m_data_cb s = c) (reassembly_add_fragment f)"
  "keeps (\<lambda>s. m_data_cb s = c) (reassembly_get_full_message a b buffer n)"
  "keeps (\<lambda>s. data_cb_table s = table) (reassembly_add_fragment f)"
  "keeps (\<lambda>s. data_cb_table s = table) (reassembly_get_full_message a b buffer n)"
  unfolding reassembly_add_fragment_def Let_def get_packet_from_hash_def create_packet_in_hash_def
    add_fragment_to_full_packet_def is_packet_full_def reassembly_get_full_message_def reassemble_full_packet_def
    put_packet_def
  by (intro keeps_intros; auto intro!: keepsI simp: Platform_malloc_def Platform_get_timestamp_ms_monotonic_def
      split: list.splits)+

lemma default_handlers_with:
  "same_when (\<lambda>s. m_data_cb s = cb) (dsap_data_rx_frag_indication_handler app frame ts)
     (rx_frag_handler_with (\<lambda>_. cb) app frame ts)"
  "same_when (\<lambda>s. m_data_cb s = cb) (dsap_data_rx_indication_handler app frame ts)
     (rx_handler_with (\<lambda>_. cb) app frame ts)"
  unfolding dsap_data_rx_frag_indication_handler_def rx_frag_handler_with_def
    dsap_data_rx_indication_handler_def rx_handler_with_def call_if_set_def
  by ((rule same_when_intros keeps_intros)+; simp)+

lemma endpoint_handlers_with:
  "same_when (\<lambda>s. data_cb_table s = table) (dsap_data_rx_frag_indication_handler_ep app frame ts)
     (rx_frag_handler_with (\<lambda>h. table (rh_dest_ep h)) app frame ts)"
  "same_when (\<lambda>s. data_cb_table s = table) (dsap_data_rx_indication_handler_ep app frame ts)
     (rx_handler_with (\<lambda>h. table (rh_dest_ep h)) app frame ts)"
  unfolding dsap_data_rx_frag_indication_handler_ep_def rx_frag_handler_with_def
    dsap_data_rx_indication_handler_ep_def rx_handler_with_def call_if_set_def
  by ((rule same_when_intros keeps_intros)+; simp)+

lemma same_header:
  assumes "read_rx_header frame = Inr h" "cb h = cb' h"
  shows "rx_frag_handler_with cb app frame ts = rx_frag_handler_with cb' app frame ts"
    "rx_handler_with cb app frame ts = rx_handler_with cb' app frame ts"
  using assms by (simp_all add: rx_frag_handler_with_def rx_handler_with_def lift_sum_right cong: if_cong)

text \<open>C35: The build with one callback for each endpoint treats every packet and every fragment like the default
  build whose only callback is the one registered for the destination endpoint of the frame, so that what
  is proved of the default build holds for each endpoint (the client's callbacks do not reach the
  variable, which this build does not have).\<close>

theorem endpoint_build_equivalent:
  fixes app :: "app_call \<Rightarrow> ('z dsap_ep_scheme, unit) prog"
  assumes "\<And>call. commutes (with_data_cb (data_cb_table s (rh_dest_ep h))) (app call)" "read_rx_header frame = Inr h"
  shows "dsap_data_rx_frag_indication_handler app frame ts (s\<lparr>m_data_cb := data_cb_table s (rh_dest_ep h)\<rparr>)
      = map_sum id (map_prod id (\<lambda>t. t\<lparr>m_data_cb := data_cb_table s (rh_dest_ep h)\<rparr>))
          (dsap_data_rx_frag_indication_handler_ep app frame ts s)
    \<and> dsap_data_rx_indication_handler app frame ts (s\<lparr>m_data_cb := data_cb_table s (rh_dest_ep h)\<rparr>)
      = map_sum id (map_prod id (\<lambda>t. t\<lparr>m_data_cb := data_cb_table s (rh_dest_ep h)\<rparr>))
          (dsap_data_rx_indication_handler_ep app frame ts s)"
proof -
  let ?c = "data_cb_table s (rh_dest_ep h)"
  note default = default_handlers_with [of ?c app frame ts, unfolded same_when_def, rule_format, of "s\<lparr>m_data_cb := ?c\<rparr>"]
  note endpoint = endpoint_handlers_with [of "data_cb_table s" app frame ts, unfolded same_when_def, rule_format, of s]
  note same = same_header [OF assms(2), of "\<lambda>_. ?c" "\<lambda>h. data_cb_table s (rh_dest_ep h)" app ts]
  show ?thesis
    using default endpoint same handlers_with_commute [where app = app and cb = "\<lambda>_. ?c" and frame = frame and ts = ts and c = ?c, OF assms(1), THEN commutesD, of s]
    by simp
qed

text \<open>A packet of two bytes for endpoint 9, where callback 7 is registered.\<close>

definition packet_for_nine :: "u8 list" where
  "packet_for_nine = [3, 0, 19, 0, 1, 0, 0, 0, 4, 2, 0, 0, 0, 9, 13, 0, 1, 0, 0, 2, 5, 6]"

lemma header_for_nine:
  "read_rx_header packet_for_nine = Inr \<lparr>rh_src_add = 1, rh_src_ep = 4, rh_dest_add = 2, rh_dest_ep = 9,
    rh_qos_hop_count = 13, rh_travel_time = 256\<rparr>"
  by (simp add: read_rx_header_def packet_for_nine_def pl_u8_def pl_u32_def byte_at_def obj_u32_def bytes_at_def host_simps)

definition nine_registered :: dsap_ep where
  "nine_registered = dsap.extend quiet_dsap (dsap_ep.fields (\<lambda>ep. if ep = 9 then Some 7 else None))"

theorem endpoint_build_equivalent_witness:
  "dsap_data_rx_indication_handler_ep (\<lambda>call. halt (if call = Data_received 7 [5, 6] 2 1 2 True 4 9 2000 3 99
     then Exited else Undefined)) packet_for_nine 99 nine_registered = Inl Exited"
proof -
  let ?app = "\<lambda>call. halt (if call = Data_received 7 [5, 6] 2 1 2 True 4 9 2000 3 99 then Exited else Undefined)"
  have c: "data_cb_table nine_registered 9 = Some 7" by (simp add: nine_registered_def dsap.defs dsap_ep.defs)
  have "pl_u8 packet_for_nine 16 = Inr 2" "pl_copy packet_for_nine 17 2 = [5, 6]" "internal_time_to_ms 256 = 2000"
    by (simp_all add: packet_for_nine_def pl_u8_def byte_at_def pl_copy_def internal_time_to_ms_def)
  then have "dsap_data_rx_indication_handler ?app packet_for_nine 99 (nine_registered\<lparr>m_data_cb := Some 7\<rparr>) = Inl Exited"
    by (simp add: dsap_data_rx_indication_handler_def header_for_nine lift_sum_right call_if_set_def prog_simps
        data_call_def MAX_APDU_DSAP_SIZE_def)
  moreover have "dsap_data_rx_indication_handler ?app packet_for_nine 99 (nine_registered\<lparr>m_data_cb := Some 7\<rparr>)
      = map_sum id (map_prod id (\<lambda>t. t\<lparr>m_data_cb := Some 7\<rparr>))
          (dsap_data_rx_indication_handler_ep ?app packet_for_nine 99 nine_registered)"
    using endpoint_build_equivalent [where app = ?app and s = nine_registered and ts = 99, OF commutes_halt header_for_nine]
    by (simp add: c)
  ultimately show ?thesis
    by (cases "dsap_data_rx_indication_handler_ep ?app packet_for_nine 99 nine_registered") auto
qed

end
