(* ===== verification/Uthash.thy ===== *)
theory Uthash
  imports Mesh_Prelude
begin

text \<open>
  The macros of \<^verbatim>\<open>lib/wpc/include/uthash.h\<close> that \<^verbatim>\<open>reassembly.c\<close> uses, with their pointers: the hash of
  the packets under construction. An element is named by its address; the heap gives its handle, a member that every element embeds, so that
  the address of the handle stands for the element (\<^verbatim>\<open>ELMT_FROM_HH\<close> and \<^verbatim>\<open>HH_FROM_ELMT\<close> are the identity).
  All handles point to the one table of the hash, which is part of the state. The table and the array of its
  buckets are blocks of the memory that the program shares: the set of its blocks in use is part of the
  state too, \<^verbatim>\<open>uthash_malloc\<close> and \<^verbatim>\<open>uthash_free\<close> (\<^verbatim>\<open>Platform_malloc\<close> and \<^verbatim>\<open>Platform_free\<close>) change it, and
  freeing what is not in use is undefined. Whether an allocation of the hash succeeds comes from a script,
  and requests above the size of the memory fail; the code is built without
  \<^verbatim>\<open>HASH_NONFATAL_OOM\<close>, so a failure ends the process.

  The theory \<^verbatim>\<open>Reassembly\<close> uses an association list for the hash. The lemmas here show that the pointer
  structure behaves like it: see \<^verbatim>\<open>hash_refines_entries\<close> for the hash with its buckets, their expansion and the iteration that
  deletes elements on its way.
\<close>

section \<open>Data\<close>

type_synonym elem = nat

record UT_hash_handle =
  app_prev :: "elem option"
  app_next :: "elem option"
  hh_prev :: "elem option"
  hh_next :: "elem option"
  hh_key :: "u8 list"
  hashv :: u32

record UT_hash_bucket =
  hh_head :: "elem option"
  bkt_count :: u32
  expand_mult :: u32

record UT_hash_table =
  buckets_at :: nat
  buckets :: "UT_hash_bucket list"
  num_buckets :: u32
  log2_num_buckets :: u32
  num_items :: u32
  table_tail :: "elem option"
  ideal_chain_maxlen :: u32
  nonideal_items :: u32
  ineff_expands :: u32
  noexpand :: bool

text \<open>The function \<open>place\<close> stands for the strategy of the allocator, and \<open>live\<close> for the addresses of the blocks in
  use, those of the callers included; \<open>any_table\<close> is what the memory of a freed table holds.\<close>

record hash =
  place :: "nat set \<Rightarrow> nat"
  live :: "nat set"
  handles :: "elem \<Rightarrow> UT_hash_handle"
  hash_head :: "elem option"
  table_at :: nat
  tbl :: UT_hash_table
  any_table :: UT_hash_table
  hash_mallocs :: "bool list"
  memory :: nat

definition HASH_INITIAL_NUM_BUCKETS :: u32 where "HASH_INITIAL_NUM_BUCKETS = 32"
definition HASH_INITIAL_NUM_BUCKETS_LOG2 :: u32 where "HASH_INITIAL_NUM_BUCKETS_LOG2 = 5"
definition HASH_BKT_CAPACITY_THRESH :: u32 where "HASH_BKT_CAPACITY_THRESH = 10"
definition SIZEOF_UT_hash_bucket :: nat where "SIZEOF_UT_hash_bucket = 16"
definition SIZEOF_UT_hash_table :: nat where "SIZEOF_UT_hash_table = 64"

definition empty_bucket :: UT_hash_bucket where
  "empty_bucket = \<lparr>hh_head = None, bkt_count = 0, expand_mult = 0\<rparr>"

definition uthash_malloc :: "nat \<Rightarrow> (hash, nat option) prog" where
  "uthash_malloc n s =
     (let ok = (case hash_mallocs s of [] \<Rightarrow> True | ok # _ \<Rightarrow> ok); rest = tl (hash_mallocs s); a = place s (live s) in
      if ok \<and> n \<le> memory s then Inr (Some a, s\<lparr>hash_mallocs := rest, live := insert a (live s)\<rparr>)
      else Inr (None, s\<lparr>hash_mallocs := rest\<rparr>))"

definition uthash_free :: "nat \<Rightarrow> (hash, unit) prog" where
  "uthash_free a =
     andthen (gets live) (\<lambda>used.
     if a \<notin> used then halt Undefined else modify (\<lambda>s. s\<lparr>live := used - {a}\<rparr>))"

text \<open>Following a pointer: a null pointer is undefined.\<close>

definition deref :: "elem option \<Rightarrow> ('s, elem) prog" where
  "deref p = (case p of None \<Rightarrow> halt Undefined | Some e \<Rightarrow> ret e)"

definition handle :: "elem \<Rightarrow> (hash, UT_hash_handle) prog" where
  "handle e = gets (\<lambda>s. handles s e)"

definition store :: "elem \<Rightarrow> (UT_hash_handle \<Rightarrow> UT_hash_handle) \<Rightarrow> (hash, unit) prog" where
  "store e f = modify (\<lambda>s. s\<lparr>handles := (handles s)(e := f (handles s e))\<rparr>)"

definition store_table :: "(UT_hash_table \<Rightarrow> UT_hash_table) \<Rightarrow> (hash, unit) prog" where
  "store_table f = modify (\<lambda>s. s\<lparr>tbl := f (tbl s)\<rparr>)"

text \<open>An access to the array of buckets.\<close>

definition bucket :: "nat \<Rightarrow> (hash, UT_hash_bucket) prog" where
  "bucket i = andthen (gets (\<lambda>s. buckets (tbl s))) (\<lambda>bs. lift_sum (peek bs (int i)))"

definition store_bucket :: "nat \<Rightarrow> UT_hash_bucket \<Rightarrow> (hash, unit) prog" where
  "store_bucket i b = store_table (\<lambda>t. t\<lparr>buckets := (buckets t)[i := b]\<rparr>)"

section \<open>The hash function of Jenkins\<close>

definition HASH_JEN_MIX :: "u32 \<times> u32 \<times> u32 \<Rightarrow> u32 \<times> u32 \<times> u32" where
  "HASH_JEN_MIX abc =
     (let (a, b, c) = abc;
          a = a - b; a = a - c; a = a XOR drop_bit 13 c;
          b = b - c; b = b - a; b = b XOR push_bit 8 a;
          c = c - a; c = c - b; c = c XOR drop_bit 13 b;
          a = a - b; a = a - c; a = a XOR drop_bit 12 c;
          b = b - c; b = b - a; b = b XOR push_bit 16 a;
          c = c - a; c = c - b; c = c XOR drop_bit 5 b;
          a = a - b; a = a - c; a = a XOR drop_bit 3 c;
          b = b - c; b = b - a; b = b XOR push_bit 10 a;
          c = c - a; c = c - b; c = c XOR drop_bit 15 b
      in (a, b, c))"

text \<open>A byte of the key, shifted; behind the end of the key the cases of the switch do not apply.\<close>

definition shifted_byte :: "u8 list \<Rightarrow> nat \<Rightarrow> nat \<Rightarrow> u32" where
  "shifted_byte key i n = (if i < length key then push_bit n (ucast (key ! i)) else 0)"

definition key_word :: "u8 list \<Rightarrow> nat \<Rightarrow> u32" where
  "key_word key i = shifted_byte key i 0 + shifted_byte key (i + 1) 8 + shifted_byte key (i + 2) 16
     + shifted_byte key (i + 3) 24"

function jenkins_blocks :: "u8 list \<Rightarrow> u32 \<times> u32 \<times> u32 \<Rightarrow> u8 list \<times> u32 \<times> u32 \<times> u32" where
  "jenkins_blocks key (i, j, hash) =
     (if length key \<ge> 12
      then jenkins_blocks (drop 12 key)
             (HASH_JEN_MIX (i + key_word key 0, j + key_word key 4, hash + key_word key 8))
      else (key, i, j, hash))"
  by pat_completeness auto
termination by (relation "measure (\<lambda>(key, _). length key)") auto

definition HASH_JEN :: "u8 list \<Rightarrow> u32" where
  "HASH_JEN key =
     (let (rest, i, j, hash) = jenkins_blocks key (0x9e3779b9, 0x9e3779b9, 0xfeedbeef);
          hash = hash + of_nat (length key);
          hash = hash + shifted_byte rest 10 24 + shifted_byte rest 9 16 + shifted_byte rest 8 8;
          j = j + shifted_byte rest 7 24 + shifted_byte rest 6 16 + shifted_byte rest 5 8 + shifted_byte rest 4 0;
          i = i + shifted_byte rest 3 24 + shifted_byte rest 2 16 + shifted_byte rest 1 8 + shifted_byte rest 0 0
      in snd (snd (HASH_JEN_MIX (i, j, hash))))"

definition HASH_TO_BKT :: "u32 \<Rightarrow> u32 \<Rightarrow> nat" where
  "HASH_TO_BKT hash num_bkts = unat (hash AND (num_bkts - 1))"

section \<open>Finding an element\<close>

text \<open>Walking along a bucket. The budget of this and of the later walks is the number of elements that the
  table counts; the lemmas show that it is never used up.\<close>

primrec HASH_FIND_IN_BKT :: "nat \<Rightarrow> u8 list \<Rightarrow> u32 \<Rightarrow> elem option \<Rightarrow> (hash, elem option) prog" where
  "HASH_FIND_IN_BKT 0 key hashval out = halt OutOfFuel"
| "HASH_FIND_IN_BKT (Suc budget) key hashval out =
     (case out of None \<Rightarrow> ret None
      | Some e \<Rightarrow>
          andthen (handle e) (\<lambda>h.
          if hashv h = hashval \<and> length (hh_key h) = length key \<and> hh_key h = key then ret (Some e)
          else HASH_FIND_IN_BKT budget key hashval (hh_next h)))"

definition HASH_FIND :: "u8 list \<Rightarrow> (hash, elem option) prog" where
  "HASH_FIND key =
     andthen (gets hash_head) (\<lambda>head.
     if head = None then ret None
     else
       andthen (gets (\<lambda>s. num_buckets (tbl s))) (\<lambda>n.
       andthen (bucket (HASH_TO_BKT (HASH_JEN key) n)) (\<lambda>b.
       HASH_FIND_IN_BKT (Suc (unat (bkt_count b))) key (HASH_JEN key) (hh_head b))))"

definition HASH_CNT :: "(hash, u32) prog" where
  "HASH_CNT = gets (\<lambda>s. if hash_head s \<noteq> None then num_items (tbl s) else 0)"

section \<open>Expanding the buckets\<close>

text \<open>One element moves to the front of its new bucket.\<close>

type_synonym relinking = "(elem \<Rightarrow> UT_hash_handle) \<times> UT_hash_bucket list \<times> u32"

definition relink :: "u32 \<Rightarrow> u32 \<Rightarrow> elem \<Rightarrow> relinking \<Rightarrow> stop + relinking" where
  "relink new_num ideal e st =
     (let (hs, bs, nonideal) = st; i = HASH_TO_BKT (hashv (hs e)) new_num in
      if i \<ge> length bs then Inl Undefined
      else
        let b = bs ! i; c = bkt_count b + 1;
            mult = (if c > ideal \<and> c > expand_mult b * ideal then expand_mult b + 1 else expand_mult b);
            hs1 = hs(e := (hs e)\<lparr>hh_prev := None, hh_next := hh_head b\<rparr>);
            hs2 = (case hh_head b of None \<Rightarrow> hs1 | Some h \<Rightarrow> hs1(h := (hs1 h)\<lparr>hh_prev := Some e\<rparr>))
        in Inr (hs2, bs[i := \<lparr>hh_head = Some e, bkt_count = c, expand_mult = mult\<rparr>],
                if c > ideal then nonideal + 1 else nonideal))"

primrec relink_chain :: "nat \<Rightarrow> u32 \<Rightarrow> u32 \<Rightarrow> elem option \<Rightarrow> relinking \<Rightarrow> stop + relinking" where
  "relink_chain 0 new_num ideal thh st = Inl OutOfFuel"
| "relink_chain (Suc budget) new_num ideal thh st =
     (case thh of None \<Rightarrow> Inr st
      | Some e \<Rightarrow>
          (let hh_nxt = hh_next (fst st e) in
           case relink new_num ideal e st of Inl x \<Rightarrow> Inl x
           | Inr st' \<Rightarrow> relink_chain budget new_num ideal hh_nxt st'))"

primrec relink_buckets :: "u32 \<Rightarrow> u32 \<Rightarrow> UT_hash_bucket list \<Rightarrow> relinking \<Rightarrow> stop + relinking" where
  "relink_buckets new_num ideal [] st = Inr st"
| "relink_buckets new_num ideal (b # bs) st =
     (case relink_chain (Suc (unat (bkt_count b))) new_num ideal (hh_head b) st of Inl x \<Rightarrow> Inl x
      | Inr st' \<Rightarrow> relink_buckets new_num ideal bs st')"

definition ideal_maxlen :: "UT_hash_table \<Rightarrow> u32" where
  "ideal_maxlen t = drop_bit (unat (log2_num_buckets t + 1)) (num_items t)
     + (if num_items t AND (num_buckets t * 2 - 1) \<noteq> 0 then 1 else 0)"

definition HASH_EXPAND_BUCKETS :: "(hash, unit) prog" where
  "HASH_EXPAND_BUCKETS =
     andthen (gets tbl) (\<lambda>t.
     andthen (uthash_malloc (SIZEOF_UT_hash_bucket * unat (num_buckets t) * 2)) (\<lambda>new.
     case new of None \<Rightarrow> halt Exited
     | Some new_buckets \<Rightarrow>
       let ideal = ideal_maxlen t in
       andthen (gets handles) (\<lambda>hs.
       andthen (lift_sum (relink_buckets (num_buckets t * 2) ideal (buckets t)
         (hs, replicate (unat (num_buckets t) * 2) empty_bucket, 0))) (\<lambda>(hs', bs', nonideal).
       let ineff = (if nonideal > drop_bit 1 (num_items t) then ineff_expands t + 1 else 0) in
       andthen (uthash_free (buckets_at t)) (\<lambda>_.
       modify (\<lambda>s. s\<lparr>handles := hs', tbl := t\<lparr>buckets_at := new_buckets, buckets := bs', num_buckets := num_buckets t * 2,
         log2_num_buckets := log2_num_buckets t + 1, ideal_chain_maxlen := ideal, nonideal_items := nonideal,
         ineff_expands := ineff, noexpand := noexpand t \<or> ineff > 1\<rparr>\<rparr>))))))"

section \<open>Adding an element\<close>

definition HASH_MAKE_TABLE :: "elem \<Rightarrow> (hash, unit) prog" where
  "HASH_MAKE_TABLE e =
     andthen (uthash_malloc SIZEOF_UT_hash_table) (\<lambda>new.
     case new of None \<Rightarrow> halt Exited
     | Some table \<Rightarrow>
       andthen (uthash_malloc (unat HASH_INITIAL_NUM_BUCKETS * SIZEOF_UT_hash_bucket)) (\<lambda>new.
       case new of None \<Rightarrow> halt Exited
       | Some bs \<Rightarrow> modify (\<lambda>s. s\<lparr>table_at := table, tbl := \<lparr>buckets_at = bs, buckets = replicate (unat HASH_INITIAL_NUM_BUCKETS) empty_bucket,
         num_buckets = HASH_INITIAL_NUM_BUCKETS, log2_num_buckets = HASH_INITIAL_NUM_BUCKETS_LOG2,
         num_items = 0, table_tail = Some e, ideal_chain_maxlen = 0, nonideal_items = 0, ineff_expands = 0,
         noexpand = False\<rparr>\<rparr>)))"

definition HASH_APPEND_LIST :: "elem \<Rightarrow> (hash, unit) prog" where
  "HASH_APPEND_LIST e =
     andthen (store e (\<lambda>h. h\<lparr>app_next := None\<rparr>)) (\<lambda>_.
     andthen (gets (\<lambda>s. table_tail (tbl s))) (\<lambda>last_hh.
     andthen (store e (\<lambda>h. h\<lparr>app_prev := last_hh\<rparr>)) (\<lambda>_.
     andthen (deref last_hh) (\<lambda>l.
     andthen (store l (\<lambda>h. h\<lparr>app_next := Some e\<rparr>)) (\<lambda>_.
     store_table (\<lambda>t. t\<lparr>table_tail := Some e\<rparr>))))))"

definition HASH_ADD_TO_BKT :: "nat \<Rightarrow> elem \<Rightarrow> (hash, unit) prog" where
  "HASH_ADD_TO_BKT i e =
     andthen (bucket i) (\<lambda>b.
     let b' = b\<lparr>bkt_count := bkt_count b + 1, hh_head := Some e\<rparr> in
     andthen (store e (\<lambda>h. h\<lparr>hh_next := hh_head b\<rparr>)) (\<lambda>_.
     andthen (store e (\<lambda>h. h\<lparr>hh_prev := None\<rparr>)) (\<lambda>_.
     andthen (case hh_head b of None \<Rightarrow> ret () | Some f \<Rightarrow> store f (\<lambda>h. h\<lparr>hh_prev := Some e\<rparr>)) (\<lambda>_.
     andthen (store_bucket i b') (\<lambda>_.
     andthen (gets (\<lambda>s. noexpand (tbl s))) (\<lambda>no_more.
     if bkt_count b' \<ge> (expand_mult b' + 1) * HASH_BKT_CAPACITY_THRESH \<and> \<not> no_more
     then HASH_EXPAND_BUCKETS else ret ()))))))"

definition HASH_ADD_TO_TABLE :: "u32 \<Rightarrow> elem \<Rightarrow> (hash, unit) prog" where
  "HASH_ADD_TO_TABLE hashval e =
     andthen (store_table (\<lambda>t. t\<lparr>num_items := num_items t + 1\<rparr>)) (\<lambda>_.
     andthen (gets (\<lambda>s. num_buckets (tbl s))) (\<lambda>n.
     HASH_ADD_TO_BKT (HASH_TO_BKT hashval n) e))"

definition HASH_ADD :: "u8 list \<Rightarrow> elem \<Rightarrow> (hash, unit) prog" where
  "HASH_ADD key e =
     andthen (store e (\<lambda>h. h\<lparr>hashv := HASH_JEN key\<rparr>)) (\<lambda>_.
     andthen (store e (\<lambda>h. h\<lparr>hh_key := key\<rparr>)) (\<lambda>_.
     andthen (gets hash_head) (\<lambda>head.
     andthen (if head = None then
         andthen (store e (\<lambda>h. h\<lparr>app_next := None\<rparr>)) (\<lambda>_.
         andthen (store e (\<lambda>h. h\<lparr>app_prev := None\<rparr>)) (\<lambda>_.
         andthen (HASH_MAKE_TABLE e) (\<lambda>_.
         modify (\<lambda>s. s\<lparr>hash_head := Some e\<rparr>))))
       else HASH_APPEND_LIST e) (\<lambda>_.
     HASH_ADD_TO_TABLE (HASH_JEN key) e))))"

section \<open>Deleting an element\<close>

definition HASH_DEL_IN_BKT :: "nat \<Rightarrow> elem \<Rightarrow> (hash, unit) prog" where
  "HASH_DEL_IN_BKT i e =
     andthen (bucket i) (\<lambda>b.
     andthen (handle e) (\<lambda>h.
     andthen (store_bucket i (b\<lparr>bkt_count := bkt_count b - 1,
       hh_head := (if hh_head b = Some e then hh_next h else hh_head b)\<rparr>)) (\<lambda>_.
     andthen (case hh_prev h of None \<Rightarrow> ret () | Some p \<Rightarrow> store p (\<lambda>x. x\<lparr>hh_next := hh_next h\<rparr>)) (\<lambda>_.
     andthen (handle e) (\<lambda>h.
     case hh_next h of None \<Rightarrow> ret () | Some n \<Rightarrow> store n (\<lambda>x. x\<lparr>hh_prev := hh_prev h\<rparr>))))))"

definition HASH_DELETE :: "elem \<Rightarrow> (hash, unit) prog" where
  "HASH_DELETE e =
     andthen (handle e) (\<lambda>h.
     if app_prev h = None \<and> app_next h = None then
       andthen (gets (\<lambda>s. buckets_at (tbl s))) (\<lambda>bs.
       andthen (uthash_free bs) (\<lambda>_.
       andthen (gets table_at) (\<lambda>table.
       andthen (uthash_free table) (\<lambda>_.
       modify (\<lambda>s. s\<lparr>tbl := any_table s, hash_head := None\<rparr>)))))
     else
       andthen (store_table (\<lambda>t. if table_tail t = Some e then t\<lparr>table_tail := app_prev h\<rparr> else t)) (\<lambda>_.
       andthen (case app_prev h of
           Some p \<Rightarrow> store p (\<lambda>x. x\<lparr>app_next := app_next h\<rparr>)
         | None \<Rightarrow> modify (\<lambda>s. s\<lparr>hash_head := app_next h\<rparr>)) (\<lambda>_.
       andthen (handle e) (\<lambda>h.
       andthen (case app_next h of None \<Rightarrow> ret () | Some n \<Rightarrow> store n (\<lambda>x. x\<lparr>app_prev := app_prev h\<rparr>)) (\<lambda>_.
       andthen (gets (\<lambda>s. HASH_TO_BKT (hashv (handles s e)) (num_buckets (tbl s)))) (\<lambda>i.
       andthen (HASH_DEL_IN_BKT i e) (\<lambda>_.
       store_table (\<lambda>t. t\<lparr>num_items := num_items t - 1\<rparr>))))))))"

section \<open>Visiting every element\<close>

text \<open>The element after the current one is fetched before the body runs, which may delete the current one.
  The body works on a state of which \<open>h\<close> reads the hash. The result lists the elements visited.\<close>

definition next_of :: "hash \<Rightarrow> elem option \<Rightarrow> elem option" where
  "next_of t p = (case p of None \<Rightarrow> None | Some e \<Rightarrow> app_next (handles t e))"

primrec iterate :: "('s \<Rightarrow> hash) \<Rightarrow> nat \<Rightarrow> (elem \<Rightarrow> ('s, unit) prog) \<Rightarrow> elem option \<Rightarrow> elem option \<Rightarrow> ('s, elem list) prog" where
  "iterate h 0 body el tmp = halt OutOfFuel"
| "iterate h (Suc budget) body el tmp =
     (case el of None \<Rightarrow> ret []
      | Some e \<Rightarrow>
          andthen (body e) (\<lambda>_.
          andthen (gets (\<lambda>s. next_of (h s) tmp)) (\<lambda>tmp'.
          andthen (iterate h budget body tmp tmp') (\<lambda>es. ret (e # es)))))"

definition HASH_ITER :: "('s \<Rightarrow> hash) \<Rightarrow> (elem \<Rightarrow> ('s, unit) prog) \<Rightarrow> ('s, elem list) prog" where
  "HASH_ITER h body =
     andthen (gets (\<lambda>s. if hash_head (h s) \<noteq> None then num_items (tbl (h s)) else 0)) (\<lambda>n.
     andthen (gets (\<lambda>s. hash_head (h s))) (\<lambda>el.
     andthen (gets (\<lambda>s. next_of (h s) el)) (\<lambda>tmp.
     iterate h (Suc (unat n)) body el tmp)))"

section \<open>Doubly linked lists\<close>

text \<open>The links of all elements, one function for each pointer of the handle.\<close>

definition nexts :: "(elem \<Rightarrow> UT_hash_handle) \<Rightarrow> elem \<Rightarrow> elem option" where
  "nexts hs e = app_next (hs e)"

definition prevs :: "(elem \<Rightarrow> UT_hash_handle) \<Rightarrow> elem \<Rightarrow> elem option" where
  "prevs hs e = app_prev (hs e)"

definition hh_nexts :: "(elem \<Rightarrow> UT_hash_handle) \<Rightarrow> elem \<Rightarrow> elem option" where
  "hh_nexts hs e = hh_next (hs e)"

definition hh_prevs :: "(elem \<Rightarrow> UT_hash_handle) \<Rightarrow> elem \<Rightarrow> elem option" where
  "hh_prevs hs e = hh_prev (hs e)"

lemma links_update [simp]:
  "nexts (hs(e := h)) = (nexts hs)(e := app_next h)"
  "prevs (hs(e := h)) = (prevs hs)(e := app_prev h)"
  "hh_nexts (hs(e := h)) = (hh_nexts hs)(e := hh_next h)"
  "hh_prevs (hs(e := h)) = (hh_prevs hs)(e := hh_prev h)"
  by (auto simp: fun_eq_iff nexts_def prevs_def hh_nexts_def hh_prevs_def)

lemma links_same [simp]:
  "(nexts hs)(e := app_next (hs e)) = nexts hs" "(prevs hs)(e := app_prev (hs e)) = prevs hs"
  "(hh_nexts hs)(e := hh_next (hs e)) = hh_nexts hs" "(hh_prevs hs)(e := hh_prev (hs e)) = hh_prevs hs"
  by (auto simp: fun_eq_iff nexts_def prevs_def hh_nexts_def hh_prevs_def)

lemmas links_at = nexts_def prevs_def hh_nexts_def hh_prevs_def

text \<open>The first element of a list that ends in \<open>b\<close>, and the last one of a list that starts behind \<open>a\<close>.\<close>

fun first :: "elem list \<Rightarrow> elem option \<Rightarrow> elem option" where
  "first [] b = b"
| "first (x # xs) b = Some x"

definition final :: "elem list \<Rightarrow> elem option \<Rightarrow> elem option" where
  "final xs a = (if xs = [] then a else Some (last xs))"

primrec dlseg :: "(elem \<Rightarrow> elem option) \<Rightarrow> (elem \<Rightarrow> elem option) \<Rightarrow> elem option \<Rightarrow> elem list \<Rightarrow> elem option \<Rightarrow> bool" where
  "dlseg nx pv a [] b \<longleftrightarrow> True"
| "dlseg nx pv a (x # xs) b \<longleftrightarrow> pv x = a \<and> nx x = first xs b \<and> dlseg nx pv (Some x) xs b"

lemma first_append [simp]: "first (xs @ ys) b = first xs (first ys b)"
  by (cases xs) simp_all

lemma first_None [simp]: "first xs None = None \<longleftrightarrow> xs = []"
  by (cases xs) simp_all

lemma first_Some: "(\<exists>y. first xs b = Some y) \<longleftrightarrow> xs \<noteq> [] \<or> b \<noteq> None"
  by (cases xs) auto

lemma final_simps [simp]: "final [] a = a" "final (x # xs) a = final xs (Some x)" "final (xs @ [x]) a = Some x"
  "final (xs @ x # ys) a = final ys (Some x)"
  by (simp_all add: final_def)

lemma dlseg_append [simp]:
  "dlseg nx pv a (xs @ ys) b \<longleftrightarrow> dlseg nx pv a xs (first ys b) \<and> dlseg nx pv (final xs a) ys b"
  by (induction xs arbitrary: a) auto

lemma dlseg_frame [simp]:
  "e \<notin> set xs \<Longrightarrow> dlseg (nx(e := v)) pv a xs b = dlseg nx pv a xs b"
  "e \<notin> set xs \<Longrightarrow> dlseg nx (pv(e := v)) a xs b = dlseg nx pv a xs b"
  by (induction xs arbitrary: a) auto

lemma dlseg_cong:
  "(\<And>x. x \<in> set xs \<Longrightarrow> nx x = nx' x \<and> pv x = pv' x) \<Longrightarrow> dlseg nx pv a xs b = dlseg nx' pv' a xs b"
  by (induction xs arbitrary: a) auto

lemma dlseg_agree:
  assumes "\<And>x. x \<in> set xs \<Longrightarrow> hs x = hs' x"
  shows "dlseg (hh_nexts hs) (hh_prevs hs) a xs b = dlseg (hh_nexts hs') (hh_prevs hs') a xs b"
  by (rule dlseg_cong) (simp add: links_at assms)

text \<open>An element in front of, behind and out of a list.\<close>

lemma dlseg_prepend:
  assumes "dlseg nx pv None xs None" "e \<notin> set xs" "distinct xs"
  shows "dlseg (nx(e := first xs None)) (case first xs None of None \<Rightarrow> pv(e := None) | Some f \<Rightarrow> pv(e := None, f := Some e))
    None (e # xs) None"
  using assms by (cases xs) auto

lemma dlseg_relast:
  "dlseg nx pv a (xs @ [l]) b \<Longrightarrow> l \<notin> set xs \<Longrightarrow> dlseg (nx(l := c)) pv a (xs @ [l]) c"
  by simp

lemma dlseg_append_elem:
  assumes "dlseg nx pv None (xs @ [l]) None" "e \<notin> set (xs @ [l])" "distinct (xs @ [l])"
  shows "dlseg (nx(e := None, l := Some e)) (pv(e := Some l)) None (xs @ [l, e]) None"
  using assms by auto

lemma dlseg_delete:
  assumes "dlseg nx pv None (ys @ e # zs) None" "distinct (ys @ e # zs)"
  shows "dlseg (case pv e of None \<Rightarrow> nx | Some p \<Rightarrow> nx(p := nx e)) (case nx e of None \<Rightarrow> pv | Some n \<Rightarrow> pv(n := pv e))
    None (ys @ zs) None"
    and "pv e = final ys None" "nx e = first zs None"
proof -
  from assms(1) show e: "pv e = final ys None" "nx e = first zs None" by simp_all
  show "dlseg (case pv e of None \<Rightarrow> nx | Some p \<Rightarrow> nx(p := nx e)) (case nx e of None \<Rightarrow> pv | Some n \<Rightarrow> pv(n := pv e))
    None (ys @ zs) None"
    unfolding e using assms
    by (cases ys rule: rev_cases; cases zs) (auto simp: fun_upd_twist)
qed

section \<open>Buckets\<close>

text \<open>A bucket of a table with \<open>n\<close> buckets holds, as a doubly linked list \<open>cs\<close>, the elements of \<open>X\<close> that hash to
  its index.\<close>

definition bucket_ok :: "(elem \<Rightarrow> UT_hash_handle) \<Rightarrow> u32 \<Rightarrow> elem set \<Rightarrow> nat \<Rightarrow> UT_hash_bucket \<Rightarrow> elem list \<Rightarrow> bool" where
  "bucket_ok hs n X i b cs \<longleftrightarrow> dlseg (hh_nexts hs) (hh_prevs hs) None cs None \<and> hh_head b = first cs None
     \<and> bkt_count b = of_nat (length cs) \<and> distinct cs \<and> set cs = {e \<in> X. HASH_TO_BKT (hashv (hs e)) n = i}"

definition chains_ok :: "(elem \<Rightarrow> UT_hash_handle) \<Rightarrow> u32 \<Rightarrow> elem set \<Rightarrow> UT_hash_bucket list \<Rightarrow> (nat \<Rightarrow> elem list) \<Rightarrow> bool" where
  "chains_ok hs n X bs C \<longleftrightarrow> (\<forall>i < length bs. bucket_ok hs n X i (bs ! i) (C i))"

text \<open>Everything of a handle but its place in a bucket.\<close>

definition same_entries :: "(elem \<Rightarrow> UT_hash_handle) \<Rightarrow> (elem \<Rightarrow> UT_hash_handle) \<Rightarrow> bool" where
  "same_entries hs hs' \<longleftrightarrow> nexts hs = nexts hs' \<and> prevs hs = prevs hs'
     \<and> (\<forall>x. hashv (hs x) = hashv (hs' x) \<and> hh_key (hs x) = hh_key (hs' x))"

lemma same_entries_refl [simp]: "same_entries hs hs"
  by (simp add: same_entries_def)

lemma same_entries_trans [trans]: "same_entries hs hs' \<Longrightarrow> same_entries hs' hs'' \<Longrightarrow> same_entries hs hs''"
  by (simp add: same_entries_def)

text \<open>An element that becomes the first of its bucket.\<close>

definition put_first :: "elem \<Rightarrow> elem option \<Rightarrow> (elem \<Rightarrow> UT_hash_handle) \<Rightarrow> elem \<Rightarrow> UT_hash_handle" where
  "put_first e p hs =
     (let hs' = hs(e := (hs e)\<lparr>hh_prev := None, hh_next := p\<rparr>)
      in case p of None \<Rightarrow> hs' | Some h \<Rightarrow> hs'(h := (hs' h)\<lparr>hh_prev := Some e\<rparr>))"

lemma put_first_entries: "same_entries hs (put_first e p hs)"
  by (auto simp: put_first_def same_entries_def Let_def fun_eq_iff links_at split: option.splits)

lemma put_first_links:
  "e \<noteq> f \<Longrightarrow> hh_nexts (put_first e (Some f) hs) = (hh_nexts hs)(e := Some f)"
  "e \<noteq> f \<Longrightarrow> hh_prevs (put_first e (Some f) hs) = (hh_prevs hs)(e := None, f := Some e)"
  "hh_nexts (put_first e None hs) = (hh_nexts hs)(e := None)"
  "hh_prevs (put_first e None hs) = (hh_prevs hs)(e := None)"
  by (auto simp: put_first_def Let_def fun_eq_iff links_at)

lemma put_first_bucket:
  assumes "chains_ok hs n X bs C" "e \<notin> X" "i = HASH_TO_BKT (hashv (hs e)) n" "i < length bs"
  shows "chains_ok (put_first e (hh_head (bs ! i)) hs) n (insert e X)
    (bs[i := \<lparr>hh_head = Some e, bkt_count = bkt_count (bs ! i) + 1, expand_mult = m\<rparr>]) (C(i := e # C i))"
  unfolding chains_ok_def
proof (intro allI impI)
  let ?hs = "put_first e (hh_head (bs ! i)) hs"
  let ?bs = "bs[i := \<lparr>hh_head = Some e, bkt_count = bkt_count (bs ! i) + 1, expand_mult = m\<rparr>]"
  fix j assume "j < length ?bs"
  then have j: "j < length bs" by simp
  from assms(1) j assms(4) have bj: "bucket_ok hs n X j (bs ! j) (C j)" and bi: "bucket_ok hs n X i (bs ! i) (C i)"
    by (simp_all add: chains_ok_def)
  have same: "hashv (?hs x) = hashv (hs x)" for x using put_first_entries [of hs e "hh_head (bs ! i)"] by (simp add: same_entries_def)
  have e: "e \<notin> set (C j)" "e \<notin> set (C i)" using bj bi assms(2) by (auto simp: bucket_ok_def)
  show "bucket_ok ?hs n (insert e X) j (?bs ! j) ((C(i := e # C i)) j)"
  proof (cases "j = i")
    case True
    have "dlseg (hh_nexts ?hs) (hh_prevs ?hs) None (e # C i) None"
    proof (cases "C i")
      case Nil
      with bi show ?thesis by (simp add: bucket_ok_def put_first_links)
    next
      case (Cons f cs)
      then have "dlseg (hh_nexts hs) (hh_prevs hs) None (f # cs) None" "hh_head (bs ! i) = Some f" "distinct (f # cs)"
        "e \<noteq> f" "e \<notin> set cs" using bi e(2) by (auto simp: bucket_ok_def)
      with Cons show ?thesis by (simp add: put_first_links)
    qed
    moreover have "set (e # C i) = {x \<in> insert e X. HASH_TO_BKT (hashv (?hs x)) n = i}"
      using bi assms(3) unfolding bucket_ok_def same by auto
    moreover have "bkt_count (bs ! i) + 1 = of_nat (length (e # C i))" "distinct (e # C i)"
      using bi e(2) by (simp_all add: bucket_ok_def)
    ultimately show ?thesis using True assms(4) by (simp add: bucket_ok_def)
  next
    case False
    have "dlseg (hh_nexts ?hs) (hh_prevs ?hs) None (C j) None"
    proof (cases "C i")
      case Nil
      with bi bj e show ?thesis by (simp add: bucket_ok_def put_first_links)
    next
      case (Cons f cs)
      then have "f \<in> set (C i)" by simp
      have sets: "set (C i) = {x \<in> X. HASH_TO_BKT (hashv (hs x)) n = i}" "set (C j) = {x \<in> X. HASH_TO_BKT (hashv (hs x)) n = j}"
        using bi bj by (simp_all add: bucket_ok_def)
      from \<open>f \<in> set (C i)\<close> False have "f \<notin> set (C j)" unfolding sets by simp
      with Cons bi bj e show ?thesis by (auto simp: bucket_ok_def put_first_links)
    qed
    moreover have "{x \<in> insert e X. HASH_TO_BKT (hashv (?hs x)) n = j} = {x \<in> X. HASH_TO_BKT (hashv (hs x)) n = j}"
      using False assms(3) unfolding same by auto
    ultimately show ?thesis using False bj by (simp add: bucket_ok_def)
  qed
qed

section \<open>The expansion\<close>

lemma relink_run:
  assumes "chains_ok hs n X bs C" "e \<notin> X" "HASH_TO_BKT (hashv (hs e)) n < length bs"
  obtains hs' bs' nonideal' C' where "relink n ideal e (hs, bs, nonideal) = Inr (hs', bs', nonideal')"
    "chains_ok hs' n (insert e X) bs' C'" "length bs' = length bs" "same_entries hs hs'"
    "\<forall>x. x \<notin> insert e X \<longrightarrow> hs' x = hs x"
proof -
  let ?i = "HASH_TO_BKT (hashv (hs e)) n"
  let ?hs = "put_first e (hh_head (bs ! ?i)) hs"
  from assms(1,3) have "bucket_ok hs n X ?i (bs ! ?i) (C ?i)" by (simp add: chains_ok_def)
  then have frame: "x \<notin> insert e X \<Longrightarrow> ?hs x = hs x" for x
    by (cases "C ?i") (auto simp: bucket_ok_def put_first_def)
  from assms(3) obtain m nonideal' where "relink n ideal e (hs, bs, nonideal)
      = Inr (?hs, bs[?i := \<lparr>hh_head = Some e, bkt_count = bkt_count (bs ! ?i) + 1, expand_mult = m\<rparr>], nonideal')"
    by (simp add: relink_def put_first_def Let_def)
  from that [OF this put_first_bucket [OF assms(1,2) refl assms(3)] _ put_first_entries] frame
  show ?thesis by simp
qed

lemma relink_chain_run:
  assumes "dlseg (hh_nexts hs) (hh_prevs hs) a ys None" "distinct ys" "set ys \<inter> X = {}" "length ys < budget"
    and "chains_ok hs n X bs C" "\<forall>e \<in> set ys. HASH_TO_BKT (hashv (hs e)) n < length bs"
  shows "\<exists>hs' bs' nonideal' C'. relink_chain budget n ideal (first ys None) (hs, bs, nonideal) = Inr (hs', bs', nonideal')
    \<and> chains_ok hs' n (X \<union> set ys) bs' C' \<and> length bs' = length bs \<and> same_entries hs hs'
    \<and> (\<forall>x. x \<notin> X \<union> set ys \<longrightarrow> hs' x = hs x)"
  using assms
proof (induction ys arbitrary: a X budget hs bs nonideal C)
  case Nil
  then show ?case by (cases budget) auto
next
  case (Cons e ys)
  then obtain budget' where b: "budget = Suc budget'" "length ys < budget'" by (cases budget) auto
  have "e \<notin> X" "HASH_TO_BKT (hashv (hs e)) n < length bs" using Cons.prems(3,6) by auto
  then obtain hs1 bs1 nonideal1 C1 where r: "relink n ideal e (hs, bs, nonideal) = Inr (hs1, bs1, nonideal1)"
    and c: "chains_ok hs1 n (insert e X) bs1 C1" "length bs1 = length bs" "same_entries hs hs1"
    and frame: "\<forall>x. x \<notin> insert e X \<longrightarrow> hs1 x = hs x"
    by (rule relink_run [OF Cons.prems(5), where ideal = ideal and nonideal = nonideal])
  have ys: "hs1 x = hs x" if "x \<in> set ys" for x using that Cons.prems(2,3) frame by auto
  then have seg: "dlseg (hh_nexts hs1) (hh_prevs hs1) (Some e) ys None"
    using Cons.prems(1) dlseg_agree [of ys hs1 hs "Some e" None] by simp
  have "\<exists>hs' bs' nonideal' C'. relink_chain budget' n ideal (first ys None) (hs1, bs1, nonideal1) = Inr (hs', bs', nonideal')
    \<and> chains_ok hs' n (insert e X \<union> set ys) bs' C' \<and> length bs' = length bs1 \<and> same_entries hs1 hs'
    \<and> (\<forall>x. x \<notin> insert e X \<union> set ys \<longrightarrow> hs' x = hs1 x)"
    using Cons.prems(2,3,6) ys c by (intro Cons.IH [OF seg _ _ b(2) c(1)]) auto
  moreover have "hh_next (hs e) = first ys None" using Cons.prems(1) by (simp add: links_at)
  ultimately obtain hs' bs' nonideal' C' where "relink_chain budget n ideal (first (e # ys) None) (hs, bs, nonideal) = Inr (hs', bs', nonideal')"
    "chains_ok hs' n (X \<union> set (e # ys)) bs' C'" "length bs' = length bs" "same_entries hs hs'"
    "\<forall>x. x \<notin> X \<union> set (e # ys) \<longrightarrow> hs' x = hs x"
    using r b(1) c(2) same_entries_trans [OF c(3)] frame by fastforce
  then show ?case by blast
qed

text \<open>The buckets of a table as the lists of their elements.\<close>

definition bucket_chain :: "(elem \<Rightarrow> UT_hash_handle) \<Rightarrow> UT_hash_bucket \<Rightarrow> elem list \<Rightarrow> bool" where
  "bucket_chain hs b cs \<longleftrightarrow> hh_head b = first cs None \<and> bkt_count b = of_nat (length cs) \<and> length cs < 2 ^ 32
     \<and> dlseg (hh_nexts hs) (hh_prevs hs) None cs None"

lemma bucket_chain_agree:
  assumes "bucket_chain hs b cs" "\<And>x. x \<in> set cs \<Longrightarrow> hs' x = hs x"
  shows "bucket_chain hs' b cs"
  using assms(1) dlseg_agree [of cs hs hs' None None] assms(2) by (simp add: bucket_chain_def)

lemma relink_buckets_run:
  assumes "list_all2 (bucket_chain hs) bs css" "distinct (concat css)" "set (concat css) \<inter> X = {}"
    and "chains_ok hs n X new C" "\<forall>e \<in> set (concat css). HASH_TO_BKT (hashv (hs e)) n < length new"
  shows "\<exists>hs' new' nonideal' C'. relink_buckets n ideal bs (hs, new, nonideal) = Inr (hs', new', nonideal')
    \<and> chains_ok hs' n (X \<union> set (concat css)) new' C' \<and> length new' = length new \<and> same_entries hs hs'"
  using assms
proof (induction css arbitrary: bs hs new nonideal X C rule: list.induct)
  case Nil
  then show ?case by auto
next
  case (Cons cs css)
  then obtain b bs' where bs: "bs = b # bs'" and b: "bucket_chain hs b cs" and rest: "list_all2 (bucket_chain hs) bs' css"
    by (auto simp: list_all2_Cons2)
  have "unat (bkt_count b) = length cs" using b by (simp add: bucket_chain_def unat_of_nat_u32)
  moreover have "hh_head b = first cs None" "dlseg (hh_nexts hs) (hh_prevs hs) None cs None" using b by (simp_all add: bucket_chain_def)
  moreover have "\<exists>hs' new' nonideal' C'. relink_chain (Suc (length cs)) n ideal (first cs None) (hs, new, nonideal) = Inr (hs', new', nonideal')
    \<and> chains_ok hs' n (X \<union> set cs) new' C' \<and> length new' = length new \<and> same_entries hs hs'
    \<and> (\<forall>x. x \<notin> X \<union> set cs \<longrightarrow> hs' x = hs x)"
    using Cons.prems(2,3,5) by (intro relink_chain_run [OF calculation(3) _ _ _ Cons.prems(4)]) auto
  ultimately obtain hs1 new1 nonideal1 C1 where
    r: "relink_chain (Suc (unat (bkt_count b))) n ideal (hh_head b) (hs, new, nonideal) = Inr (hs1, new1, nonideal1)"
    and c: "chains_ok hs1 n (X \<union> set cs) new1 C1" "length new1 = length new" "same_entries hs hs1"
    and frame: "\<forall>x. x \<notin> X \<union> set cs \<longrightarrow> hs1 x = hs x"
    by auto
  have agree: "hs1 x = hs x" if "x \<in> set (concat css)" for x using that Cons.prems(2,3) frame by auto
  have "hs1 x = hs x" if "i < length css" "x \<in> set (css ! i)" for i x using that nth_mem [of i css] by (intro agree) auto
  then have "list_all2 (bucket_chain hs1) bs' css"
    using rest unfolding list_all2_conv_all_nth by (metis bucket_chain_agree)
  moreover have "\<forall>e \<in> set (concat css). HASH_TO_BKT (hashv (hs1 e)) n < length new1" using Cons.prems(5) c(2) agree by simp
  moreover have "set (concat css) \<inter> (X \<union> set cs) = {}" using Cons.prems(2,3) by auto
  ultimately obtain hs' new' nonideal' C' where "relink_buckets n ideal bs' (hs1, new1, nonideal1) = Inr (hs', new', nonideal')"
    "chains_ok hs' n (X \<union> set cs \<union> set (concat css)) new' C'" "length new' = length new1" "same_entries hs1 hs'"
    using Cons.IH [of hs1 bs' "X \<union> set cs" new1 C1 nonideal1] Cons.prems(2) c(1) by auto
  with bs r c(2) same_entries_trans [OF c(3)] show ?case by (fastforce simp: Un_assoc)
qed

lemma distinct_chains:
  assumes "\<And>i. i < n \<Longrightarrow> distinct (C i)" "\<And>i j. i < j \<Longrightarrow> j < n \<Longrightarrow> set (C i) \<inter> set (C j) = {}"
  shows "distinct (concat (map C [0..<n]))"
  using assms
proof (induction n)
  case (Suc n)
  then show ?case by (fastforce simp: less_Suc_eq)
qed simp

section \<open>What a table represents\<close>

text \<open>The number of buckets is a power of two, from 32 on.\<close>

definition table_ok :: "(elem \<Rightarrow> UT_hash_handle) \<Rightarrow> elem set \<Rightarrow> UT_hash_table \<Rightarrow> bool" where
  "table_ok hs X t \<longleftrightarrow> (\<exists>k C. 5 \<le> k \<and> k \<le> 31 \<and> num_buckets t = of_nat (2 ^ k) \<and> log2_num_buckets t = of_nat k
     \<and> length (buckets t) = 2 ^ k \<and> chains_ok hs (num_buckets t) X (buckets t) C)"

lemma HASH_TO_BKT_less:
  assumes "k \<le> 31"
  shows "HASH_TO_BKT v (of_nat (2 ^ k)) < 2 ^ k"
proof -
  have "v AND (of_nat (2 ^ k) - 1) = take_bit k v" by (simp add: take_bit_eq_mask mask_eq_exp_minus_1)
  moreover have "unat (take_bit k v) < 2 ^ k"
    using assms by (simp add: unsigned_take_bit_eq take_bit_nat_less_exp)
  ultimately show ?thesis by (simp add: HASH_TO_BKT_def)
qed

lemma chains_of_table:
  assumes "chains_ok hs n X bs C" "finite X" "card X < 2 ^ 32" "\<forall>e \<in> X. HASH_TO_BKT (hashv (hs e)) n < length bs"
  defines "css \<equiv> map C [0..<length bs]"
  shows "list_all2 (bucket_chain hs) bs css" "distinct (concat css)" "set (concat css) = X"
proof -
  have b: "bucket_ok hs n X i (bs ! i) (C i)" if "i < length bs" for i using assms(1) that by (simp add: chains_ok_def)
  then have sets: "set (C i) = {e \<in> X. HASH_TO_BKT (hashv (hs e)) n = i}" if "i < length bs" for i
    using that by (simp add: bucket_ok_def)
  have "length (C i) \<le> card X" if "i < length bs" for i
    using b [OF that] sets [OF that] distinct_card [of "C i"] card_mono [OF assms(2), of "set (C i)"] by (auto simp: bucket_ok_def)
  with b assms(3) show "list_all2 (bucket_chain hs) bs css"
    by (fastforce simp: list_all2_conv_all_nth css_def bucket_ok_def bucket_chain_def)
  show "distinct (concat css)" unfolding css_def
    using b sets by (intro distinct_chains) (auto simp: bucket_ok_def)
  show "set (concat css) = X" using sets assms(4) by (auto simp: css_def)
qed

lemma chains_ok_empty: "chains_ok hs n {} (replicate m empty_bucket) (\<lambda>_. [])"
  by (simp add: chains_ok_def bucket_ok_def empty_bucket_def)

text \<open>The table and its buckets are two blocks in use. The other blocks in use belong to the callers.\<close>

definition allocator_ok :: "hash \<Rightarrow> bool" where
  "allocator_ok s \<longleftrightarrow> finite (live s) \<and> (\<forall>A. finite A \<longrightarrow> place s A \<notin> A)"

definition table_blocks :: "hash \<Rightarrow> nat set" where
  "table_blocks s = {table_at s, buckets_at (tbl s)}"

definition owns_table :: "hash \<Rightarrow> bool" where
  "owns_table s \<longleftrightarrow> allocator_ok s \<and> table_blocks s \<subseteq> live s \<and> table_at s \<noteq> buckets_at (tbl s)"

definition hash_blocks :: "hash \<Rightarrow> nat set" where
  "hash_blocks s = (if hash_head s = None then {} else table_blocks s)"

definition callers_blocks :: "hash \<Rightarrow> nat set" where
  "callers_blocks s = live s - hash_blocks s"

text \<open>What no operation on the buckets touches.\<close>

definition same_memory :: "hash \<Rightarrow> hash \<Rightarrow> bool" where
  "same_memory s t \<longleftrightarrow> place t = place s
     \<and> (owns_table s \<longrightarrow> owns_table t \<and> live t - table_blocks t = live s - table_blocks s)"

lemma same_memory_trans: "same_memory s t \<Longrightarrow> same_memory t u \<Longrightarrow> same_memory s u"
  by (simp add: same_memory_def)

lemma same_memoryI:
  "place t = place s \<Longrightarrow> live t = live s \<Longrightarrow> table_at t = table_at s \<Longrightarrow> buckets_at (tbl t) = buckets_at (tbl s) \<Longrightarrow> same_memory s t"
  by (simp add: same_memory_def owns_table_def allocator_ok_def table_blocks_def)

text \<open>The array of the buckets moves to a new block.\<close>

lemma moved_block:
  "a \<notin> L \<Longrightarrow> t \<in> L \<Longrightarrow> b \<in> L \<Longrightarrow> t \<noteq> b
    \<Longrightarrow> {t, a} \<subseteq> insert a L - {b} \<and> t \<noteq> a \<and> insert a L - {b} - {t, a} = L - {t, b}" for a :: nat
  by auto

lemma same_memory_moved:
  assumes "place t = place s" "live t = insert (place s (live s)) (live s) - {buckets_at (tbl s)}"
    and "table_at t = table_at s" "buckets_at (tbl t) = place s (live s)"
  shows "same_memory s t"
proof -
  have "owns_table t \<and> live t - table_blocks t = live s - table_blocks s" if own: "owns_table s"
  proof -
    have "allocator_ok s" using own by (simp add: owns_table_def)
    then have "place s (live s) \<notin> live s" unfolding allocator_ok_def by blast
    moreover have "allocator_ok t" using \<open>allocator_ok s\<close> unfolding allocator_ok_def assms(1,2) by blast
    moreover have "table_at s \<in> live s" "buckets_at (tbl s) \<in> live s" "table_at s \<noteq> buckets_at (tbl s)"
      using own by (simp_all add: owns_table_def table_blocks_def)
    ultimately show ?thesis using moved_block [of "place s (live s)" "live s" "table_at s" "buckets_at (tbl s)"]
      unfolding owns_table_def table_blocks_def assms(2-4) by blast
  qed
  with assms(1) show ?thesis by (simp add: same_memory_def)
qed

text \<open>States with the same blocks.\<close>

lemma same_blocks:
  assumes "place t = place s" "live t = live s" "table_at t = table_at s" "buckets_at (tbl t) = buckets_at (tbl s)"
  shows "allocator_ok t = allocator_ok s" "owns_table t = owns_table s"
    "(hash_head t = None) = (hash_head s = None) \<Longrightarrow> callers_blocks t = callers_blocks s"
  using assms by (simp_all add: allocator_ok_def owns_table_def table_blocks_def callers_blocks_def hash_blocks_def)

definition same_rest :: "hash \<Rightarrow> hash \<Rightarrow> bool" where
  "same_rest s t \<longleftrightarrow> same_entries (handles s) (handles t) \<and> num_items (tbl t) = num_items (tbl s)
     \<and> table_tail (tbl t) = table_tail (tbl s) \<and> hash_head t = hash_head s \<and> memory t = memory s \<and> same_memory s t"

lemma same_rest_trans: "same_rest s t \<Longrightarrow> same_rest t u \<Longrightarrow> same_rest s u"
  unfolding same_rest_def using same_entries_trans same_memory_trans by auto

text \<open>An allocation is refused by the script, or asks for more than the memory holds.\<close>

definition refused :: "nat \<Rightarrow> hash \<Rightarrow> bool" where
  "refused n s \<longleftrightarrow> False \<in> set (take 1 (hash_mallocs s)) \<or> memory s < n"

lemma uthash_malloc_run:
  "uthash_malloc n s = Inr (if refused n s then None else Some (place s (live s)),
     s\<lparr>hash_mallocs := drop 1 (hash_mallocs s), live := (if refused n s then {} else {place s (live s)}) \<union> live s\<rparr>)"
  by (cases "hash_mallocs s") (auto simp: uthash_malloc_def refused_def Let_def)

lemma uthash_free_run: "a \<in> live s \<Longrightarrow> uthash_free a s = Inr ((), s\<lparr>live := live s - {a}\<rparr>)"
  by (simp add: uthash_free_def prog_simps)

lemma expand_run:
  assumes "table_ok (handles s) X (tbl s)" "finite X" "card X < 2 ^ 32" "memory s < 2 ^ 36" "owns_table s"
  shows "HASH_EXPAND_BUCKETS s = Inl Exited \<and> refused (32 * unat (num_buckets (tbl s))) s
    \<or> (\<exists>t. HASH_EXPAND_BUCKETS s = Inr ((), t) \<and> table_ok (handles t) X (tbl t) \<and> same_rest s t)"
proof -
  let ?t = "tbl s" and ?n = "num_buckets (tbl s) * 2"
  obtain k C where k: "5 \<le> k" "k \<le> 31" "num_buckets ?t = of_nat (2 ^ k)" "log2_num_buckets ?t = of_nat k"
    "length (buckets ?t) = 2 ^ k" and c: "chains_ok (handles s) (num_buckets ?t) X (buckets ?t) C"
    using assms(1) by (auto simp: table_ok_def)
  have u: "unat (num_buckets ?t) = 2 ^ k"
    unfolding k(3) using power_increasing [OF k(2), of "2 :: nat"] by (intro unat_of_nat_u32) simp
  have size: "SIZEOF_UT_hash_bucket * unat (num_buckets ?t) * 2 = 32 * unat (num_buckets ?t)"
    by (simp add: SIZEOF_UT_hash_bucket_def)
  show ?thesis
  proof (cases "refused (32 * unat (num_buckets ?t)) s")
    case True
    then show ?thesis
      by (simp add: HASH_EXPAND_BUCKETS_def uthash_malloc_run size andthen_def gets_def halt_def)
  next
    case False
    with assms(4) have "2 ^ k * (32 :: nat) < 2 ^ 31 * 32" by (simp add: u refused_def)
    then have "k \<noteq> 31" by auto
    with k(2) have "k < 31" by simp
    let ?css = "map C [0..<length (buckets ?t)]" and ?new = "replicate (unat (num_buckets ?t) * 2) empty_bucket"
    have n: "?n = of_nat (2 ^ Suc k)" by (simp add: k(3))
    have len: "length ?new = 2 ^ Suc k" by (simp add: u)
    have less: "HASH_TO_BKT v ?n < length ?new" for v unfolding n len by (rule HASH_TO_BKT_less) (use \<open>k < 31\<close> in simp)
    have old: "\<forall>e \<in> X. HASH_TO_BKT (hashv (handles s e)) (num_buckets ?t) < length (buckets ?t)"
      unfolding k(3,5) using HASH_TO_BKT_less [OF k(2)] by blast
    note chains = chains_of_table [OF c assms(2,3) old]
    have "\<exists>hs' new' nonideal' C'. relink_buckets ?n (ideal_maxlen ?t) (buckets ?t) (handles s, ?new, 0) = Inr (hs', new', nonideal')
      \<and> chains_ok hs' ?n ({} \<union> set (concat ?css)) new' C' \<and> length new' = length ?new \<and> same_entries (handles s) hs'"
      by (rule relink_buckets_run [OF chains(1,2) Int_empty_right chains_ok_empty]) (use less in blast)
    then obtain hs' bs' nonideal C' where
      r: "relink_buckets ?n (ideal_maxlen ?t) (buckets ?t) (handles s, ?new, 0) = Inr (hs', bs', nonideal)"
      and c': "chains_ok hs' ?n X bs' C'" "length bs' = length ?new" "same_entries (handles s) hs'"
      unfolding chains(3) Un_empty_left by blast
    let ?ineff = "if nonideal > drop_bit 1 (num_items ?t) then ineff_expands ?t + 1 else 0"
    let ?u = "s\<lparr>hash_mallocs := drop 1 (hash_mallocs s), live := insert (place s (live s)) (live s) - {buckets_at ?t},
      handles := hs', tbl := ?t\<lparr>buckets_at := place s (live s), buckets := bs', num_buckets := ?n,
        log2_num_buckets := log2_num_buckets ?t + 1, ideal_chain_maxlen := ideal_maxlen ?t, nonideal_items := nonideal,
        ineff_expands := ?ineff, noexpand := noexpand ?t \<or> ?ineff > 1\<rparr>\<rparr>"
    have "buckets_at ?t \<in> insert (place s (live s)) (live s)" using assms(5) by (simp add: owns_table_def table_blocks_def)
    then have "HASH_EXPAND_BUCKETS s = Inr ((), ?u)"
      using False r by (simp add: HASH_EXPAND_BUCKETS_def uthash_malloc_run uthash_free_run size prog_simps Let_def)
    moreover have "table_ok (handles ?u) X (tbl ?u)"
      unfolding table_ok_def using c'(1,2) len n k(1,4) \<open>k < 31\<close>
      by (intro exI [of _ "Suc k"] exI [of _ C']) simp
    moreover have "same_rest s ?u" using c'(3) by (simp add: same_rest_def same_memory_moved)
    ultimately show ?thesis by blast
  qed
qed

section \<open>Finding\<close>

definition represents :: "hash \<Rightarrow> elem list \<Rightarrow> bool" where
  "represents s xs \<longleftrightarrow> hash_head s = first xs None \<and> distinct xs
     \<and> (xs \<noteq> [] \<longrightarrow> dlseg (nexts (handles s)) (prevs (handles s)) None xs None \<and> table_tail (tbl s) = Some (last xs)
         \<and> num_items (tbl s) = of_nat (length xs) \<and> table_ok (handles s) (set xs) (tbl s) \<and> owns_table s)
     \<and> allocator_ok s
     \<and> (\<forall>e \<in> set xs. hashv (handles s e) = HASH_JEN (hh_key (handles s e)))
     \<and> distinct (map (\<lambda>e. hh_key (handles s e)) xs) \<and> length xs < 2 ^ 32 \<and> memory s < 2 ^ 36"

definition entries_of :: "hash \<Rightarrow> elem list \<Rightarrow> (u8 list \<times> elem) list" where
  "entries_of s xs = map (\<lambda>e. (hh_key (handles s e), e)) xs"

lemma find_in_bkt_run:
  assumes "dlseg (hh_nexts (handles s)) (hh_prevs (handles s)) a cs None" "length cs < budget"
  shows "HASH_FIND_IN_BKT budget key v (first cs None) s
    = Inr (find (\<lambda>e. hashv (handles s e) = v \<and> hh_key (handles s e) = key) cs, s)"
  using assms
proof (induction cs arbitrary: a budget)
  case Nil
  then show ?case by (cases budget) (simp_all add: ret_def)
next
  case (Cons e cs)
  then obtain budget' where b: "budget = Suc budget'" "length cs < budget'" by (cases budget) auto
  have "hh_next (handles s e) = first cs None" using Cons.prems(1) by (simp add: links_at)
  moreover have "HASH_FIND_IN_BKT budget' key v (first cs None) s
    = Inr (find (\<lambda>e. hashv (handles s e) = v \<and> hh_key (handles s e) = key) cs, s)"
    using Cons.prems(1) b(2) by (intro Cons.IH [of "Some e"]) simp_all
  ultimately show ?case using b(1) by (auto simp: handle_def andthen_def gets_def ret_def)
qed

lemma find_unique:
  assumes "\<And>x y. x \<in> set cs \<Longrightarrow> P x \<Longrightarrow> y \<in> set cs \<Longrightarrow> P y \<Longrightarrow> x = y" "e \<in> set cs" "P e"
  shows "find P cs = Some e"
  using assms by (induction cs) auto

lemma map_of_keys: "distinct (map f xs) \<Longrightarrow> map_of (map (\<lambda>e. (f e, e)) xs) k = Some e \<longleftrightarrow> e \<in> set xs \<and> f e = k"
  by (subst map_of_eq_Some_iff) (auto simp: comp_def)

lemma table_bucket:
  assumes "table_ok hs X t" "finite X" "card X < 2 ^ 32"
  obtains C where "HASH_TO_BKT v (num_buckets t) < length (buckets t)" "chains_ok hs (num_buckets t) X (buckets t) C"
    "\<And>i. i < length (buckets t) \<Longrightarrow> unat (bkt_count (buckets t ! i)) = length (C i)"
proof -
  obtain k C where k: "k \<le> 31" "num_buckets t = of_nat (2 ^ k)" "length (buckets t) = 2 ^ k"
    and c: "chains_ok hs (num_buckets t) X (buckets t) C"
    using assms(1) by (auto simp: table_ok_def)
  have "length (C i) < 2 ^ 32" if "i < length (buckets t)" for i
  proof -
    have b: "distinct (C i)" "set (C i) \<subseteq> X" using c that by (auto simp: chains_ok_def bucket_ok_def)
    then have "length (C i) \<le> card X" using distinct_card [of "C i"] card_mono [OF assms(2)] by metis
    with assms(3) show ?thesis by simp
  qed
  then have "unat (bkt_count (buckets t ! i)) = length (C i)" if "i < length (buckets t)" for i
    using c that unat_of_nat_u32 [of "length (C i)"] by (simp add: chains_ok_def bucket_ok_def)
  moreover have "HASH_TO_BKT v (num_buckets t) < length (buckets t)" using HASH_TO_BKT_less [OF k(1)] by (simp add: k)
  ultimately show ?thesis using that c by blast
qed

lemma represents_card: "represents s xs \<Longrightarrow> card (set xs) < 2 ^ 32"
  by (simp add: represents_def distinct_card)

lemma find_run:
  assumes "represents s xs"
  shows "HASH_FIND key s = Inr (map_of (entries_of s xs) key, s)"
proof (cases "xs = []")
  case True
  with assms show ?thesis by (simp add: HASH_FIND_def represents_def entries_of_def prog_simps)
next
  case False
  let ?t = "tbl s" and ?k = "\<lambda>e. hh_key (handles s e)"
  let ?i = "HASH_TO_BKT (HASH_JEN key) (num_buckets ?t)"
  let ?P = "\<lambda>e. hashv (handles s e) = HASH_JEN key \<and> ?k e = key"
  from assms False have t: "table_ok (handles s) (set xs) ?t" and h: "hash_head s \<noteq> None"
    and hv: "\<forall>e \<in> set xs. hashv (handles s e) = HASH_JEN (?k e)" and d: "distinct (map ?k xs)"
    by (simp_all add: represents_def)
  obtain C where i: "?i < length (buckets ?t)" and c: "chains_ok (handles s) (num_buckets ?t) (set xs) (buckets ?t) C"
    and n: "\<And>i. i < length (buckets ?t) \<Longrightarrow> unat (bkt_count (buckets ?t ! i)) = length (C i)"
    using table_bucket [OF t finite_set represents_card [OF assms]] by blast
  from c i have b: "bucket_ok (handles s) (num_buckets ?t) (set xs) ?i (buckets ?t ! ?i) (C ?i)" by (simp add: chains_ok_def)
  then have "dlseg (hh_nexts (handles s)) (hh_prevs (handles s)) None (C ?i) None" and hd: "hh_head (buckets ?t ! ?i) = first (C ?i) None"
    by (simp_all add: bucket_ok_def)
  then have "HASH_FIND key s = Inr (find ?P (C ?i), s)"
    using h i n [OF i] find_in_bkt_run [of s None "C ?i" "Suc (length (C ?i))" key "HASH_JEN key"]
    by (auto simp: HASH_FIND_def bucket_def peek_def prog_simps simp del: HASH_FIND_IN_BKT.simps)
  moreover have "find ?P (C ?i) = map_of (entries_of s xs) key"
  proof (cases "\<exists>e \<in> set xs. ?k e = key")
    case True
    then obtain e where e: "e \<in> set xs" "?k e = key" by blast
    then have "e \<in> set (C ?i)" using b hv by (auto simp: bucket_ok_def)
    moreover have "x = e" if "x \<in> set (C ?i)" "?P x" for x
      using that b d e inj_onD [of ?k "set xs" x e] by (auto simp: bucket_ok_def distinct_map)
    ultimately have "find ?P (C ?i) = Some e" using e hv by (intro find_unique) blast+
    then show ?thesis using map_of_keys [OF d, of key e] e by (simp add: entries_of_def)
  next
    case False
    then have "find ?P (C ?i) = None" using b by (auto simp: bucket_ok_def find_None_iff)
    moreover have "map_of (entries_of s xs) key = None" using False by (auto simp: entries_of_def map_of_eq_None_iff)
    ultimately show ?thesis by simp
  qed
  ultimately show ?thesis by simp
qed

section \<open>Adding\<close>

lemma table_ok_cong:
  assumes "table_ok hs X t" "hh_nexts hs' = hh_nexts hs" "hh_prevs hs' = hh_prevs hs" "\<And>e. e \<in> X \<Longrightarrow> hashv (hs' e) = hashv (hs e)"
    and "buckets t' = buckets t" "num_buckets t' = num_buckets t" "log2_num_buckets t' = log2_num_buckets t"
  shows "table_ok hs' X t'"
proof -
  have "bucket_ok hs' n X i b cs = bucket_ok hs n X i b cs" for n i b cs
    using assms(2-4) by (auto simp: bucket_ok_def)
  then show ?thesis using assms(1,5-7) by (simp add: table_ok_def chains_ok_def)
qed

lemma hh_links_swap: "h\<lparr>hh_next := a, hh_prev := b\<rparr> = h\<lparr>hh_prev := b, hh_next := a\<rparr>"
  by simp

lemma add_to_bkt_run:
  assumes "table_ok (handles s) X (tbl s)" "finite X" "e \<notin> X" "card X + 1 < 2 ^ 32" "memory s < 2 ^ 36" "owns_table s"
    and "i = HASH_TO_BKT (hashv (handles s e)) (num_buckets (tbl s))"
  shows "HASH_ADD_TO_BKT i e s = Inl Exited \<and> refused (32 * unat (num_buckets (tbl s))) s
    \<or> (\<exists>t. HASH_ADD_TO_BKT i e s = Inr ((), t) \<and> table_ok (handles t) (insert e X) (tbl t) \<and> same_rest s t)"
proof -
  let ?t = "tbl s"
  let ?b = "buckets ?t ! i"
  let ?b' = "?b\<lparr>bkt_count := bkt_count ?b + 1, hh_head := Some e\<rparr>"
  let ?s = "s\<lparr>handles := put_first e (hh_head ?b) (handles s), tbl := ?t\<lparr>buckets := (buckets ?t)[i := ?b']\<rparr>\<rparr>"
  obtain k C where k: "5 \<le> k" "k \<le> 31" "num_buckets ?t = of_nat (2 ^ k)" "log2_num_buckets ?t = of_nat k" "length (buckets ?t) = 2 ^ k"
    and c: "chains_ok (handles s) (num_buckets ?t) X (buckets ?t) C"
    using assms(1) by (auto simp: table_ok_def)
  have i: "i < length (buckets ?t)" unfolding assms(7) k(3,5) by (rule HASH_TO_BKT_less [OF k(2)])
  have b': "?b' = \<lparr>hh_head = Some e, bkt_count = bkt_count ?b + 1, expand_mult = expand_mult ?b\<rparr>" by (cases ?b) simp
  have ok: "table_ok (handles ?s) (insert e X) (tbl ?s)"
    using put_first_bucket [OF c assms(3,7) i, of "expand_mult ?b"] k unfolding table_ok_def b' by auto
  have rest: "same_rest s ?s" using put_first_entries by (simp add: same_rest_def same_memoryI)
  then have "owns_table ?s" using assms(6) by (simp add: same_rest_def same_memory_def)
  have "HASH_ADD_TO_BKT i e s = (if bkt_count ?b' \<ge> (expand_mult ?b' + 1) * HASH_BKT_CAPACITY_THRESH \<and> \<not> noexpand ?t
      then HASH_EXPAND_BUCKETS else ret ()) ?s"
    using i by (cases "hh_head ?b") (simp_all add: HASH_ADD_TO_BKT_def bucket_def peek_def store_def store_bucket_def
      store_table_def put_first_def Let_def prog_simps hh_links_swap)
  moreover have "card (insert e X) < 2 ^ 32" using assms(2-4) by simp
  then have "HASH_EXPAND_BUCKETS ?s = Inl Exited \<and> refused (32 * unat (num_buckets (tbl ?s))) ?s \<or> (\<exists>t. HASH_EXPAND_BUCKETS ?s = Inr ((), t)
      \<and> table_ok (handles t) (insert e X) (tbl t) \<and> same_rest ?s t)"
    using expand_run [OF ok] assms(2,5) \<open>owns_table ?s\<close> by simp
  ultimately show ?thesis
    using ok rest same_rest_trans [OF rest] by (auto simp: refused_def)
qed

text \<open>One of the allocations that adding an element can ask for may be refused.\<close>

definition may_refuse :: "hash \<Rightarrow> bool" where
  "may_refuse s \<longleftrightarrow> False \<in> set (take 3 (hash_mallocs s)) \<or> memory s < 1024 \<or> memory s < 32 * unat (num_buckets (tbl s))"

text \<open>The state before the new element enters its bucket.\<close>

definition appended :: "hash \<Rightarrow> elem list \<Rightarrow> u8 list \<Rightarrow> elem \<Rightarrow> hash \<Rightarrow> bool" where
  "appended s xs key e u \<longleftrightarrow> hash_head u = first (xs @ [e]) None
     \<and> dlseg (nexts (handles u)) (prevs (handles u)) None (xs @ [e]) None \<and> table_tail (tbl u) = Some e
     \<and> num_items (tbl u) = of_nat (length (xs @ [e])) \<and> table_ok (handles u) (set xs) (tbl u) \<and> memory u = memory s
     \<and> owns_table u \<and> place u = place s \<and> callers_blocks u = callers_blocks s
     \<and> (refused (32 * unat (num_buckets (tbl u))) u \<longrightarrow> may_refuse s)
     \<and> (\<forall>x. hashv (handles u x) = (if x = e then HASH_JEN key else hashv (handles s x))
          \<and> hh_key (handles u x) = (if x = e then key else hh_key (handles s x)))"

lemma taken_later:
  assumes "i + j \<le> n"
  shows "set (take i (drop j xs)) \<subseteq> set (take n xs)"
proof -
  have "set (take i (drop j xs)) \<subseteq> set (take (i + j) xs)" by (simp add: take_drop set_drop_subset)
  also have "\<dots> \<subseteq> set (take n xs)" using assms by (rule set_take_subset_set_take)
  finally show ?thesis .
qed

lemma refused_later:
  "refused n s \<Longrightarrow> n \<le> 1024 \<Longrightarrow> may_refuse s"
  "refused n (s\<lparr>hash_mallocs := drop 1 (hash_mallocs s), live := L\<rparr>) \<Longrightarrow> n \<le> 1024 \<Longrightarrow> may_refuse s"
  "False \<in> set (take 1 (drop 2 (hash_mallocs s))) \<Longrightarrow> may_refuse s"
  using taken_later [of 1 0 3 "hash_mallocs s"] taken_later [of 1 1 3 "hash_mallocs s"] taken_later [of 1 2 3 "hash_mallocs s"]
  unfolding refused_def may_refuse_def by auto

lemma make_table_run:
  assumes "allocator_ok s"
  shows "HASH_MAKE_TABLE e s = Inl Exited \<and> may_refuse s
    \<or> (\<exists>t a L. HASH_MAKE_TABLE e s = Inr ((), s\<lparr>hash_mallocs := drop 2 (hash_mallocs s), live := L, table_at := a, tbl := t\<rparr>)
    \<and> table_tail t = Some e \<and> num_items t = 0 \<and> num_buckets t = 32 \<and> (\<forall>hs. table_ok hs {} t)
    \<and> finite L \<and> {a, buckets_at t} \<subseteq> L \<and> a \<noteq> buckets_at t \<and> L - {a, buckets_at t} = live s)"
proof -
  let ?a = "place s (live s)"
  let ?b = "place s (insert ?a (live s))"
  let ?t = "\<lparr>buckets_at = ?b, buckets = replicate (unat HASH_INITIAL_NUM_BUCKETS) empty_bucket,
         num_buckets = HASH_INITIAL_NUM_BUCKETS, log2_num_buckets = HASH_INITIAL_NUM_BUCKETS_LOG2,
         num_items = 0, table_tail = Some e, ideal_chain_maxlen = 0, nonideal_items = 0, ineff_expands = 0,
         noexpand = False\<rparr>"
  let ?s = "s\<lparr>hash_mallocs := drop 1 (hash_mallocs s), live := insert ?a (live s)\<rparr>"
  have ok: "table_ok hs {} ?t" for hs
    using chains_ok_empty [of hs 32 32] unfolding table_ok_def
    by (intro exI [of _ 5] exI [of _ "\<lambda>_. []"]) (simp add: HASH_INITIAL_NUM_BUCKETS_def HASH_INITIAL_NUM_BUCKETS_LOG2_def)
  have size: "unat HASH_INITIAL_NUM_BUCKETS * SIZEOF_UT_hash_bucket = 512"
    by (simp add: HASH_INITIAL_NUM_BUCKETS_def SIZEOF_UT_hash_bucket_def)
  have "HASH_MAKE_TABLE e s = (if refused SIZEOF_UT_hash_table s \<or> refused 512 ?s then Inl Exited
      else Inr ((), s\<lparr>hash_mallocs := drop 2 (hash_mallocs s), live := insert ?b (insert ?a (live s)), table_at := ?a, tbl := ?t\<rparr>))"
    by (simp add: HASH_MAKE_TABLE_def uthash_malloc_run size prog_simps numeral_2_eq_2 insert_commute)
  moreover have "may_refuse s" if "refused SIZEOF_UT_hash_table s \<or> refused 512 ?s"
    using that refused_later(1) [of SIZEOF_UT_hash_table s] refused_later(2) [of 512] by (auto simp: SIZEOF_UT_hash_table_def)
  moreover have "table_tail ?t = Some e \<and> num_items ?t = 0 \<and> num_buckets ?t = 32 \<and> (\<forall>hs. table_ok hs {} ?t)"
    using ok by (simp add: HASH_INITIAL_NUM_BUCKETS_def)
  moreover have fresh: "?a \<notin> live s" "?b \<notin> insert ?a (live s)" "finite (live s)"
    using assms unfolding allocator_ok_def by (metis finite_insert)+
  then have "finite (insert ?b (insert ?a (live s))) \<and> {?a, buckets_at ?t} \<subseteq> insert ?b (insert ?a (live s)) \<and> ?a \<noteq> buckets_at ?t
      \<and> insert ?b (insert ?a (live s)) - {?a, buckets_at ?t} = live s"
    by auto
  ultimately show ?thesis
    by (cases "refused SIZEOF_UT_hash_table s \<or> refused 512 ?s") (simp_all only: if_True if_False, blast+)
qed

lemma append_run:
  assumes "represents s xs" "e \<notin> set xs"
  shows "HASH_ADD key e s = Inl Exited \<and> may_refuse s
    \<or> (\<exists>u. HASH_ADD key e s = HASH_ADD_TO_BKT (HASH_TO_BKT (HASH_JEN key) (num_buckets (tbl u))) e u \<and> appended s xs key e u)"
proof (cases xs rule: rev_cases)
  case Nil
  let ?s = "s\<lparr>handles := (handles s)(e := (handles s e)\<lparr>hashv := HASH_JEN key, hh_key := key, app_next := None, app_prev := None\<rparr>)\<rparr>"
  have h: "hash_head s = None" and alloc: "allocator_ok ?s" using assms Nil by (simp_all add: represents_def allocator_ok_def)
  have "HASH_ADD key e s = andthen (HASH_MAKE_TABLE e) (\<lambda>_. andthen (modify (\<lambda>s. s\<lparr>hash_head := Some e\<rparr>))
      (\<lambda>_. HASH_ADD_TO_TABLE (HASH_JEN key) e)) ?s"
    using h by (simp add: HASH_ADD_def store_def prog_simps split: sum.splits)
  moreover consider "HASH_MAKE_TABLE e ?s = Inl Exited" "may_refuse ?s"
    | t a L where "HASH_MAKE_TABLE e ?s = Inr ((), ?s\<lparr>hash_mallocs := drop 2 (hash_mallocs ?s), live := L, table_at := a, tbl := t\<rparr>)"
        "table_tail t = Some e" "num_items t = 0" "\<And>hs. table_ok hs {} t" "num_buckets t = 32"
        "finite L" "{a, buckets_at t} \<subseteq> L" "a \<noteq> buckets_at t" "L - {a, buckets_at t} = live ?s"
    using make_table_run [of ?s e] alloc by blast
  then show ?thesis
  proof cases
    case 1
    with calculation show ?thesis by (simp add: andthen_def may_refuse_def)
  next
    case 2
    let ?u = "?s\<lparr>hash_mallocs := drop 2 (hash_mallocs s), live := L, table_at := a, hash_head := Some e, tbl := t\<lparr>num_items := 1\<rparr>\<rparr>"
    have own: "owns_table ?u" "callers_blocks ?u = callers_blocks s" "place ?u = place s"
      using 2(6-9) alloc h by (simp_all add: owns_table_def allocator_ok_def table_blocks_def callers_blocks_def hash_blocks_def)
    have "table_ok hs {} (t\<lparr>num_items := 1\<rparr>)" for hs using 2(4) [of hs] by (simp add: table_ok_def)
    moreover have "refused (32 * unat (num_buckets (tbl ?u))) ?u \<longrightarrow> may_refuse s"
      using refused_later(3) [of s] 2(5) by (auto simp: refused_def may_refuse_def)
    ultimately have "appended s xs key e ?u" using Nil 2(2) own by (simp add: appended_def links_at)
    moreover have "HASH_ADD key e s = HASH_ADD_TO_BKT (HASH_TO_BKT (HASH_JEN key) (num_buckets (tbl ?u))) e ?u"
      using \<open>HASH_ADD key e s = _\<close> 2(1,3) by (simp add: HASH_ADD_TO_TABLE_def store_table_def prog_simps)
    ultimately show ?thesis by blast
  qed
next
  case (snoc ys l)
  let ?hs = "(handles s)(e := (handles s e)\<lparr>hashv := HASH_JEN key, hh_key := key, app_next := None, app_prev := Some l\<rparr>,
      l := (handles s l)\<lparr>app_next := Some e\<rparr>)"
  let ?u = "s\<lparr>handles := ?hs, tbl := (tbl s)\<lparr>table_tail := Some e, num_items := num_items (tbl s) + 1\<rparr>\<rparr>"
  have l: "l \<noteq> e" "e \<notin> set (ys @ [l])" using assms(2) snoc by auto
  have s: "hash_head s = first xs None" "xs \<noteq> []" "distinct xs" "table_tail (tbl s) = Some l" "num_items (tbl s) = of_nat (length xs)"
    "dlseg (nexts (handles s)) (prevs (handles s)) None (ys @ [l]) None" "table_ok (handles s) (set xs) (tbl s)"
    "owns_table s"
    using assms(1) snoc by (simp_all add: represents_def)
  have own: "owns_table ?u" "callers_blocks ?u = callers_blocks s"
    using s(8) by (simp_all add: owns_table_def allocator_ok_def table_blocks_def callers_blocks_def hash_blocks_def)
  have run: "HASH_ADD key e s = HASH_ADD_TO_BKT (HASH_TO_BKT (HASH_JEN key) (num_buckets (tbl ?u))) e ?u"
    using s(1,2,4) l(1) by (simp add: HASH_ADD_def HASH_APPEND_LIST_def HASH_ADD_TO_TABLE_def store_def store_table_def
        deref_def prog_simps)
  have links: "nexts ?hs = (nexts (handles s))(e := None, l := Some e)" "prevs ?hs = (prevs (handles s))(e := Some l)"
    using l(1) by (auto simp: fun_eq_iff links_at)
  have "dlseg (nexts ?hs) (prevs ?hs) None (xs @ [e]) None"
    using dlseg_append_elem [OF s(6) l(2)] s(3) unfolding links snoc by simp
  moreover have "table_ok ?hs (set xs) (tbl ?u)"
    using assms(2) by (intro table_ok_cong [OF s(7)]) (auto simp: fun_eq_iff links_at)
  moreover have "first xs None = first (xs @ [e]) None" using s(2) by (cases xs) simp_all
  moreover have "refused (32 * unat (num_buckets (tbl ?u))) ?u \<longrightarrow> may_refuse s"
    by (cases "hash_mallocs s") (auto simp: refused_def may_refuse_def)
  ultimately have "appended s xs key e ?u" unfolding appended_def using s(1,5) l(1) own
    by (simp del: links_update dlseg_append)
  with run show ?thesis by blast
qed

text \<open>The blocks of the callers stay in use.\<close>

definition same_callers :: "hash \<Rightarrow> hash \<Rightarrow> bool" where
  "same_callers s t \<longleftrightarrow> place t = place s \<and> callers_blocks t = callers_blocks s"

lemma same_callers_refl [simp]: "same_callers s s"
  by (simp add: same_callers_def)

lemma same_callers_trans: "same_callers s t \<Longrightarrow> same_callers t u \<Longrightarrow> same_callers s u"
  by (simp add: same_callers_def)

lemma same_rest_callers:
  assumes "same_rest s t" "owns_table s" "hash_head s \<noteq> None"
  shows "owns_table t" "allocator_ok t" "same_callers s t"
  using assms by (auto simp: same_rest_def same_memory_def same_callers_def callers_blocks_def hash_blocks_def owns_table_def)

lemma add_run:
  assumes "represents s xs" "e \<notin> set xs" "key \<notin> fst ` set (entries_of s xs)" "length xs + 1 < 2 ^ 32"
  shows "HASH_ADD key e s = Inl Exited \<and> may_refuse s
    \<or> (\<exists>t. HASH_ADD key e s = Inr ((), t) \<and> represents t (xs @ [e]) \<and> entries_of t (xs @ [e]) = entries_of s xs @ [(key, e)]
        \<and> same_callers s t)"
  using append_run [OF assms(1,2), of key]
proof
  assume "\<exists>u. HASH_ADD key e s = HASH_ADD_TO_BKT (HASH_TO_BKT (HASH_JEN key) (num_buckets (tbl u))) e u \<and> appended s xs key e u"
  then obtain u where run: "HASH_ADD key e s = HASH_ADD_TO_BKT (HASH_TO_BKT (HASH_JEN key) (num_buckets (tbl u))) e u"
    and u: "appended s xs key e u" by blast
  have "distinct xs" "memory s < 2 ^ 36" using assms(1) by (simp_all add: represents_def)
  moreover have "HASH_JEN key = hashv (handles u e)" using u by (simp add: appended_def)
  ultimately have "HASH_ADD key e s = Inl Exited \<and> refused (32 * unat (num_buckets (tbl u))) u
      \<or> (\<exists>t. HASH_ADD key e s = Inr ((), t) \<and> table_ok (handles t) (insert e (set xs)) (tbl t) \<and> same_rest u t)"
    unfolding run using u assms(2,4) distinct_card [of xs]
    by (intro add_to_bkt_run) (auto simp: appended_def)
  moreover have "represents t (xs @ [e]) \<and> entries_of t (xs @ [e]) = entries_of s xs @ [(key, e)] \<and> same_callers s t"
    if "table_ok (handles t) (insert e (set xs)) (tbl t)" "same_rest u t" for t
  proof -
    have t: "hh_key (handles t x) = (if x = e then key else hh_key (handles s x))"
      "hashv (handles t x) = (if x = e then HASH_JEN key else hashv (handles s x))" for x
      using that(2) u by (simp_all add: same_rest_def same_entries_def appended_def)
    have keys: "map (\<lambda>x. hh_key (handles t x)) xs = map (\<lambda>x. hh_key (handles s x)) xs" "entries_of t xs = entries_of s xs"
      using assms(2) t(1) by (auto simp: entries_of_def)
    have "entries_of t (xs @ [e]) = entries_of s xs @ [(key, e)]" using keys(2) t(1) [of e] by (simp add: entries_of_def)
    moreover have "key \<notin> (\<lambda>x. hh_key (handles s x)) ` set xs" using assms(3) by (auto simp: entries_of_def image_image)
    then have "distinct (map (\<lambda>x. hh_key (handles t x)) (xs @ [e]))"
      using assms(1) t(1) [of e] by (simp add: keys(1) represents_def)
    moreover have "\<forall>x \<in> set (xs @ [e]). hashv (handles t x) = HASH_JEN (hh_key (handles t x))"
      using assms(1) t by (simp add: represents_def)
    moreover have "hash_head u \<noteq> None" "owns_table u" "same_callers s u" using u by (auto simp: appended_def same_callers_def first_Some)
    then have "owns_table t" "allocator_ok t" "same_callers s t"
      using same_rest_callers [OF that(2)] same_callers_trans [of s u t] by blast+
    ultimately show ?thesis
      using that u assms(1,2,4) unfolding represents_def
      by (simp add: appended_def same_rest_def same_entries_def)
  qed
  moreover have "refused (32 * unat (num_buckets (tbl u))) u \<longrightarrow> may_refuse s" using u by (simp add: appended_def)
  ultimately show ?thesis by blast
qed blast

section \<open>Deleting\<close>

definition unlink_bkt :: "elem \<Rightarrow> (elem \<Rightarrow> UT_hash_handle) \<Rightarrow> elem \<Rightarrow> UT_hash_handle" where
  "unlink_bkt e hs =
     (let hs' = (case hh_prev (hs e) of None \<Rightarrow> hs | Some p \<Rightarrow> hs(p := (hs p)\<lparr>hh_next := hh_next (hs e)\<rparr>))
      in case hh_next (hs' e) of None \<Rightarrow> hs' | Some n \<Rightarrow> hs'(n := (hs' n)\<lparr>hh_prev := hh_prev (hs' e)\<rparr>))"

lemma unlink_bkt_entries: "same_entries hs (unlink_bkt e hs)"
  by (auto simp: unlink_bkt_def same_entries_def Let_def fun_eq_iff links_at split: option.splits)

lemma unlink_bkt_links:
  assumes "hh_prev (hs e) \<noteq> Some e" "hh_next (hs e) \<noteq> Some e"
  shows "hh_nexts (unlink_bkt e hs) = (case hh_prevs hs e of None \<Rightarrow> hh_nexts hs | Some p \<Rightarrow> (hh_nexts hs)(p := hh_nexts hs e))"
    "hh_prevs (unlink_bkt e hs) = (case hh_nexts hs e of None \<Rightarrow> hh_prevs hs | Some n \<Rightarrow> (hh_prevs hs)(n := hh_prevs hs e))"
  using assms by (auto simp: unlink_bkt_def Let_def fun_eq_iff links_at split: option.splits)

lemma final_in: "final ys None = Some p \<Longrightarrow> p \<in> set ys"
  by (auto simp: final_def split: if_splits)

lemma first_in: "first zs None = Some n \<Longrightarrow> n \<in> set zs"
  by (cases zs) auto

lemma unlink_bucket:
  assumes "chains_ok hs n X bs C" "e \<in> X" "i = HASH_TO_BKT (hashv (hs e)) n" "i < length bs"
  obtains cs where "chains_ok (unlink_bkt e hs) n (X - {e})
    (bs[i := (bs ! i)\<lparr>bkt_count := bkt_count (bs ! i) - 1, hh_head := if hh_head (bs ! i) = Some e then hh_next (hs e) else hh_head (bs ! i)\<rparr>])
    (C(i := cs))"
proof -
  let ?hs = "unlink_bkt e hs"
  have b: "bucket_ok hs n X j (bs ! j) (C j)" if "j < length bs" for j using assms(1) that by (simp add: chains_ok_def)
  have "e \<in> set (C i)" using b [OF assms(4)] assms(2,3) by (simp add: bucket_ok_def)
  then obtain ys zs where c: "C i = ys @ e # zs" by (auto dest: split_list)
  have dl: "dlseg (hh_nexts hs) (hh_prevs hs) None (ys @ e # zs) None" "distinct (ys @ e # zs)"
    "hh_head (bs ! i) = first (ys @ e # zs) None" "bkt_count (bs ! i) = of_nat (length (ys @ e # zs))"
    "set (ys @ e # zs) = {x \<in> X. HASH_TO_BKT (hashv (hs x)) n = i}"
    using b [OF assms(4)] by (simp_all add: bucket_ok_def c)
  note del = dlseg_delete [OF dl(1,2)]
  have nb: "p \<in> set ys" if "hh_prev (hs e) = Some p" for p using that del(2) by (auto simp: links_at intro: final_in)
  have nz: "q \<in> set zs" if "hh_next (hs e) = Some q" for q using that del(3) by (auto simp: links_at intro: first_in)
  have links: "hh_prev (hs e) \<noteq> Some e" "hh_next (hs e) \<noteq> Some e" using nb nz dl(2) by auto
  have same: "hashv (?hs x) = hashv (hs x)" for x using unlink_bkt_entries [of hs e] by (simp add: same_entries_def)
  have "bucket_ok ?hs n (X - {e}) j (bs[i := (bs ! i)\<lparr>bkt_count := bkt_count (bs ! i) - 1,
      hh_head := if hh_head (bs ! i) = Some e then hh_next (hs e) else hh_head (bs ! i)\<rparr>] ! j) ((C(i := ys @ zs)) j)"
    if j: "j < length bs" for j
  proof (cases "j = i")
    case True
    have "dlseg (hh_nexts ?hs) (hh_prevs ?hs) None (ys @ zs) None" using del(1) unfolding unlink_bkt_links [where hs = hs and e = e, OF links] .
    moreover have "(if hh_head (bs ! i) = Some e then hh_next (hs e) else hh_head (bs ! i)) = first (ys @ zs) None"
      using dl(2,3) del(3) by (cases ys) (auto simp: links_at)
    moreover have "set (ys @ zs) = {x \<in> X - {e}. HASH_TO_BKT (hashv (?hs x)) n = i}"
    proof -
      have "set (ys @ zs) = set (ys @ e # zs) - {e}" using dl(2) by auto
      then show ?thesis unfolding dl(5) same by auto
    qed
    ultimately show ?thesis using True assms(4) dl(2,4) by (simp add: bucket_ok_def)
  next
    case False
    have "set (C j) = {x \<in> X. HASH_TO_BKT (hashv (hs x)) n = j}" using b [OF j] by (simp add: bucket_ok_def)
    then have "x \<notin> set (C j)" if "x \<in> set (ys @ e # zs)" for x using that False unfolding dl(5) by auto
    then have "dlseg (hh_nexts ?hs) (hh_prevs ?hs) None (C j) None"
      using b [OF j] nb nz unfolding unlink_bkt_links [where hs = hs and e = e, OF links]
      by (auto simp: bucket_ok_def links_at split: option.splits)
    moreover have "set (C j) = {x \<in> X - {e}. HASH_TO_BKT (hashv (?hs x)) n = j}"
      using b [OF j] False assms(3) unfolding same by (auto simp: bucket_ok_def)
    ultimately show ?thesis using False b [OF j] by (simp add: bucket_ok_def)
  qed
  then show ?thesis by (intro that [of "ys @ zs"]) (simp add: chains_ok_def)
qed

lemma del_in_bkt_run:
  assumes "table_ok (handles s) X (tbl s)" "e \<in> X" "i = HASH_TO_BKT (hashv (handles s e)) (num_buckets (tbl s))"
  obtains t where "HASH_DEL_IN_BKT i e s = Inr ((), t)" "table_ok (handles t) (X - {e}) (tbl t)" "same_rest s t"
proof -
  let ?t = "tbl s" and ?h = "handles s e"
  let ?b = "buckets ?t ! i"
  let ?b' = "?b\<lparr>bkt_count := bkt_count ?b - 1, hh_head := if hh_head ?b = Some e then hh_next ?h else hh_head ?b\<rparr>"
  let ?s = "s\<lparr>tbl := ?t\<lparr>buckets := (buckets ?t)[i := ?b']\<rparr>, handles := unlink_bkt e (handles s)\<rparr>"
  obtain k C where k: "5 \<le> k" "k \<le> 31" "num_buckets ?t = of_nat (2 ^ k)" "log2_num_buckets ?t = of_nat k" "length (buckets ?t) = 2 ^ k"
    and c: "chains_ok (handles s) (num_buckets ?t) X (buckets ?t) C"
    using assms(1) by (auto simp: table_ok_def)
  have i: "i < length (buckets ?t)" unfolding assms(3) k(3,5) by (rule HASH_TO_BKT_less [OF k(2)])
  obtain cs where "chains_ok (unlink_bkt e (handles s)) (num_buckets ?t) (X - {e}) ((buckets ?t)[i := ?b']) (C(i := cs))"
    by (rule unlink_bucket [OF c assms(2,3) i])
  then have "table_ok (handles ?s) (X - {e}) (tbl ?s)" using k unfolding table_ok_def by auto
  moreover have "same_rest s ?s" using unlink_bkt_entries by (simp add: same_rest_def same_memoryI)
  moreover have "HASH_DEL_IN_BKT i e s = Inr ((), ?s)"
    using i by (cases "hh_prev ?h"; cases "hh_next (case hh_prev ?h of None \<Rightarrow> ?h | Some p \<Rightarrow>
        ((handles s)(p := (handles s p)\<lparr>hh_next := hh_next ?h\<rparr>)) e)")
      (simp_all add: HASH_DEL_IN_BKT_def bucket_def peek_def handle_def store_def store_bucket_def store_table_def
        unlink_bkt_def Let_def prog_simps)
  ultimately show ?thesis using that by blast
qed

definition unlink_app :: "elem \<Rightarrow> (elem \<Rightarrow> UT_hash_handle) \<Rightarrow> elem \<Rightarrow> UT_hash_handle" where
  "unlink_app e hs =
     (let hs' = (case app_prev (hs e) of None \<Rightarrow> hs | Some p \<Rightarrow> hs(p := (hs p)\<lparr>app_next := app_next (hs e)\<rparr>))
      in case app_next (hs' e) of None \<Rightarrow> hs' | Some n \<Rightarrow> hs'(n := (hs' n)\<lparr>app_prev := app_prev (hs' e)\<rparr>))"

lemma unlink_app_bucket_links:
  "hh_nexts (unlink_app e hs) = hh_nexts hs" "hh_prevs (unlink_app e hs) = hh_prevs hs"
  "hashv (unlink_app e hs x) = hashv (hs x)" "hh_key (unlink_app e hs x) = hh_key (hs x)"
  by (auto simp: unlink_app_def Let_def fun_eq_iff links_at split: option.splits)

lemma unlink_app_links:
  assumes "app_prev (hs e) \<noteq> Some e" "app_next (hs e) \<noteq> Some e"
  shows "nexts (unlink_app e hs) = (case prevs hs e of None \<Rightarrow> nexts hs | Some p \<Rightarrow> (nexts hs)(p := nexts hs e))"
    "prevs (unlink_app e hs) = (case nexts hs e of None \<Rightarrow> prevs hs | Some n \<Rightarrow> (prevs hs)(n := prevs hs e))"
  using assms by (auto simp: unlink_app_def Let_def fun_eq_iff links_at split: option.splits)

lemma delete_unfold:
  fixes s e
  defines "u \<equiv> s\<lparr>tbl := (tbl s)\<lparr>table_tail := if table_tail (tbl s) = Some e then app_prev (handles s e) else table_tail (tbl s)\<rparr>,
    hash_head := if app_prev (handles s e) = None then app_next (handles s e) else hash_head s,
    handles := unlink_app e (handles s)\<rparr>"
  assumes "app_prev (handles s e) \<noteq> None \<or> app_next (handles s e) \<noteq> None"
    and "app_prev (handles s e) \<noteq> Some e" "app_next (handles s e) \<noteq> Some e"
  shows "HASH_DELETE e s = andthen (HASH_DEL_IN_BKT (HASH_TO_BKT (hashv (handles u e)) (num_buckets (tbl u))) e)
        (\<lambda>_. store_table (\<lambda>t. t\<lparr>num_items := num_items t - 1\<rparr>)) u"
  using assms(2-4) unfolding u_def
  by (cases "app_prev (handles s e)"; cases "app_next (handles s e)")
    (simp_all add: HASH_DELETE_def handle_def store_def store_table_def unlink_app_def Let_def prog_simps)

lemma delete_run:
  assumes "represents s xs" "e \<in> set xs"
  obtains t where "HASH_DELETE e s = Inr ((), t)" "represents t (remove1 e xs)" "\<And>x. hh_key (handles t x) = hh_key (handles s x)"
    "same_callers s t"
proof -
  let ?hs = "handles s" and ?t = "tbl s"
  obtain ys zs where xs: "xs = ys @ e # zs" using assms(2) by (auto dest: split_list)
  have s: "distinct (ys @ e # zs)" "dlseg (nexts ?hs) (prevs ?hs) None (ys @ e # zs) None"
    "hash_head s = first (ys @ e # zs) None" "table_tail ?t = Some (last xs)" "num_items ?t = of_nat (length xs)"
    "table_ok ?hs (set xs) ?t" and own: "owns_table s" "allocator_ok s"
    using assms(1) unfolding represents_def xs by simp_all
  note del = dlseg_delete [OF s(2,1)]
  have h: "app_prev (?hs e) = final ys None" "app_next (?hs e) = first zs None" using del(2,3) by (simp_all add: links_at)
  have away: "app_prev (?hs e) \<noteq> Some e" "app_next (?hs e) \<noteq> Some e"
    using s(1) h final_in first_in by fastforce+
  have rem: "remove1 e xs = ys @ zs" using s(1) by (simp add: xs remove1_append)
  show ?thesis
  proof (cases "ys = [] \<and> zs = []")
    case True
    let ?u = "s\<lparr>live := live s - table_blocks s, tbl := any_table s, hash_head := None\<rparr>"
    have used: "buckets_at ?t \<in> live s" "table_at s \<in> live s - {buckets_at ?t}" "live s - {buckets_at ?t} - {table_at s} = live s - table_blocks s"
      using own(1) by (auto simp: owns_table_def table_blocks_def)
    then have "HASH_DELETE e s = Inr ((), ?u)"
      using True h by (simp add: HASH_DELETE_def handle_def uthash_free_run prog_simps)
    moreover have "represents ?u (remove1 e xs)" using True assms(1) own(2) by (simp add: rem represents_def allocator_ok_def)
    moreover have "same_callers s ?u" using s(3) True by (simp add: same_callers_def callers_blocks_def hash_blocks_def)
    ultimately show ?thesis using that by simp
  next
    case False
    let ?tail = "if table_tail ?t = Some e then app_prev (?hs e) else table_tail ?t"
    let ?u = "s\<lparr>tbl := ?t\<lparr>table_tail := ?tail\<rparr>, hash_head := first (ys @ zs) None, handles := unlink_app e ?hs\<rparr>"
    have head: "(if app_prev (?hs e) = None then app_next (?hs e) else hash_head s) = first (ys @ zs) None"
      using h s(3) by (cases ys) (simp_all add: final_def)
    have tail: "?tail = Some (last (ys @ zs))" using s(1,4) h False by (cases "zs = []") (auto simp: xs final_def)
    have "table_ok (handles ?u) (set xs) (tbl ?u)"
      by (rule table_ok_cong [OF s(6)]) (simp_all add: unlink_app_bucket_links)
    then obtain t where t: "HASH_DEL_IN_BKT (HASH_TO_BKT (hashv (handles ?u e)) (num_buckets (tbl ?u))) e ?u = Inr ((), t)"
      "table_ok (handles t) (set xs - {e}) (tbl t)" "same_rest ?u t"
      using assms(2) by (rule del_in_bkt_run [OF _ _ refl])
    let ?v = "t\<lparr>tbl := (tbl t)\<lparr>num_items := num_items (tbl t) - 1\<rparr>\<rparr>"
    have "HASH_DELETE e s = andthen (HASH_DEL_IN_BKT (HASH_TO_BKT (hashv (handles ?u e)) (num_buckets (tbl ?u))) e)
        (\<lambda>_. store_table (\<lambda>t. t\<lparr>num_items := num_items t - 1\<rparr>)) ?u"
      using delete_unfold [of s e] head away False h by (auto simp: final_def)
    then have run: "HASH_DELETE e s = Inr ((), ?v)" using t(1) by (simp add: store_table_def prog_simps)
    have keys: "hh_key (handles ?v x) = hh_key (?hs x)" "hashv (handles ?v x) = hashv (?hs x)" for x
      using t(3) by (simp_all add: same_rest_def same_entries_def unlink_app_bucket_links)
    have "table_ok (handles ?v) (set (ys @ zs)) (tbl ?v)"
      using t(2) s(1) by (simp add: table_ok_def xs insert_Diff_if Un_Diff)
    moreover have "dlseg (nexts (handles ?v)) (prevs (handles ?v)) None (ys @ zs) None"
      using del(1) t(3) unfolding unlink_app_links [where hs = ?hs and e = e, OF away, symmetric]
      by (simp add: same_rest_def same_entries_def)
    moreover have "hash_head ?v = first (ys @ zs) None" "table_tail (tbl ?v) = Some (last (ys @ zs))"
      "num_items (tbl ?v) = of_nat (length (ys @ zs))" "memory ?v = memory s"
      using t(3) tail s(5) by (simp_all add: same_rest_def xs)
    moreover have heads: "first (ys @ zs) None \<noteq> None" "hash_head s \<noteq> None" using False s(3) by (auto simp: first_Some)
    have u: "owns_table ?u" "same_callers s ?u"
      using own(1) same_blocks(2) [of ?u s] same_blocks(3) [of ?u s] heads by (simp_all add: same_callers_def first_Some)
    have "hash_head ?u \<noteq> None" using heads(1) by (simp del: first_append first_None not_None_eq)
    from same_rest_callers [OF t(3) u(1) this] have t': "owns_table t" "allocator_ok t" "same_callers ?u t" .
    have "owns_table ?v" "allocator_ok ?v" "same_callers s ?v"
      using t' same_blocks [of ?v t] same_callers_trans [OF u(2) t'(3)] by (simp_all add: same_callers_def)
    note mem = this
    moreover have "distinct (map (\<lambda>x. hh_key (handles ?v x)) (ys @ zs))"
      "\<forall>x \<in> set (ys @ zs). hashv (handles ?v x) = HASH_JEN (hh_key (handles ?v x))"
      "length (ys @ zs) < 2 ^ 32" "memory s < 2 ^ 36"
      using assms(1) unfolding keys by (simp_all add: represents_def xs)
    ultimately have "represents ?v (remove1 e xs)" using s(1) mem unfolding rem represents_def by simp
    with run keys(1) mem(3) show ?thesis by (intro that [of ?v]) simp_all
  qed
qed

section \<open>Visiting\<close>

lemma represents_first: "represents s xs \<Longrightarrow> hash_head s = first xs None"
  by (simp add: represents_def)

lemma represents_next:
  assumes "represents s (xs @ e # ys)"
  shows "app_next (handles s e) = first ys None"
  using assms by (simp add: represents_def links_at)

text \<open>A body that deletes some of the elements visited.\<close>

definition delete_if :: "(elem \<Rightarrow> bool) \<Rightarrow> elem \<Rightarrow> (hash, unit) prog" where
  "delete_if P e = (if P e then HASH_DELETE e else ret ())"

lemma delete_if_run:
  assumes "represents s (xs @ e # ys)"
  obtains t where "delete_if P e s = Inr ((), t)" "represents t ((xs @ filter (\<lambda>x. \<not> P x) [e]) @ ys)"
    "\<And>x. hh_key (handles t x) = hh_key (handles s x)" "same_callers s t"
proof (cases "P e")
  case True
  have "distinct (xs @ e # ys)" using assms by (simp add: represents_def)
  then have r: "remove1 e (xs @ e # ys) = xs @ ys" by (simp add: remove1_append)
  obtain t where "HASH_DELETE e s = Inr ((), t)" "represents t (xs @ ys)" "\<And>x. hh_key (handles t x) = hh_key (handles s x)"
    "same_callers s t"
    using delete_run [OF assms, of e] unfolding r by auto
  with True show ?thesis by (intro that [of t]) (simp_all add: delete_if_def)
next
  case False
  with assms show ?thesis by (intro that [of s]) (simp_all add: delete_if_def)
qed

text \<open>An iteration whose body keeps a relation \<open>R\<close> that holds for the elements still to be visited; the
  proof may name them by more than their addresses.\<close>

lemma iterate_simulates:
  assumes step: "\<And>e es a s. R (e # es) a s \<Longrightarrow>
      (case f e a of Inl x \<Rightarrow> body (address e) s = Inl x | Inr b \<Rightarrow> \<exists>t. body (address e) s = Inr ((), t) \<and> R es b t)"
    and rest: "\<And>e es a s. R (e # es) a s \<Longrightarrow> app_next (handles (h s) (address e)) = first (map address es) None"
    and "R es a s" "length es < budget"
  shows "case each f es a of
      Inl x \<Rightarrow> iterate h budget body (first (map address es) None) (first (tl (map address es)) None) s = Inl x
    | Inr b \<Rightarrow> \<exists>t. iterate h budget body (first (map address es) None) (first (tl (map address es)) None) s
        = Inr (map address es, t) \<and> R [] b t"
  using assms(3,4)
proof (induction es arbitrary: a s budget)
  case Nil
  then show ?case by (cases budget) (auto simp: ret_def)
next
  case (Cons e es)
  then obtain budget' where b: "budget = Suc budget'" "length es < budget'" by (cases budget) auto
  show ?case
  proof (cases "f e a")
    case (Inl x)
    with step [OF Cons.prems(1)] b(1) show ?thesis by (simp add: andthen_def)
  next
    case (Inr c)
    with step [OF Cons.prems(1)] obtain t where t: "body (address e) s = Inr ((), t)" "R es c t" by auto
    have "next_of (h t) (first (map address es) None) = first (tl (map address es)) None"
      using rest [of "hd es" "tl es" c t] t(2) by (cases es) (simp_all add: next_of_def)
    with t(1) Cons.IH [OF t(2) b(2)] Inr b(1) show ?thesis
      by (auto simp: andthen_def gets_def ret_def split: sum.splits)
  qed
qed

lemma count_run:
  assumes "represents s xs"
  shows "HASH_CNT s = Inr (of_nat (length xs), s)"
  using assms by (cases xs) (auto simp: HASH_CNT_def represents_def gets_def)

lemma HASH_ITER_unfold:
  assumes "represents (h s) xs"
  shows "HASH_ITER h body s = iterate h (Suc (length xs)) body (first xs None) (first (tl xs) None) s"
proof -
  have n: "unat (of_nat (length xs) :: u32) = length xs"
    using assms by (intro unat_of_nat_u32) (simp add: represents_def)
  have "next_of (h s) (first xs None) = first (tl xs) None"
    using represents_next [of "h s" "[]" "hd xs" "tl xs"] assms by (cases xs) (simp_all add: next_of_def)
  then show ?thesis
    using count_run [OF assms] represents_first [OF assms] n
    by (simp add: HASH_ITER_def HASH_CNT_def andthen_def gets_def del: iterate.simps)
qed

lemma visit_run:
  assumes "represents s xs"
  obtains t where "HASH_ITER (\<lambda>s. s) (delete_if P) s = Inr (xs, t)" "represents t (filter (\<lambda>x. \<not> P x) xs)"
    "\<And>x. hh_key (handles t x) = hh_key (handles s x)" "same_callers s t"
proof -
  let ?R = "\<lambda>ys kept t. represents t (kept @ ys) \<and> (\<forall>x. hh_key (handles t x) = hh_key (handles s x)) \<and> same_callers s t"
  let ?f = "\<lambda>e kept. Inr (kept @ filter (\<lambda>x. \<not> P x) [e]) :: stop + elem list"
  have e: "each ?f ys kept = Inr (kept @ filter (\<lambda>x. \<not> P x) ys)" for ys kept
    by (induction ys arbitrary: kept) auto
  have "case each ?f xs [] of Inl x \<Rightarrow> iterate (\<lambda>s. s) (Suc (length xs)) (delete_if P) (first xs None) (first (tl xs) None) s = Inl x
    | Inr b \<Rightarrow> \<exists>t. iterate (\<lambda>s. s) (Suc (length xs)) (delete_if P) (first xs None) (first (tl xs) None) s = Inr (xs, t) \<and> ?R [] b t"
  proof (rule iterate_simulates [where R = ?R and address = "\<lambda>x. x", unfolded list.map_ident])
    fix e es kept u assume u: "?R (e # es) kept u"
    then obtain t where "delete_if P e u = Inr ((), t)" "represents t ((kept @ filter (\<lambda>x. \<not> P x) [e]) @ es)"
      "\<And>x. hh_key (handles t x) = hh_key (handles u x)" "same_callers u t"
      using delete_if_run [of u kept e es P] by blast
    with u show "case ?f e kept of Inl x \<Rightarrow> delete_if P e u = Inl x | Inr b \<Rightarrow> \<exists>t. delete_if P e u = Inr ((), t) \<and> ?R es b t"
      unfolding sum.case by (intro exI [of _ t]) (simp add: same_callers_trans [of s u t])
  qed (use assms represents_next in auto)
  with that show ?thesis unfolding e HASH_ITER_unfold [of "\<lambda>s. s", OF assms] by auto
qed

section \<open>The hash refines an association list\<close>

datatype hash_call = Find "u8 list" | Add "u8 list" elem | Delete elem | Visit "elem \<Rightarrow> bool" | Count

datatype hash_result = Found "elem option" | Finished | Visited "elem list" | Counted u32

primrec run_hash_call :: "hash_call \<Rightarrow> (hash, hash_result) prog" where
  "run_hash_call (Find key) = andthen (HASH_FIND key) (\<lambda>out. ret (Found out))"
| "run_hash_call (Add key e) = andthen (HASH_ADD key e) (\<lambda>_. ret Finished)"
| "run_hash_call (Delete e) = andthen (HASH_DELETE e) (\<lambda>_. ret Finished)"
| "run_hash_call (Visit P) = andthen (HASH_ITER (\<lambda>s. s) (delete_if P)) (\<lambda>es. ret (Visited es))"
| "run_hash_call Count = andthen HASH_CNT (\<lambda>n. ret (Counted n))"

primrec run_hash_calls :: "hash_call list \<Rightarrow> (hash, hash_result list) prog" where
  "run_hash_calls [] = ret []"
| "run_hash_calls (c # cs) = andthen (run_hash_call c) (\<lambda>r. andthen (run_hash_calls cs) (\<lambda>rs. ret (r # rs)))"

type_synonym entries = "(u8 list \<times> elem) list"

primrec entries_result :: "hash_call \<Rightarrow> entries \<Rightarrow> hash_result" where
  "entries_result (Find key) es = Found (map_of es key)"
| "entries_result (Add key e) es = Finished"
| "entries_result (Delete e) es = Finished"
| "entries_result (Visit P) es = Visited (map snd es)"
| "entries_result Count es = Counted (of_nat (length es))"

primrec entries_after :: "hash_call \<Rightarrow> entries \<Rightarrow> entries" where
  "entries_after (Find key) es = es"
| "entries_after (Add key e) es = es @ [(key, e)]"
| "entries_after (Delete e) es = filter (\<lambda>x. snd x \<noteq> e) es"
| "entries_after (Visit P) es = filter (\<lambda>x. \<not> P (snd x)) es"
| "entries_after Count es = es"

text \<open>The caller adds only new keys and elements, and deletes only elements of the hash.\<close>

primrec legal_call :: "hash_call \<Rightarrow> entries \<Rightarrow> bool" where
  "legal_call (Find key) es = True"
| "legal_call (Add key e) es = (key \<notin> fst ` set es \<and> e \<notin> snd ` set es)"
| "legal_call (Delete e) es = (e \<in> snd ` set es)"
| "legal_call (Visit P) es = True"
| "legal_call Count es = True"

primrec legal_calls :: "hash_call list \<Rightarrow> entries \<Rightarrow> bool" where
  "legal_calls [] es = True"
| "legal_calls (c # cs) es = (legal_call c es \<and> legal_calls cs (entries_after c es))"

primrec entries_results :: "hash_call list \<Rightarrow> entries \<Rightarrow> hash_result list" where
  "entries_results [] es = []"
| "entries_results (c # cs) es = entries_result c es # entries_results cs (entries_after c es)"

definition stands_for :: "hash \<Rightarrow> entries \<Rightarrow> bool" where
  "stands_for s es \<longleftrightarrow> represents s (map snd es) \<and> entries_of s (map snd es) = es"

lemma stands_forI: "represents s xs \<Longrightarrow> entries_of s xs = es \<Longrightarrow> stands_for s es"
  by (auto simp: stands_for_def entries_of_def comp_def)

lemma stands_for_delete:
  assumes "stands_for s es" "e \<in> snd ` set es"
  obtains t where "HASH_DELETE e s = Inr ((), t)" "stands_for t (filter (\<lambda>x. snd x \<noteq> e) es)" "same_callers s t"
proof -
  let ?xs = "map snd es"
  have s: "represents s ?xs" "entries_of s ?xs = es" using assms(1) by (simp_all add: stands_for_def)
  have "e \<in> set ?xs" using assms(2) by simp
  from delete_run [OF s(1) this] obtain t where t: "HASH_DELETE e s = Inr ((), t)" "represents t (remove1 e ?xs)"
    "\<And>x. hh_key (handles t x) = hh_key (handles s x)" "same_callers s t" by blast
  have "remove1 e ?xs = filter (\<lambda>x. x \<noteq> e) ?xs"
    using s(1) by (simp add: represents_def distinct_remove1_removeAll removeAll_filter_not_eq eq_commute)
  then have r: "remove1 e ?xs = map snd (filter (\<lambda>x. snd x \<noteq> e) es)" by (simp add: filter_map comp_def)
  have "entries_of t ?xs = es" using s(2) t(3) by (simp add: entries_of_def)
  then have "entries_of t (filter (\<lambda>x. x \<noteq> e) ?xs) = filter (\<lambda>x. snd x \<noteq> e) es"
    by (metis (no_types, lifting) entries_of_def filter_cong filter_map comp_apply snd_conv)
  with t r that show ?thesis by (simp add: stands_forI filter_map comp_def)
qed

lemma hash_call_run:
  assumes "stands_for s es" "legal_call c es" "length es + 1 < 2 ^ 32"
  shows "run_hash_call c s = Inl Exited \<and> may_refuse s
    \<or> (\<exists>t. run_hash_call c s = Inr (entries_result c es, t) \<and> stands_for t (entries_after c es) \<and> same_callers s t)"
proof -
  let ?xs = "map snd es"
  have s: "represents s ?xs" "entries_of s ?xs = es" using assms(1) by (simp_all add: stands_for_def)
  have keys: "hh_key (handles s (snd x)) = fst x" if "x \<in> set es" for x
    using that s(2) by (metis (no_types, lifting) entries_of_def fst_conv imageE list.set_map snd_conv)
  show ?thesis
  proof (cases c)
    case (Find key)
    with find_run [OF s(1)] s(2) assms(1) show ?thesis by (simp add: prog_simps)
  next
    case (Add key e)
    with assms(2,3) add_run [OF s(1), of e key] s(2) show ?thesis
      by (auto simp: prog_simps intro: stands_forI)
  next
    case (Delete e)
    with assms(2) obtain t where "HASH_DELETE e s = Inr ((), t)" "stands_for t (filter (\<lambda>x. snd x \<noteq> e) es)" "same_callers s t"
      using stands_for_delete [OF assms(1), of e] by auto
    with Delete show ?thesis by (simp add: prog_simps)
  next
    case (Visit P)
    obtain t where t: "HASH_ITER (\<lambda>s. s) (delete_if P) s = Inr (?xs, t)" "represents t (filter (\<lambda>x. \<not> P x) ?xs)"
      "\<And>x. hh_key (handles t x) = hh_key (handles s x)" "same_callers s t"
      using visit_run [OF s(1)] by blast
    have "filter (\<lambda>x. \<not> P x) ?xs = map snd (filter (\<lambda>x. \<not> P (snd x)) es)" by (simp add: filter_map comp_def)
    moreover have "entries_of t (map snd (filter (\<lambda>x. \<not> P (snd x)) es)) = filter (\<lambda>x. \<not> P (snd x)) es"
      using keys t(3) by (auto simp: entries_of_def intro!: map_idI)
    ultimately show ?thesis using Visit t by (auto simp: prog_simps intro: stands_forI)
  next
    case Count
    with count_run [OF s(1)] assms(1) show ?thesis by (simp add: prog_simps)
  qed
qed

text \<open>The calls one by one, for a client that knows its entries.\<close>

lemma stands_for_find: "stands_for s es \<Longrightarrow> HASH_FIND key s = Inr (map_of es key, s)"
  using find_run [of s "map snd es" key] by (simp add: stands_for_def)

lemma stands_for_add:
  assumes "stands_for s es" "key \<notin> fst ` set es" "e \<notin> snd ` set es" "length es + 1 < 2 ^ 32"
  shows "HASH_ADD key e s = Inl Exited \<and> may_refuse s \<or> (\<exists>t. HASH_ADD key e s = Inr ((), t) \<and> stands_for t (es @ [(key, e)])
      \<and> same_callers s t)"
  using hash_call_run [of s es "Add key e"] assms by (auto simp: andthen_def ret_def split: sum.splits)

lemma stands_for_count: "stands_for s es \<Longrightarrow> HASH_CNT s = Inr (of_nat (length es), s)"
  using count_run [of s "map snd es"] by (simp add: stands_for_def)

lemma stands_for_next: "stands_for s (xs @ (k, e) # ys) \<Longrightarrow> app_next (handles s e) = first (map snd ys) None"
  using represents_next [of s "map snd xs" e "map snd ys"] by (simp add: stands_for_def)

lemma stands_for_size: "stands_for s es \<Longrightarrow> length es < 2 ^ 32"
  by (simp add: stands_for_def represents_def)

lemma stands_for_keys:
  assumes "stands_for s es"
  shows "distinct (map fst es)"
proof -
  have "map fst es = map fst (entries_of s (map snd es))" using assms by (simp add: stands_for_def)
  also have "\<dots> = map (\<lambda>e. hh_key (handles s e)) (map snd es)" by (simp add: entries_of_def)
  finally show ?thesis using assms by (simp only: stands_for_def represents_def)
qed

lemma stands_for_allocator:
  assumes "stands_for s es"
  shows "allocator_ok s" "hash_blocks s \<subseteq> live s" "(hash_head s = None) = (es = [])"
    "card (hash_blocks s) = (if es = [] then 0 else 2)"
  using assms by (auto simp: stands_for_def represents_def hash_blocks_def owns_table_def table_blocks_def)

text \<open>The callers allocate and free their own blocks.\<close>

lemma stands_for_live:
  assumes "stands_for s es" "finite L" "hash_blocks s \<subseteq> L"
  shows "stands_for (s\<lparr>live := L\<rparr>) es"
  using assms
  by (auto simp: stands_for_def represents_def entries_of_def owns_table_def allocator_ok_def table_blocks_def hash_blocks_def)

text \<open>Handles outside the hash do not matter.\<close>

lemma represents_frame:
  assumes "represents s xs" "e \<notin> set xs"
  shows "represents (s\<lparr>handles := (handles s)(e := h)\<rparr>) xs"
proof -
  let ?hs = "(handles s)(e := h)"
  have same: "?hs x = handles s x" if "x \<in> set xs" for x using that assms(2) by auto
  have "table_ok ?hs (set xs) (tbl s)" if "table_ok (handles s) (set xs) (tbl s)"
  proof -
    have "bucket_ok ?hs n (set xs) i b cs" if b: "bucket_ok (handles s) n (set xs) i b cs" for n i b cs
    proof -
      have "set cs \<subseteq> set xs" using b by (auto simp: bucket_ok_def)
      then have "dlseg (hh_nexts ?hs) (hh_prevs ?hs) None cs None" using b same dlseg_agree [of cs ?hs "handles s" None None]
        by (auto simp: bucket_ok_def)
      moreover have "{x \<in> set xs. HASH_TO_BKT (hashv (?hs x)) n = i} = {x \<in> set xs. HASH_TO_BKT (hashv (handles s x)) n = i}"
        using assms(2) by auto
      ultimately show ?thesis using b by (simp add: bucket_ok_def)
    qed
    with that show ?thesis unfolding table_ok_def chains_ok_def by blast
  qed
  moreover have "map (\<lambda>x. hh_key (?hs x)) xs = map (\<lambda>x. hh_key (handles s x)) xs" using same by simp
  then have "distinct (map (\<lambda>x. hh_key (?hs x)) xs)" using assms(1) by (simp only: represents_def)
  moreover have "\<forall>x \<in> set xs. hashv (?hs x) = hashv (handles s x) \<and> hh_key (?hs x) = hh_key (handles s x)" using same by simp
  ultimately show ?thesis using assms unfolding represents_def by (simp add: owns_table_def allocator_ok_def table_blocks_def)
qed

lemma stands_for_frame:
  assumes "stands_for s es" "e \<notin> snd ` set es"
  shows "stands_for (s\<lparr>handles := (handles s)(e := h)\<rparr>) es"
proof -
  have "entries_of (s\<lparr>handles := (handles s)(e := h)\<rparr>) (map snd es) = entries_of s (map snd es)"
    using assms(2) by (auto simp: entries_of_def)
  with assms represents_frame [of s "map snd es" e h] show ?thesis by (simp add: stands_for_def)
qed

primrec all_entries_after :: "hash_call list \<Rightarrow> entries \<Rightarrow> entries" where
  "all_entries_after [] es = es"
| "all_entries_after (c # cs) es = all_entries_after cs (entries_after c es)"

lemma length_entries_after: "length (entries_after c es) \<le> Suc (length es)"
  by (cases c) (auto intro: le_SucI length_filter_le)

text \<open>C30: For every sequence of legal calls, the hash with its linked lists, buckets and expansions gives the
  results of an association list in the order of insertion: finding, counting, and visiting every
  element even when the visit deletes it. The one other outcome is that the process exits, and then
  in a state in which an allocation can be refused.\<close>

theorem hash_refines_entries:
  assumes "stands_for s es" "legal_calls cs es" "length es + length cs < 2 ^ 32"
  shows "(\<exists>t. run_hash_calls cs s = Inr (entries_results cs es, t) \<and> stands_for t (all_entries_after cs es))
    \<or> (\<exists>made c later rs t. cs = made @ c # later \<and> run_hash_calls made s = Inr (rs, t) \<and> may_refuse t
        \<and> run_hash_calls cs s = Inl Exited)"
  using assms
proof (induction cs arbitrary: s es)
  case Nil
  then show ?case by (simp add: ret_def)
next
  case (Cons c cs)
  from hash_call_run [OF Cons.prems(1), of c] Cons.prems(2,3)
  consider "run_hash_call c s = Inl Exited" "may_refuse s"
    | u where "run_hash_call c s = Inr (entries_result c es, u)" "stands_for u (entries_after c es)"
    by auto
  then show ?case
  proof cases
    case 1
    then have "c # cs = [] @ c # cs" "run_hash_calls [] s = Inr ([], s)" "run_hash_calls (c # cs) s = Inl Exited"
      by (simp_all add: prog_simps)
    with 1(2) show ?thesis by blast
  next
    case 2
    have "length (entries_after c es) + length cs < 2 ^ 32" using Cons.prems(3) length_entries_after [of c es] by simp
    with Cons.IH [OF 2(2)] Cons.prems(2)
    consider t where "run_hash_calls cs u = Inr (entries_results cs (entries_after c es), t)"
        "stands_for t (all_entries_after cs (entries_after c es))"
      | made d later rs t where "cs = made @ d # later" "run_hash_calls made u = Inr (rs, t)" "may_refuse t"
        "run_hash_calls cs u = Inl Exited"
      by auto
    then show ?thesis
    proof cases
      case 1
      with 2(1) show ?thesis by (simp add: prog_simps)
    next
      case later: 2
      then have "c # cs = (c # made) @ d # later" "run_hash_calls (c # made) s = Inr (entries_result c es # rs, t)"
        "run_hash_calls (c # cs) s = Inl Exited"
        using 2(1) by (simp_all add: prog_simps)
      with later(3) show ?thesis by blast
    qed
  qed
qed

text \<open>The start: nothing is allocated. This allocator always goes above the blocks in use, and so reuses
  the addresses of the latest ones.\<close>

definition above :: "nat set \<Rightarrow> nat" where
  "above A = (if finite A then Suc (Max (insert 0 A)) else 0)"

lemma above_fresh: "finite A \<Longrightarrow> above A \<notin> A"
proof
  assume "finite A" "above A \<in> A"
  then have "above A \<le> Max (insert 0 A)" by (intro Max_ge) auto
  with \<open>finite A\<close> show False by (simp add: above_def)
qed

definition zero_table :: UT_hash_table where
  "zero_table = \<lparr>buckets_at = 0, buckets = [], num_buckets = 0, log2_num_buckets = 0, num_items = 0, table_tail = None,
     ideal_chain_maxlen = 0, nonideal_items = 0, ineff_expands = 0, noexpand = False\<rparr>"

definition empty_hash :: "nat \<Rightarrow> hash" where
  "empty_hash mem = \<lparr>place = above, live = {}, handles = (\<lambda>_. \<lparr>app_prev = None, app_next = None, hh_prev = None, hh_next = None, hh_key = [], hashv = 0\<rparr>),
     hash_head = None, table_at = 0, tbl = zero_table, any_table = zero_table,
     hash_mallocs = [], memory = mem\<rparr>"

lemma empty_hash_stands: "mem < 2 ^ 36 \<Longrightarrow> stands_for (empty_hash mem) []"
  by (simp add: stands_for_def represents_def entries_of_def empty_hash_def allocator_ok_def above_fresh)

lemma first_add:
  "\<exists>t. HASH_ADD key e (empty_hash mem) = Inr ((), t) \<and> \<not> may_refuse t" if "1024 \<le> mem"
proof -
  have i: "HASH_TO_BKT v 32 < 32" for v using HASH_TO_BKT_less [of 5 v] by simp
  have few: "\<not> (10 :: u32) \<le> 1" by (simp add: word_le_nat_alt)
  show ?thesis
    using that i [of "HASH_JEN key"] few
    by (simp add: HASH_ADD_def HASH_MAKE_TABLE_def HASH_ADD_TO_TABLE_def HASH_ADD_TO_BKT_def store_def store_table_def
        store_bucket_def bucket_def peek_def uthash_malloc_def empty_hash_def zero_table_def empty_bucket_def Let_def prog_simps
        SIZEOF_UT_hash_table_def SIZEOF_UT_hash_bucket_def HASH_INITIAL_NUM_BUCKETS_def HASH_BKT_CAPACITY_THRESH_def
        may_refuse_def)
qed

theorem hash_refines_entries_witness:
  "\<exists>t. run_hash_calls [Add [1, 0, 0, 0, 1, 0] 10, Find [1, 0, 0, 0, 1, 0]] (empty_hash 4096)
    = Inr ([Finished, Found (Some 10)], t)"
proof -
  let ?cs = "[Add [1, 0, 0, 0, 1, 0] 10, Find [1, 0, 0, 0, 1, 0]]"
  obtain t where t: "HASH_ADD [1, 0, 0, 0, 1, 0] 10 (empty_hash 4096) = Inr ((), t)" "\<not> may_refuse t"
    using first_add [of 4096] by auto
  have e: "\<not> may_refuse (empty_hash 4096)" by (simp add: may_refuse_def empty_hash_def zero_table_def)
  have "\<not> may_refuse u" if "?cs = made @ c # later" "run_hash_calls made (empty_hash 4096) = Inr (rs, u)" for made c later rs u
    using that e t by (cases made; cases "tl made") (auto simp: prog_simps split: sum.splits)
  then show ?thesis
    using hash_refines_entries [OF empty_hash_stands, of 4096 ?cs] by fastforce
qed

end
