(* ===== verification/Utlist.thy ===== *)
theory Utlist
  imports Mesh_Prelude
begin

text \<open>
  The macros of \<^verbatim>\<open>lib/wpc/include/utlist.h\<close> for singly linked lists that \<^verbatim>\<open>reassembly.c\<close> uses. An element is
  named by its address; \<open>next\<close> pointers are a function on addresses, and the head is a pointer. A
  walk that may run for ever is a partial function whose value is then \<^const>\<open>None\<close>. The lemmas show that
  on a list that ends the macros are the functions on lists that the theory \<^verbatim>\<open>Reassembly\<close> uses.
\<close>

section \<open>The macros\<close>

type_synonym node = nat
type_synonym links = "node \<Rightarrow> node option"

definition LL_PREPEND :: "links \<Rightarrow> node option \<Rightarrow> node \<Rightarrow> links \<times> node option" where
  "LL_PREPEND nx head add = (nx(add := head), Some add)"

partial_function (option) LL_SEARCH_SCALAR :: "links \<Rightarrow> (node \<Rightarrow> bool) \<Rightarrow> node option \<Rightarrow> node option option" where
  "LL_SEARCH_SCALAR nx matches out =
     (case out of None \<Rightarrow> Some None
      | Some e \<Rightarrow> if matches e then Some out else LL_SEARCH_SCALAR nx matches (nx e))"

partial_function (option) LL_FOREACH :: "links \<Rightarrow> (node \<Rightarrow> 's \<Rightarrow> 's) \<Rightarrow> node option \<Rightarrow> 's \<Rightarrow> 's option" where
  "LL_FOREACH nx body el s =
     (case el of None \<Rightarrow> Some s | Some e \<Rightarrow> LL_FOREACH nx body (nx e) (body e s))"

text \<open>The walk to the element before the one to delete. The pointer to follow is never null: the loop looks
  at it first.\<close>

partial_function (option) before :: "links \<Rightarrow> node \<Rightarrow> node \<Rightarrow> node option" where
  "before nx del tmp =
     (case nx tmp of None \<Rightarrow> Some tmp
      | Some e \<Rightarrow> if e \<noteq> del then before nx del e else Some tmp)"

text \<open>Deleting from an empty list would follow a null pointer.\<close>

definition LL_DELETE :: "links \<Rightarrow> node option \<Rightarrow> node \<Rightarrow> stop + links \<times> node option" where
  "LL_DELETE nx head del =
     (if head = Some del then Inr (nx, nx del)
      else
        case head of None \<Rightarrow> Inl Undefined
        | Some h \<Rightarrow>
            (case before nx del h of None \<Rightarrow> Inl Blocked
             | Some tmp \<Rightarrow> Inr (if nx tmp \<noteq> None then nx(tmp := nx del) else nx, head)))"

text \<open>The loop that fetches the next element before the body, which may delete the current one. The body
  works on a state of which \<open>nexts\<close> reads the links.\<close>

partial_function (option) LL_FOREACH_SAFE ::
  "('s \<Rightarrow> links) \<Rightarrow> (node \<Rightarrow> ('s, unit) prog) \<Rightarrow> node option \<Rightarrow> 's \<Rightarrow> (stop + unit \<times> 's) option" where
  "LL_FOREACH_SAFE nexts body el s =
     (case el of None \<Rightarrow> Some (Inr ((), s))
      | Some e \<Rightarrow>
          (let tmp = nexts s e in
           case body e s of Inl x \<Rightarrow> Some (Inl x) | Inr (u, t) \<Rightarrow> LL_FOREACH_SAFE nexts body tmp t))"

text \<open>A walk as a program: one that never ends blocks.\<close>

definition walk :: "('s \<Rightarrow> 'a option) \<Rightarrow> ('s, 'a) prog" where
  "walk f s = (case f s of None \<Rightarrow> Inl Blocked | Some x \<Rightarrow> Inr (x, s))"

definition loop :: "('s \<Rightarrow> (stop + 'a \<times> 's) option) \<Rightarrow> ('s, 'a) prog" where
  "loop f s = (case f s of None \<Rightarrow> Inl Blocked | Some r \<Rightarrow> r)"

section \<open>Lists that end\<close>

primrec chain :: "links \<Rightarrow> node option \<Rightarrow> node list \<Rightarrow> bool" where
  "chain nx p [] \<longleftrightarrow> p = None"
| "chain nx p (e # es) \<longleftrightarrow> p = Some e \<and> chain nx (nx e) es"

lemma chain_None [simp]: "chain nx None es \<longleftrightarrow> es = []"
  by (cases es) simp_all

lemma chain_frame [simp]: "e \<notin> set es \<Longrightarrow> chain (nx(e := v)) p es = chain nx p es"
  by (induction es arbitrary: p) auto

lemma chain_rest: "chain nx p (xs @ e # ys) \<Longrightarrow> chain nx (nx e) ys"
  by (induction xs arbitrary: p) auto

lemma chain_prepend:
  "chain nx head es \<Longrightarrow> e \<notin> set es \<Longrightarrow> (case LL_PREPEND nx head e of (nx', head') \<Rightarrow> chain nx' head' (e # es))"
  by (simp add: LL_PREPEND_def)

lemma search_run: "chain nx p es \<Longrightarrow> LL_SEARCH_SCALAR nx P p = Some (find P es)"
proof (induction es arbitrary: p)
  case Nil
  then show ?case by (simp add: LL_SEARCH_SCALAR.simps)
next
  case (Cons e es)
  then show ?case by (subst LL_SEARCH_SCALAR.simps) auto
qed

lemma foreach_run: "chain nx p es \<Longrightarrow> LL_FOREACH nx f p s = Some (fold f es s)"
proof (induction es arbitrary: p s)
  case Nil
  then show ?case by (simp add: LL_FOREACH.simps)
next
  case (Cons e es)
  then show ?case by (subst LL_FOREACH.simps) auto
qed

lemma chain_unlink:
  assumes "chain nx p (xs @ a # del # ys)" "distinct (xs @ a # del # ys)"
  shows "chain (nx(a := nx del)) p (xs @ a # ys)"
  using assms by (induction xs arbitrary: p) auto

lemma before_run:
  assumes "chain nx (Some h) (xs @ a # del # ys)" "distinct (xs @ a # del # ys)"
  shows "before nx del h = Some a"
  using assms
proof (induction xs arbitrary: h)
  case Nil
  then show ?case by (subst before.simps) auto
next
  case (Cons x xs)
  then obtain e where "nx h = Some e" "chain nx (Some e) (xs @ a # del # ys)" "e \<noteq> del" by (cases xs) auto
  then show ?case using Cons by (subst before.simps) auto
qed

lemma delete_from_list:
  assumes "chain nx head es" "distinct es" "del \<in> set es"
  obtains nx' head' where "LL_DELETE nx head del = Inr (nx', head')" "chain nx' head' (remove1 del es)"
proof -
  obtain xs ys where es: "es = xs @ del # ys" using assms(3) by (auto dest: split_list)
  show ?thesis
  proof (cases xs rule: rev_cases)
    case Nil
    with assms es show ?thesis by (intro that [of nx "nx del"]) (auto simp: LL_DELETE_def)
  next
    case (snoc zs a)
    then obtain h where h: "head = Some h" "h \<noteq> del" using assms es by (cases zs) auto
    have c: "chain nx (Some h) (zs @ a # del # ys)" "distinct (zs @ a # del # ys)" using assms es snoc h by simp_all
    have "nx a = Some del" using chain_rest [OF c(1)] by simp
    then have "LL_DELETE nx head del = Inr (nx(a := nx del), head)" using h before_run [OF c] by (simp add: LL_DELETE_def)
    moreover have "remove1 del es = zs @ a # ys" using c(2) by (simp add: es snoc remove1_append)
    ultimately show ?thesis using that chain_unlink [OF c] h(1) by simp
  qed
qed

section \<open>Working off a list\<close>

text \<open>The loops of \<^verbatim>\<open>reassembly.c\<close> that release the fragments delete each element they visit. A body that
  keeps a relation \<open>R\<close> for the elements still to be visited does, over the whole list, what \<open>f\<close> does.\<close>

lemma foreach_safe_simulates:
  assumes step: "\<And>e es a s. R (e # es) a s \<Longrightarrow>
      (case f e a of Inl x \<Rightarrow> body e s = Inl x | Inr b \<Rightarrow> \<exists>t. body e s = Inr ((), t) \<and> R es b t)"
    and rest: "\<And>e es a s. R (e # es) a s \<Longrightarrow> nexts s e = (case es of [] \<Rightarrow> None | x # _ \<Rightarrow> Some x)"
    and "R es a s" "el = (case es of [] \<Rightarrow> None | x # _ \<Rightarrow> Some x)"
  shows "case each f es a of Inl x \<Rightarrow> LL_FOREACH_SAFE nexts body el s = Some (Inl x)
    | Inr b \<Rightarrow> \<exists>t. LL_FOREACH_SAFE nexts body el s = Some (Inr ((), t)) \<and> R [] b t"
  using assms(3,4)
proof (induction es arbitrary: a s el)
  case Nil
  then show ?case by (simp add: LL_FOREACH_SAFE.simps)
next
  case (Cons e es)
  show ?case
  proof (cases "f e a")
    case (Inl x)
    with step [OF Cons.prems(1)] Cons.prems(2) show ?thesis by (subst LL_FOREACH_SAFE.simps) simp
  next
    case (Inr c)
    with step [OF Cons.prems(1)] obtain t where t: "body e s = Inr ((), t)" "R es c t" by auto
    have "LL_FOREACH_SAFE nexts body el s = LL_FOREACH_SAFE nexts body (nexts s e) t"
      using t(1) Cons.prems(2) by (subst LL_FOREACH_SAFE.simps) simp
    with Cons.IH [OF t(2) rest [OF Cons.prems(1)]] Inr show ?thesis by (simp split: sum.splits)
  qed
qed

text \<open>Deleting the first element of a list.\<close>

lemma delete_first: "LL_DELETE nx (Some e) e = Inr (nx, nx e)"
  by (simp add: LL_DELETE_def)

end
