(* ===== verification/Reassembly_Heap.thy ===== *)
theory Reassembly_Heap
  imports Reassembly Uthash Utlist
begin

text \<open>
  The reassembly of \<^verbatim>\<open>lib/wpc/reassembly/reassembly.c\<close> with its pointers: packets, fragments and their
  bytes are blocks of memory, allocated and freed; the packets are elements of the hash of \<^verbatim>\<open>uthash.h\<close>
  and the fragments form a list of \<^verbatim>\<open>utlist.h\<close>. Blocks of each type have a memory of their own; a block
  holds anything when it is allocated and again once it is freed, and freeing what is not allocated
  is undefined. The allocator is that of the theory \<^verbatim>\<open>Uthash\<close>, which the hash uses for its table and its buckets: one
  set of blocks in use, and a function \<open>place\<close> for the strategy of \<^verbatim>\<open>Platform_malloc\<close>; it may reuse addresses, and
  all that is assumed of it is that it never returns a block in use. Whether an allocation succeeds
  comes from two scripts, one for the allocations of the hash and one for the others: any sequence of
  outcomes splits into the two by who asks.

  The theory \<^verbatim>\<open>Reassembly\<close> has the same operations on an association list of packets. The lemmas here
  show that the operations on pointers behave like those, whatever the blocks held before, and that
  they free all they allocate.
\<close>

section \<open>State\<close>

record packet_block =
  pk_src_add :: u32
  pk_packet_id :: u16
  pk_full_size :: nat
  pk_is_full :: bool
  pk_head :: "node option"
  pk_timestamp_ms_epoch_last :: u64

record fragment_block =
  fb_bytes :: nat
  fb_size :: nat
  fb_offset :: nat

text \<open>What freed memory holds.\<close>

record garbage =
  any_packet :: packet_block
  any_fragment :: fragment_block
  any_next :: "node option"
  any_bytes :: "u8 list"
  any_handle :: UT_hash_handle

record heap = msap +
  garbage :: garbage
  heap_mallocs :: "bool list"
  packet_blocks :: "nat \<Rightarrow> packet_block"
  fragment_blocks :: "nat \<Rightarrow> fragment_block"
  next_links :: links
  byte_blocks :: "nat \<Rightarrow> u8 list"
  packets_hash :: hash
  max_duration_s :: u32
  queue_empty :: bool
  last_gc_ts_ms :: u64

section \<open>Memory\<close>

definition heap_malloc :: "('z heap_scheme, nat option) prog" where
  "heap_malloc s =
     (let ok = (case heap_mallocs s of [] \<Rightarrow> True | ok # _ \<Rightarrow> ok); rest = tl (heap_mallocs s);
          h = packets_hash s; a = place h (live h) in
      if ok then Inr (Some a, s\<lparr>heap_mallocs := rest, packets_hash := h\<lparr>live := insert a (live h)\<rparr>\<rparr>)
      else Inr (None, s\<lparr>heap_mallocs := rest\<rparr>))"

definition heap_free :: "nat \<Rightarrow> ('z heap_scheme, unit) prog" where
  "heap_free a =
     andthen (gets (\<lambda>s. live (packets_hash s))) (\<lambda>used.
     if a \<notin> used then halt Undefined
     else modify (\<lambda>s. s\<lparr>packet_blocks := (packet_blocks s)(a := any_packet (garbage s)),
       fragment_blocks := (fragment_blocks s)(a := any_fragment (garbage s)),
       next_links := (next_links s)(a := any_next (garbage s)),
       byte_blocks := (byte_blocks s)(a := any_bytes (garbage s)),
       packets_hash := (packets_hash s)\<lparr>handles := (handles (packets_hash s))(a := any_handle (garbage s)),
         live := used - {a}\<rparr>\<rparr>))"

text \<open>Freeing a null pointer does nothing.\<close>

definition free_pointer :: "nat option \<Rightarrow> ('z heap_scheme, unit) prog" where
  "free_pointer p = (case p of None \<Rightarrow> ret () | Some a \<Rightarrow> heap_free a)"

definition on_hash :: "(hash, 'a) prog \<Rightarrow> ('z heap_scheme, 'a) prog" where
  "on_hash m s = (case m (packets_hash s) of Inl e \<Rightarrow> Inl e | Inr (x, h) \<Rightarrow> Inr (x, s\<lparr>packets_hash := h\<rparr>))"

definition store_packet :: "nat \<Rightarrow> (packet_block \<Rightarrow> packet_block) \<Rightarrow> ('z heap_scheme, unit) prog" where
  "store_packet p f = modify (\<lambda>s. s\<lparr>packet_blocks := (packet_blocks s)(p := f (packet_blocks s p))\<rparr>)"

section \<open>Operations\<close>

text \<open>The key: the bytes of a packed structure.\<close>

definition packet_key_bytes :: "u32 \<Rightarrow> u16 \<Rightarrow> u8 list" where
  "packet_key_bytes src_add packet_id = host_store32 src_add @ host_store16 packet_id"

definition find_packet :: "u32 \<Rightarrow> u16 \<Rightarrow> ('z heap_scheme, nat option) prog" where
  "find_packet src_add packet_id = on_hash (HASH_FIND (packet_key_bytes src_add packet_id))"

definition zero_handle :: UT_hash_handle where
  "zero_handle = \<lparr>app_prev = None, app_next = None, hh_prev = None, hh_next = None, hh_key = [], hashv = 0\<rparr>"

definition create_packet :: "u32 \<Rightarrow> u16 \<Rightarrow> ('z heap_scheme, nat option) prog" where
  "create_packet src_add packet_id =
     andthen heap_malloc (\<lambda>p.
     case p of None \<Rightarrow> ret None
     | Some p \<Rightarrow>
         andthen (store_packet p (\<lambda>_. \<lparr>pk_src_add = src_add, pk_packet_id = packet_id, pk_full_size = 0, pk_is_full = False,
           pk_head = None, pk_timestamp_ms_epoch_last = 0\<rparr>)) (\<lambda>_.
         andthen (on_hash (store p (\<lambda>_. zero_handle))) (\<lambda>_.
         andthen (on_hash (HASH_ADD (packet_key_bytes src_add packet_id) p)) (\<lambda>_. ret (Some p)))))"

text \<open>A fragment whose two blocks are allocated: they are filled, and it becomes the first of the list.\<close>

definition insert_fragment :: "nat \<Rightarrow> reassembly_fragment \<Rightarrow> nat \<Rightarrow> nat \<Rightarrow> ('z heap_scheme, unit) prog" where
  "insert_fragment p frag f data =
     andthen (modify (\<lambda>s. s\<lparr>byte_blocks := (byte_blocks s)(data := fr_bytes frag)\<rparr>)) (\<lambda>_.
     andthen (modify (\<lambda>s. s\<lparr>fragment_blocks := (fragment_blocks s)
       (f := \<lparr>fb_bytes = data, fb_size = length (fr_bytes frag), fb_offset = fr_offset frag\<rparr>),
       next_links := (next_links s)(f := None)\<rparr>)) (\<lambda>_.
     andthen (gets (\<lambda>s. LL_PREPEND (next_links s) (pk_head (packet_blocks s p)) f)) (\<lambda>(nx, head).
     andthen (modify (\<lambda>s. s\<lparr>next_links := nx\<rparr>)) (\<lambda>_.
     andthen (store_packet p (\<lambda>b. b\<lparr>pk_head := head\<rparr>)) (\<lambda>_.
     andthen (if fr_last frag then store_packet p (\<lambda>b. b\<lparr>pk_full_size := fr_offset frag + length (fr_bytes frag)\<rparr>)
       else ret ()) (\<lambda>_.
     andthen Platform_get_timestamp_ms_monotonic (\<lambda>now.
     store_packet p (\<lambda>b. b\<lparr>pk_timestamp_ms_epoch_last := now\<rparr>))))))))"

definition add_fragment :: "nat \<Rightarrow> reassembly_fragment \<Rightarrow> ('z heap_scheme, bool) prog" where
  "add_fragment p frag =
     andthen (walk (\<lambda>s. LL_SEARCH_SCALAR (next_links s) (\<lambda>f. fb_offset (fragment_blocks s f) = fr_offset frag)
       (pk_head (packet_blocks s p)))) (\<lambda>f.
     if f \<noteq> None then ret False
     else
       andthen heap_malloc (\<lambda>f.
       andthen heap_malloc (\<lambda>data.
       case (f, data) of
         (Some f, Some data) \<Rightarrow> andthen (insert_fragment p frag f data) (\<lambda>_. ret True)
       | _ \<Rightarrow>
           andthen (free_pointer f) (\<lambda>_.
           andthen (free_pointer data) (\<lambda>_. ret False)))))"

definition packet_is_full :: "nat \<Rightarrow> ('z heap_scheme, bool) prog" where
  "packet_is_full p =
     andthen (gets (\<lambda>s. packet_blocks s p)) (\<lambda>b.
     if pk_is_full b then ret True
     else if pk_full_size b = 0 then ret False
     else
       andthen (walk (\<lambda>s. LL_FOREACH (next_links s) (\<lambda>f n. n + fb_size (fragment_blocks s f)) (pk_head b) 0)) (\<lambda>rx_size.
       if rx_size = pk_full_size b then andthen (store_packet p (\<lambda>b. b\<lparr>pk_is_full := True\<rparr>)) (\<lambda>_. ret True)
       else ret False))"

text \<open>One round of the loops that release the fragments. The state of the loop is the heap together with
  the buffer of the caller.\<close>

definition on_heap :: "('z heap_scheme, 'a) prog \<Rightarrow> ('z heap_scheme \<times> 'b, 'a) prog" where
  "on_heap m st = (case m (fst st) of Inl e \<Rightarrow> Inl e | Inr (x, s) \<Rightarrow> Inr (x, s, snd st))"

definition copy_out :: "node \<Rightarrow> ('z heap_scheme \<times> u8 list, unit) prog" where
  "copy_out f st =
     (let (s, buffer) = st; b = fragment_blocks s f; bytes = take (fb_size b) (byte_blocks s (fb_bytes b)) in
      if length bytes = fb_size b \<and> fb_offset b + fb_size b \<le> length buffer
      then Inr ((), s, blit buffer (fb_offset b) bytes) else Inl Undefined)"

definition delete_fragment :: "nat \<Rightarrow> node \<Rightarrow> ('z heap_scheme, unit) prog" where
  "delete_fragment p f =
     andthen (gets (\<lambda>s. LL_DELETE (next_links s) (pk_head (packet_blocks s p)) f)) (\<lambda>r.
     andthen (lift_sum r) (\<lambda>(nx, head).
     andthen (modify (\<lambda>s. s\<lparr>next_links := nx\<rparr>)) (\<lambda>_.
     store_packet p (\<lambda>b. b\<lparr>pk_head := head\<rparr>))))"

definition release_fragment :: "nat \<Rightarrow> node \<Rightarrow> ('z heap_scheme, unit) prog" where
  "release_fragment p f =
     andthen (gets (\<lambda>s. fb_bytes (fragment_blocks s f))) (\<lambda>data.
     andthen (heap_free data) (\<lambda>_.
     andthen (delete_fragment p f) (\<lambda>_.
     heap_free f)))"

definition release_packet :: "nat \<Rightarrow> ('z heap_scheme, unit) prog" where
  "release_packet p = andthen (on_hash (HASH_DELETE p)) (\<lambda>_. heap_free p)"

definition update_queue_empty :: "('z heap_scheme, unit) prog" where
  "update_queue_empty =
     andthen (on_hash HASH_CNT) (\<lambda>n. modify (\<lambda>s. s\<lparr>queue_empty := (n = 0)\<rparr>))"

definition reassemble_packet :: "nat \<Rightarrow> u8 list \<Rightarrow> nat \<Rightarrow> ('z heap_scheme, bool \<times> u8 list \<times> nat) prog" where
  "reassemble_packet p buffer size_p =
     andthen (gets (\<lambda>s. packet_blocks s p)) (\<lambda>b.
     if \<not> pk_is_full b then ret (False, buffer, 0)
     else if size_p < pk_full_size b then ret (False, buffer, size_p)
     else
       andthen (\<lambda>s.
         case loop (LL_FOREACH_SAFE (\<lambda>st. next_links (fst st)) (\<lambda>f. andthen (copy_out f) (\<lambda>_. on_heap (release_fragment p f)))
           (pk_head b)) (s, buffer) of
           Inl e \<Rightarrow> Inl e | Inr (_, s', buffer') \<Rightarrow> Inr (buffer', s')) (\<lambda>buffer'.
       andthen (gets (\<lambda>s. pk_full_size (packet_blocks s p))) (\<lambda>written.
       andthen (release_packet p) (\<lambda>_.
       andthen update_queue_empty (\<lambda>_.
       ret (True, buffer', written))))))"

definition heap_add_fragment :: "reassembly_fragment \<Rightarrow> ('z heap_scheme, bool \<times> nat) prog" where
  "heap_add_fragment frag =
     andthen (modify (\<lambda>s. s\<lparr>queue_empty := False\<rparr>)) (\<lambda>_.
     andthen (find_packet (fr_src_add frag) (fr_packet_id frag)) (\<lambda>p.
     andthen (case p of None \<Rightarrow> create_packet (fr_src_add frag) (fr_packet_id frag) | Some p \<Rightarrow> ret (Some p)) (\<lambda>p.
     case p of None \<Rightarrow> ret (False, 0)
     | Some p \<Rightarrow>
       andthen (add_fragment p frag) (\<lambda>added.
       if \<not> added then ret (False, 0)
       else
         andthen (packet_is_full p) (\<lambda>full.
         andthen (gets (\<lambda>s. pk_full_size (packet_blocks s p))) (\<lambda>size.
         ret (True, if full then size else 0)))))))"

definition heap_get_full_message :: "u32 \<Rightarrow> u16 \<Rightarrow> u8 list \<Rightarrow> nat \<Rightarrow> ('z heap_scheme, bool \<times> u8 list \<times> nat) prog" where
  "heap_get_full_message src_add packet_id buffer size_p =
     andthen (find_packet src_add packet_id) (\<lambda>p.
     case p of None \<Rightarrow> ret (False, buffer, size_p) | Some p \<Rightarrow> reassemble_packet p buffer size_p)"

definition collect_packet :: "nat \<Rightarrow> ('z heap_scheme, unit) prog" where
  "collect_packet p =
     andthen Platform_get_timestamp_ms_monotonic (\<lambda>now.
     andthen (gets (\<lambda>s. ucast ((now - pk_timestamp_ms_epoch_last (packet_blocks s p)) div 1000) :: u32)) (\<lambda>last_activity.
     andthen (gets max_duration_s) (\<lambda>max_duration.
     if last_activity > max_duration then
       andthen (gets (\<lambda>s. pk_head (packet_blocks s p))) (\<lambda>head.
       andthen (loop (LL_FOREACH_SAFE next_links (release_fragment p) head)) (\<lambda>_.
       release_packet p))
     else ret ())))"

definition heap_garbage_collect :: "('z heap_scheme, unit) prog" where
  "heap_garbage_collect =
     andthen (gets max_duration_s) (\<lambda>max_duration.
     if max_duration > 0 then
       andthen Platform_get_timestamp_ms_monotonic (\<lambda>now.
       andthen (gets last_gc_ts_ms) (\<lambda>last_gc.
       if now - last_gc > MIN_GARBAGE_COLLECT_PERIOD_S * 1000 then
         andthen Platform_get_timestamp_ms_monotonic (\<lambda>now'.
         andthen (modify (\<lambda>s. s\<lparr>last_gc_ts_ms := now'\<rparr>)) (\<lambda>_.
         andthen (HASH_ITER packets_hash collect_packet) (\<lambda>_.
         update_queue_empty)))
       else ret ()))
     else ret ())"

definition heap_set_max_fragment_duration :: "u32 \<Rightarrow> ('z heap_scheme, unit) prog" where
  "heap_set_max_fragment_duration duration = modify (\<lambda>s. s\<lparr>max_duration_s := duration\<rparr>)"

definition heap_is_queue_empty :: "('z heap_scheme, bool) prog" where
  "heap_is_queue_empty = gets queue_empty"

section \<open>What the memory holds\<close>

text \<open>A packet with the addresses of its fragments, its key, its content as in the theory \<^verbatim>\<open>Reassembly\<close>, and
  the blocks that it consists of.\<close>

type_synonym tree = "nat \<times> nat list"

definition tree_key :: "'z heap_scheme \<Rightarrow> tree \<Rightarrow> packet_key" where
  "tree_key h t = (pk_src_add (packet_blocks h (fst t)), pk_packet_id (packet_blocks h (fst t)))"

definition piece :: "'z heap_scheme \<Rightarrow> nat \<Rightarrow> internal_fragment" where
  "piece h f = (fb_offset (fragment_blocks h f), byte_blocks h (fb_bytes (fragment_blocks h f)))"

definition tree_packet :: "'z heap_scheme \<Rightarrow> tree \<Rightarrow> full_packet" where
  "tree_packet h t = (let b = packet_blocks h (fst t) in
     \<lparr>fp_full_size = pk_full_size b, fp_is_full = pk_is_full b, fp_head = map (piece h) (snd t),
      fp_timestamp_ms_epoch_last = pk_timestamp_ms_epoch_last b\<rparr>)"

definition tree_blocks :: "'z heap_scheme \<Rightarrow> tree \<Rightarrow> nat list" where
  "tree_blocks h t = fst t # concat (map (\<lambda>f. [f, fb_bytes (fragment_blocks h f)]) (snd t))"

definition tree_ok :: "'z heap_scheme \<Rightarrow> tree \<Rightarrow> bool" where
  "tree_ok h t \<longleftrightarrow> chain (next_links h) (pk_head (packet_blocks h (fst t))) (snd t)
     \<and> (\<forall>f \<in> set (snd t). fb_size (fragment_blocks h f) = length (byte_blocks h (fb_bytes (fragment_blocks h f))))"

definition blocks :: "'z heap_scheme \<Rightarrow> tree list \<Rightarrow> nat list" where
  "blocks h ts = concat (map (tree_blocks h) ts)"

definition contents :: "'z heap_scheme \<Rightarrow> tree list \<Rightarrow> (packet_key \<times> full_packet) list" where
  "contents h ts = map (\<lambda>t. (tree_key h t, tree_packet h t)) ts"

definition tree_entries :: "'z heap_scheme \<Rightarrow> tree list \<Rightarrow> entries" where
  "tree_entries h ts = map (\<lambda>t. (case tree_key h t of (src_add, packet_id) \<Rightarrow> packet_key_bytes src_add packet_id, fst t)) ts"

text \<open>The blocks in use, but those of the hash, are exactly those of the packets, each once, and the hash holds
  the packets.\<close>

abbreviation own_blocks :: "'z heap_scheme \<Rightarrow> nat set" where
  "own_blocks h \<equiv> callers_blocks (packets_hash h)"

definition forest :: "'z heap_scheme \<Rightarrow> tree list \<Rightarrow> bool" where
  "forest h ts \<longleftrightarrow> stands_for (packets_hash h) (tree_entries h ts) \<and> (\<forall>t \<in> set ts. tree_ok h t)
     \<and> distinct (blocks h ts) \<and> own_blocks h = set (blocks h ts)"

lemmas tree_defs = tree_key_def piece_def tree_packet_def tree_blocks_def tree_ok_def

lemma blocks_simps [simp]:
  "blocks h [] = []" "blocks h (t # ts) = tree_blocks h t @ blocks h ts" "blocks h (xs @ ys) = blocks h xs @ blocks h ys"
  by (simp_all add: blocks_def)

lemma contents_simps [simp]:
  "contents h [] = []" "contents h (t # ts) = (tree_key h t, tree_packet h t) # contents h ts"
  "contents h (xs @ ys) = contents h xs @ contents h ys" "length (contents h ts) = length ts"
  by (simp_all add: contents_def)

lemma tree_entries_simps [simp]:
  "tree_entries h [] = []" "tree_entries h (xs @ ys) = tree_entries h xs @ tree_entries h ys"
  "tree_entries h (t # ts) = (packet_key_bytes (fst (tree_key h t)) (snd (tree_key h t)), fst t) # tree_entries h ts"
  "length (tree_entries h ts) = length ts" "snd ` set (tree_entries h ts) = fst ` set ts"
  by (auto simp: tree_entries_def image_image split: prod.splits)

lemma tree_blocks_simps [simp]:
  "tree_blocks h (p, []) = [p]" "fst t \<in> set (tree_blocks h t)"
  "f \<in> set (snd t) \<Longrightarrow> f \<in> set (tree_blocks h t)"
  "f \<in> set (snd t) \<Longrightarrow> fb_bytes (fragment_blocks h f) \<in> set (tree_blocks h t)"
  by (auto simp: tree_blocks_def)

lemma roots_in_blocks: "t \<in> set ts \<Longrightarrow> fst t \<in> set (blocks h ts)"
  by (auto simp: blocks_def intro: bexI [of _ t])

lemma entry_roots:
  assumes "a \<notin> set (blocks h (xs @ ys))" "a \<noteq> fst t"
  shows "a \<notin> snd ` set (tree_entries h (xs @ t # ys))"
proof -
  have "snd ` set (tree_entries h (xs @ t # ys)) = insert (fst t) (fst ` set (xs @ ys))" by (simp add: image_Un)
  with assms roots_in_blocks [of _ "xs @ ys" h] show ?thesis by auto
qed

text \<open>Memories that agree on the blocks of a packet hold the same packet.\<close>

definition agree :: "nat set \<Rightarrow> 'z heap_scheme \<Rightarrow> 'z heap_scheme \<Rightarrow> bool" where
  "agree B h k \<longleftrightarrow> (\<forall>a \<in> B. packet_blocks h a = packet_blocks k a \<and> fragment_blocks h a = fragment_blocks k a
     \<and> next_links h a = next_links k a \<and> byte_blocks h a = byte_blocks k a)"

lemma chain_cong: "(\<And>e. e \<in> set es \<Longrightarrow> nx e = nx' e) \<Longrightarrow> chain nx p es = chain nx' p es"
  by (induction es arbitrary: p) auto

lemma tree_agree:
  assumes "agree (set (tree_blocks h t)) h k"
  shows "tree_key k t = tree_key h t" "tree_packet k t = tree_packet h t" "tree_blocks k t = tree_blocks h t"
    "tree_ok k t = tree_ok h t"
proof -
  have p: "packet_blocks k (fst t) = packet_blocks h (fst t)" using assms by (simp add: agree_def)
  have f: "fragment_blocks k f = fragment_blocks h f" "next_links k f = next_links h f"
    "byte_blocks k (fb_bytes (fragment_blocks h f)) = byte_blocks h (fb_bytes (fragment_blocks h f))" if "f \<in> set (snd t)" for f
    using assms tree_blocks_simps(3,4) [OF that] unfolding agree_def by metis+
  show "tree_key k t = tree_key h t" "tree_packet k t = tree_packet h t" "tree_blocks k t = tree_blocks h t"
    using p f by (auto simp: tree_key_def tree_packet_def tree_blocks_def piece_def Let_def intro!: arg_cong [of _ _ concat])
  show "tree_ok k t = tree_ok h t"
    using p f chain_cong [of "snd t" "next_links k" "next_links h"] by (simp add: tree_ok_def)
qed

lemma trees_agree:
  assumes "agree (set (blocks h ts)) h k"
  shows "contents k ts = contents h ts" "blocks k ts = blocks h ts" "tree_entries k ts = tree_entries h ts"
    "(\<forall>t \<in> set ts. tree_ok k t) \<longleftrightarrow> (\<forall>t \<in> set ts. tree_ok h t)"
proof -
  have a: "agree (set (tree_blocks h t)) h k" if "t \<in> set ts" for t
    using assms that by (fastforce simp: agree_def blocks_def)
  note same = tree_agree [OF a]
  show "contents k ts = contents h ts" "tree_entries k ts = tree_entries h ts" using same by (auto simp: contents_def tree_entries_def)
  show "blocks k ts = blocks h ts" unfolding blocks_def by (intro arg_cong [of _ _ concat] map_cong refl same)
  show "(\<forall>t \<in> set ts. tree_ok k t) \<longleftrightarrow> (\<forall>t \<in> set ts. tree_ok h t)" using same by simp
qed

text \<open>One packet changes; its address and its key stay.\<close>

lemma forest_change:
  assumes "forest h (xs @ t # ys)" "agree (set (blocks h (xs @ ys))) h k" "fst t' = fst t" "tree_key k t' = tree_key h t"
    and "stands_for (packets_hash k) (tree_entries h (xs @ t # ys))" "tree_ok k t'" "distinct (tree_blocks k t')"
    and "set (tree_blocks k t') \<inter> set (blocks h (xs @ ys)) = {}" "own_blocks k = set (blocks h (xs @ ys)) \<union> set (tree_blocks k t')"
  shows "forest k (xs @ t' # ys)"
    "contents k (xs @ t' # ys) = contents h xs @ (tree_key h t, tree_packet k t') # contents h ys"
proof -
  have a: "agree (set (blocks h xs)) h k" "agree (set (blocks h ys)) h k" using assms(2) by (auto simp: agree_def)
  show "contents k (xs @ t' # ys) = contents h xs @ (tree_key h t, tree_packet k t') # contents h ys"
    using trees_agree(1) [OF a(1)] trees_agree(1) [OF a(2)] assms(4) by simp
  have "stands_for (packets_hash k) (tree_entries k (xs @ t' # ys))"
    using assms(3-5) trees_agree(3) [OF a(1)] trees_agree(3) [OF a(2)] by simp
  moreover have "\<forall>u \<in> set (xs @ t' # ys). tree_ok k u"
    using assms(1,6) trees_agree(4) [OF a(1)] trees_agree(4) [OF a(2)] by (auto simp: forest_def)
  moreover have "distinct (blocks k (xs @ t' # ys))"
    using assms(1,7,8) trees_agree(2) [OF a(1)] trees_agree(2) [OF a(2)] by (auto simp: forest_def)
  ultimately show "forest k (xs @ t' # ys)"
    using assms(1,9) trees_agree(2) [OF a(1)] trees_agree(2) [OF a(2)] by (auto simp: forest_def)
qed

section \<open>Freeing\<close>

definition statics :: "'z heap_scheme \<Rightarrow> u64 list \<times> bool list \<times> u32 \<times> bool \<times> u64" where
  "statics h = (io_clock h, heap_mallocs h, max_duration_s h, queue_empty h, last_gc_ts_ms h)"

definition freed :: "nat \<Rightarrow> 'z heap_scheme \<Rightarrow> 'z heap_scheme" where
  "freed a s = s\<lparr>packet_blocks := (packet_blocks s)(a := any_packet (garbage s)),
       fragment_blocks := (fragment_blocks s)(a := any_fragment (garbage s)),
       next_links := (next_links s)(a := any_next (garbage s)),
       byte_blocks := (byte_blocks s)(a := any_bytes (garbage s)),
       packets_hash := (packets_hash s)\<lparr>handles := (handles (packets_hash s))(a := any_handle (garbage s)),
         live := live (packets_hash s) - {a}\<rparr>\<rparr>"

lemma heap_free_run: "heap_free a h = (if a \<in> live (packets_hash h) then Inr ((), freed a h) else Inl Undefined)"
  by (simp add: heap_free_def freed_def prog_simps)

lemma freed_fields [simp]:
  "live (packets_hash (freed a h)) = live (packets_hash h) - {a}" "own_blocks (freed a h) = own_blocks h - {a}"
  "statics (freed a h) = statics h"
  "packet_blocks (freed a h) b = (if b = a then any_packet (garbage h) else packet_blocks h b)"
  "fragment_blocks (freed a h) b = (if b = a then any_fragment (garbage h) else fragment_blocks h b)"
  "next_links (freed a h) b = (if b = a then any_next (garbage h) else next_links h b)"
  "byte_blocks (freed a h) b = (if b = a then any_bytes (garbage h) else byte_blocks h b)"
  by (auto simp: freed_def statics_def callers_blocks_def hash_blocks_def table_blocks_def)

lemma own_blocks_used: "a \<in> own_blocks h \<Longrightarrow> a \<in> live (packets_hash h)"
  by (simp add: callers_blocks_def)

lemma statics_update [simp]:
  "statics (h\<lparr>packet_blocks := f\<rparr>) = statics h" "statics (h\<lparr>fragment_blocks := g\<rparr>) = statics h"
  "statics (h\<lparr>next_links := n\<rparr>) = statics h" "statics (h\<lparr>byte_blocks := b\<rparr>) = statics h"
  "statics (h\<lparr>packets_hash := t\<rparr>) = statics h"
  by (simp_all add: statics_def)

lemma agree_freed [simp]: "a \<notin> B \<Longrightarrow> agree B h (freed a k) = agree B h k"
  by (auto simp: agree_def)

lemma agree_refl [simp]: "agree B h h"
  by (simp add: agree_def)

lemma hash_freed:
  assumes "stands_for (packets_hash h) es" "a \<notin> snd ` set es" "a \<in> own_blocks h"
  shows "stands_for (packets_hash (freed a h)) es"
proof -
  let ?s = "(packets_hash h)\<lparr>handles := (handles (packets_hash h))(a := any_handle (garbage h))\<rparr>"
  have "stands_for ?s es" using stands_for_frame [OF assms(1,2)] .
  then have "stands_for (?s\<lparr>live := live (packets_hash h) - {a}\<rparr>) es"
    using stands_for_allocator(1,2) [of ?s es] assms(3)
    by (intro stands_for_live) (auto simp: allocator_ok_def callers_blocks_def hash_blocks_def table_blocks_def)
  then show ?thesis by (simp add: freed_def)
qed

text \<open>The first fragment of a packet is released.\<close>

lemma release_fragment_run:
  assumes "forest h (xs @ (p, f # fs) # ys)"
  obtains k where "release_fragment p f h = Inr ((), k)" "forest k (xs @ (p, fs) # ys)" "statics k = statics h"
    "contents k (xs @ (p, fs) # ys) = contents h xs
      @ (tree_key h (p, f # fs), (tree_packet h (p, f # fs))\<lparr>fp_head := map (piece h) fs\<rparr>) # contents h ys"
proof -
  let ?d = "fb_bytes (fragment_blocks h f)"
  let ?h = "freed ?d h"
  let ?u = "?h\<lparr>packet_blocks := (packet_blocks ?h)(p := (packet_blocks ?h p)\<lparr>pk_head := next_links ?h f\<rparr>)\<rparr>"
  let ?k = "freed f ?u"
  have d: "distinct (blocks h (xs @ (p, f # fs) # ys))" and live: "own_blocks h = set (blocks h (xs @ (p, f # fs) # ys))"
    and ok: "tree_ok h (p, f # fs)" and hash: "stands_for (packets_hash h) (tree_entries h (xs @ (p, f # fs) # ys))"
    using assms by (auto simp: forest_def)
  have bl: "tree_blocks h (p, f # fs) = p # f # ?d # tl (tree_blocks h (p, fs))" by (simp add: tree_blocks_def)
  have ne: "p \<noteq> f" "p \<noteq> ?d" "f \<noteq> ?d" using d by (auto simp: bl)
  have fs: "g \<noteq> ?d" "g \<noteq> f" "g \<noteq> p" "fb_bytes (fragment_blocks h g) \<noteq> ?d" "fb_bytes (fragment_blocks h g) \<noteq> f" if "g \<in> set fs" for g
    using d that by (auto simp: tree_blocks_def)
  have "?d \<in> own_blocks h" "f \<in> own_blocks h" using live by (simp_all add: bl)
  note used = own_blocks_used [OF this(1)] own_blocks_used [OF this(2)]
  have run: "release_fragment p f h = Inr ((), ?k)"
    using ok used ne by (simp add: release_fragment_def delete_fragment_def heap_free_run delete_first store_packet_def
        tree_ok_def tree_blocks_def prog_simps)
  have k: "tree_blocks ?k (p, fs) = tree_blocks h (p, fs)" "tree_ok ?k (p, fs)"
    "tree_key ?k (p, fs) = tree_key h (p, f # fs)"
    "tree_packet ?k (p, fs) = (tree_packet h (p, f # fs))\<lparr>fp_head := map (piece h) fs\<rparr>"
    using ok ne fs chain_cong [of fs "next_links ?k" "next_links h"]
    by (auto simp: tree_defs Let_def intro!: arg_cong [of _ _ concat])
  have "f \<notin> snd ` set (tree_entries h (xs @ (p, f # fs) # ys))" "?d \<notin> snd ` set (tree_entries h (xs @ (p, f # fs) # ys))"
    using d ne by (intro entry_roots; auto simp: bl)+
  then have hash': "stands_for (packets_hash ?k) (tree_entries h (xs @ (p, f # fs) # ys))"
    using hash_freed [of ?u] hash_freed [OF hash, of ?d] \<open>?d \<in> own_blocks h\<close> \<open>f \<in> own_blocks h\<close> ne by simp
  have ag: "agree (set (blocks h (xs @ ys))) h ?k" using d by (auto simp: bl agree_def)
  obtain r where r: "tree_blocks h (p, fs) = p # r" by (simp add: tree_blocks_def)
  have "distinct (p # f # ?d # r)" "set (p # f # ?d # r) \<inter> set (blocks h (xs @ ys)) = {}"
    "own_blocks ?k = set (blocks h (xs @ ys)) \<union> set (p # f # ?d # r) - {?d} - {f}"
    using d live by (auto simp: bl r)
  then have own: "distinct (tree_blocks h (p, fs))" "set (tree_blocks h (p, fs)) \<inter> set (blocks h (xs @ ys)) = {}"
    "own_blocks ?k = set (blocks h (xs @ ys)) \<union> set (tree_blocks h (p, fs))"
    unfolding r by auto
  have st: "statics ?k = statics h" by simp
  note change = forest_change [OF assms ag _ k(3) hash' k(2), unfolded k(1,4) fst_conv, OF refl own]
  show ?thesis by (rule that [OF run change(1) st change(2)])
qed

text \<open>The state of the heap while the fragments of the packet \<open>p\<close> are released, \<open>fs\<close> being those left.\<close>

definition releasing :: "'z heap_scheme \<Rightarrow> tree list \<Rightarrow> tree \<Rightarrow> tree list \<Rightarrow> nat list \<Rightarrow> 'z heap_scheme \<Rightarrow> bool" where
  "releasing h xs t ys fs k \<longleftrightarrow> forest k (xs @ (fst t, fs) # ys) \<and> statics k = statics h
     \<and> contents k (xs @ (fst t, fs) # ys)
       = contents h xs @ (tree_key h t, (tree_packet h t)\<lparr>fp_head := map (piece h) fs\<rparr>) # contents h ys"

lemma releasing_start: "forest h (xs @ t # ys) \<Longrightarrow> releasing h xs t ys (snd t) h"
  by (cases t) (simp add: releasing_def tree_packet_def Let_def)

lemma releasing_pieces:
  assumes "releasing h xs t ys fs k" "f \<in> set fs"
  shows "piece k f = piece h f" "fb_size (fragment_blocks k f) = length (byte_blocks k (fb_bytes (fragment_blocks k f)))"
proof -
  have "map (piece k) fs = map (piece h) fs" using assms(1) by (simp add: releasing_def tree_packet_def Let_def)
  with assms(2) show "piece k f = piece h f" by simp
  show "fb_size (fragment_blocks k f) = length (byte_blocks k (fb_bytes (fragment_blocks k f)))"
    using assms by (auto simp: releasing_def forest_def tree_ok_def)
qed

lemma releasing_chain:
  assumes "releasing h xs t ys (f # fs) k"
  shows "next_links k f = (case fs of [] \<Rightarrow> None | x # _ \<Rightarrow> Some x)"
proof -
  have "chain (next_links k) (next_links k f) fs" using assms by (simp add: releasing_def forest_def tree_ok_def)
  then show ?thesis by (cases fs) simp_all
qed

lemma releasing_head:
  assumes "forest h (xs @ t # ys)"
  shows "pk_head (packet_blocks h (fst t)) = (case snd t of [] \<Rightarrow> None | x # _ \<Rightarrow> Some x)"
proof -
  have "chain (next_links h) (pk_head (packet_blocks h (fst t))) (snd t)" using assms by (simp add: forest_def tree_ok_def)
  then show ?thesis by (cases "snd t") simp_all
qed

lemma releasing_step:
  assumes "releasing h xs t ys (f # fs) k"
  obtains u where "release_fragment (fst t) f k = Inr ((), u)" "releasing h xs t ys fs u"
proof -
  have k: "forest k (xs @ (fst t, f # fs) # ys)" using assms by (simp add: releasing_def)
  obtain u where u: "release_fragment (fst t) f k = Inr ((), u)" "forest u (xs @ (fst t, fs) # ys)" "statics u = statics k"
    "contents u (xs @ (fst t, fs) # ys) = contents k xs
      @ (tree_key k (fst t, f # fs), (tree_packet k (fst t, f # fs))\<lparr>fp_head := map (piece k) fs\<rparr>) # contents k ys"
    by (rule release_fragment_run [OF k])
  have "map (piece k) fs = map (piece h) fs" using releasing_pieces(1) [OF assms] by simp
  with u assms have "releasing h xs t ys fs u" by (simp add: releasing_def)
  with u(1) that show ?thesis by blast
qed

lemma each_ret: "each (\<lambda>e a. Inr a) es a = Inr a"
  by (induction es) simp_all

lemma release_all_run:
  assumes "forest h (xs @ t # ys)"
  obtains k where "loop (LL_FOREACH_SAFE next_links (release_fragment (fst t)) (pk_head (packet_blocks h (fst t)))) h = Inr ((), k)"
    "releasing h xs t ys [] k"
proof -
  have "case each (\<lambda>e (a :: unit). Inr a) (snd t) () of
      Inl x \<Rightarrow> LL_FOREACH_SAFE next_links (release_fragment (fst t)) (pk_head (packet_blocks h (fst t))) h = Some (Inl x)
    | Inr b \<Rightarrow> \<exists>k. LL_FOREACH_SAFE next_links (release_fragment (fst t)) (pk_head (packet_blocks h (fst t))) h = Some (Inr ((), k))
        \<and> releasing h xs t ys [] k"
  proof (rule foreach_safe_simulates [where R = "\<lambda>fs a k. releasing h xs t ys fs k"])
    fix e es a k assume k: "releasing h xs t ys (e # es) k"
    show "case Inr a of Inl x \<Rightarrow> release_fragment (fst t) e k = Inl x
      | Inr b \<Rightarrow> \<exists>u. release_fragment (fst t) e k = Inr ((), u) \<and> releasing h xs t ys es u"
      using releasing_step [OF k] by (auto intro: exI)
  qed (use assms releasing_start releasing_chain releasing_head in blast)+
  with that show ?thesis by (auto simp: each_ret loop_def)
qed

lemma copy_each: "each (\<lambda>f buffer. copy_fragments [piece h f] buffer) fs buffer = copy_fragments (map (piece h) fs) buffer"
  by (induction fs arbitrary: buffer) (auto simp: piece_def split: sum.splits)

lemma copy_all_run:
  assumes "forest h (xs @ t # ys)"
  defines "body \<equiv> (\<lambda>f. andthen (copy_out f) (\<lambda>_. on_heap (release_fragment (fst t) f)))"
  shows "case copy_fragments (fp_head (tree_packet h t)) buffer of
      Inl x \<Rightarrow> loop (LL_FOREACH_SAFE (\<lambda>st. next_links (fst st)) body (pk_head (packet_blocks h (fst t)))) (h, buffer) = Inl x
    | Inr buffer' \<Rightarrow> \<exists>k. loop (LL_FOREACH_SAFE (\<lambda>st. next_links (fst st)) body (pk_head (packet_blocks h (fst t)))) (h, buffer)
        = Inr ((), k, buffer') \<and> releasing h xs t ys [] k"
proof -
  let ?R = "\<lambda>fs b st. releasing h xs t ys fs (fst st) \<and> snd st = b"
  have "case each (\<lambda>f buffer. copy_fragments [piece h f] buffer) (snd t) buffer of
      Inl x \<Rightarrow> LL_FOREACH_SAFE (\<lambda>st. next_links (fst st)) body (pk_head (packet_blocks h (fst t))) (h, buffer) = Some (Inl x)
    | Inr b \<Rightarrow> \<exists>st. LL_FOREACH_SAFE (\<lambda>st. next_links (fst st)) body (pk_head (packet_blocks h (fst t))) (h, buffer)
        = Some (Inr ((), st)) \<and> ?R [] b st"
  proof (rule foreach_safe_simulates [where R = ?R])
    fix e es a and st :: "'a heap_scheme \<times> u8 list" assume st: "?R (e # es) a st"
    then obtain k where k: "st = (k, a)" "releasing h xs t ys (e # es) k" by (cases st) auto
    have p: "piece k e = piece h e" "fb_size (fragment_blocks k e) = length (byte_blocks k (fb_bytes (fragment_blocks k e)))"
      using releasing_pieces [OF k(2)] by simp_all
    have c: "copy_out e (k, a) = (case copy_fragments [piece h e] a of Inl x \<Rightarrow> Inl x | Inr b \<Rightarrow> Inr ((), k, b))"
      unfolding p(1) [symmetric] using p(2) by (simp add: copy_out_def piece_def Let_def)
    obtain u where "release_fragment (fst t) e k = Inr ((), u)" "releasing h xs t ys es u" by (rule releasing_step [OF k(2)])
    then show "case copy_fragments [piece h e] a of Inl x \<Rightarrow> body e st = Inl x
      | Inr b \<Rightarrow> \<exists>st'. body e st = Inr ((), st') \<and> ?R es b st'"
      using c by (auto simp: k(1) body_def andthen_def on_heap_def split: sum.splits)
  next
    fix e es a and st :: "'a heap_scheme \<times> u8 list" assume "?R (e # es) a st"
    then show "next_links (fst st) e = (case es of [] \<Rightarrow> None | x # _ \<Rightarrow> Some x)" by (blast dest: releasing_chain)
  qed (simp_all add: releasing_start [OF assms(1)] releasing_head [OF assms(1)])
  then show ?thesis unfolding copy_each by (auto simp: tree_packet_def Let_def loop_def split: sum.splits)
qed

text \<open>A packet without fragments is released.\<close>

lemma release_packet_run:
  assumes "forest h (xs @ (p, []) # ys)"
  obtains k where "release_packet p h = Inr ((), k)" "forest k (xs @ ys)" "statics k = statics h"
    "contents k (xs @ ys) = contents h (xs @ ys)"
proof -
  have hash: "stands_for (packets_hash h) (tree_entries h (xs @ (p, []) # ys))" and live: "own_blocks h = insert p (set (blocks h (xs @ ys)))"
    and d: "distinct (blocks h (xs @ ys))" and p: "p \<notin> set (blocks h (xs @ ys))"
    using assms by (auto simp: forest_def)
  have other: "snd x \<noteq> p" if "x \<in> set (tree_entries h (xs @ ys))" for x
    using that p roots_in_blocks [of _ "xs @ ys" h] by (fastforce simp: tree_entries_def)
  then have f: "filter (\<lambda>x. snd x \<noteq> p) (tree_entries h (xs @ (p, []) # ys)) = tree_entries h (xs @ ys)"
    by (auto simp: filter_id_conv)
  have "p \<in> snd ` set (tree_entries h (xs @ (p, []) # ys))" by simp
  from stands_for_delete [OF hash this] obtain t where t: "HASH_DELETE p (packets_hash h) = Inr ((), t)" "stands_for t (tree_entries h (xs @ ys))"
    "same_callers (packets_hash h) t"
    unfolding f by blast
  then have own: "callers_blocks t = insert p (set (blocks h (xs @ ys)))" using live by (simp add: same_callers_def)
  then have "p \<in> live t" unfolding callers_blocks_def by blast
  let ?k = "freed p (h\<lparr>packets_hash := t\<rparr>)"
  have run: "release_packet p h = Inr ((), ?k)"
    using t(1) \<open>p \<in> live t\<close> by (simp add: release_packet_def on_hash_def heap_free_run andthen_def)
  have ag: "agree (set (blocks h (xs @ ys))) h ?k" using p by (auto simp: agree_def)
  note same = trees_agree [OF ag]
  have "stands_for (packets_hash ?k) (tree_entries h (xs @ ys))"
    using t(2) other own by (intro hash_freed) (auto simp del: tree_entries_simps)
  then have "forest ?k (xs @ ys)"
    using assms d own p same(2-4) unfolding forest_def by auto
  with run same(1) that show ?thesis by simp
qed

lemma update_queue_empty_run:
  assumes "forest h ts"
  shows "update_queue_empty h = Inr ((), h\<lparr>queue_empty := (ts = [])\<rparr>)"
proof -
  have hash: "stands_for (packets_hash h) (tree_entries h ts)" using assms by (simp add: forest_def)
  have "unat (of_nat (length ts) :: u32) = length ts"
    using stands_for_size [OF hash] by (intro unat_of_nat_u32) simp
  then have "(of_nat (length ts) :: u32) = 0 \<longleftrightarrow> ts = []" by (metis length_0_conv unat_eq_zero)
  then show ?thesis
    using stands_for_count [OF hash] by (simp add: update_queue_empty_def on_hash_def andthen_def modify_def)
qed

lemma static_update:
  fixes h k :: "'z heap_scheme"
  assumes "packet_blocks k = packet_blocks h" "fragment_blocks k = fragment_blocks h" "next_links k = next_links h"
    "byte_blocks k = byte_blocks h"
  shows "contents k ts = contents h ts" "packets_hash k = packets_hash h \<Longrightarrow> forest k ts = forest h ts"
proof -
  have "agree B h k" for B using assms by (simp add: agree_def)
  note same = trees_agree [OF this]
  show "contents k ts = contents h ts" by (rule same)
  show "packets_hash k = packets_hash h \<Longrightarrow> forest k ts = forest h ts"
    using same(2-4) [of ts] by (simp add: forest_def)
qed

lemma forest_static [simp]:
  "forest (h\<lparr>queue_empty := b\<rparr>) ts = forest h ts" "contents (h\<lparr>queue_empty := b\<rparr>) ts = contents h ts"
  "forest (h\<lparr>io_clock := c\<rparr>) ts = forest h ts" "contents (h\<lparr>io_clock := c\<rparr>) ts = contents h ts"
  "forest (h\<lparr>last_gc_ts_ms := n\<rparr>) ts = forest h ts" "contents (h\<lparr>last_gc_ts_ms := n\<rparr>) ts = contents h ts"
  "forest (h\<lparr>max_duration_s := m\<rparr>) ts = forest h ts" "contents (h\<lparr>max_duration_s := m\<rparr>) ts = contents h ts"
  by (rule static_update; simp)+

section \<open>The heap and the association list\<close>

definition store_statics :: "'z reassembly_scheme \<Rightarrow> u64 list \<times> bool list \<times> u32 \<times> bool \<times> u64" where
  "store_statics s = (io_clock s, mallocs s, m_fragment_max_duration_s s, m_is_queue_empty s, m_last_gc_ts_ms s)"

definition represented :: "'y heap_scheme \<Rightarrow> tree list \<Rightarrow> 'z reassembly_scheme \<Rightarrow> bool" where
  "represented h ts s \<longleftrightarrow> forest h ts \<and> m_packets s = contents h ts \<and> statics h = store_statics s"

lemma packet_key_bytes_inject [simp]: "packet_key_bytes a b = packet_key_bytes c d \<longleftrightarrow> a = c \<and> b = d"
  by (simp add: packet_key_bytes_def host_simps le16.enc_inject le32.enc_inject)

lemma map_of_tree_entries:
  "map_of (tree_entries h ts) (packet_key_bytes a b) = map_of (map (\<lambda>t. (tree_key h t, fst t)) ts) (a, b)"
proof (induction ts)
  case (Cons t ts)
  then show ?case by (cases "tree_key h t") auto
qed simp

lemma keys_distinct:
  assumes "forest h ts"
  shows "distinct (map (tree_key h) ts)"
proof -
  have "stands_for (packets_hash h) (tree_entries h ts)" using assms by (simp add: forest_def)
  then have "distinct (map fst (tree_entries h ts))" by (rule stands_for_keys)
  moreover have "map fst (tree_entries h ts) = map (\<lambda>k. packet_key_bytes (fst k) (snd k)) (map (tree_key h) ts)"
    by (induction ts) (auto simp: tree_entries_def split: prod.splits)
  ultimately show ?thesis by (simp only: distinct_map)
qed

lemma find_packet_run:
  assumes "forest h ts"
  shows "find_packet a b h = Inr (map_of (map (\<lambda>t. (tree_key h t, fst t)) ts) (a, b), h)"
proof -
  have "stands_for (packets_hash h) (tree_entries h ts)" using assms by (simp add: forest_def)
  from stands_for_find [OF this] show ?thesis
    by (simp add: find_packet_def on_hash_def map_of_tree_entries)
qed

lemma find_packet_cases:
  assumes "represented h ts s"
  obtains (missing) "map_of (m_packets s) (a, b) = None" "find_packet a b h = Inr (None, h)" "(a, b) \<notin> tree_key h ` set ts"
  | (present) xs t ys where "ts = xs @ t # ys" "tree_key h t = (a, b)" "map_of (m_packets s) (a, b) = Some (tree_packet h t)"
      "find_packet a b h = Inr (Some (fst t), h)" "(a, b) \<notin> fst ` set (contents h xs)" "(a, b) \<notin> fst ` set (contents h ys)"
proof -
  have f: "forest h ts" and c: "m_packets s = contents h ts" using assms by (simp_all add: represented_def)
  show ?thesis
  proof (cases "(a, b) \<in> tree_key h ` set ts")
    case False
    then have "map_of (m_packets s) (a, b) = None" "map_of (map (\<lambda>t. (tree_key h t, fst t)) ts) (a, b) = None"
      unfolding c contents_def map_of_eq_None_iff by auto
    with False missing show ?thesis by (simp add: find_packet_run [OF f])
  next
    case True
    then obtain t where "t \<in> set ts" and k: "tree_key h t = (a, b)" by force
    then obtain xs ys where ts: "ts = xs @ t # ys" by (auto dest: split_list)
    have n: "(a, b) \<notin> tree_key h ` set xs" "(a, b) \<notin> tree_key h ` set ys" using keys_distinct [OF f] k by (auto simp: ts)
    then have "map_of (m_packets s) (a, b) = Some (tree_packet h t)"
      "map_of (map (\<lambda>t. (tree_key h t, fst t)) ts) (a, b) = Some (fst t)"
      using k by (auto simp: c ts contents_def map_of_eq_None_iff map_add_Some_iff image_image comp_def)
    moreover have "(a, b) \<notin> fst ` set (contents h xs)" "(a, b) \<notin> fst ` set (contents h ys)"
      using n by (auto simp: contents_def)
    ultimately show ?thesis using present [OF ts k] by (simp add: find_packet_run [OF f])
  qed
qed

lemma alist_update_mid: "k \<notin> fst ` set xs \<Longrightarrow> AList.update k v (xs @ (k, w) # ys) = xs @ (k, v) # ys"
  by (induction xs) auto

lemma alist_update_new: "k \<notin> fst ` set xs \<Longrightarrow> AList.update k v xs = xs @ [(k, v)]"
  by (induction xs) auto

lemma alist_delete_mid: "k \<notin> fst ` set xs \<Longrightarrow> k \<notin> fst ` set ys \<Longrightarrow> AList.delete k (xs @ (k, w) # ys) = xs @ ys"
  by (induction xs) (auto simp: delete_idem)

definition granted :: "bool list \<Rightarrow> bool" where
  "granted ms \<longleftrightarrow> ms = [] \<or> hd ms"

lemma Platform_malloc_run: "Platform_malloc s = Inr (granted (mallocs s), s\<lparr>mallocs := tl (mallocs s)\<rparr>)"
  by (cases "mallocs s") (simp_all add: Platform_malloc_def granted_def)

abbreviation next_block :: "'z heap_scheme \<Rightarrow> nat" where
  "next_block h \<equiv> place (packets_hash h) (live (packets_hash h))"

lemma heap_malloc_run:
  "heap_malloc h = Inr (if granted (heap_mallocs h) then Some (next_block h) else None,
     h\<lparr>heap_mallocs := tl (heap_mallocs h),
       packets_hash := (packets_hash h)\<lparr>live := (if granted (heap_mallocs h) then {next_block h} else {}) \<union> live (packets_hash h)\<rparr>\<rparr>)"
  by (cases "heap_mallocs h") (simp_all add: heap_malloc_def granted_def Let_def)

text \<open>A fresh block that is freed again leaves no trace.\<close>

lemma forest_hash: "forest h ts \<Longrightarrow> stands_for (packets_hash h) (tree_entries h ts)"
  by (simp add: forest_def)

lemma forest_finite: "forest h ts \<Longrightarrow> finite (live (packets_hash h))"
  by (drule forest_hash, drule stands_for_allocator(1), simp add: allocator_ok_def)

lemma fresh_place: "forest h ts \<Longrightarrow> finite A \<Longrightarrow> place (packets_hash h) A \<notin> A"
  by (drule forest_hash, drule stands_for_allocator(1), simp add: allocator_ok_def)

text \<open>More blocks are in use than the packets and the hash have.\<close>

abbreviation also_used :: "nat set \<Rightarrow> 'z heap_scheme \<Rightarrow> hash" where
  "also_used A h \<equiv> (packets_hash h)\<lparr>live := A \<union> live (packets_hash h)\<rparr>"

lemma forest_also_used:
  assumes "forest h ts" "finite A" "A \<inter> live (packets_hash h) = {}"
  shows "stands_for (also_used A h) (tree_entries h ts)" "callers_blocks (also_used A h) = A \<union> own_blocks h"
proof -
  note hash = stands_for_allocator(2) [OF forest_hash [OF assms(1)]]
  show "stands_for (also_used A h) (tree_entries h ts)"
    using assms(2) hash forest_finite [OF assms(1)] by (intro stands_for_live forest_hash [OF assms(1)]) auto
  show "callers_blocks (also_used A h) = A \<union> own_blocks h"
    using assms(3) hash by (auto simp: callers_blocks_def hash_blocks_def table_blocks_def)
qed

lemma forest_unused:
  fixes ms :: "bool list"
  assumes "forest h ts" "a \<notin> live (packets_hash h)"
  defines "k \<equiv> freed a (h\<lparr>heap_mallocs := ms, packets_hash := also_used {a} h\<rparr>)"
  shows "forest k ts" "contents k ts = contents h ts"
proof -
  have "a \<notin> own_blocks h" using assms(2) own_blocks_used by blast
  then have a: "a \<notin> set (blocks h ts)" using assms(1) by (simp add: forest_def)
  then have ag: "agree (set (blocks h ts)) h k" by (auto simp: k_def agree_def)
  note same = trees_agree [OF ag]
  show "contents k ts = contents h ts" by (rule same)
  have "a \<notin> snd ` set (tree_entries h ts)" using a roots_in_blocks [of _ ts h] by auto
  note used = forest_also_used [OF assms(1), of "{a}"]
  have "stands_for (packets_hash k) (tree_entries h ts)"
    unfolding k_def using used assms(2) \<open>a \<notin> snd ` set (tree_entries h ts)\<close> by (intro hash_freed) simp_all
  moreover have "own_blocks k = own_blocks h" using used(2) assms(2) \<open>a \<notin> own_blocks h\<close> by (simp add: k_def)
  ultimately show "forest k ts" using assms(1) same(2-4) by (auto simp: forest_def)
qed

lemma forest_mallocs [simp]:
  "forest (h\<lparr>heap_mallocs := ms\<rparr>) ts = forest h ts" "contents (h\<lparr>heap_mallocs := ms\<rparr>) ts = contents h ts"
  by (rule static_update; simp)+

text \<open>A fragment with fresh blocks is put in front of those of its packet.\<close>

definition with_blocks :: "reassembly_fragment \<Rightarrow> u64 \<Rightarrow> nat \<Rightarrow> nat \<Rightarrow> nat \<Rightarrow> 'z heap_scheme \<Rightarrow> 'z heap_scheme" where
  "with_blocks frag now p f d h = h\<lparr>packets_hash := also_used {d, f} h, byte_blocks := (byte_blocks h)(d := fr_bytes frag),
     fragment_blocks := (fragment_blocks h)(f := \<lparr>fb_bytes = d, fb_size = length (fr_bytes frag), fb_offset = fr_offset frag\<rparr>),
     next_links := (next_links h)(f := pk_head (packet_blocks h p)),
     packet_blocks := (packet_blocks h)(p := (packet_blocks h p)\<lparr>pk_head := Some f,
       pk_full_size := (if fr_last frag then fr_offset frag + length (fr_bytes frag) else pk_full_size (packet_blocks h p)),
       pk_timestamp_ms_epoch_last := now\<rparr>)\<rparr>"

lemma with_blocks_forest:
  fixes frag :: reassembly_fragment and now :: u64
  assumes "forest h (xs @ (p, fs) # ys)" "f \<notin> live (packets_hash h)" "d \<notin> live (packets_hash h)" "f \<noteq> d"
  defines "k \<equiv> with_blocks frag now p f d h"
  shows "forest k (xs @ (p, f # fs) # ys)"
    "contents k (xs @ (p, f # fs) # ys) = contents h xs @ (tree_key h (p, fs), with_fragment frag now (tree_packet h (p, fs))) # contents h ys"
proof -
  let ?B = "set (blocks h (xs @ ys))" and ?T = "tree_blocks h (p, fs)"
  have l: "own_blocks h = ?B \<union> set ?T" "distinct ?T" "set ?T \<inter> ?B = {}" and ok: "tree_ok h (p, fs)"
    using assms(1) by (auto simp: forest_def)
  have used: "stands_for (also_used {d, f} h) (tree_entries h (xs @ (p, fs) # ys))"
    "callers_blocks (also_used {d, f} h) = {d, f} \<union> own_blocks h"
    using assms(2,3) by (intro forest_also_used [OF assms(1)]; simp)+
  obtain r where r: "?T = p # r" by (simp add: tree_blocks_def)
  have new: "f \<notin> own_blocks h" "d \<notin> own_blocks h" using assms(2,3) own_blocks_used by blast+
  then have nB: "p \<notin> ?B" "f \<notin> ?B" "d \<notin> ?B" using l(1,3) r by auto
  have fields: "packet_blocks k a = packet_blocks h a" if "a \<noteq> p" for a using that by (simp add: k_def with_blocks_def)
  have fields': "fragment_blocks k a = fragment_blocks h a" "next_links k a = next_links h a" if "a \<noteq> f" for a
    using that by (simp_all add: k_def with_blocks_def)
  have fields'': "byte_blocks k a = byte_blocks h a" if "a \<noteq> d" for a using that by (simp add: k_def with_blocks_def)
  have ag: "agree ?B h k" unfolding agree_def using nB fields fields' fields'' by metis
  have T: "a \<in> own_blocks h" if "a \<in> set ?T" for a using that unfolding l(1) by blast
  have p: "p \<noteq> f" "p \<noteq> d" using new T [of p] by (auto simp: r)
  have fs: "g \<noteq> f" "g \<noteq> d" "fb_bytes (fragment_blocks h g) \<noteq> d" if "g \<in> set fs" for g
    using that new T [of g] T [of "fb_bytes (fragment_blocks h g)"] by auto
  have b: "tree_blocks k (p, f # fs) = p # f # d # r"
  proof -
    have "concat (map (\<lambda>g. [g, fb_bytes (fragment_blocks k g)]) fs) = r"
      using r fs by (auto simp: tree_blocks_def k_def with_blocks_def intro!: arg_cong [of _ _ concat])
    then show ?thesis by (simp add: tree_blocks_def k_def with_blocks_def)
  qed
  have "chain (next_links k) (pk_head (packet_blocks h p)) fs"
    using ok fs chain_cong [of fs "next_links k" "next_links h"] by (simp add: tree_ok_def k_def with_blocks_def)
  then have ok': "tree_ok k (p, f # fs)"
    using ok fs assms(4) by (auto simp: tree_ok_def k_def with_blocks_def)
  have c: "tree_packet k (p, f # fs) = with_fragment frag now (tree_packet h (p, fs))"
    using fs by (auto simp: tree_packet_def piece_def with_fragment_def k_def with_blocks_def Let_def)
  have own: "distinct (p # f # d # r)" "set (p # f # d # r) \<inter> ?B = {}" "own_blocks k = ?B \<union> set (p # f # d # r)"
    using l new assms(4) p used(2) unfolding r by (auto simp: k_def with_blocks_def)
  have key: "tree_key k (p, f # fs) = tree_key h (p, fs)" "packets_hash k = also_used {d, f} h"
    by (simp_all add: tree_key_def k_def with_blocks_def)
  note change = forest_change [OF assms(1) ag _ key(1) used(1) [folded key(2)] ok', unfolded b c fst_conv, OF refl own]
  show "forest k (xs @ (p, f # fs) # ys)" by (rule change(1))
  show "contents k (xs @ (p, f # fs) # ys) = contents h xs @ (tree_key h (p, fs), with_fragment frag now (tree_packet h (p, fs))) # contents h ys"
    by (rule change(2))
qed

lemma with_blocks_fields [simp]:
  "statics (with_blocks frag now p f d h) = statics h" "fst (tree_key (with_blocks frag now p f d h) t) = fst (tree_key h t)"
  "snd (tree_key (with_blocks frag now p f d h) t) = snd (tree_key h t)"
  by (simp_all add: with_blocks_def tree_key_def)

lemma search_fragment_run:
  assumes "forest h (xs @ t # ys)"
  shows "(find (\<lambda>f. fb_offset (fragment_blocks h f) = off) (snd t) \<noteq> None) = (off \<in> set (map fst (fp_head (tree_packet h t))))"
    "LL_SEARCH_SCALAR (next_links h) (\<lambda>f. fb_offset (fragment_blocks h f) = off) (pk_head (packet_blocks h (fst t)))
      = Some (find (\<lambda>f. fb_offset (fragment_blocks h f) = off) (snd t))"
  using assms search_run [of "next_links h" "pk_head (packet_blocks h (fst t))" "snd t"]
  by (auto simp: find_None_iff tree_packet_def piece_def Let_def forest_def tree_ok_def)

text \<open>The run of an addition, by the results of the two allocations.\<close>

lemma add_fragment_eval:
  fixes h frag
  defines "f \<equiv> next_block h" and "ms \<equiv> heap_mallocs h"
  assumes "forest h (xs @ t # ys)" "fr_offset frag \<notin> set (map fst (fp_head (tree_packet h t)))"
  shows "add_fragment (fst t) frag h =
    (if granted ms \<and> granted (tl ms) then
       (case io_clock h of [] \<Rightarrow> Inl Blocked
        | now # cs \<Rightarrow> Inr (True, with_blocks frag now (fst t) f (place (packets_hash h) (insert f (live (packets_hash h)))) (h\<lparr>heap_mallocs := tl (tl ms), io_clock := cs\<rparr>)))
     else if granted ms \<or> granted (tl ms) then Inr (False, freed f (h\<lparr>heap_mallocs := tl (tl ms), packets_hash := also_used {f} h\<rparr>))
     else Inr (False, h\<lparr>heap_mallocs := tl (tl ms)\<rparr>))"
proof -
  have nf: "find (\<lambda>f. fb_offset (fragment_blocks h f) = fr_offset frag) (snd t) = None"
    using search_fragment_run(1) [OF assms(3), of "fr_offset frag"] assms(4) by auto
  have start: "add_fragment (fst t) frag h = andthen heap_malloc (\<lambda>a. andthen heap_malloc (\<lambda>d.
       case (a, d) of
         (Some f, Some data) \<Rightarrow> andthen (insert_fragment (fst t) frag f data) (\<lambda>_. ret True)
       | _ \<Rightarrow> andthen (free_pointer a) (\<lambda>_. andthen (free_pointer d) (\<lambda>_. ret False)))) h"
    unfolding add_fragment_def by (simp add: walk_def andthen_def search_fragment_run(2) [OF assms(3)] nf)
  show ?thesis
  proof (cases "granted ms \<and> granted (tl ms)")
    case True
    then show ?thesis
      unfolding start
      by (cases "io_clock h")
        (auto simp: heap_malloc_run ms_def f_def insert_fragment_def prog_simps LL_PREPEND_def store_packet_def with_blocks_def
          Platform_get_timestamp_ms_monotonic_def intro!: heap.equality hash.equality)
  next
    case False
    then show ?thesis
      unfolding start
      by (auto simp: heap_malloc_run ms_def f_def prog_simps free_pointer_def heap_free_run)
  qed
qed

lemma contents_update:
  assumes "represented h (xs @ t # ys) s"
  shows "AList.update (tree_key h t) v (m_packets s) = contents h xs @ (tree_key h t, v) # contents h ys"
    "AList.delete (tree_key h t) (m_packets s) = contents h xs @ contents h ys"
proof -
  have "forest h (xs @ t # ys)" and c: "m_packets s = contents h xs @ (tree_key h t, tree_packet h t) # contents h ys"
    using assms by (simp_all add: represented_def)
  from keys_distinct [OF this(1)]
  have k: "tree_key h t \<notin> fst ` set (contents h xs)" "tree_key h t \<notin> fst ` set (contents h ys)" by (auto simp: contents_def)
  show "AList.update (tree_key h t) v (m_packets s) = contents h xs @ (tree_key h t, v) # contents h ys"
    unfolding c by (rule alist_update_mid [OF k(1)])
  show "AList.delete (tree_key h t) (m_packets s) = contents h xs @ contents h ys"
    unfolding c by (rule alist_delete_mid [OF k])
qed

lemma represented_key:
  assumes "represented k (xs @ t # ys) s" "m_packets s = as @ (key, v) # bs" "length as = length xs"
  shows "tree_key k t = key" "tree_packet k t = v"
  using assms by (auto simp: represented_def)

lemma add_fragment_eval_abs:
  assumes "fr_offset frag \<notin> set (map fst (fp_head p))"
  shows "add_fragment_to_full_packet key p frag s =
    (if granted (mallocs s) \<and> granted (tl (mallocs s)) then
       (case io_clock s of [] \<Rightarrow> Inl Blocked
        | now # cs \<Rightarrow> Inr (Some (with_fragment frag now p), s\<lparr>mallocs := tl (tl (mallocs s)), io_clock := cs,
            m_packets := AList.update key (with_fragment frag now p) (m_packets s)\<rparr>))
     else Inr (None, s\<lparr>mallocs := tl (tl (mallocs s))\<rparr>))"
  using assms
  by (cases "io_clock s")
    (auto simp: add_fragment_to_full_packet_def Platform_malloc_run Platform_get_timestamp_ms_monotonic_def
      put_packet_def with_fragment_def Let_def prog_simps)

lemma heap_add_to_packet_run:
  assumes "represented h (xs @ t # ys) s"
  shows "case add_fragment_to_full_packet (tree_key h t) (tree_packet h t) frag s of
      Inl x \<Rightarrow> add_fragment (fst t) frag h = Inl x
    | Inr (r, s') \<Rightarrow> \<exists>k fs. add_fragment (fst t) frag h = Inr (r \<noteq> None, k) \<and> represented k (xs @ (fst t, fs) # ys) s'
        \<and> tree_key k (fst t, fs) = tree_key h t \<and> (r \<noteq> None \<longrightarrow> r = Some (tree_packet k (fst t, fs)))"
proof -
  let ?P = "tree_packet h t" and ?ms = "heap_mallocs h" and ?f = "next_block h"
  let ?d = "place (packets_hash h) (insert ?f (live (packets_hash h)))"
  have forest: "forest h (xs @ t # ys)" and st: "io_clock s = io_clock h" "mallocs s = ?ms" 
    and st': "statics h = store_statics s" and pk: "m_packets s = contents h (xs @ t # ys)"
    using assms by (auto simp: represented_def statics_def store_statics_def)
  have f: "?f \<notin> live (packets_hash h)" using fresh_place [OF forest forest_finite [OF forest]] .
  have d: "?d \<notin> insert ?f (live (packets_hash h))"
    using fresh_place [OF forest, of "insert ?f (live (packets_hash h))"] forest_finite [OF forest] by simp
  show ?thesis
  proof (cases "fr_offset frag \<in> set (map fst (fp_head ?P))")
    case True
    then have "add_fragment (fst t) frag h = Inr (False, h)" "add_fragment_to_full_packet (tree_key h t) ?P frag s = Inr (None, s)"
      using search_fragment_run [OF forest, of "fr_offset frag"]
      by (auto simp: add_fragment_def add_fragment_to_full_packet_def walk_def andthen_def ret_def)
    with assms show ?thesis by (auto intro: exI [of _ "snd t"])
  next
    case False
    note eval = add_fragment_eval [OF forest False] add_fragment_eval_abs [OF False, of "tree_key h t" s, unfolded st]
    show ?thesis
    proof (cases "granted ?ms \<and> granted (tl ?ms)")
      case True
      show ?thesis
      proof (cases "io_clock h")
        case Nil
        with True show ?thesis unfolding eval by simp
      next
        case (Cons now cs)
        let ?h = "h\<lparr>heap_mallocs := tl (tl ?ms), io_clock := cs\<rparr>"
        let ?k = "with_blocks frag now (fst t) ?f ?d ?h"
        let ?t = "(fst t, ?f # snd t)"
        have "forest ?h (xs @ (fst t, snd t) # ys)" using forest by simp
        from with_blocks_forest [OF this, of ?f ?d frag now] f d
        have "forest ?k (xs @ ?t # ys)" "contents ?k (xs @ ?t # ys) = contents ?h xs @ (tree_key ?h t, with_fragment frag now (tree_packet ?h t)) # contents ?h ys"
          by simp_all
        moreover have "contents ?h us = contents h us" "tree_key ?h t = tree_key h t" "tree_packet ?h t = ?P" for us
          by (simp_all add: tree_key_def tree_packet_def piece_def [abs_def])
        ultimately have c: "forest ?k (xs @ ?t # ys)"
          "contents ?k (xs @ ?t # ys) = contents h xs @ (tree_key h t, with_fragment frag now ?P) # contents h ys" by simp_all
        let ?s = "s\<lparr>mallocs := tl (tl ?ms), io_clock := cs,
            m_packets := AList.update (tree_key h t) (with_fragment frag now ?P) (m_packets s)\<rparr>"
        have "statics ?h = store_statics ?s" using st' by (simp add: statics_def store_statics_def)
        then have "represented ?k (xs @ ?t # ys) ?s"
          unfolding represented_def with_blocks_fields using c contents_update(1) [OF assms] by simp
        moreover have "tree_key ?k ?t = tree_key h t" "tree_packet ?k ?t = with_fragment frag now ?P" using c(2) by simp_all
        ultimately show ?thesis using True Cons unfolding eval by auto
      qed
    next
      case False
      define k where "k = (if granted ?ms \<or> granted (tl ?ms) then freed ?f (h\<lparr>heap_mallocs := tl (tl ?ms), packets_hash := also_used {?f} h\<rparr>)
        else h\<lparr>heap_mallocs := tl (tl ?ms)\<rparr>)"
      have k: "forest k (xs @ t # ys)" "contents k (xs @ t # ys) = contents h (xs @ t # ys)"
        using forest_unused [OF forest f, of "tl (tl ?ms)"] forest by (auto simp del: contents_simps simp: k_def)
      moreover have "statics k = store_statics (s\<lparr>mallocs := tl (tl ?ms)\<rparr>)"
        using st' by (auto simp: k_def) (auto simp: statics_def store_statics_def)
      ultimately have "represented k (xs @ t # ys) (s\<lparr>mallocs := tl (tl ?ms)\<rparr>)" by (simp add: represented_def pk)
      moreover have "tree_key k t = tree_key h t" using k(2) by simp
      ultimately show ?thesis using False unfolding eval by (auto simp: k_def intro!: exI [of _ "snd t"])
    qed
  qed
qed

text \<open>Whether a packet is full.\<close>

lemma fold_plus: "fold (\<lambda>f n. n + g f) fs a = a + sum_list (map g fs)" for a :: nat
  by (induction fs arbitrary: a) simp_all

lemma packet_is_full_run:
  assumes "represented h (xs @ t # ys) s" "is_packet_full (tree_key h t) (tree_packet h t) s = Inr (full, s')"
  obtains k where "packet_is_full (fst t) h = Inr (full, k)" "represented k (xs @ t # ys) s'"
    "pk_full_size (packet_blocks k (fst t)) = fp_full_size (tree_packet h t)"
proof -
  let ?P = "tree_packet h t" and ?b = "packet_blocks h (fst t)"
  have f: "forest h (xs @ t # ys)" using assms(1) by (simp add: represented_def)
  have P: "fp_is_full ?P = pk_is_full ?b" "fp_full_size ?P = pk_full_size ?b" by (simp_all add: tree_packet_def Let_def)
  have ok: "tree_ok h t" using f by (simp add: forest_def)
  then have "map (\<lambda>g. fb_size (fragment_blocks h g)) (snd t) = map (\<lambda>g. length (byte_blocks h (fb_bytes (fragment_blocks h g)))) (snd t)"
    by (simp add: tree_ok_def)
  then have rx: "LL_FOREACH (next_links h) (\<lambda>g n. n + fb_size (fragment_blocks h g)) (pk_head ?b) 0 = Some (rx_size ?P)"
    using ok foreach_run [of "next_links h" "pk_head ?b" "snd t" "\<lambda>g n. n + fb_size (fragment_blocks h g)" "0 :: nat"]
    by (simp add: tree_ok_def fold_plus rx_size_def tree_packet_def piece_def Let_def comp_def cong: map_cong)
  let ?k = "if fullness ?P \<and> \<not> fp_is_full ?P then h\<lparr>packet_blocks := (packet_blocks h)(fst t := ?b\<lparr>pk_is_full := True\<rparr>)\<rparr> else h"
  have run: "packet_is_full (fst t) h = Inr (fullness ?P, ?k)"
    using rx by (auto simp: packet_is_full_def fullness_def P store_packet_def walk_def prog_simps)
  from assms(2) have s': "full = fullness ?P" "s' = (if fullness ?P \<and> \<not> fp_is_full ?P
      then s\<lparr>m_packets := AList.update (tree_key h t) (?P\<lparr>fp_is_full := True\<rparr>) (m_packets s)\<rparr> else s)"
    by (auto simp: is_packet_full_run)
  show ?thesis
  proof (cases "fullness ?P \<and> \<not> fp_is_full ?P")
    case False
    with run s' assms(1) P show ?thesis by (intro that [of h]) auto
  next
    case True
    let ?h = "h\<lparr>packet_blocks := (packet_blocks h)(fst t := ?b\<lparr>pk_is_full := True\<rparr>)\<rparr>"
    have same: "tree_blocks ?h t = tree_blocks h t" "tree_key ?h t = tree_key h t" "tree_ok ?h t"
      "tree_packet ?h t = ?P\<lparr>fp_is_full := True\<rparr>"
      using ok by (simp_all add: tree_defs Let_def)
    have d: "distinct (tree_blocks h t)" "set (tree_blocks h t) \<inter> set (blocks h (xs @ ys)) = {}"
      "own_blocks h = set (blocks h (xs @ ys)) \<union> set (tree_blocks h t)" and hash: "stands_for (packets_hash ?h) (tree_entries h (xs @ t # ys))"
      using f by (auto simp: forest_def)
    then have "fst t \<notin> set (blocks h (xs @ ys))" using tree_blocks_simps(2) [of t h] by blast
    then have "agree (set (blocks h (xs @ ys))) h ?h" by (auto simp: agree_def)
    from forest_change [OF f this refl same(2) hash same(3)] d
    have "forest ?h (xs @ t # ys)" "contents ?h (xs @ t # ys) = contents h xs @ (tree_key h t, ?P\<lparr>fp_is_full := True\<rparr>) # contents h ys"
      unfolding same(1,4) by simp_all
    then have "represented ?h (xs @ t # ys) s'"
      using True contents_update(1) [OF assms(1)] assms(1) unfolding represented_def s'(2) by (simp add: store_statics_def)
    with True run s'(1) P show ?thesis by (intro that [of ?h]) simp_all
  qed
qed

section \<open>Creating a packet\<close>

lemma create_packet_run:
  assumes "represented h ts s" "(a, b) \<notin> tree_key h ` set ts" "length ts + 1 < 2 ^ 32"
  shows "create_packet a b h = Inl Exited \<and> may_refuse (packets_hash h)
    \<or> (\<exists>r s'. create_packet_in_hash (a, b) s = Inr (r, s') \<and>
      (case r of None \<Rightarrow> \<exists>k. create_packet a b h = Inr (None, k) \<and> represented k ts s'
       | Some P \<Rightarrow> \<exists>k p. create_packet a b h = Inr (Some p, k) \<and> represented k (ts @ [(p, [])]) s'
           \<and> P = tree_packet k (p, []) \<and> tree_key k (p, []) = (a, b)))"
proof -
  let ?ms = "heap_mallocs h" and ?p = "next_block h" and ?key = "packet_key_bytes a b"
  have forest: "forest h ts" and ms: "mallocs s = ?ms" and st: "statics h = store_statics s" and pk: "m_packets s = contents h ts"
    using assms(1) by (auto simp: represented_def statics_def store_statics_def)
  have abs: "create_packet_in_hash (a, b) s = Inr (if granted ?ms then Some empty_packet else None,
      if granted ?ms then s\<lparr>mallocs := tl ?ms, m_packets := contents h ts @ [((a, b), empty_packet)]\<rparr> else s\<lparr>mallocs := tl ?ms\<rparr>)"
  proof -
    have "(a, b) \<notin> fst ` set (contents h ts)" using assms(2) by (auto simp: contents_def)
    then show ?thesis
      by (auto simp: create_packet_in_hash_def Platform_malloc_run ms put_packet_def pk alist_update_new empty_packet_def Let_def prog_simps)
  qed
  show ?thesis
  proof (cases "granted ?ms")
    case False
    then have "create_packet a b h = Inr (None, h\<lparr>heap_mallocs := tl ?ms\<rparr>)"
      by (simp add: create_packet_def heap_malloc_run prog_simps)
    moreover have "represented (h\<lparr>heap_mallocs := tl ?ms\<rparr>) ts (s\<lparr>mallocs := tl ?ms\<rparr>)"
      using forest pk st by (simp add: represented_def statics_def store_statics_def)
    ultimately show ?thesis using False abs by simp
  next
    case True
    have new: "?p \<notin> live (packets_hash h)" using fresh_place [OF forest forest_finite [OF forest]] .
    then have p: "?p \<notin> set (blocks h ts)" using own_blocks_used [of ?p h] forest by (auto simp: forest_def)
    then have ne: "?p \<notin> snd ` set (tree_entries h ts)" using roots_in_blocks [of _ ts h] by auto
    let ?new = "\<lparr>pk_src_add = a, pk_packet_id = b, pk_full_size = 0, pk_is_full = False, pk_head = None, pk_timestamp_ms_epoch_last = 0\<rparr>"
    let ?hash = "(also_used {?p} h)\<lparr>handles := (handles (packets_hash h))(?p := zero_handle)\<rparr>"
    let ?u = "\<lambda>t. h\<lparr>heap_mallocs := tl ?ms, packet_blocks := (packet_blocks h)(?p := ?new), packets_hash := t\<rparr>"
    have run: "create_packet a b h = (case HASH_ADD ?key ?p ?hash of Inl e \<Rightarrow> Inl e | Inr (_, t) \<Rightarrow> Inr (Some ?p, ?u t))"
      using True by (simp add: create_packet_def heap_malloc_run store_packet_def on_hash_def store_def prog_simps split: sum.splits)
    note used = forest_also_used [OF forest, of "{?p}"]
    have hash: "stands_for ?hash (tree_entries h ts)"
      using stands_for_frame [OF used(1) ne, of zero_handle] new by simp
    have own: "callers_blocks ?hash = insert ?p (own_blocks h)"
      using used(2) new same_blocks(3) [of ?hash "also_used {?p} h"] by simp
    have "?key \<notin> fst ` set (tree_entries h ts)" using assms(2) by (force simp: tree_entries_def split: prod.splits)
    from stands_for_add [OF hash this ne] assms(3)
    consider "HASH_ADD ?key ?p ?hash = Inl Exited" "may_refuse ?hash"
      | t where "HASH_ADD ?key ?p ?hash = Inr ((), t)" "stands_for t (tree_entries h ts @ [(?key, ?p)])"
          "same_callers ?hash t"
      by auto
    then show ?thesis
    proof cases
      case 1
      with run show ?thesis by (simp add: may_refuse_def)
    next
      case (2 t)
      have "agree (set (blocks h ts)) h (?u t)" using p by (auto simp: agree_def)
      note same = trees_agree [OF this]
      have tree: "tree_key (?u t) (?p, []) = (a, b)" "tree_packet (?u t) (?p, []) = empty_packet" "tree_ok (?u t) (?p, [])"
        by (simp_all add: tree_defs empty_packet_def Let_def)
      have "callers_blocks t = insert ?p (own_blocks h)" using 2(3) own by (simp add: same_callers_def)
      then have "forest (?u t) (ts @ [(?p, [])])"
        using forest 2(2) p tree same(2-4) by (auto simp: forest_def)
      moreover have "contents (?u t) (ts @ [(?p, [])]) = contents h ts @ [((a, b), empty_packet)]" using same(1) tree by simp
      moreover have "statics (?u t) = store_statics (s\<lparr>mallocs := tl ?ms\<rparr>)" using st by (simp add: statics_def store_statics_def)
      ultimately have "represented (?u t) (ts @ [(?p, [])]) (s\<lparr>mallocs := tl ?ms, m_packets := contents h ts @ [((a, b), empty_packet)]\<rparr>)"
        by (simp add: represented_def store_statics_def)
      then show ?thesis using abs True run 2(1) tree by auto
    qed
  qed
qed

section \<open>The operations\<close>

text \<open>A run of an operation on pointers follows one on the association list: it ends with the same result or
  stops in the same way, and its memory represents the list. At most \<open>n\<close> packets are left.\<close>

definition follows :: "stop + 'r \<times> 'y heap_scheme \<Rightarrow> stop + 'r \<times> 'z reassembly_scheme \<Rightarrow> nat \<Rightarrow> bool" where
  "follows heap_run list_run n \<longleftrightarrow>
     (case list_run of Inl x \<Rightarrow> heap_run = Inl x
      | Inr (r, s) \<Rightarrow> \<exists>k ts. heap_run = Inr (r, k) \<and> represented k ts s \<and> length ts \<le> n)"

lemma followsI: "heap_run = Inr (r, k) \<Longrightarrow> list_run = Inr (r, s) \<Longrightarrow> represented k ts s \<Longrightarrow> length ts \<le> n \<Longrightarrow> follows heap_run list_run n"
  by (auto simp: follows_def)

lemma follows_weaken: "follows a b m \<Longrightarrow> m \<le> n \<Longrightarrow> follows a b n"
  by (fastforce simp: follows_def split: sum.splits)

lemma added_run:
  assumes "represented h (xs @ t # ys) s"
  shows "follows
    (andthen (add_fragment (fst t) frag) (\<lambda>added.
       if \<not> added then ret (False, 0)
       else
         andthen (packet_is_full (fst t)) (\<lambda>full.
         andthen (gets (\<lambda>s. pk_full_size (packet_blocks s (fst t)))) (\<lambda>size.
         ret (True, if full then size else 0)))) h)
    (andthen (add_fragment_to_full_packet (tree_key h t) (tree_packet h t) frag) (\<lambda>added.
       case added of None \<Rightarrow> ret (False, 0)
       | Some p' \<Rightarrow> andthen (is_packet_full (tree_key h t) p') (\<lambda>full. ret (True, if full then fp_full_size p' else 0))) s)
    (length (xs @ t # ys))"
proof (cases "add_fragment_to_full_packet (tree_key h t) (tree_packet h t) frag s")
  case (Inl x)
  with heap_add_to_packet_run [OF assms, of frag] show ?thesis by (simp add: follows_def andthen_def)
next
  case (Inr rs)
  obtain r s1 where rs: "rs = (r, s1)" by (cases rs)
  with Inr heap_add_to_packet_run [OF assms, of frag] obtain k fs where
    k: "add_fragment (fst t) frag h = Inr (r \<noteq> None, k)" "represented k (xs @ (fst t, fs) # ys) s1"
    "tree_key k (fst t, fs) = tree_key h t" "r \<noteq> None \<Longrightarrow> r = Some (tree_packet k (fst t, fs))"
    by auto
  show ?thesis
  proof (cases r)
    case None
    with k(1,2) Inr rs show ?thesis by (intro followsI [where ts = "xs @ (fst t, fs) # ys"]) (simp_all add: andthen_def)
  next
    case (Some P)
    obtain full s2 where full: "is_packet_full (tree_key k (fst t, fs)) (tree_packet k (fst t, fs)) s1 = Inr (full, s2)"
      by (simp add: is_packet_full_run)
    obtain k2 where "packet_is_full (fst t) k = Inr (full, k2)" "represented k2 (xs @ (fst t, fs) # ys) s2"
      "pk_full_size (packet_blocks k2 (fst t)) = fp_full_size (tree_packet k (fst t, fs))"
      using packet_is_full_run [OF k(2) full] by auto
    with k(1,3,4) full Inr rs Some show ?thesis
      by (intro followsI [where ts = "xs @ (fst t, fs) # ys"]) (simp_all add: andthen_def gets_def)
  qed
qed

lemma heap_add_fragment_run:
  assumes "represented h ts s" "length ts + 1 < 2 ^ 32"
  shows "heap_add_fragment frag h = Inl Exited \<and> may_refuse (packets_hash h)
    \<or> follows (heap_add_fragment frag h) (reassembly_add_fragment frag s) (Suc (length ts))"
proof -
  let ?h = "h\<lparr>queue_empty := False\<rparr>" and ?s = "s\<lparr>m_is_queue_empty := False\<rparr>"
  let ?a = "fr_src_add frag" and ?b = "fr_packet_id frag"
  have r: "represented ?h ts ?s" using assms(1) by (simp add: represented_def statics_def store_statics_def)
  show ?thesis
  proof (cases rule: find_packet_cases [OF r, of ?a ?b, case_names missing present])
    case (present xs t ys)
    note added = added_run [OF r [unfolded present(1)], of frag, unfolded present(2)]
    have "map_of (m_packets s) (?a, ?b) = Some (tree_packet ?h t)" using present(3) by simp
    note present = present this
    show ?thesis
      by (rule disjI2, rule follows_weaken [where m = "length (xs @ t # ys)"], rule iffD1 [OF _ added])
        (simp_all add: heap_add_fragment_def reassembly_add_fragment_def get_packet_from_hash_def Let_def andthen_def
          modify_def gets_def ret_def present)
  next
    case missing
    then have "map_of (m_packets s) (?a, ?b) = None" by simp
    note missing = missing this
    from create_packet_run [OF r missing(3) assms(2)] show ?thesis
    proof (elim disjE exE conjE)
      assume "create_packet ?a ?b ?h = Inl Exited" "may_refuse (packets_hash ?h)"
      with missing show ?thesis by (simp add: heap_add_fragment_def andthen_def modify_def)
    next
      fix r' s' assume abs: "create_packet_in_hash (?a, ?b) ?s = Inr (r', s')"
        and new: "case r' of None \<Rightarrow> \<exists>k. create_packet ?a ?b ?h = Inr (None, k) \<and> represented k ts s'
          | Some P \<Rightarrow> \<exists>k p. create_packet ?a ?b ?h = Inr (Some p, k) \<and> represented k (ts @ [(p, [])]) s'
              \<and> P = tree_packet k (p, []) \<and> tree_key k (p, []) = (?a, ?b)"
      show ?thesis
      proof (cases r')
        case None
        with new obtain k where "create_packet ?a ?b ?h = Inr (None, k)" "represented k ts s'" by auto
        with None abs missing show ?thesis
          by (intro disjI2 followsI [where ts = ts]) (simp_all add: heap_add_fragment_def reassembly_add_fragment_def
            get_packet_from_hash_def Let_def andthen_def modify_def gets_def ret_def)
      next
        case (Some P)
        with new obtain k p where k: "create_packet ?a ?b ?h = Inr (Some p, k)" "represented k (ts @ [(p, [])]) s'"
          "P = tree_packet k (p, [])" "tree_key k (p, []) = (?a, ?b)" by auto
        note added = added_run [OF k(2), of frag, unfolded k(4) k(3) [symmetric] fst_conv]
        show ?thesis
          by (rule disjI2, rule follows_weaken [where m = "length (ts @ [(p, [])])"], rule iffD1 [OF _ added])
            (use abs k(1) missing Some in \<open>simp_all add: heap_add_fragment_def reassembly_add_fragment_def
              get_packet_from_hash_def Let_def andthen_def modify_def gets_def ret_def\<close>)
      qed
    qed
  qed
qed

text \<open>The fragments of a packet are gone; the packet follows.\<close>

lemma release_run:
  assumes "represented h (xs @ t # ys) s" "releasing h xs t ys [] k"
  obtains u where "release_packet (fst t) k = Inr ((), u)" "contents u (xs @ ys) = contents h (xs @ ys)"
    "represented u (xs @ ys) (s\<lparr>m_packets := AList.delete (tree_key h t) (m_packets s)\<rparr>)"
proof -
  have k: "forest k (xs @ (fst t, []) # ys)" "statics k = statics h" "contents k (xs @ ys) = contents h (xs @ ys)"
    using assms(2) by (simp_all add: releasing_def)
  obtain u where u: "release_packet (fst t) k = Inr ((), u)" "forest u (xs @ ys)" "statics u = statics k"
    "contents u (xs @ ys) = contents k (xs @ ys)"
    by (rule release_packet_run [OF k(1)])
  have "represented u (xs @ ys) (s\<lparr>m_packets := AList.delete (tree_key h t) (m_packets s)\<rparr>)"
    using u k contents_update(2) [OF assms(1)] assms(1) by (simp add: represented_def store_statics_def)
  with u k(3) that show ?thesis by simp
qed

lemma queue_empty_run:
  assumes "represented h ts s"
  shows "update_queue_empty h = Inr ((), h\<lparr>queue_empty := (m_packets s = [])\<rparr>)"
    "represented (h\<lparr>queue_empty := (m_packets s = [])\<rparr>) ts (s\<lparr>m_is_queue_empty := (m_packets s = [])\<rparr>)"
proof -
  have c: "m_packets s = contents h ts" and f: "forest h ts" using assms by (simp_all add: represented_def)
  have "(m_packets s = []) = (ts = [])" unfolding c by (simp add: contents_def)
  then show "update_queue_empty h = Inr ((), h\<lparr>queue_empty := (m_packets s = [])\<rparr>)" using update_queue_empty_run [OF f] by simp
  show "represented (h\<lparr>queue_empty := (m_packets s = [])\<rparr>) ts (s\<lparr>m_is_queue_empty := (m_packets s = [])\<rparr>)"
    using assms by (simp add: represented_def statics_def store_statics_def)
qed

lemma reassemble_packet_run:
  assumes "represented h (xs @ t # ys) s"
  shows "follows (reassemble_packet (fst t) buffer n h) (reassemble_full_packet (tree_key h t) (tree_packet h t) buffer n s)
    (length (xs @ t # ys))"
proof -
  let ?P = "tree_packet h t" and ?b = "packet_blocks h (fst t)"
  have f: "forest h (xs @ t # ys)" using assms by (simp add: represented_def)
  have P: "fp_is_full ?P = pk_is_full ?b" "fp_full_size ?P = pk_full_size ?b" by (simp_all add: tree_packet_def Let_def)
  let ?loop = "loop (LL_FOREACH_SAFE (\<lambda>st. next_links (fst st)) (\<lambda>f. andthen (copy_out f) (\<lambda>_. on_heap (release_fragment (fst t) f)))
    (pk_head ?b)) (h, buffer)"
  note copy = copy_all_run [OF f, of buffer]
  consider "\<not> fp_is_full ?P" | "fp_is_full ?P" "n < fp_full_size ?P" | "fp_is_full ?P" "\<not> n < fp_full_size ?P" by blast
  then show ?thesis
  proof cases
    case 1
    with assms P show ?thesis
      by (intro followsI [OF _ _ assms]) (simp_all add: reassemble_packet_def reassemble_full_packet_def prog_simps)
  next
    case 2
    with assms P show ?thesis
      by (intro followsI [OF _ _ assms]) (simp_all add: reassemble_packet_def reassemble_full_packet_def prog_simps)
  next
    case 3
    show ?thesis
    proof (cases "copy_fragments (fp_head ?P) buffer")
      case (Inl x)
      with copy 3 P show ?thesis
        by (simp add: follows_def reassemble_packet_def reassemble_full_packet_def prog_simps)
    next
      case (Inr buffer')
      with copy obtain k where loop: "?loop = Inr ((), k, buffer')" and k: "releasing h xs t ys [] k" by auto
      have "tree_packet k (fst t, []) = ?P\<lparr>fp_head := []\<rparr>" using k by (simp add: releasing_def)
      then have size: "pk_full_size (packet_blocks k (fst t)) = fp_full_size ?P"
        by (simp add: tree_packet_def Let_def)
      obtain u where u: "release_packet (fst t) k = Inr ((), u)" 
        "represented u (xs @ ys) (s\<lparr>m_packets := AList.delete (tree_key h t) (m_packets s)\<rparr>)"
        by (rule release_run [OF assms k])
      note q = queue_empty_run [OF u(2)]
      show ?thesis
        by (rule followsI [OF _ _ q(2)])
          (use 3 P Inr loop size u(1) q(1) in \<open>simp_all add: reassemble_packet_def reassemble_full_packet_def prog_simps\<close>)
    qed
  qed
qed

lemma heap_get_full_message_run:
  assumes "represented h ts s"
  shows "follows (heap_get_full_message a b buffer n h) (reassembly_get_full_message a b buffer n s) (length ts)"
proof (cases rule: find_packet_cases [OF assms, of a b, case_names missing present])
  case missing
  then show ?thesis
    by (intro followsI [OF _ _ assms]) (simp_all add: heap_get_full_message_def reassembly_get_full_message_def
      get_packet_from_hash_def prog_simps)
next
  case (present xs t ys)
  from reassemble_packet_run [OF assms [unfolded present(1)], of buffer n] present show ?thesis
    by (simp add: heap_get_full_message_def reassembly_get_full_message_def get_packet_from_hash_def andthen_def gets_def)
qed

text \<open>The collector.\<close>

definition collect_one :: "packet_key \<times> full_packet \<Rightarrow> ('z reassembly_scheme, unit) prog" where
  "collect_one kp =
     andthen Platform_get_timestamp_ms_monotonic (\<lambda>now.
     andthen (gets m_fragment_max_duration_s) (\<lambda>max_duration.
     let last_activity = ucast ((now - fp_timestamp_ms_epoch_last (snd kp)) div 1000) :: u32 in
     if last_activity > max_duration then modify (\<lambda>s. s\<lparr>m_packets := AList.delete (fst kp) (m_packets s)\<rparr>) else ret ()))"

definition collect_step :: "'y heap_scheme \<Rightarrow> tree \<Rightarrow> 'z reassembly_scheme \<Rightarrow> stop + 'z reassembly_scheme" where
  "collect_step h t s = (case collect_one (tree_key h t, tree_packet h t) s of Inl x \<Rightarrow> Inl x | Inr (_, u) \<Rightarrow> Inr u)"

lemma collect_packets_each:
  "collect_packets (contents h ts) s = (case each (collect_step h) ts s of Inl x \<Rightarrow> Inl x | Inr u \<Rightarrow> Inr ((), u))"
proof (induction ts arbitrary: s)
  case Nil
  then show ?case by (simp add: ret_def)
next
  case (Cons t ts)
  have "collect_packets (contents h (t # ts)) s
      = andthen (collect_one (tree_key h t, tree_packet h t)) (\<lambda>_. collect_packets (contents h ts)) s"
    by (simp add: collect_one_def andthen_assoc Let_def)
  with Cons show ?case by (auto simp: andthen_def collect_step_def split: sum.splits)
qed

lemma collect_packet_run:
  assumes "represented h (xs @ t # ys) s"
  shows "case collect_step h t s of Inl x \<Rightarrow> collect_packet (fst t) h = Inl x
    | Inr s' \<Rightarrow> \<exists>k zs. collect_packet (fst t) h = Inr ((), k) \<and> represented k (zs @ ys) s' \<and> contents k ys = contents h ys
        \<and> length zs \<le> Suc (length xs)"
proof (cases "io_clock h")
  case Nil
  with assms show ?thesis
    by (simp add: represented_def statics_def store_statics_def collect_step_def collect_one_def collect_packet_def
        Platform_get_timestamp_ms_monotonic_def andthen_def)
next
  case (Cons now cs)
  let ?h = "h\<lparr>io_clock := cs\<rparr>" and ?s = "s\<lparr>io_clock := cs\<rparr>"
  have st: "io_clock s = now # cs" "m_fragment_max_duration_s s = max_duration_s h"
    using assms Cons by (simp_all add: represented_def statics_def store_statics_def)
  have same: "contents ?h us = contents h us" "tree_key ?h t = tree_key h t" "tree_packet ?h t = tree_packet h t" for us
    by (simp_all add: tree_key_def tree_packet_def piece_def [abs_def])
  have r: "represented ?h (xs @ t # ys) ?s"
    using assms by (simp add: represented_def statics_def store_statics_def same)
  have ts: "fp_timestamp_ms_epoch_last (tree_packet h t) = pk_timestamp_ms_epoch_last (packet_blocks h (fst t))"
    by (simp add: tree_packet_def Let_def)
  let ?old = "(ucast ((now - pk_timestamp_ms_epoch_last (packet_blocks h (fst t))) div 1000) :: u32) > max_duration_s h"
  show ?thesis
  proof (cases ?old)
    case False
    then have "collect_step h t s = Inr ?s" "collect_packet (fst t) h = Inr ((), ?h)"
      by (simp_all add: collect_step_def collect_one_def collect_packet_def Platform_get_timestamp_ms_monotonic_def
          prog_simps st Cons ts Let_def)
    moreover have "represented ?h ((xs @ [t]) @ ys) ?s" using r by simp
    ultimately show ?thesis using same by (auto intro!: exI [of _ "xs @ [t]"])
  next
    case True
    have "forest ?h (xs @ t # ys)" using r by (simp add: represented_def)
    from release_all_run [OF this] obtain k where k:
      "loop (LL_FOREACH_SAFE next_links (release_fragment (fst t)) (pk_head (packet_blocks ?h (fst t)))) ?h = Inr ((), k)"
      "releasing ?h xs t ys [] k" by blast
    obtain u where u: "release_packet (fst t) k = Inr ((), u)" "contents u (xs @ ys) = contents ?h (xs @ ys)"
      "represented u (xs @ ys) (?s\<lparr>m_packets := AList.delete (tree_key ?h t) (m_packets ?s)\<rparr>)"
      by (rule release_run [OF r k(2)])
    have "collect_step h t s = Inr (?s\<lparr>m_packets := AList.delete (tree_key ?h t) (m_packets ?s)\<rparr>)"
      "collect_packet (fst t) h = Inr ((), u)"
      using True k(1) u(1) by (simp_all add: collect_step_def collect_one_def collect_packet_def
          Platform_get_timestamp_ms_monotonic_def prog_simps st Cons ts same Let_def)
    moreover have "contents u ys = contents h ys" using u(2) by (simp add: same)
    ultimately show ?thesis using u(3) by (auto intro!: exI [of _ xs])
  qed
qed

lemma collect_run:
  assumes "represented h ts s"
  shows "case collect_packets (m_packets s) s of Inl x \<Rightarrow> HASH_ITER packets_hash collect_packet h = Inl x
    | Inr (u, s') \<Rightarrow> \<exists>k us. HASH_ITER packets_hash collect_packet h = Inr (map fst ts, k) \<and> represented k us s' \<and> length us \<le> length ts"
proof -
  let ?R = "\<lambda>us a k. \<exists>kept. represented k (kept @ us) a \<and> contents k us = contents h us \<and> length kept + length us \<le> length ts"
  have c: "m_packets s = contents h ts" and f: "forest h ts" using assms by (simp_all add: represented_def)
  have rep: "represents (packets_hash h) (map fst ts)"
    using f by (simp add: forest_def stands_for_def tree_entries_def comp_def)
  have "case each (collect_step h) ts s of
      Inl x \<Rightarrow> iterate packets_hash (Suc (length ts)) collect_packet (first (map fst ts) None) (first (tl (map fst ts)) None) h = Inl x
    | Inr b \<Rightarrow> \<exists>k. iterate packets_hash (Suc (length ts)) collect_packet (first (map fst ts) None) (first (tl (map fst ts)) None) h
        = Inr (map fst ts, k) \<and> ?R [] b k"
  proof (rule iterate_simulates [where R = ?R and address = fst])
    fix t us a k assume "?R (t # us) a k"
    then obtain kept where k: "represented k (kept @ t # us) a" "contents k (t # us) = contents h (t # us)"
      "length kept + length (t # us) \<le> length ts" by blast
    have "collect_step k t a = collect_step h t a" using k(2) by (simp add: collect_step_def)
    with collect_packet_run [OF k(1)] k(2,3)
    show "case collect_step h t a of Inl x \<Rightarrow> collect_packet (fst t) k = Inl x
      | Inr b \<Rightarrow> \<exists>k'. collect_packet (fst t) k = Inr ((), k') \<and> ?R us b k'"
      by (fastforce split: sum.splits)
  next
    fix t us a k assume "?R (t # us) a k"
    then obtain kept where "represented k (kept @ t # us) a" by blast
    then have "stands_for (packets_hash k) (tree_entries k kept
        @ (packet_key_bytes (fst (tree_key k t)) (snd (tree_key k t)), fst t) # tree_entries k us)"
      by (simp add: represented_def forest_def)
    from stands_for_next [OF this] show "app_next (handles (packets_hash k) (fst t)) = first (map fst us) None"
      by (simp add: tree_entries_def comp_def)
  qed (use assms in \<open>auto intro: exI [of _ "[]"]\<close>)
  then show ?thesis
    unfolding c collect_packets_each HASH_ITER_unfold [where h = packets_hash and s = h, OF rep] by (fastforce split: sum.splits)
qed

lemma represented_static [simp]:
  "represented h ts s \<Longrightarrow> represented (h\<lparr>io_clock := cs\<rparr>) ts (s\<lparr>io_clock := cs\<rparr>)"
  "represented h ts s \<Longrightarrow> represented (h\<lparr>last_gc_ts_ms := now\<rparr>) ts (s\<lparr>m_last_gc_ts_ms := now\<rparr>)"
  "represented h ts s \<Longrightarrow> represented (h\<lparr>max_duration_s := d\<rparr>) ts (s\<lparr>m_fragment_max_duration_s := d\<rparr>)"
  by (auto simp: represented_def statics_def store_statics_def)

lemma clock_run:
  assumes "represented h ts s"
  shows "Platform_get_timestamp_ms_monotonic h = Inl Blocked \<and> Platform_get_timestamp_ms_monotonic s = Inl Blocked
    \<or> (\<exists>now k u. Platform_get_timestamp_ms_monotonic h = Inr (now, k) \<and> Platform_get_timestamp_ms_monotonic s = Inr (now, u)
        \<and> represented k ts u)"
proof -
  have "io_clock s = io_clock h" using assms by (simp add: represented_def statics_def store_statics_def)
  with assms show ?thesis
    by (cases "io_clock h") (auto simp: Platform_get_timestamp_ms_monotonic_def intro: represented_static(1))
qed

lemma represented_gc:
  "represented h ts s \<Longrightarrow> m_fragment_max_duration_s s = max_duration_s h \<and> m_last_gc_ts_ms s = last_gc_ts_ms h
    \<and> m_is_queue_empty s = queue_empty h"
  by (simp add: represented_def statics_def store_statics_def)

lemma heap_garbage_collect_run:
  assumes "represented h ts s"
  shows "follows (heap_garbage_collect h) (reassembly_garbage_collect s) (length ts)"
proof (cases "max_duration_s h > 0")
  case False
  with assms represented_gc [OF assms] show ?thesis
    by (intro followsI [OF _ _ assms]) (simp_all add: heap_garbage_collect_def reassembly_garbage_collect_def prog_simps)
next
  case dur: True
  from clock_run [OF assms] consider "Platform_get_timestamp_ms_monotonic h = Inl Blocked" "Platform_get_timestamp_ms_monotonic s = Inl Blocked"
    | now k u where "Platform_get_timestamp_ms_monotonic h = Inr (now, k)" "Platform_get_timestamp_ms_monotonic s = Inr (now, u)" "represented k ts u"
    by blast
  then show ?thesis
  proof cases
    case 1
    with dur represented_gc [OF assms] show ?thesis
      by (simp add: follows_def heap_garbage_collect_def reassembly_garbage_collect_def prog_simps)
  next
    case (2 now k u)
    note gc = represented_gc [OF assms] represented_gc [OF 2(3)]
    show ?thesis
    proof (cases "now - last_gc_ts_ms k > MIN_GARBAGE_COLLECT_PERIOD_S * 1000")
      case False
      with 2 dur gc show ?thesis
        by (intro followsI [OF _ _ 2(3)]) (simp_all add: heap_garbage_collect_def reassembly_garbage_collect_def prog_simps)
    next
      case time: True
      from clock_run [OF 2(3)] consider "Platform_get_timestamp_ms_monotonic k = Inl Blocked" "Platform_get_timestamp_ms_monotonic u = Inl Blocked"
        | now' k' u' where "Platform_get_timestamp_ms_monotonic k = Inr (now', k')" "Platform_get_timestamp_ms_monotonic u = Inr (now', u')" "represented k' ts u'"
        by blast
      then show ?thesis
      proof cases
        case 1
        with 2 dur time gc show ?thesis
          by (simp add: follows_def heap_garbage_collect_def reassembly_garbage_collect_def prog_simps)
      next
        case 3: (2 now' k' u')
        let ?k = "k'\<lparr>last_gc_ts_ms := now'\<rparr>" and ?u = "u'\<lparr>m_last_gc_ts_ms := now'\<rparr>"
        have r: "represented ?k ts ?u" using 3(3) by simp
        have start: "heap_garbage_collect h = andthen (HASH_ITER packets_hash collect_packet) (\<lambda>_. update_queue_empty) ?k"
          "reassembly_garbage_collect s = andthen (collect_packets (m_packets ?u)) (\<lambda>_. modify (\<lambda>s. s\<lparr>m_is_queue_empty := (m_packets s = [])\<rparr>)) ?u"
          using 2 3 dur time gc by (simp_all add: heap_garbage_collect_def reassembly_garbage_collect_def prog_simps)
        show ?thesis
        proof (cases "collect_packets (m_packets ?u) ?u")
          case (Inl x)
          with collect_run [OF r] show ?thesis unfolding start follows_def by (simp add: andthen_def)
        next
          case (Inr v)
          with collect_run [OF r] obtain k2 us where k2: "HASH_ITER packets_hash collect_packet ?k = Inr (map fst ts, k2)"
            "represented k2 us (snd v)" "length us \<le> length ts" by (cases v) auto
          note q = queue_empty_run [OF k2(2)]
          show ?thesis unfolding start
            by (rule followsI [OF _ _ q(2) k2(3)]) (use Inr k2(1) q(1) in \<open>simp_all add: andthen_def modify_def split: prod.split\<close>)
        qed
      qed
    qed
  qed
qed

section \<open>Sequences of calls\<close>

primrec run_heap_call :: "store_call \<Rightarrow> ('z heap_scheme, store_result) prog" where
  "run_heap_call (Set_max_duration d) = andthen (heap_set_max_fragment_duration d) (\<lambda>_. ret Done)"
| "run_heap_call Is_queue_empty = andthen heap_is_queue_empty (\<lambda>b. ret (Emptiness b))"
| "run_heap_call (Add_fragment f) = andthen (heap_add_fragment f) (\<lambda>r. ret (Added r))"
| "run_heap_call (Get_message a b buffer n) = andthen (heap_get_full_message a b buffer n) (\<lambda>r. ret (Fetched r))"
| "run_heap_call Collect = andthen heap_garbage_collect (\<lambda>_. ret Done)"

lemma follows_result:
  assumes "follows (m h) (m' s) n"
  shows "follows (andthen m (\<lambda>r. ret (g r)) h) (andthen m' (\<lambda>r. ret (g r)) s) n"
  using assms by (fastforce simp: follows_def andthen_def ret_def split: sum.splits)

lemma call_run:
  assumes "represented h ts s" "length ts + 1 < 2 ^ 32"
  shows "(\<exists>f. c = Add_fragment f) \<and> run_heap_call c h = Inl Exited \<and> may_refuse (packets_hash h)
    \<or> follows (run_heap_call c h) (run_store_call c s) (Suc (length ts))"
proof (cases c)
  case (Set_max_duration d)
  with represented_static(3) [OF assms(1), of d] show ?thesis
    by (auto intro!: followsI simp: heap_set_max_fragment_duration_def reassembly_set_max_fragment_duration_def prog_simps)
next
  case Is_queue_empty
  with assms(1) represented_gc [OF assms(1)] show ?thesis
    by (auto intro!: followsI simp: heap_is_queue_empty_def reassembly_is_queue_empty_def prog_simps)
next
  case (Add_fragment f)
  from heap_add_fragment_run [OF assms, of f] show ?thesis
  proof
    assume "heap_add_fragment f h = Inl Exited \<and> may_refuse (packets_hash h)"
    with Add_fragment show ?thesis by (simp add: andthen_def)
  next
    assume "follows (heap_add_fragment f h) (reassembly_add_fragment f s) (Suc (length ts))"
    from follows_result [where m = "heap_add_fragment f" and h = h and m' = "reassembly_add_fragment f" and s = s and g = Added, OF this] Add_fragment show ?thesis by simp
  qed
next
  case (Get_message a b buffer n)
  with follows_weaken [OF heap_get_full_message_run [OF assms(1)]] show ?thesis by (auto intro!: follows_result)
next
  case Collect
  with follows_weaken [OF heap_garbage_collect_run [OF assms(1)]] show ?thesis
    by (auto intro!: follows_result [where g = "\<lambda>_. Done"])
qed

lemma heap_calls_run:
  assumes "represented h ts s" "length ts + length calls < 2 ^ 32"
  shows "(\<exists>made f later rs k. calls = made @ Add_fragment f # later \<and> run_each run_heap_call made h = Inr (rs, k)
        \<and> may_refuse (packets_hash k) \<and> run_each run_heap_call calls h = Inl Exited)
    \<or> (case run_each run_store_call calls s of Inl x \<Rightarrow> run_each run_heap_call calls h = Inl x
      | Inr (rs, t) \<Rightarrow> \<exists>k us. run_each run_heap_call calls h = Inr (rs, k) \<and> represented k us t)"
  using assms
proof (induction calls arbitrary: h ts s)
  case Nil
  then show ?case by (auto simp: ret_def)
next
  case (Cons c calls)
  from call_run [OF Cons.prems(1), of c] Cons.prems(2)
  consider f where "c = Add_fragment f" "run_heap_call c h = Inl Exited" "may_refuse (packets_hash h)"
    | "follows (run_heap_call c h) (run_store_call c s) (Suc (length ts))" by auto
  then show ?case
  proof cases
    case (1 f)
    then have "c # calls = [] @ Add_fragment f # calls" "run_each run_heap_call [] h = Inr ([], h)"
      "run_each run_heap_call (c # calls) h = Inl Exited" by (simp_all add: andthen_def ret_def)
    with 1(3) show ?thesis by blast
  next
    case 2
    show ?thesis
    proof (cases "run_store_call c s")
      case (Inl x)
      with 2 show ?thesis by (simp add: follows_def andthen_def)
    next
      case (Inr rs)
      then obtain r u k us where u: "run_store_call c s = Inr (r, u)" "run_heap_call c h = Inr (r, k)" "represented k us u"
        "length us \<le> Suc (length ts)" using 2 by (cases rs) (auto simp: follows_def)
      have "length us + length calls < 2 ^ 32" using u(4) Cons.prems(2) by simp
      from Cons.IH [OF u(3) this] show ?thesis
      proof (elim disjE exE conjE)
        fix made f later rs v assume "calls = made @ Add_fragment f # later" "run_each run_heap_call made k = Inr (rs, v)"
          "may_refuse (packets_hash v)" "run_each run_heap_call calls k = Inl Exited"
        then have "c # calls = (c # made) @ Add_fragment f # later" "run_each run_heap_call (c # made) h = Inr (r # rs, v)"
          "run_each run_heap_call (c # calls) h = Inl Exited"
          using u(2) by (simp_all add: andthen_def ret_def)
        with \<open>may_refuse (packets_hash v)\<close> show ?thesis by blast
      qed (use u(1,2) in \<open>auto simp: andthen_def ret_def split: sum.splits\<close>)
    qed
  qed
qed

text \<open>C31: The reassembly on pointers gives, for every sequence of calls, the results of the one on an association
  list: allocated blocks may lie anywhere and hold anything, freed blocks may be reused, and no
  access or release goes to a block that is not in use. The one other outcome is that the process
  exits while the hash asks for memory for a new packet.\<close>

theorem heap_refines_reassembly:
  assumes "represented h ts s" "length ts + length calls < 2 ^ 32"
  shows "(case run_each run_store_call calls s of Inl x \<Rightarrow> run_each run_heap_call calls h = Inl x
      | Inr (rs, t) \<Rightarrow> \<exists>k us. run_each run_heap_call calls h = Inr (rs, k) \<and> represented k us t)
    \<or> (\<exists>made f later rs k. calls = made @ Add_fragment f # later \<and> run_each run_heap_call made h = Inr (rs, k)
        \<and> may_refuse (packets_hash k) \<and> run_each run_heap_call calls h = Inl Exited)"
  using heap_calls_run [OF assms] by blast

lemma represented_memory:
  assumes "represented h ts s"
  shows "finite (live (packets_hash h))"
    "card (live (packets_hash h)) = (\<Sum>kp\<leftarrow>m_packets s. 1 + 2 * length (fp_head (snd kp))) + (if m_packets s = [] then 0 else 2)"
proof -
  let ?h = "packets_hash h"
  have f: "forest h ts" and c: "m_packets s = contents h ts" using assms by (simp_all add: represented_def)
  note hash = stands_for_allocator [OF forest_hash [OF f]]
  show fin: "finite (live ?h)" by (rule forest_finite [OF f])
  have "length (tree_blocks h t) = 1 + 2 * length (snd t)" for t
    by (simp add: tree_blocks_def length_concat comp_def sum_list_triv)
  then have "length (blocks h ts) = (\<Sum>t\<leftarrow>ts. 1 + 2 * length (snd t))" by (simp add: blocks_def length_concat comp_def)
  then have own: "card (own_blocks h) = (\<Sum>kp\<leftarrow>m_packets s. 1 + 2 * length (fp_head (snd kp)))"
    using f by (simp add: forest_def distinct_card c contents_def comp_def tree_packet_def Let_def)
  have "card (own_blocks h) = card (live ?h) - card (hash_blocks ?h)"
    unfolding callers_blocks_def using hash(2) finite_subset [OF hash(2) fin] by (simp add: card_Diff_subset)
  moreover have "card (hash_blocks ?h) \<le> card (live ?h)" using hash(2) fin by (simp add: card_mono)
  moreover have "card (hash_blocks ?h) = (if m_packets s = [] then 0 else 2)"
    using hash(4) by (simp add: c contents_def tree_entries_def)
  ultimately show "card (live ?h) = (\<Sum>kp\<leftarrow>m_packets s. 1 + 2 * length (fp_head (snd kp))) + (if m_packets s = [] then 0 else 2)"
    using own by simp
qed

text \<open>C32: No memory is lost: after every sequence of calls the blocks in use, of all that was allocated, are one
  for each packet under construction, two for each of its fragments, and, as long as there is any packet, the table
  of the hash and the array of its buckets, however often that array was expanded. So all memory has been
  freed once the last packet is fetched or collected.\<close>

theorem reassembly_frees_memory:
  assumes "represented h ts s" "length ts + length calls < 2 ^ 32"
    and "run_each run_store_call calls s = Inr (rs, t)" "run_each run_heap_call calls h = Inr (rs', k)"
  shows "rs' = rs \<and> finite (live (packets_hash k))
    \<and> card (live (packets_hash k)) = (\<Sum>kp\<leftarrow>m_packets t. 1 + 2 * length (fp_head (snd kp))) + (if m_packets t = [] then 0 else 2)"
proof -
  from heap_calls_run [OF assms(1,2)] assms(3,4) obtain us where "rs' = rs" "represented k us t" by auto
  with represented_memory show ?thesis by blast
qed

section \<open>Examples\<close>

text \<open>The start: nothing is allocated.\<close>

definition blank_store :: "u64 list \<Rightarrow> reassembly" where
  "blank_store clock = \<lparr>io_rx = [], io_wr = [], io_tx = [], io_clock = clock, io_epoch = [], io_waits = [],
     m_locked = False, req_frame_id = 0, m_last_successful_answer_ts = 0, m_timeout_no_answer_ms = 0,
     m_mtu = 102, m_disabled_poll_request = False, close_returns = True, m_app_conf_cb = None, m_scan_neighbor_cb = None,
     m_stack_status_cb = None, m_config_data_item_cb = None, mallocs = [], m_fragment_max_duration_s = 0,
     m_packets = [], m_is_queue_empty = True, m_last_gc_ts_ms = 0\<rparr>"

definition blank_heap :: "u64 list \<Rightarrow> heap" where
  "blank_heap clock = msap.extend (msap.truncate (blank_store clock)) \<lparr>garbage = \<lparr>any_packet = \<lparr>pk_src_add = 9, pk_packet_id = 9, pk_full_size = 9, pk_is_full = True, pk_head = Some 9,
         pk_timestamp_ms_epoch_last = 9\<rparr>,
       any_fragment = \<lparr>fb_bytes = 9, fb_size = 9, fb_offset = 9\<rparr>, any_next = Some 9, any_bytes = [9], any_handle = zero_handle\<rparr>,
     heap_mallocs = [],
     packet_blocks = (\<lambda>_. \<lparr>pk_src_add = 9, pk_packet_id = 9, pk_full_size = 9, pk_is_full = True, pk_head = Some 9,
       pk_timestamp_ms_epoch_last = 9\<rparr>),
     fragment_blocks = (\<lambda>_. \<lparr>fb_bytes = 9, fb_size = 9, fb_offset = 9\<rparr>), next_links = (\<lambda>_. Some 9), byte_blocks = (\<lambda>_. [9]),
     packets_hash = empty_hash 4096, max_duration_s = 0, queue_empty = True, last_gc_ts_ms = 0\<rparr>"

lemma blank_represented: "represented (blank_heap clock) [] (blank_store clock)"
  using empty_hash_stands [of 4096]
  by (simp add: represented_def forest_def blank_heap_def blank_store_def statics_def store_statics_def msap.defs
      callers_blocks_def hash_blocks_def empty_hash_def)

text \<open>A message in one fragment, which is added and fetched.\<close>

definition short_message :: "store_call list" where
  "short_message = [Add_fragment \<lparr>fr_src_add = 1, fr_packet_id = 2, fr_bytes = [7, 8, 9], fr_offset = 0, fr_last = True\<rparr>,
     Get_message 1 2 [0, 0, 0] 3]"

lemma short_message_run:
  "run_each run_store_call short_message (blank_store [5])
     = Inr ([Added (True, 3), Fetched (True, [7, 8, 9], 3)], blank_store [])"
  by (simp add: short_message_def reassembly_add_fragment_def reassembly_get_full_message_def get_packet_from_hash_def
      create_packet_in_hash_def put_packet_def add_fragment_to_full_packet_def is_packet_full_def reassemble_full_packet_def
      Platform_malloc_def Platform_get_timestamp_ms_monotonic_def rx_size_def blit_def blank_store_def Let_def prog_simps)

lemma short_message_exits_not:
  "short_message = made @ Add_fragment f # later \<Longrightarrow> run_each run_heap_call made (blank_heap [5]) = Inr (rs, k)
    \<Longrightarrow> \<not> may_refuse (packets_hash k)"
  by (cases made) (auto simp: short_message_def ret_def Cons_eq_append_conv blank_heap_def msap.defs may_refuse_def empty_hash_def zero_table_def)

theorem heap_refines_reassembly_witness:
  "\<exists>k us. run_each run_heap_call short_message (blank_heap [5]) = Inr ([Added (True, 3), Fetched (True, [7, 8, 9], 3)], k)
     \<and> represented k us (blank_store [])"
proof -
  have "length ([] :: tree list) + length short_message < 2 ^ 32" by (simp add: short_message_def)
  from heap_refines_reassembly [OF blank_represented this, of "[5]"] short_message_exits_not show ?thesis
    unfolding short_message_run by auto
qed

theorem reassembly_frees_memory_witness:
  "\<exists>k. run_each run_heap_call short_message (blank_heap [5]) = Inr ([Added (True, 3), Fetched (True, [7, 8, 9], 3)], k)
     \<and> live (packets_hash k) = {}"
proof -
  have n: "length ([] :: tree list) + length short_message < 2 ^ 32" by (simp add: short_message_def)
  from heap_calls_run [OF blank_represented n, of "[5]"] short_message_exits_not obtain k where
    k: "run_each run_heap_call short_message (blank_heap [5]) = Inr ([Added (True, 3), Fetched (True, [7, 8, 9], 3)], k)"
    unfolding short_message_run by auto
  from reassembly_frees_memory [OF blank_represented n short_message_run k] have "finite (live (packets_hash k))" "card (live (packets_hash k)) = 0"
    by (simp_all add: blank_store_def)
  with k show ?thesis by simp
qed

end
