(* ===== verification/Spec2Isabelle.thy ===== *)
theory Spec2Isabelle
  imports Wpc_Proto Platform Slip_Serial Logger Startup Payloads Dsap_Endpoints Reassembly_Heap
begin

text \<open>
  A verified model of the Wirepas C Mesh API (\<^verbatim>\<open>c-mesh-api\<close>): the library that a host uses to talk, over
  a serial line, to a node of a Wirepas mesh network (\<^verbatim>\<open>lib/wpc\<close>), its Linux platform
  (\<^verbatim>\<open>lib/platform/linux\<close>), and the gateway layer that exchanges encoded messages with a client
  (\<^verbatim>\<open>lib/wpc_proto\<close>).

  \<^bold>\<open>How the parts interact.\<close> A client of the gateway layer hands an encoded request to
  \<^verbatim>\<open>WPC_Proto_handle_request\<close> (\<^verbatim>\<open>wpc_proto.c\<close>), which decodes it, calls a handler of the configuration,
  scratchpad or data service (\<^verbatim>\<open>proto_config.c\<close>, \<^verbatim>\<open>proto_otap.c\<close>, \<^verbatim>\<open>proto_data.c\<close>) and encodes the response.
  The handlers call the public interface (\<^verbatim>\<open>wpc.c\<close>). Each of its functions builds a request of one of
  the three services (\<^verbatim>\<open>csap.c\<close>, \<^verbatim>\<open>msap.c\<close>, \<^verbatim>\<open>dsap.c\<close>; attributes go through \<^verbatim>\<open>attribute.c\<close>), which the
  engine (\<^verbatim>\<open>wpc_internal.c\<close>) numbers, sends through SLIP (\<^verbatim>\<open>slip.c\<close>) and the serial line (\<^verbatim>\<open>serial.c\<close>), and
  whose confirm it waits for. In the other direction a polling thread (\<^verbatim>\<open>platform.c\<close>) asks the node for
  indications and stores them in a ring buffer, from which a second thread takes them and calls the
  handlers of the services; the data service rebuilds long packets from fragments (\<^verbatim>\<open>reassembly.c\<close>) and
  calls the callbacks of the client.

  \<^bold>\<open>How a C function is modelled.\<close> A function that touches static variables is a state-passing program
  \<^typ>\<open>('s, 'a) prog\<close> (theory \<^verbatim>\<open>Mesh_Prelude\<close>): its result and the new state, or the way in which the run
  ends without one: undefined behaviour, use of an uninitialised object, \<^verbatim>\<open>exit\<close>, waiting for ever, a loop
  out of its budget. The static variables of a file are a record; the records extend one another in
  the order in which the files build on one another (\<^verbatim>\<open>io\<close>, \<^verbatim>\<open>wpc_int\<close>, \<^verbatim>\<open>msap\<close>, \<^verbatim>\<open>reassembly\<close>, \<^verbatim>\<open>dsap\<close>,
  \<^verbatim>\<open>wpc\<close>, \<^verbatim>\<open>gateway\<close>, \<^verbatim>\<open>gateway_config\<close>, \<^verbatim>\<open>otap\<close>, \<^verbatim>\<open>data_service\<close>), so that every function runs on any larger
  state. Fixed-width integers are words. What comes from outside is a script of the state: the bytes
  of the serial line, the results of writes, the readings of the two clocks, the allocations, the
  random numbers, the results of system calls. The functions that the code calls through pointers
  (the callbacks of the client), and those of components that a theory does not build on (opening the port, starting
  the threads), are arguments.

  \<^bold>\<open>Theories.\<close>
  \<^item> \<^verbatim>\<open>Mesh_Prelude\<close>: programs, memory with bounds, predicates maintained by programs (\<^verbatim>\<open>keeps\<close>, with one
    rule for each construct), lemmas on words and lists. \<^verbatim>\<open>Util\<close>: \<^verbatim>\<open>util.h\<close>, conversions of integers and
    times, with their exact ranges.
  \<^item> \<^verbatim>\<open>Slip\<close>: CRC, escaping, sending and receiving; equality of the table-driven CRC with the bitwise one,
    transport without change, the outcomes at the ends of the buffers.
  \<^item> \<^verbatim>\<open>Frame\<close>: the packed frames as bytes. \<^verbatim>\<open>Wpc_Internal\<close>: requests, confirms, polling, the watchdog;
    refinement of an abstract protocol of confirms, bounds on repetitions and waits.
  \<^item> \<^verbatim>\<open>Sap\<close> and \<^verbatim>\<open>Msap\<close>: requests, confirms and registration of callbacks; the locales
    \<^verbatim>\<open>request_service\<close> and \<^verbatim>\<open>callback_slot\<close> state what every request and every registration promises and are
    interpreted on each of them.
  \<^item> \<^verbatim>\<open>Reassembly\<close> and \<^verbatim>\<open>Dsap\<close>: fragments in any order give the message; sending of long packets, pending
    notifications, delivery from one host to another; what forged and oversized fragments do. Here the
    packets under construction are an association list and each packet a list of its fragments.
  \<^item> \<^verbatim>\<open>Uthash\<close> and \<^verbatim>\<open>Utlist\<close>: the macros of the two vendored headers that the library uses, on the
    pointers, buckets and tables of C; the hash refines a list of entries in order of insertion.
    \<^verbatim>\<open>Reassembly_Heap\<close>: \<^verbatim>\<open>reassembly.c\<close> once more with allocated blocks, pointers and the macros; it gives
    the results of \<^verbatim>\<open>Reassembly\<close>, uses no block that is not allocated, and loses none, be it of a packet or of
    the hash.
  \<^item> \<^verbatim>\<open>Wpc_Attributes\<close> and \<^verbatim>\<open>Wpc_Api\<close>: every function of \<^verbatim>\<open>wpc.c\<close>; a complete scratchpad upload, and the
    upload that never ends.
    \<^verbatim>\<open>Payloads\<close>: the packed structures of the headers as types; the functions that build and read frames
    at byte offsets write and use the typed values of these structures.
    \<^verbatim>\<open>Dsap_Endpoints\<close>: the build of the data service with one callback for each endpoint
    (\<^verbatim>\<open>REGISTER_DATA_PER_ENDPOINT\<close>), which acts like the default build for the endpoint of the frame.
  \<^item> \<^verbatim>\<open>Platform_Queue\<close>: the ring buffer, which refines a bounded list (locale \<^verbatim>\<open>bounded_queue\<close>).
    \<^verbatim>\<open>Platform\<close>: the polling, dispatching and closing threads as step relations with every access of a
    shared variable as a step of its own, closes from another thread, from a callback and by the watchdog
    on the polling thread included; order of the indications, draining at a close, and the
    interleavings that lose an indication, never return or destroy a locked mutex.
    \<^verbatim>\<open>Startup\<close>: the start of the library with every system call that can fail; it starts whole or not at
    all, but for the failure that ends the process.
  \<^item> \<^verbatim>\<open>Serial\<close>: the serial line, its settings and its local buffer; no byte is lost or repeated, exact
    timeouts. \<^verbatim>\<open>Slip_Serial\<close>: SLIP on the serial line; messages cross it through any chunks, and the
    receive loop that never returns. \<^verbatim>\<open>Logger\<close>: the levels of the files with their cached pointers.
  \<^item> \<^verbatim>\<open>Proto_Common\<close>, \<^verbatim>\<open>Proto_Config\<close>, \<^verbatim>\<open>Proto_Otap\<close>, \<^verbatim>\<open>Proto_Data\<close>, \<^verbatim>\<open>Wpc_Proto\<close>: the files of the gateway layer;
    \<^verbatim>\<open>Proto_Frame\<close> (locales \<^verbatim>\<open>gateway_frame\<close> and \<^verbatim>\<open>data_frame\<close>) says what their requests leave alone. The
    chunked upload of a scratchpad spans several requests: it refines a state machine, arrives whole,
    and the stack is not left stopped when it is over; every packet received in fragments is handed
    to the client as one event; responses that are encoded before they are filled in.

  \<^bold>\<open>Bounds and budgets.\<close> The loops over the node's answers end by the scripts, which get shorter with
  every reading. The loop that waits for a confirm ends after the attempts that the code counts. Only
  the upload and download loops take a budget of rounds, since a maximal block size of zero makes
  them run for ever; one round for each block, and one more to leave the loop, is enough
  (\<^verbatim>\<open>upload_complete\<close>). The loop of the serial line runs once more than its 16-bit counter says. The
  receive loop of SLIP takes a budget too: on the serial line one round for each byte is enough
  (\<^verbatim>\<open>message_over_serial\<close>), and on a closed port none is (\<^verbatim>\<open>receive_spins_after_failed_write\<close>). The walks
  through the chains of a hash run for at most as many steps as the table counts elements, which its
  invariant makes enough. The walks through linked lists are partial functions: a cyclic list has no
  result. \<^verbatim>\<open>hash_refines_entries\<close> and \<^verbatim>\<open>heap_refines_reassembly\<close> hold for tables of fewer than \<^verbatim>\<open>2 ^ 32\<close>
  elements, the range of their counters, and memories below \<^verbatim>\<open>2 ^ 36\<close> bytes.

  \<^bold>\<open>Parameters.\<close> Messages of the gateway layer are decoded and encoded by a library that is not in the
  repository: its functions are arguments (\<^verbatim>\<open>codec\<close>, \<^verbatim>\<open>event_env\<close>), about which no theorem assumes more
  than the single result it is about. The only other hypotheses on foreign code are that the client's
  callbacks do not reach the static variables of the scratchpad service (\<^verbatim>\<open>client_apart\<close>) and, for the
  build with one callback for each endpoint, the variable that this build does not have. The allocator
  of \<^verbatim>\<open>Uthash\<close> and \<^verbatim>\<open>Reassembly_Heap\<close> may return any address that is not in use, and
  its blocks may hold anything; the table of the hash and the array of its buckets are blocks like those of
  the packets. An allocation by the hash that fails ends the process, as \<^verbatim>\<open>uthash_fatal\<close>
  does; which ones fail is a script apart from that of the packets' own allocations. Whether the close of the
  platform that the watchdog makes returns is an input of the engine (\<^verbatim>\<open>close_returns\<close>), since it depends on the
  threads, which \<^verbatim>\<open>Platform\<close> models step by step.

  \<^bold>\<open>Not modelled.\<close> The lengths of the waits of the threads and the text of the log messages; the macros
  of \<^verbatim>\<open>uthash.h\<close> and \<^verbatim>\<open>utlist.h\<close> that the library does not use (sorting, Bloom filters,
  other hash functions, doubly linked and circular lists); memory management outside the reassembly;
  the generated tables of the message library; examples and tests. Multi-byte fields are stored in the
  order of a little-endian host, for which the code is built.
\<close>

end
